(* ===== verification/KNP_Prelude.thy ===== *)
theory KNP_Prelude
  imports Complex_Main "HOL-Library.AList" "HOL-Library.Multiset" "HOL-Library.Sublist"
begin

section \<open>Prelude: the parts of Go the components share\<close>

text \<open>
  What every component of the development uses and none of them owns:
  \<^item> \<open>outcome\<close>, a Go call that returns a value or panics;
  \<^item> \<open>go_error\<close>, the error values the sources create and compare;
  \<^item> \<open>gomap\<close>, a Go map as an association list. The order of the list is the order in which
    a \<^verbatim>\<open>range\<close> loop visits the entries: Go leaves it open, and the theorems hold for every list;
  \<^item> the \<^verbatim>\<open>strings\<close> functions the sources call, on byte strings;
  \<^item> 64-bit integer arithmetic with its wrap-around, and saturating time differences;
  \<^item> \<open>reach\<close>, the states a step relation reaches, with the locale \<open>invariant_system\<close> that
    turns a one-step preservation argument into a statement on reachable states;
  \<^item> the locale \<open>claim_table\<close>, the contract of a table whose entries are handed out once.
\<close>

subsection \<open>Collections of facts\<close>

named_theorems gomap_simps \<open>lookup, key and length equations of Go maps\<close>
named_theorems string_simps \<open>equations of the strings functions\<close>
named_theorems knp_defs \<open>definitions that the component proofs unfold together\<close>

subsection \<open>Returning, panicking, failing\<close>

datatype 'a outcome = Ret 'a | Panic string

fun bind_outcome :: "'a outcome \<Rightarrow> ('a \<Rightarrow> 'b outcome) \<Rightarrow> 'b outcome" where
  "bind_outcome (Ret x) f = f x"
| "bind_outcome (Panic m) f = Panic m"

lemma bind_outcome_Ret_iff:
  "bind_outcome r f = Ret y \<longleftrightarrow> (\<exists>x. r = Ret x \<and> f x = Ret y)"
  by (cases r) auto

lemma bind_outcome_Panic_iff:
  "bind_outcome r f = Panic m \<longleftrightarrow> r = Panic m \<or> (\<exists>x. r = Ret x \<and> f x = Panic m)"
  by (cases r) auto

lemma bind_outcome_cong [fundef_cong]:
  "r = r' \<Longrightarrow> (\<And>x. r' = Ret x \<Longrightarrow> f x = g x) \<Longrightarrow> bind_outcome r f = bind_outcome r' g"
  by (cases r') auto

definition returns :: "'a outcome \<Rightarrow> bool" where
  "returns r \<longleftrightarrow> (case r of Ret _ \<Rightarrow> True | Panic _ \<Rightarrow> False)"

lemma returns_simps [simp]: "returns (Ret x)" "\<not> returns (Panic m)"
  by (simp_all add: returns_def)

lemma returns_iff: "returns r \<longleftrightarrow> (\<exists>x. r = Ret x)"
  by (cases r) auto

text \<open>
  The panic every nil-pointer access of the sources raises; a message field read through a
  getter that returned nil is such an access.
\<close>

definition nil_deref :: string where
  "nil_deref = ''invalid memory address or nil pointer dereference''"

definition index_out_of_range :: string where
  "index_out_of_range = ''index out of range''"

text \<open>
  Error values. The sources compare errors by identity or by type (\<^verbatim>\<open>io.EOF\<close>,
  \<^verbatim>\<open>*ErrNotFound\<close>, \<^verbatim>\<open>errBackendDialTimeout\<close>); each such value is a constructor, and an
  error known only by its text is \<open>ErrText\<close>.
\<close>

datatype go_error =
    ErrEOF
  | ErrNotFound
  | ErrBackendDialTimeout
  | ErrBackendClosedWhileDialing
  | ErrCanceled
  | ErrDeadlineExceeded
  | ErrNetClosed
  | ErrOsDeadlineExceeded
  | ErrDialClosed
  | ErrText string
  | ErrWrap go_error go_error

text \<open>\<^verbatim>\<open>err.Error()\<close> of each of them.\<close>

fun error_string :: "go_error \<Rightarrow> string" where
  "error_string ErrEOF = ''EOF''"
| "error_string ErrNotFound = ''No agent available''"
| "error_string ErrBackendDialTimeout = ''timed out waiting for backend dial''"
| "error_string ErrBackendClosedWhileDialing = ''backend connection closed while dialing''"
| "error_string ErrCanceled = ''context canceled''"
| "error_string ErrDeadlineExceeded = ''context deadline exceeded''"
| "error_string ErrNetClosed = ''use of closed network connection''"
| "error_string ErrOsDeadlineExceeded = ''i/o timeout''"
| "error_string ErrDialClosed = ''dial closed''"
| "error_string (ErrText m) = m"
| "error_string (ErrWrap a b) = error_string a @ '': '' @ error_string b"

text \<open>\<^verbatim>\<open>errors.Is\<close> on these values.\<close>

fun errors_is :: "go_error \<Rightarrow> go_error \<Rightarrow> bool" where
  "errors_is (ErrWrap a b) t = (ErrWrap a b = t \<or> errors_is a t \<or> errors_is b t)"
| "errors_is e t = (e = t)"

lemma errors_is_refl [simp]: "errors_is e e"
  by (cases e) auto

subsection \<open>Go maps\<close>

type_synonym ('k, 'v) gomap = "('k \<times> 'v) list"

definition gm_get :: "('k, 'v) gomap \<Rightarrow> 'k \<Rightarrow> 'v option" where
  "gm_get m k = map_of m k"

definition gm_put :: "'k \<Rightarrow> 'v \<Rightarrow> ('k, 'v) gomap \<Rightarrow> ('k, 'v) gomap" where
  "gm_put k v m = AList.update k v m"

definition gm_delete :: "'k \<Rightarrow> ('k, 'v) gomap \<Rightarrow> ('k, 'v) gomap" where
  "gm_delete k m = filter (\<lambda>e. fst e \<noteq> k) m"

definition gm_keys :: "('k, 'v) gomap \<Rightarrow> 'k list" where
  "gm_keys m = map fst m"

definition gm_values :: "('k, 'v) gomap \<Rightarrow> 'v list" where
  "gm_values m = map snd m"

definition gm_wf :: "('k, 'v) gomap \<Rightarrow> bool" where
  "gm_wf m \<longleftrightarrow> distinct (map fst m)"

lemma gm_get_Nil [simp, gomap_simps]: "gm_get [] k = None"
  by (simp add: gm_get_def)

lemma gm_get_put [simp, gomap_simps]:
  "gm_get (gm_put k v m) k' = (if k' = k then Some v else gm_get m k')"
  by (simp add: gm_get_def gm_put_def update_conv)

lemma gm_get_delete [simp, gomap_simps]:
  "gm_get (gm_delete k m) k' = (if k' = k then None else gm_get m k')"
  by (induction m) (auto simp: gm_get_def gm_delete_def)

lemma gm_wf_Nil [simp, intro]: "gm_wf []"
  by (simp add: gm_wf_def)

lemma gm_wf_put [simp, intro]: "gm_wf m \<Longrightarrow> gm_wf (gm_put k v m)"
  by (simp add: gm_wf_def gm_put_def distinct_update)

lemma gm_wf_filter [intro]: "gm_wf m \<Longrightarrow> gm_wf (filter P m)"
  by (auto simp: gm_wf_def distinct_map inj_on_def)

lemma gm_wf_delete [simp, intro]: "gm_wf m \<Longrightarrow> gm_wf (gm_delete k m)"
  by (simp add: gm_delete_def gm_wf_filter)

lemma gm_get_None_iff: "gm_get m k = None \<longleftrightarrow> k \<notin> set (gm_keys m)"
  by (simp add: gm_get_def gm_keys_def map_of_eq_None_iff)

lemma gm_get_Some_key: "gm_get m k = Some v \<Longrightarrow> k \<in> set (gm_keys m)"
  using gm_get_None_iff [of m k] by auto

lemma gm_get_in_set: "gm_get m k = Some v \<Longrightarrow> (k, v) \<in> set m"
  by (simp add: gm_get_def map_of_SomeD)

lemma gm_get_wf_iff: "gm_wf m \<Longrightarrow> gm_get m k = Some v \<longleftrightarrow> (k, v) \<in> set m"
  by (simp add: gm_wf_def gm_get_def)

lemma set_gm_keys_put [simp]: "set (gm_keys (gm_put k v m)) = insert k (set (gm_keys m))"
  by (simp add: gm_keys_def gm_put_def dom_update)

lemma set_gm_keys_delete [simp]: "set (gm_keys (gm_delete k m)) = set (gm_keys m) - {k}"
  by (auto simp: gm_keys_def gm_delete_def)

lemma gm_delete_absent: "k \<notin> set (gm_keys m) \<Longrightarrow> gm_delete k m = m"
  by (auto simp: gm_delete_def gm_keys_def filter_id_conv)

lemma gm_delete_filter: "gm_delete k (filter P m) = filter P (gm_delete k m)"
  by (simp add: gm_delete_def conj_commute)

lemma gm_get_filter:
  "gm_wf m \<Longrightarrow> gm_get (filter P m) k = (case gm_get m k of None \<Rightarrow> None
     | Some v \<Rightarrow> if P (k, v) then Some v else None)"
  by (induction m) (auto simp: gm_get_def gm_wf_def map_of_eq_None_iff split: option.splits)

text \<open>Entries of a map as a multiset: what a lookup, a store and a delete do to it.\<close>

lemma gm_put_new: "gm_get m k = None \<Longrightarrow> gm_put k v m = m @ [(k, v)]"
  by (induction m) (auto simp: gm_get_def gm_put_def split: if_splits)

lemma gm_put_old:
  "gm_wf m \<Longrightarrow> gm_get m k = Some w \<Longrightarrow>
     add_mset (k, w) (mset (gm_put k v m)) = add_mset (k, v) (mset m)"
  by (induction m) (auto simp: gm_get_def gm_put_def gm_wf_def split: if_splits)

lemma gm_delete_mset:
  "gm_wf m \<Longrightarrow> gm_get m k = Some v \<Longrightarrow> mset m = add_mset (k, v) (mset (gm_delete k m))"
proof (induction m)
  case Nil
  then show ?case by simp
next
  case (Cons e m)
  show ?case
  proof (cases "fst e = k")
    case True
    with Cons.prems have "k \<notin> set (gm_keys m)" and "snd e = v"
      by (auto simp: gm_wf_def gm_keys_def gm_get_def)
    with True show ?thesis
      using gm_delete_absent [of k m] by (cases e) (simp add: gm_delete_def)
  next
    case False
    with Cons show ?thesis
      by (cases e) (auto simp: gm_wf_def gm_get_def gm_delete_def)
  qed
qed

lemma gm_put_existing_keys: "gm_get m k \<noteq> None \<Longrightarrow> gm_keys (gm_put k v m) = gm_keys m"
  by (auto simp: gm_get_None_iff gm_keys_def gm_put_def update_keys)

lemma length_gm_put_existing: "gm_get m k \<noteq> None \<Longrightarrow> length (gm_put k v m) = length m"
  by (metis gm_keys_def gm_put_existing_keys length_map)

text \<open>
  \<open>sweep P es m\<close> is the loop that ranges over the entries \<open>es\<close>, deletes from \<open>m\<close> those whose
  value satisfies \<open>P\<close> and collects their values.
\<close>

fun sweep :: "('v \<Rightarrow> bool) \<Rightarrow> ('k, 'v) gomap \<Rightarrow> ('k, 'v) gomap \<Rightarrow> ('k, 'v) gomap \<times> 'v list" where
  "sweep P [] m = (m, [])"
| "sweep P ((k, v) # es) m =
     (if P v then (let (m', ret) = sweep P es (gm_delete k m) in (m', v # ret)) else sweep P es m)"

lemma sweep_gen:
  "sweep P es m =
     (filter (\<lambda>e. \<not> (\<exists>v. (fst e, v) \<in> set es \<and> P v)) m, map snd (filter (\<lambda>e. P (snd e)) es))"
  by (induction P es m rule: sweep.induct)
    (auto simp: gm_delete_def case_prod_unfold Let_def intro!: filter_cong)

lemma sweep_all:
  assumes "gm_wf m"
  shows "sweep P m m = (filter (\<lambda>e. \<not> P (snd e)) m, map snd (filter (\<lambda>e. P (snd e)) m))"
proof -
  have "(\<exists>v. (fst e, v) \<in> set m \<and> P v) \<longleftrightarrow> P (snd e)" if "e \<in> set m" for e
  proof -
    have "gm_get m (fst e) = Some (snd e)" using that assms by (simp add: gm_get_wf_iff)
    then show ?thesis by (metis assms gm_get_wf_iff option.inject)
  qed
  then show ?thesis by (simp add: sweep_gen cong: filter_cong)
qed

lemma sweep_spec:
  assumes "gm_wf m"
  shows "set (snd (sweep P m m)) = {c. \<exists>k. gm_get m k = Some c \<and> P c} \<and>
     (\<forall>k. gm_get (fst (sweep P m m)) k =
        (case gm_get m k of Some c \<Rightarrow> if P c then None else Some c | None \<Rightarrow> None))"
proof
  show "set (snd (sweep P m m)) = {c. \<exists>k. gm_get m k = Some c \<and> P c}"
    using gm_get_wf_iff [OF assms] by (auto simp: sweep_all [OF assms] image_iff)
qed (simp add: sweep_all [OF assms] gm_get_filter [OF assms] split: option.split)

lemma count_list_distinct: "distinct xs \<Longrightarrow> count_list xs x = (if x \<in> set xs then 1 else 0)"
  by (induction xs) auto

subsection \<open>Byte strings\<close>

text \<open>
  A Go string is a sequence of bytes, here a \<^typ>\<open>string\<close>. \<open>split_on\<close> is
  \<^verbatim>\<open>strings.Split\<close> with a one-byte separator: it always returns at least one part.
\<close>

fun split_on :: "char \<Rightarrow> string \<Rightarrow> string list" where
  "split_on c [] = [[]]"
| "split_on c (x # xs) =
     (if x = c then [] # split_on c xs
      else (case split_on c xs of [] \<Rightarrow> [[x]] | p # ps \<Rightarrow> (x # p) # ps))"

fun join_with :: "char \<Rightarrow> string list \<Rightarrow> string" where
  "join_with c [] = []"
| "join_with c [p] = p"
| "join_with c (p # q # ps) = p @ c # join_with c (q # ps)"

lemma split_on_nonempty [simp]: "split_on c s \<noteq> []"
  by (cases s) (auto split: list.splits)

lemma join_split_on [string_simps]: "join_with c (split_on c s) = s"
proof (induction s)
  case Nil
  then show ?case by simp
next
  case (Cons x xs)
  then show ?case
    by (cases "split_on c xs"; cases "tl (split_on c xs)") (auto split: list.splits)
qed

lemma length_split_on: "length (split_on c s) = Suc (count_list s c)"
  by (induction s) (auto split: list.splits)

lemma split_on_no_sep: "p \<in> set (split_on c s) \<Longrightarrow> c \<notin> set p"
  by (induction s arbitrary: p) (auto split: list.splits if_splits)

lemma split_on_absent: "c \<notin> set s \<Longrightarrow> split_on c s = [s]"
  by (induction s) auto

lemma split_on_append_sep: "c \<notin> set p \<Longrightarrow> split_on c (p @ c # s) = p # split_on c s"
  by (induction p) auto

lemma split_on_join:
  "ps \<noteq> [] \<Longrightarrow> \<forall>p \<in> set ps. c \<notin> set p \<Longrightarrow> split_on c (join_with c ps) = ps"
  by (induction c ps rule: join_with.induct) (auto simp: split_on_absent split_on_append_sep)

definition has_prefix :: "string \<Rightarrow> string \<Rightarrow> bool" where
  "has_prefix s p \<longleftrightarrow> take (length p) s = p"

definition trim_prefix :: "string \<Rightarrow> string \<Rightarrow> string" where
  "trim_prefix s p = (if has_prefix s p then drop (length p) s else s)"

lemma has_prefix_append [simp, string_simps]: "has_prefix (p @ s) p"
  by (simp add: has_prefix_def)

lemma trim_prefix_append [simp, string_simps]: "trim_prefix (p @ s) p = s"
  by (simp add: trim_prefix_def)

lemma has_prefix_iff: "has_prefix s p \<longleftrightarrow> (\<exists>t. s = p @ t)"
  by (metis append_take_drop_id has_prefix_append has_prefix_def)

fun contains_str :: "string \<Rightarrow> string \<Rightarrow> bool" where
  "contains_str [] p = (p = [])"
| "contains_str (x # xs) p = (has_prefix (x # xs) p \<or> contains_str xs p)"

lemma contains_str_iff: "contains_str s p \<longleftrightarrow> sublist p s"
proof (induction s)
  case Nil
  then show ?case by simp
next
  case (Cons x xs)
  have "has_prefix (x # xs) p \<longleftrightarrow> prefix p (x # xs)"
    by (auto simp: has_prefix_iff prefix_def)
  with Cons show ?case by (auto simp: sublist_Cons_right)
qed

text \<open>\<^verbatim>\<open>strings.LastIndexByte\<close>: the last position of a byte, \<open>None\<close> for -1.\<close>

fun last_index_byte :: "string \<Rightarrow> char \<Rightarrow> nat option" where
  "last_index_byte [] c = None"
| "last_index_byte (x # xs) c =
     (case last_index_byte xs c of
        Some i \<Rightarrow> Some (Suc i)
      | None \<Rightarrow> if x = c then Some 0 else None)"

lemma last_index_byte_None: "last_index_byte s c = None \<longleftrightarrow> c \<notin> set s"
  by (induction s) (auto split: option.splits if_splits)

lemma last_index_byte_append: "c \<notin> set t \<Longrightarrow> last_index_byte (s @ c # t) c = Some (length s)"
  by (induction s) (auto simp: last_index_byte_None split: option.splits)

text \<open>\<^verbatim>\<open>strings.Trim\<close> with a cutset of ASCII bytes.\<close>

definition trim_cutset :: "string \<Rightarrow> string \<Rightarrow> string" where
  "trim_cutset s cs =
     rev (dropWhile (\<lambda>x. x \<in> set cs) (rev (dropWhile (\<lambda>x. x \<in> set cs) s)))"

lemma dropWhile_all_not: "\<forall>x \<in> set s. \<not> P x \<Longrightarrow> dropWhile P s = s"
  by (cases s) auto

lemma trim_cutset_id: "\<forall>x \<in> set s. x \<notin> set cs \<Longrightarrow> trim_cutset s cs = s"
  by (simp add: trim_cutset_def dropWhile_all_not)

text \<open>\<^verbatim>\<open>strings.ToLower\<close> on ASCII bytes; other bytes are left alone.\<close>

definition lower_byte :: "char \<Rightarrow> char" where
  "lower_byte c = (let n = of_char c :: nat in if 65 \<le> n \<and> n \<le> 90 then char_of (n + 32) else c)"

definition to_lower :: "string \<Rightarrow> string" where
  "to_lower s = map lower_byte s"

subsection \<open>64-bit integers, time\<close>

definition wrap64 :: "int \<Rightarrow> int" where
  "wrap64 x = (x + 2 ^ 63) mod 2 ^ 64 - 2 ^ 63"

definition sat64 :: "int \<Rightarrow> int" where
  "sat64 x = max (- (2 ^ 63)) (min (2 ^ 63 - 1) x)"

definition trunc_div :: "int \<Rightarrow> int \<Rightarrow> int" where
  "trunc_div a b = sgn a * sgn b * (\<bar>a\<bar> div \<bar>b\<bar>)"

definition in_int64 :: "int \<Rightarrow> bool" where
  "in_int64 x \<longleftrightarrow> - (2 ^ 63) \<le> x \<and> x < 2 ^ 63"

lemma wrap64_id [simp]: "in_int64 x \<Longrightarrow> wrap64 x = x"
  by (simp add: in_int64_def wrap64_def)

lemma wrap64_range: "in_int64 (wrap64 x)"
proof -
  have "0 \<le> (x + 2 ^ 63) mod 2 ^ 64" and "(x + 2 ^ 63) mod 2 ^ 64 < (2 ^ 64 :: int)"
    by (rule pos_mod_sign, simp, rule pos_mod_bound, simp)
  then show ?thesis by (simp add: in_int64_def wrap64_def)
qed

lemma wrap64_add: "wrap64 (wrap64 x + y) = wrap64 (x + y)"
proof -
  have "((x + 2 ^ 63) mod 2 ^ 64 - 2 ^ 63 + y + 2 ^ 63) mod 2 ^ 64 = (x + y + 2 ^ 63) mod (2 ^ 64 :: int)"
    by (simp add: algebra_simps mod_simps)
  then show ?thesis by (simp add: wrap64_def)
qed

lemma wrap64_diff: "wrap64 (wrap64 x - y) = wrap64 (x - y)"
  using wrap64_add [of x "- y"] by simp

lemma wrap64_add_right: "wrap64 (y + wrap64 x) = wrap64 (y + x)"
  using wrap64_add [of x y] by (simp add: add.commute)

lemmas wrap64_arith = wrap64_add wrap64_diff wrap64_add_right

lemma trunc_div_nonneg: "0 \<le> a \<Longrightarrow> 0 < b \<Longrightarrow> trunc_div a b = a div b"
  by (cases "a = 0") (simp_all add: trunc_div_def)

text \<open>
  A \<^verbatim>\<open>time.Time\<close> is a number of nanoseconds; the zero time is \<open>None\<close> where a source tests
  \<^verbatim>\<open>IsZero\<close>. \<^verbatim>\<open>t.Sub(u)\<close> saturates at the ends of \<^verbatim>\<open>time.Duration\<close>.
\<close>

type_synonym time = int
type_synonym duration = int

definition time_sub :: "time \<Rightarrow> time \<Rightarrow> duration" where
  "time_sub t u = sat64 (t - u)"

definition Millisecond :: duration where "Millisecond = 1000000"
definition Second :: duration where "Second = 1000000000"

subsection \<open>Reachable states and invariants\<close>

inductive reach :: "('s \<Rightarrow> bool) \<Rightarrow> ('s \<Rightarrow> 's \<Rightarrow> bool) \<Rightarrow> 's \<Rightarrow> bool"
  for init :: "'s \<Rightarrow> bool" and step :: "'s \<Rightarrow> 's \<Rightarrow> bool"
where
  reach_init: "init s \<Longrightarrow> reach init step s"
| reach_step: "reach init step s \<Longrightarrow> step s t \<Longrightarrow> reach init step t"

locale invariant_system =
  fixes init :: "'s \<Rightarrow> bool"
    and step :: "'s \<Rightarrow> 's \<Rightarrow> bool"
    and inv :: "'s \<Rightarrow> bool"
  assumes inv_at_init: "init s \<Longrightarrow> inv s"
    and inv_at_step: "inv s \<Longrightarrow> step s t \<Longrightarrow> inv t"
begin

lemma reach_inv: "reach init step s \<Longrightarrow> inv s"
  by (induction rule: reach.induct) (blast intro: inv_at_init inv_at_step)+

end

subsection \<open>Tables whose entries are claimed once\<close>

text \<open>
  The proxy hands a dial, a connection or a client over to the first of several goroutines
  that removes it from a table. \<open>claim_table\<close> states what such a removal promises.
\<close>

fun claim_list :: "('k \<Rightarrow> 't \<Rightarrow> 'v option \<times> 't) \<Rightarrow> 'k list \<Rightarrow> 't \<Rightarrow> 'v option list \<times> 't" where
  "claim_list claim [] t = ([], t)"
| "claim_list claim (k # ks) t =
     (let (r, t') = claim k t; (rs, t'') = claim_list claim ks t' in (r # rs, t''))"

definition wins :: "'k \<Rightarrow> 'k list \<Rightarrow> 'v option list \<Rightarrow> nat" where
  "wins k ks rs = length (filter (\<lambda>(k', r). k' = k \<and> r \<noteq> None) (zip ks rs))"

locale claim_table =
  fixes lookup :: "'t \<Rightarrow> 'k \<Rightarrow> 'v option"
    and claim :: "'k \<Rightarrow> 't \<Rightarrow> 'v option \<times> 't"
    and inv :: "'t \<Rightarrow> bool"
  assumes claim_result: "inv t \<Longrightarrow> fst (claim k t) = lookup t k"
    and claim_lookup: "inv t \<Longrightarrow> lookup (snd (claim k t)) k' = (if k' = k then None else lookup t k')"
    and claim_inv: "inv t \<Longrightarrow> inv (snd (claim k t))"
begin

lemma claim_again: "inv t \<Longrightarrow> fst (claim k (snd (claim k t))) = None"
  by (simp add: claim_result claim_lookup claim_inv)

lemma claim_other: "inv t \<Longrightarrow> k' \<noteq> k \<Longrightarrow> fst (claim k' (snd (claim k t))) = lookup t k'"
  by (simp add: claim_result claim_lookup claim_inv)

lemma claimed_once:
  "inv t \<Longrightarrow> wins k ks (fst (claim_list claim ks t)) =
     (if lookup t k \<noteq> None \<and> k \<in> set ks then 1 else 0)"
proof (induction ks arbitrary: t)
  case Nil
  then show ?case by (simp add: wins_def)
next
  case (Cons a ks)
  have IH: "wins k ks (fst (claim_list claim ks (snd (claim a t)))) =
     (if lookup (snd (claim a t)) k \<noteq> None \<and> k \<in> set ks then 1 else 0)"
    using Cons by (simp add: claim_inv)
  have "fst (claim_list claim (a # ks) t) =
     fst (claim a t) # fst (claim_list claim ks (snd (claim a t)))"
    by (simp add: case_prod_unfold Let_def)
  then show ?case
    using IH Cons.prems by (auto simp: wins_def claim_result claim_lookup)
qed

end

end
