(* ===== verification/KNP_Packet.thy ===== *)
theory KNP_Packet
  imports KNP_Prelude
begin

section \<open>The packets of the tunnel protocol\<close>

text \<open>
  The messages of \<^verbatim>\<open>konnectivity-client/proto/client\<close>: a packet carries a type and a payload
  that the wire does not force to agree. A getter for another payload returns nil, and the
  handlers read fields through the getters without a test, so a packet whose payload does
  not fit its type is a nil dereference where they read it. \<open>payload_fits\<close> is the
  agreement the senders of this repository keep; the packet constructors below satisfy it.
\<close>

datatype packet_type =
    DIAL_REQ | DIAL_RSP | CLOSE_REQ | CLOSE_RSP | DATA | DIAL_CLS | DRAIN
  | UnknownType int

record dial_request =
  dq_protocol :: string
  dq_address :: string
  dq_random :: int

record dial_response =
  dr_error :: string
  dr_connectID :: int
  dr_random :: int

record close_request =
  cq_connectID :: int

record close_response =
  cr_error :: string
  cr_connectID :: int

record close_dial =
  cd_random :: int

record data_msg =
  dm_connectID :: int
  dm_error :: string
  dm_data :: string

datatype payload =
    Packet_DialRequest dial_request
  | Packet_DialResponse dial_response
  | Packet_Data data_msg
  | Packet_CloseRequest close_request
  | Packet_CloseResponse close_response
  | Packet_CloseDial close_dial
  | Packet_Drain

record packet =
  ptype :: packet_type
  payload :: "payload option"

definition GetDialRequest :: "packet \<Rightarrow> dial_request option" where
  "GetDialRequest p = (case payload p of Some (Packet_DialRequest x) \<Rightarrow> Some x | _ \<Rightarrow> None)"

definition GetDialResponse :: "packet \<Rightarrow> dial_response option" where
  "GetDialResponse p = (case payload p of Some (Packet_DialResponse x) \<Rightarrow> Some x | _ \<Rightarrow> None)"

definition GetData :: "packet \<Rightarrow> data_msg option" where
  "GetData p = (case payload p of Some (Packet_Data x) \<Rightarrow> Some x | _ \<Rightarrow> None)"

definition GetCloseRequest :: "packet \<Rightarrow> close_request option" where
  "GetCloseRequest p = (case payload p of Some (Packet_CloseRequest x) \<Rightarrow> Some x | _ \<Rightarrow> None)"

definition GetCloseResponse :: "packet \<Rightarrow> close_response option" where
  "GetCloseResponse p = (case payload p of Some (Packet_CloseResponse x) \<Rightarrow> Some x | _ \<Rightarrow> None)"

definition GetCloseDial :: "packet \<Rightarrow> close_dial option" where
  "GetCloseDial p = (case payload p of Some (Packet_CloseDial x) \<Rightarrow> Some x | _ \<Rightarrow> None)"

lemmas getter_defs [knp_defs] =
  GetDialRequest_def GetDialResponse_def GetData_def GetCloseRequest_def
  GetCloseResponse_def GetCloseDial_def

text \<open>Reading a field through a getter: nil panics.\<close>

definition deref :: "'a option \<Rightarrow> 'a outcome" where
  "deref x = (case x of Some v \<Rightarrow> Ret v | None \<Rightarrow> Panic nil_deref)"

lemma deref_simps [simp]: "deref (Some v) = Ret v" "deref None = Panic nil_deref"
  by (simp_all add: deref_def)

subsection \<open>Packets the sources build\<close>

definition newDialRequestPacket :: "string \<Rightarrow> string \<Rightarrow> int \<Rightarrow> packet" where
  "newDialRequestPacket protocol address random =
     \<lparr>ptype = DIAL_REQ,
      payload = Some (Packet_DialRequest
        \<lparr>dq_protocol = protocol, dq_address = address, dq_random = random\<rparr>)\<rparr>"

definition newDialResponsePacket :: "int \<Rightarrow> int \<Rightarrow> string \<Rightarrow> packet" where
  "newDialResponsePacket random connectID err =
     \<lparr>ptype = DIAL_RSP,
      payload = Some (Packet_DialResponse
        \<lparr>dr_error = err, dr_connectID = connectID, dr_random = random\<rparr>)\<rparr>"

definition newCloseRequestPacket :: "int \<Rightarrow> packet" where
  "newCloseRequestPacket connectID =
     \<lparr>ptype = CLOSE_REQ, payload = Some (Packet_CloseRequest \<lparr>cq_connectID = connectID\<rparr>)\<rparr>"

definition newCloseResponsePacket :: "int \<Rightarrow> string \<Rightarrow> packet" where
  "newCloseResponsePacket connectID err =
     \<lparr>ptype = CLOSE_RSP,
      payload = Some (Packet_CloseResponse \<lparr>cr_error = err, cr_connectID = connectID\<rparr>)\<rparr>"

definition newDialClosePacket :: "int \<Rightarrow> packet" where
  "newDialClosePacket random =
     \<lparr>ptype = DIAL_CLS, payload = Some (Packet_CloseDial \<lparr>cd_random = random\<rparr>)\<rparr>"

definition newDataPacket :: "int \<Rightarrow> string \<Rightarrow> packet" where
  "newDataPacket connectID bytes =
     \<lparr>ptype = DATA,
      payload = Some (Packet_Data \<lparr>dm_connectID = connectID, dm_error = [], dm_data = bytes\<rparr>)\<rparr>"

definition newDrainPacket :: packet where
  "newDrainPacket = \<lparr>ptype = DRAIN, payload = Some Packet_Drain\<rparr>"

lemmas packet_builders [knp_defs] =
  newDialRequestPacket_def newDialResponsePacket_def newCloseRequestPacket_def
  newCloseResponsePacket_def newDialClosePacket_def newDataPacket_def newDrainPacket_def

text \<open>
  The agreement between a packet's type and its payload, for the types whose payload some
  handler reads.
\<close>

definition payload_fits :: "packet \<Rightarrow> bool" where
  "payload_fits p \<longleftrightarrow> (case ptype p of
       DIAL_REQ \<Rightarrow> GetDialRequest p \<noteq> None
     | DIAL_RSP \<Rightarrow> GetDialResponse p \<noteq> None
     | CLOSE_REQ \<Rightarrow> GetCloseRequest p \<noteq> None
     | CLOSE_RSP \<Rightarrow> GetCloseResponse p \<noteq> None
     | DATA \<Rightarrow> GetData p \<noteq> None
     | DIAL_CLS \<Rightarrow> GetCloseDial p \<noteq> None
     | _ \<Rightarrow> True)"

lemma built_packets_fit [simp]:
  "payload_fits (newDialRequestPacket a b c)" "payload_fits (newDialResponsePacket r i e)"
  "payload_fits (newCloseRequestPacket i)" "payload_fits (newCloseResponsePacket i e)"
  "payload_fits (newDialClosePacket r)" "payload_fits (newDataPacket i d)"
  "payload_fits newDrainPacket"
  by (simp_all add: payload_fits_def packet_builders getter_defs)

lemma built_packet_types [simp]:
  "ptype (newDialRequestPacket a b c) = DIAL_REQ" "ptype (newDialResponsePacket r i e) = DIAL_RSP"
  "ptype (newCloseRequestPacket i) = CLOSE_REQ" "ptype (newCloseResponsePacket i e) = CLOSE_RSP"
  "ptype (newDialClosePacket r) = DIAL_CLS" "ptype (newDataPacket i d) = DATA"
  "ptype newDrainPacket = DRAIN"
  by (simp_all add: packet_builders)

lemma built_packet_getters [simp]:
  "GetDialRequest (newDialRequestPacket a b c) =
     Some \<lparr>dq_protocol = a, dq_address = b, dq_random = c\<rparr>"
  "GetDialResponse (newDialResponsePacket r i e) =
     Some \<lparr>dr_error = e, dr_connectID = i, dr_random = r\<rparr>"
  "GetCloseRequest (newCloseRequestPacket i) = Some \<lparr>cq_connectID = i\<rparr>"
  "GetCloseResponse (newCloseResponsePacket i e) = Some \<lparr>cr_error = e, cr_connectID = i\<rparr>"
  "GetCloseDial (newDialClosePacket r) = Some \<lparr>cd_random = r\<rparr>"
  "GetData (newDataPacket i d) = Some \<lparr>dm_connectID = i, dm_error = [], dm_data = d\<rparr>"
  by (simp_all add: packet_builders getter_defs)

end
