(* ===== verification/KNP_Util.thy ===== *)
theory KNP_Util
  imports KNP_Prelude
begin

section \<open>Hosts, proxy strategies, agent identifiers, labels, TLS versions\<close>

text \<open>
  The pure helpers of \<^verbatim>\<open>pkg/util\<close>, \<^verbatim>\<open>pkg/server/proxystrategies\<close> and \<^verbatim>\<open>proto/header\<close>, with
  the parts of \<^verbatim>\<open>net/url\<close>, \<^verbatim>\<open>net\<close> and \<^verbatim>\<open>strconv\<close> they call.
\<close>

subsection \<open>pkg/util/net.go\<close>

definition containIPv6Addr :: "string \<Rightarrow> bool" where
  "containIPv6Addr host \<longleftrightarrow> length (split_on CHR '':'' host) > 2"

definition containPortIPv6 :: "string \<Rightarrow> bool" where
  "containPortIPv6 host \<longleftrightarrow> CHR ''['' \<in> set host"

definition RemovePortFromHost :: "string \<Rightarrow> string" where
  "RemovePortFromHost host =
     (if \<not> containIPv6Addr host then hd (split_on CHR '':'' host)
      else
        let host' =
          (if containPortIPv6 host
           then (case last_index_byte host CHR '':'' of Some i \<Rightarrow> take i host | None \<Rightarrow> host)
           else host)
        in trim_cutset host' ''[]'')"

text \<open>\<^verbatim>\<open>net.JoinHostPort\<close>: a host with a colon is put in brackets.\<close>

definition JoinHostPort :: "string \<Rightarrow> string \<Rightarrow> string" where
  "JoinHostPort host port =
     (if CHR '':'' \<in> set host then ''['' @ host @ '']:'' @ port else host @ '':'' @ port)"

definition GetTLSVersion :: "string \<Rightarrow> go_error + nat" where
  "GetTLSVersion versionName =
     (if versionName = [] then Inr 771
      else (case map_of [(''VersionTLS10'', 769), (''VersionTLS11'', 770),
                         (''VersionTLS12'', 771), (''VersionTLS13'', 772)] versionName of
              Some v \<Rightarrow> Inr v
            | None \<Rightarrow> Inl (ErrText (''unsupported TLS version '' @ versionName))))"

lemma containIPv6Addr_iff: "containIPv6Addr host \<longleftrightarrow> count_list host CHR '':'' \<ge> 2"
  by (auto simp: containIPv6Addr_def length_split_on)

lemma RemovePort_no_colon: "CHR '':'' \<notin> set h \<Longrightarrow> RemovePortFromHost h = h"
  by (simp add: RemovePortFromHost_def containIPv6Addr_def split_on_absent)

lemma RemovePort_one_colon:
  assumes "CHR '':'' \<notin> set h" and "CHR '':'' \<notin> set p"
  shows "RemovePortFromHost (h @ CHR '':'' # p) = h"
  using assms
  by (simp add: RemovePortFromHost_def containIPv6Addr_def split_on_append_sep split_on_absent)

lemma RemovePort_bare_v6:
  assumes "containIPv6Addr h" and "CHR ''['' \<notin> set h" and "CHR '']'' \<notin> set h"
  shows "RemovePortFromHost h = h"
proof -
  have "\<forall>x \<in> set h. x \<notin> set ''[]''" using assms(2,3) by auto
  with assms show ?thesis
    by (simp add: RemovePortFromHost_def containPortIPv6_def trim_cutset_id)
qed

lemma trim_brackets:
  assumes "h \<noteq> []" and "CHR ''['' \<notin> set h" and "CHR '']'' \<notin> set h"
  shows "trim_cutset (''['' @ h @ '']'') ''[]'' = h"
proof -
  have nb: "\<forall>x \<in> set h. \<not> (x = CHR ''['' \<or> x = CHR '']'')"
    using assms(2,3) by auto
  with assms(1) show ?thesis
    by (simp add: trim_cutset_def dropWhile_append dropWhile_append3 dropWhile_all_not)
qed

lemma RemovePort_bracketed:
  assumes "CHR '':'' \<in> set h" and "CHR ''['' \<notin> set h" and "CHR '']'' \<notin> set h"
    and "CHR '':'' \<notin> set p"
  shows "RemovePortFromHost (''['' @ h @ '']:'' @ p) = h"
proof -
  let ?s = "''['' @ h @ '']:'' @ p"
  have c: "count_list h CHR '':'' \<noteq> 0"
    using assms(1) by (simp add: count_list_0_iff)
  have v6: "containIPv6Addr ?s"
    using c by (simp add: containIPv6Addr_iff)
  have "last_index_byte ((''['' @ h @ '']'') @ CHR '':'' # p) CHR '':'' =
      Some (length (''['' @ h @ '']''))"
    using assms(4) by (rule last_index_byte_append)
  then have li: "last_index_byte ?s CHR '':'' = Some (length h + 2)"
    by simp
  have "h \<noteq> []" using assms(1) by auto
  with v6 li assms(2,3) show ?thesis
    using trim_brackets [of h] by (simp add: RemovePortFromHost_def containPortIPv6_def)
qed

subsection \<open>pkg/server/proxystrategies\<close>

text \<open>
  \<^verbatim>\<open>ProxyStrategy\<close> is an integer type with three named values; any other value makes
  \<^verbatim>\<open>String\<close> panic.
\<close>

datatype proxy_strategy =
    ProxyStrategyDefault | ProxyStrategyDestHost | ProxyStrategyDefaultRoute
  | OtherStrategy int

fun ProxyStrategy_String :: "proxy_strategy \<Rightarrow> string outcome" where
  "ProxyStrategy_String ProxyStrategyDefault = Ret ''default''"
| "ProxyStrategy_String ProxyStrategyDestHost = Ret ''destHost''"
| "ProxyStrategy_String ProxyStrategyDefaultRoute = Ret ''defaultRoute''"
| "ProxyStrategy_String (OtherStrategy n) = Panic ''unhandled ProxyStrategy''"

definition ParseProxyStrategy :: "string \<Rightarrow> go_error + proxy_strategy" where
  "ParseProxyStrategy s =
     (if s = ''default'' then Inr ProxyStrategyDefault
      else if s = ''destHost'' then Inr ProxyStrategyDestHost
      else if s = ''defaultRoute'' then Inr ProxyStrategyDefaultRoute
      else Inl (ErrText (''unknown proxy strategy: '' @ s)))"

fun ParseProxyStrategies_loop ::
  "string list \<Rightarrow> proxy_strategy list \<Rightarrow> go_error + proxy_strategy list" where
  "ParseProxyStrategies_loop [] result = Inr result"
| "ParseProxyStrategies_loop (s # strs) result =
     (if length s = 0 then ParseProxyStrategies_loop strs result
      else (case ParseProxyStrategy s of
              Inl err \<Rightarrow> Inl err
            | Inr ps \<Rightarrow> ParseProxyStrategies_loop strs (result @ [ps])))"

definition ParseProxyStrategies :: "string \<Rightarrow> go_error + proxy_strategy list" where
  "ParseProxyStrategies proxyStrategies =
     (case ParseProxyStrategies_loop (split_on CHR '','' proxyStrategies) [] of
        Inl err \<Rightarrow> Inl err
      | Inr result \<Rightarrow>
          if length result = 0 then Inl (ErrText ''proxy strategies cannot be empty'')
          else Inr result)"

lemma ParseProxyStrategy_String:
  "ProxyStrategy_String ps = Ret s \<longleftrightarrow> ParseProxyStrategy s = Inr ps"
  by (cases ps) (auto simp: ParseProxyStrategy_def split: if_splits)

lemma ParseProxyStrategy_named: "ParseProxyStrategy s = Inr ps \<Longrightarrow> returns (ProxyStrategy_String ps)"
  using ParseProxyStrategy_String [of ps s] by simp

lemma ParseProxyStrategies_loop_named:
  "ParseProxyStrategies_loop strs acc = Inr res \<Longrightarrow>
     \<forall>ps \<in> set acc. returns (ProxyStrategy_String ps) \<Longrightarrow>
     \<forall>ps \<in> set res. returns (ProxyStrategy_String ps)"
proof (induction strs acc rule: ParseProxyStrategies_loop.induct)
  case (2 s strs acc)
  show ?case
  proof (cases "s = []")
    case True
    with "2.IH"(1) "2.prems" show ?thesis by (metis ParseProxyStrategies_loop.simps(2) list.size(3))
  next
    case False
    with "2.prems"(1) obtain ps where ps: "ParseProxyStrategy s = Inr ps"
      and rest: "ParseProxyStrategies_loop strs (acc @ [ps]) = Inr res"
      by (cases "ParseProxyStrategy s") simp_all
    have "\<forall>q \<in> set (acc @ [ps]). returns (ProxyStrategy_String q)"
      using "2.prems"(2) ParseProxyStrategy_named [OF ps] by simp
    moreover have "length s \<noteq> 0" using False by simp
    ultimately show ?thesis using "2.IH"(2) ps rest by blast
  qed
qed simp

lemma ParseProxyStrategies_loop_print:
  "list_all2 (\<lambda>ps s. ProxyStrategy_String ps = Ret s) pss strs \<Longrightarrow>
     ParseProxyStrategies_loop strs acc = Inr (acc @ pss)"
proof (induction pss strs arbitrary: acc rule: list_all2_induct)
  case (Cons ps pss s strs)
  then have "ParseProxyStrategy s = Inr ps" by (simp add: ParseProxyStrategy_String)
  moreover from this have "s \<noteq> []" by (auto simp: ParseProxyStrategy_def)
  ultimately show ?case using Cons.IH [of "acc @ [ps]"] by simp
qed simp

lemma strategy_names_no_comma:
  "ProxyStrategy_String ps = Ret s \<Longrightarrow> CHR '','' \<notin> set s"
  by (cases ps) auto

subsection \<open>net/url.ParseQuery and strconv.ParseBool\<close>

definition cut_at :: "char \<Rightarrow> string \<Rightarrow> string \<times> string" where
  "cut_at c s = (takeWhile (\<lambda>x. x \<noteq> c) s, drop 1 (dropWhile (\<lambda>x. x \<noteq> c) s))"

definition hex_digit :: "char \<Rightarrow> nat option" where
  "hex_digit c =
     (let n = of_char c :: nat in
      if 48 \<le> n \<and> n \<le> 57 then Some (n - 48)
      else if 97 \<le> n \<and> n \<le> 102 then Some (n - 87)
      else if 65 \<le> n \<and> n \<le> 70 then Some (n - 55)
      else None)"

text \<open>\<^verbatim>\<open>url.QueryUnescape\<close>; \<open>None\<close> is its escape error.\<close>

fun QueryUnescape :: "string \<Rightarrow> string option" where
  "QueryUnescape [] = Some []"
| "QueryUnescape (c # s) =
     (if c = CHR ''%'' then
        (case s of
           a # b # s' \<Rightarrow>
             (case (hex_digit a, hex_digit b) of
                (Some x, Some y) \<Rightarrow> map_option (\<lambda>r. char_of (16 * x + y) # r) (QueryUnescape s')
              | _ \<Rightarrow> None)
         | _ \<Rightarrow> None)
      else map_option (\<lambda>r. (if c = CHR ''+'' then CHR '' '' else c) # r) (QueryUnescape s))"

type_synonym url_values = "(string, string list) gomap"

definition values_append :: "string \<Rightarrow> string \<Rightarrow> url_values \<Rightarrow> url_values" where
  "values_append k v m = gm_put k ((case gm_get m k of Some vs \<Rightarrow> vs | None \<Rightarrow> []) @ [v]) m"

definition first_error :: "go_error option \<Rightarrow> go_error \<Rightarrow> go_error option" where
  "first_error err e = (case err of None \<Rightarrow> Some e | Some e' \<Rightarrow> Some e')"

text \<open>
  The loop of \<^verbatim>\<open>url.ParseQuery\<close> over the parts between ampersands. A semicolon overwrites the
  error, an escape error is kept only when it is the first.
\<close>

fun parse_query_loop ::
  "string list \<Rightarrow> url_values \<Rightarrow> go_error option \<Rightarrow> url_values \<times> go_error option" where
  "parse_query_loop [] m err = (m, err)"
| "parse_query_loop (part # parts) m err =
     (if CHR '';'' \<in> set part then
        parse_query_loop parts m (Some (ErrText ''invalid semicolon separator in query''))
      else if part = [] then parse_query_loop parts m err
      else
        let (k, v) = cut_at CHR ''='' part in
        (case QueryUnescape k of
           None \<Rightarrow> parse_query_loop parts m (first_error err (ErrText ''invalid URL escape''))
         | Some k' \<Rightarrow>
             (case QueryUnescape v of
                None \<Rightarrow> parse_query_loop parts m (first_error err (ErrText ''invalid URL escape''))
              | Some v' \<Rightarrow> parse_query_loop parts (values_append k' v' m) err)))"

definition max_query_params :: nat where "max_query_params = 10000"

definition ParseQuery :: "string \<Rightarrow> url_values \<times> go_error option" where
  "ParseQuery query =
     (let parts = split_on CHR ''&'' query in
      if length parts > max_query_params
      then ([], Some (ErrText ''number of URL query parameters exceeded limit''))
      else parse_query_loop parts [] None)"

definition ParseBool :: "string \<Rightarrow> bool option" where
  "ParseBool s =
     (if s \<in> {''1'', ''t'', ''T'', ''TRUE'', ''true'', ''True''} then Some True
      else if s \<in> {''0'', ''f'', ''F'', ''FALSE'', ''false'', ''False''} then Some False
      else None)"

subsection \<open>proto/header: agent identifiers\<close>

type_synonym identifier_type = string

abbreviation IPv4 :: identifier_type where "IPv4 \<equiv> ''ipv4''"
abbreviation IPv6 :: identifier_type where "IPv6 \<equiv> ''ipv6''"
abbreviation HostId :: identifier_type where "HostId \<equiv> ''host''"
abbreviation CIDR :: identifier_type where "CIDR \<equiv> ''cidr''"
abbreviation UID :: identifier_type where "UID \<equiv> ''uid''"
abbreviation DefaultRoute :: identifier_type where "DefaultRoute \<equiv> ''default-route''"

record identifiers =
  idIPv4 :: "string list"
  idIPv6 :: "string list"
  idHost :: "string list"
  idCIDR :: "string list"
  idDefaultRoute :: bool

definition no_identifiers :: identifiers where
  "no_identifiers =
     \<lparr>idIPv4 = [], idIPv6 = [], idHost = [], idCIDR = [], idDefaultRoute = False\<rparr>"

definition gen_ident :: "string \<Rightarrow> string list \<Rightarrow> identifiers \<Rightarrow> identifiers outcome" where
  "gen_ident idType ids a =
     (if idType = IPv4 then Ret (a\<lparr>idIPv4 := idIPv4 a @ ids\<rparr>)
      else if idType = IPv6 then Ret (a\<lparr>idIPv6 := idIPv6 a @ ids\<rparr>)
      else if idType = HostId then Ret (a\<lparr>idHost := idHost a @ ids\<rparr>)
      else if idType = CIDR then Ret (a\<lparr>idCIDR := idCIDR a @ ids\<rparr>)
      else if idType = DefaultRoute then
        (case ids of
           [] \<Rightarrow> Panic index_out_of_range
         | v # _ \<Rightarrow>
             Ret (if ParseBool v = Some True then a\<lparr>idDefaultRoute := True\<rparr> else a))
      else Ret a)"

fun gen_idents_loop :: "url_values \<Rightarrow> identifiers \<Rightarrow> identifiers outcome" where
  "gen_idents_loop [] a = Ret a"
| "gen_idents_loop ((idType, ids) # decoded) a =
     bind_outcome (gen_ident idType ids a) (gen_idents_loop decoded)"

definition GenAgentIdentifiers :: "string \<Rightarrow> (go_error + identifiers) outcome" where
  "GenAgentIdentifiers addrs =
     (let (decoded, err) = ParseQuery addrs in
      case err of
        Some e \<Rightarrow> Ret (Inl (ErrText (''fail to parse url encoded string: '' @ error_string e)))
      | None \<Rightarrow> bind_outcome (gen_idents_loop decoded no_identifiers) (\<lambda>a. Ret (Inr a)))"

subsection \<open>What the identifiers of a query are\<close>

definition values_of :: "url_values \<Rightarrow> string \<Rightarrow> string list" where
  "values_of m k = (case gm_get m k of Some vs \<Rightarrow> vs | None \<Rightarrow> [])"

definition nonempty_values :: "url_values \<Rightarrow> bool" where
  "nonempty_values m \<longleftrightarrow> gm_wf m \<and> (\<forall>k. gm_get m k \<noteq> Some [])"

lemma values_of_append:
  "values_of (values_append k v m) k' = values_of m k' @ (if k' = k then [v] else [])"
  by (simp add: values_of_def values_append_def)

lemma nonempty_values_append: "nonempty_values m \<Longrightarrow> nonempty_values (values_append k v m)"
  by (simp add: nonempty_values_def values_append_def)

lemma parse_query_loop_nonempty:
  "nonempty_values m \<Longrightarrow> nonempty_values (fst (parse_query_loop parts m err))"
  by (induction parts m err rule: parse_query_loop.induct)
     (simp_all add: nonempty_values_append Let_def split: prod.splits option.splits)

lemma ParseQuery_nonempty: "nonempty_values (fst (ParseQuery q))"
proof -
  have "nonempty_values []" by (simp add: nonempty_values_def)
  then show ?thesis by (simp add: ParseQuery_def Let_def parse_query_loop_nonempty)
qed

text \<open>
  The loop over the decoded values, in any order: a list of identifiers of each type and the
  default-route flag, read off the map by key.
\<close>

definition idents_from :: "url_values \<Rightarrow> identifiers \<Rightarrow> identifiers" where
  "idents_from m a =
     \<lparr>idIPv4 = idIPv4 a @ values_of m IPv4, idIPv6 = idIPv6 a @ values_of m IPv6,
      idHost = idHost a @ values_of m HostId, idCIDR = idCIDR a @ values_of m CIDR,
      idDefaultRoute = (idDefaultRoute a \<or>
        (case values_of m DefaultRoute of v # _ \<Rightarrow> ParseBool v = Some True | [] \<Rightarrow> False))\<rparr>"

lemma values_of_Nil: "values_of [] k = []"
  by (simp add: values_of_def)

lemma values_of_Cons_absent:
  "k \<notin> fst ` set m \<Longrightarrow>
     values_of ((k, vs) # m) k' = (if k' = k then vs else values_of m k') \<and> values_of m k = []"
  by (auto simp: values_of_def gm_get_def map_of_eq_None_iff [symmetric])

lemma gen_ident_step:
  assumes k: "k \<notin> fst ` set m" and vs: "vs \<noteq> []"
  shows "\<exists>b. gen_ident k vs a = Ret b \<and> idents_from m b = idents_from ((k, vs) # m) a"
proof (cases "k \<in> {IPv4, IPv6, HostId, CIDR, DefaultRoute}")
  case True
  note v = values_of_Cons_absent [OF k, of vs]
  from vs obtain x xs where "vs = x # xs" by (cases vs) simp_all
  with True v show ?thesis
    by (elim insertE) (simp_all add: gen_ident_def idents_from_def)
next
  case False
  note v = values_of_Cons_absent [OF k, of vs]
  have "gen_ident k vs a = Ret a" using False by (simp add: gen_ident_def)
  moreover have "values_of ((k, vs) # m) t = values_of m t"
    if "t \<in> {IPv4, IPv6, HostId, CIDR, DefaultRoute}" for t
    using v False that by metis
  ultimately show ?thesis by (simp add: idents_from_def)
qed

lemma gen_idents_loop_eq:
  "nonempty_values m \<Longrightarrow> gen_idents_loop m a = Ret (idents_from m a)"
proof (induction m arbitrary: a)
  case Nil
  then show ?case by (simp add: idents_from_def values_of_Nil)
next
  case (Cons e m)
  obtain k vs where e: "e = (k, vs)" by (cases e)
  with Cons.prems have k: "k \<notin> fst ` set m" and wf: "gm_wf m"
    by (simp_all add: nonempty_values_def gm_wf_def)
  have get: "gm_get (e # m) k' = (if k' = k then Some vs else gm_get m k')" for k'
    by (simp add: e gm_get_def)
  have vs: "vs \<noteq> []" using Cons.prems get [of k] by (auto simp: nonempty_values_def)
  have "gm_get m k' \<noteq> Some []" for k'
    using Cons.prems get [of k'] k
    by (cases "k' = k") (auto simp: nonempty_values_def gm_get_def map_of_eq_None_iff [symmetric])
  with wf have m: "nonempty_values m" by (simp add: nonempty_values_def)
  have "\<exists>b. gen_ident k vs a = Ret b \<and> idents_from m b = idents_from (e # m) a"
    unfolding e by (rule gen_ident_step [OF k vs])
  with Cons.IH [OF m] show ?case by (auto simp: e)
qed

text \<open>
  A query written from (type, value) pairs without the characters that the encoding treats
  specially.
\<close>

definition plain_part :: "string \<Rightarrow> bool" where
  "plain_part s \<longleftrightarrow> (\<forall>c \<in> set s. c \<notin> set ''%+&;'')"

definition print_query :: "(string \<times> string) list \<Rightarrow> string" where
  "print_query es = join_with CHR ''&'' (map (\<lambda>(k, v). k @ ''='' @ v) es)"

definition plain_query :: "(string \<times> string) list \<Rightarrow> bool" where
  "plain_query es \<longleftrightarrow> es \<noteq> [] \<and> length es \<le> max_query_params \<and>
     (\<forall>(k, v) \<in> set es. plain_part k \<and> plain_part v \<and> CHR ''='' \<notin> set k)"

lemma plain_part_no_amp: "plain_part s \<Longrightarrow> CHR ''&'' \<notin> set s"
  by (auto simp: plain_part_def)

lemma QueryUnescape_plain: "plain_part s \<Longrightarrow> QueryUnescape s = Some s"
  by (induction s) (auto simp: plain_part_def)

lemma cut_at_append: "c \<notin> set k \<Longrightarrow> cut_at c (k @ c # v) = (k, v)"
  by (auto simp: cut_at_def takeWhile_tail dropWhile_append3 dropWhile_append takeWhile_eq_all_conv)

lemma parse_query_loop_plain:
  "\<forall>(k, v) \<in> set es. plain_part k \<and> plain_part v \<and> CHR ''='' \<notin> set k \<Longrightarrow>
     parse_query_loop (map (\<lambda>(k, v). k @ ''='' @ v) es) m err =
       (foldl (\<lambda>m (k, v). values_append k v m) m es, err)"
proof (induction es arbitrary: m)
  case (Cons e es)
  obtain k v where e: "e = (k, v)" by (cases e)
  with Cons.prems have kv: "plain_part k" "plain_part v" "CHR ''='' \<notin> set k" by auto
  then have "CHR '';'' \<notin> set (k @ ''='' @ v)" by (auto simp: plain_part_def)
  with kv have "parse_query_loop (map (\<lambda>(k, v). k @ ''='' @ v) (e # es)) m err =
      parse_query_loop (map (\<lambda>(k, v). k @ ''='' @ v) es) (values_append k v m) err"
    by (simp add: e cut_at_append QueryUnescape_plain)
  with Cons.IH Cons.prems show ?case by (simp add: e)
qed simp

lemma values_of_foldl:
  "values_of (foldl (\<lambda>m (k, v). values_append k v m) m es) k =
     values_of m k @ map snd (filter (\<lambda>e. fst e = k) es)"
  by (induction es arbitrary: m) (auto simp: values_of_append)

lemma ParseQuery_plain:
  assumes "plain_query es"
  shows "ParseQuery (print_query es) = (foldl (\<lambda>m (k, v). values_append k v m) [] es, None)"
proof -
  let ?ps = "map (\<lambda>(k, v). k @ ''='' @ v) es"
  have "\<forall>p \<in> set ?ps. CHR ''&'' \<notin> set p"
  proof
    fix p assume "p \<in> set ?ps"
    then obtain k v where "(k, v) \<in> set es" and p: "p = k @ ''='' @ v" by auto
    with assms have "plain_part k" and "plain_part v"
      by (auto simp: plain_query_def)
    then show "CHR ''&'' \<notin> set p" by (simp add: p plain_part_no_amp)
  qed
  then have "split_on CHR ''&'' (print_query es) = ?ps"
    using assms unfolding print_query_def by (intro split_on_join) (auto simp: plain_query_def)
  then show ?thesis
    using assms parse_query_loop_plain [of es "[]" None]
    by (auto simp: ParseQuery_def plain_query_def)
qed

subsection \<open>pkg/util/util.go: labels\<close>

text \<open>
  \<^verbatim>\<open>strings.TrimSpace\<close> on UTF-8 bytes: the encodings of the runes \<^verbatim>\<open>unicode.IsSpace\<close>
  accepts, removed at both ends.
\<close>

definition space_runes :: "string list" where
  "space_runes = map (map char_of)
     ([[9], [10], [11], [12], [13], [32], [194, 133], [194, 160], [225, 154, 128 :: nat]] @
      map (\<lambda>n. [226, 128, n]) [128..<139] @
      [[226, 128, 168], [226, 128, 169], [226, 128, 175], [226, 129, 159], [227, 128, 128]])"

function strip_runes :: "string list \<Rightarrow> string \<Rightarrow> string" where
  "strip_runes rs s =
     (case find (\<lambda>r. r \<noteq> [] \<and> has_prefix s r) rs of
        Some r \<Rightarrow> strip_runes rs (drop (length r) s)
      | None \<Rightarrow> s)"
  by pat_completeness auto
termination
proof (relation "measure (\<lambda>(rs, s). length s)")
  fix rs s r
  assume "find (\<lambda>r. r \<noteq> [] \<and> has_prefix s r) rs = Some r"
  then have "r \<noteq> []" and "has_prefix s r" by (auto simp: find_Some_iff)
  then show "((rs, drop (length r) s), rs, s) \<in> measure (\<lambda>(rs, s). length s)"
    by (auto simp: has_prefix_iff)
qed simp

declare strip_runes.simps [simp del]

definition TrimSpace :: "string \<Rightarrow> string" where
  "TrimSpace s = rev (strip_runes (map rev space_runes) (rev (strip_runes space_runes s)))"

fun ParseLabels_loop ::
  "string list \<Rightarrow> (string, string) gomap \<Rightarrow> go_error + (string, string) gomap" where
  "ParseLabels_loop [] labels = Inr labels"
| "ParseLabels_loop (pair # pairs) labels =
     (let keyValue = split_on CHR ''='' pair in
      if length keyValue \<noteq> 2 then Inl (ErrText (''invalid label format: '' @ pair))
      else ParseLabels_loop pairs
             (gm_put (TrimSpace (keyValue ! 0)) (TrimSpace (keyValue ! 1)) labels))"

definition ParseLabels :: "string \<Rightarrow> go_error + (string, string) gomap" where
  "ParseLabels labelStr =
     (if length labelStr = 0 then Inl (ErrText ''empty string provided'')
      else ParseLabels_loop (split_on CHR '','' labelStr) [])"

lemma ParseLabels_loop_ok:
  "(\<exists>m. ParseLabels_loop pairs labels = Inr m) \<longleftrightarrow>
     (\<forall>p \<in> set pairs. count_list p CHR ''='' = 1)"
  by (induction pairs arbitrary: labels) (auto simp: length_split_on Let_def)

lemma ParseLabels_loop_wf:
  "gm_wf labels \<Longrightarrow> ParseLabels_loop pairs labels = Inr m \<Longrightarrow> gm_wf m"
  by (induction pairs arbitrary: labels) (auto simp: Let_def split: if_splits)

definition Normalize :: "string \<Rightarrow> string" where
  "Normalize s = map (\<lambda>c. if c = CHR ''_'' then CHR ''-'' else c) s"

subsection \<open>Properties\<close>

text \<open>
  Removing the port from an address that \<^verbatim>\<open>net.JoinHostPort\<close> built gives the host back,
  for names, IPv4 and IPv6 hosts (none of which contains a bracket) and a port without colon.
\<close>

theorem RemovePortFromHost_JoinHostPort:
  assumes "CHR ''['' \<notin> set h" and "CHR '']'' \<notin> set h" and "CHR '':'' \<notin> set p"
  shows "RemovePortFromHost (JoinHostPort h p) = h"
  using assms RemovePort_one_colon [of h p] RemovePort_bracketed [of h p]
  by (simp add: JoinHostPort_def)

theorem RemovePortFromHost_JoinHostPort_witness:
  "RemovePortFromHost (JoinHostPort ''fd00::1'' ''8080'') = ''fd00::1''"
  by (rule RemovePortFromHost_JoinHostPort) simp_all

text \<open>
  C39. A bracketed IPv6 host without a port loses its last group: the code takes the bracket
  as a sign of a port and cuts at the last colon, which is inside the address.
\<close>

theorem RemovePortFromHost_bracketed_no_port:
  assumes "CHR '':'' \<in> set a" and "CHR '':'' \<notin> set b"
    and "CHR ''['' \<notin> set a" and "CHR '']'' \<notin> set a"
  shows "RemovePortFromHost (''['' @ a @ '':'' @ b @ '']'') = a"
proof -
  let ?s = "''['' @ a @ '':'' @ b @ '']''"
  have "count_list a CHR '':'' \<noteq> 0" using assms(1) by (simp add: count_list_0_iff)
  then have v6: "containIPv6Addr ?s" by (simp add: containIPv6Addr_iff)
  have "last_index_byte ((''['' @ a) @ CHR '':'' # (b @ '']'')) CHR '':'' = Some (length (''['' @ a))"
    using assms(2) by (intro last_index_byte_append) simp
  then have li: "last_index_byte ?s CHR '':'' = Some (length a + 1)" by simp
  have nb: "\<forall>x \<in> set a. \<not> (x = CHR ''['' \<or> x = CHR '']'')" using assms(3,4) by auto
  have "a \<noteq> []" using assms(1) by auto
  with nb have "trim_cutset (CHR ''['' # a) ''[]'' = a"
    by (simp add: trim_cutset_def dropWhile_all_not)
  with v6 li show ?thesis by (simp add: RemovePortFromHost_def containPortIPv6_def)
qed

theorem RemovePortFromHost_bracketed_no_port_witness:
  "RemovePortFromHost ''[fd00::1]'' = ''fd00:''"
  using RemovePortFromHost_bracketed_no_port [of "''fd00:''" "''1''"] by simp

text \<open>
  The proxy strategies written as a comma separated list of their names parse back to the
  same list, in the same order.
\<close>

theorem ParseProxyStrategies_roundtrip:
  assumes "pss \<noteq> []" and "list_all2 (\<lambda>ps s. ProxyStrategy_String ps = Ret s) pss strs"
  shows "ParseProxyStrategies (join_with CHR '','' strs) = Inr pss"
proof -
  have "strs \<noteq> []" using assms by (auto dest: list_all2_lengthD)
  moreover have "\<forall>s \<in> set strs. CHR '','' \<notin> set s"
    using assms(2) by (induction rule: list_all2_induct) (simp_all add: strategy_names_no_comma)
  ultimately have "split_on CHR '','' (join_with CHR '','' strs) = strs"
    by (rule split_on_join)
  with assms ParseProxyStrategies_loop_print [OF assms(2), of "[]"] show ?thesis
    by (simp add: ParseProxyStrategies_def)
qed

theorem ParseProxyStrategies_roundtrip_witness:
  "ParseProxyStrategies ''destHost,default'' = Inr [ProxyStrategyDestHost, ProxyStrategyDefault]"
  using ParseProxyStrategies_roundtrip
    [of "[ProxyStrategyDestHost, ProxyStrategyDefault]" "[''destHost'', ''default'']"]
  by simp

text \<open>
  The identifiers an agent announces as a query of plain (type, value) pairs are read back
  by the server: per type the values in the order they were written, the default-route flag
  from the first value given for it. The call neither fails nor panics, and the order in which
  the decoded map is visited has no influence.
\<close>

theorem GenAgentIdentifiers_roundtrip:
  assumes "plain_query es"
  shows "GenAgentIdentifiers (print_query es) = Ret (Inr
    \<lparr>idIPv4 = map snd (filter (\<lambda>e. fst e = IPv4) es),
     idIPv6 = map snd (filter (\<lambda>e. fst e = IPv6) es),
     idHost = map snd (filter (\<lambda>e. fst e = HostId) es),
     idCIDR = map snd (filter (\<lambda>e. fst e = CIDR) es),
     idDefaultRoute = (case map snd (filter (\<lambda>e. fst e = DefaultRoute) es) of
        v # _ \<Rightarrow> ParseBool v = Some True | [] \<Rightarrow> False)\<rparr>)"
proof -
  let ?m = "foldl (\<lambda>m (k, v). values_append k v m) [] es"
  have q: "ParseQuery (print_query es) = (?m, None)" using assms by (rule ParseQuery_plain)
  then have "nonempty_values ?m" using ParseQuery_nonempty [of "print_query es"] by simp
  then have "gen_idents_loop ?m no_identifiers = Ret (idents_from ?m no_identifiers)"
    by (rule gen_idents_loop_eq)
  with q show ?thesis
    by (simp add: GenAgentIdentifiers_def idents_from_def no_identifiers_def values_of_foldl
        values_of_Nil)
qed

theorem GenAgentIdentifiers_roundtrip_witness:
  "GenAgentIdentifiers (print_query [(HostId, ''n1''), (IPv4, ''1.2.3.4''), (HostId, ''n2''),
      (DefaultRoute, ''true'')]) =
   Ret (Inr \<lparr>idIPv4 = [''1.2.3.4''], idIPv6 = [], idHost = [''n1'', ''n2''], idCIDR = [],
     idDefaultRoute = True\<rparr>)"
  using GenAgentIdentifiers_roundtrip [of "[(HostId, ''n1''), (IPv4, ''1.2.3.4''),
      (HostId, ''n2''), (DefaultRoute, ''true'')]"]
  by (simp add: plain_query_def plain_part_def max_query_params_def ParseBool_def)

end
