(* ===== verification/KNP_Backend.thy ===== *)
theory KNP_Backend
  imports KNP_Packet KNP_Util
begin

section \<open>Backend: a connected agent as the server sees it\<close>

text \<open>
  \<^verbatim>\<open>Backend\<close> of \<^verbatim>\<open>pkg/server/backend_manager.go\<close>. Backends are compared by pointer, so a
  backend is an address (\<open>bid\<close>) in a heap (\<open>bheap\<close>) of \<open>backend\<close> records. The agent stream
  behind a backend is the environment: what one \<^verbatim>\<open>SendContext\<close> call meets (the context
  before and after the lock, the lock, the stream's own answer) is a \<open>send_env\<close>, and the
  theorems hold for every one. The packets handed to the stream and the observations made of
  them are \<open>effect\<close>s.

  The queue of \<^verbatim>\<open>queueSend\<close> and the goroutines \<^verbatim>\<open>sendQueued\<close> that drain it are a step
  relation, one step per critical section, interleaved freely.
\<close>

subsection \<open>State\<close>

type_synonym bid = nat
type_synonym fid = nat

datatype sender = AtTop | HoldsPacket packet

record sendq =
  sq_queued :: "packet list"
  sq_sending :: bool
  sq_workers :: "sender list"

record backend =
  be_id :: string
  be_idents :: identifiers
  be_done :: bool
  be_draining :: bool
  be_recvLen :: nat
  be_recvCap :: "nat option"
  be_receivedEOF :: bool
  be_dialsInFlight :: int
  be_queue :: sendq
  be_dialLatency :: duration
  be_dialLatencyAt :: "time option"

type_synonym bheap = "bid \<Rightarrow> backend"

definition empty_queue :: sendq where
  "empty_queue = \<lparr>sq_queued = [], sq_sending = False, sq_workers = []\<rparr>"

subsection \<open>Dial latency\<close>

definition dialLatencyWindow :: duration where "dialLatencyWindow = 30 * Second"
definition dialLatencyFloor :: duration where "dialLatencyFloor = 5 * Millisecond"

definition observeDial :: "duration \<Rightarrow> time \<Rightarrow> backend \<Rightarrow> backend" where
  "observeDial d now b =
     b\<lparr>be_dialLatency :=
         (case be_dialLatencyAt b of
            None \<Rightarrow> d
          | Some t \<Rightarrow>
              if time_sub now t > dialLatencyWindow then d
              else trunc_div (wrap64 (be_dialLatency b + d)) 2),
       be_dialLatencyAt := Some now\<rparr>"

definition dialCost :: "time \<Rightarrow> backend \<Rightarrow> duration" where
  "dialCost now b =
     (let latency =
        (case be_dialLatencyAt b of
           None \<Rightarrow> dialLatencyFloor
         | Some t \<Rightarrow>
             if time_sub now t \<le> dialLatencyWindow \<and> be_dialLatency b > dialLatencyFloor
             then be_dialLatency b else dialLatencyFloor);
        inFlight = (if be_dialsInFlight b < 0 then 0 else be_dialsInFlight b)
      in wrap64 (latency * wrap64 (inFlight + 1)))"

subsection \<open>Draining, retirement, receive pressure\<close>

definition IsDraining :: "backend \<Rightarrow> bool" where
  "IsDraining b = be_draining b"

definition SetDraining :: "backend \<Rightarrow> backend" where
  "SetDraining b = b\<lparr>be_draining := True\<rparr>"

text \<open>\<^verbatim>\<open>retireOnce\<close> has run exactly when \<^verbatim>\<open>done\<close> is closed.\<close>

definition Retire :: "backend \<Rightarrow> backend" where
  "Retire b = (let b' = SetDraining b in if be_done b' then b' else b'\<lparr>be_done := True\<rparr>)"

definition RecvChannelOccupancy :: "backend \<Rightarrow> rat" where
  "RecvChannelOccupancy b =
     (case be_recvCap b of
        None \<Rightarrow> 0
      | Some c \<Rightarrow> if c = 0 then 0 else of_nat (be_recvLen b) / of_nat c)"

definition GetAgentID :: "backend \<Rightarrow> string" where
  "GetAgentID b = be_id b"

definition GetAgentIdentifiers :: "backend \<Rightarrow> identifiers" where
  "GetAgentIdentifiers b = be_idents b"

subsection \<open>Effects: packets on the streams and observations\<close>

datatype segment = SegmentFromClient | SegmentToClient | SegmentFromAgent | SegmentToAgent

datatype dial_failure =
    DialFailureNoAgent | DialFailureErrorResponse | DialFailureUnrecognizedResponse
  | DialFailureSendResponse | DialFailureBackendClose | DialFailureFrontendClose
  | DialFailureBackendDialTimeout

datatype closed_reason =
    ConnectionClosedFrontendClose | ConnectionClosedBackendClose
  | ConnectionClosedSendResponse | ConnectionClosedCloseResponse

text \<open>
  \<open>ToAgent b p r\<close>: packet \<open>p\<close> handed to the stream of backend \<open>b\<close>, which answered \<open>r\<close>
  (\<open>None\<close> is success). \<open>AbandonedToAgent\<close>: a send the caller stopped waiting for; it may
  still reach the agent. \<open>QueuedToAgent\<close>: accepted by \<^verbatim>\<open>queueSend\<close>.
\<close>

datatype effect =
    ToAgent bid packet "go_error option"
  | AbandonedToAgent bid packet
  | QueuedToAgent bid packet
  | ToFrontend fid packet "go_error option"
  | ObservePacket segment packet_type
  | ObserveStreamError segment packet_type
  | ObserveDialFailure dial_failure
  | ObserveConnectionsClosed closed_reason nat
  | ObserveDialLatency duration
  | ClosesWithBackend fid bid

subsection \<open>Sending\<close>

record send_env =
  env_ctxBefore :: "go_error option"
  env_lock :: "go_error option"
  env_ctxAfter :: "go_error option"
  env_conn :: "go_error option"

definition lockSend :: "send_env \<Rightarrow> go_error option" where
  "lockSend env = env_lock env"

definition SendContext :: "send_env \<Rightarrow> bid \<Rightarrow> packet \<Rightarrow> go_error option \<times> effect list" where
  "SendContext env b p =
     (case env_ctxBefore env of
        Some e \<Rightarrow> (Some e, [])
      | None \<Rightarrow>
          (case lockSend env of
             Some e \<Rightarrow> (Some e, [])
           | None \<Rightarrow>
               (case env_ctxAfter env of
                  Some e \<Rightarrow> (Some e, [])
                | None \<Rightarrow>
                    (let err = env_conn env in
                     (err,
                      [ObservePacket SegmentToAgent (ptype p), ToAgent b p err] @
                      (if err \<noteq> None \<and> err \<noteq> Some ErrEOF
                       then [ObserveStreamError SegmentToAgent (ptype p)] else []))))))"

text \<open>\<^verbatim>\<open>Send\<close> is \<^verbatim>\<open>SendContext\<close> under the backend's own context.\<close>

definition Backend_Send :: "send_env \<Rightarrow> bid \<Rightarrow> packet \<Rightarrow> go_error option \<times> effect list" where
  "Backend_Send env b p = SendContext env b p"

subsection \<open>The send queue\<close>

definition queueSend :: "packet \<Rightarrow> sendq \<Rightarrow> sendq" where
  "queueSend p q =
     (let q' = q\<lparr>sq_queued := sq_queued q @ [p]\<rparr> in
      if \<not> sq_sending q' then q'\<lparr>sq_sending := True, sq_workers := sq_workers q' @ [AtTop]\<rparr>
      else q')"

text \<open>
  One critical section of the \<^verbatim>\<open>sendQueued\<close> goroutine number \<open>i\<close>: it ends when the queue is
  empty and takes the first packet otherwise. \<open>sendQueued_done\<close> is the return of its
  \<^verbatim>\<open>Send\<close>, outside the lock.
\<close>

definition sendQueued_take :: "nat \<Rightarrow> sendq \<Rightarrow> sendq" where
  "sendQueued_take i q =
     (case sq_queued q of
        [] \<Rightarrow> q\<lparr>sq_queued := [], sq_sending := False,
               sq_workers := take i (sq_workers q) @ drop (Suc i) (sq_workers q)\<rparr>
      | p # ps \<Rightarrow> q\<lparr>sq_queued := ps, sq_workers := (sq_workers q)[i := HoldsPacket p]\<rparr>)"

definition sendQueued_done :: "nat \<Rightarrow> sendq \<Rightarrow> sendq" where
  "sendQueued_done i q = q\<lparr>sq_workers := (sq_workers q)[i := AtTop]\<rparr>"

text \<open>
  The queue together with what was accepted and what was handed to \<^verbatim>\<open>Send\<close>, in order.
\<close>

record queue_run =
  qr_queue :: sendq
  qr_accepted :: "packet list"
  qr_sent :: "packet list"

inductive queue_step :: "queue_run \<Rightarrow> queue_run \<Rightarrow> bool" where
  enqueue: "queue_step r
     (r\<lparr>qr_queue := queueSend p (qr_queue r), qr_accepted := qr_accepted r @ [p]\<rparr>)"
| worker_take: "i < length (sq_workers (qr_queue r)) \<Longrightarrow> sq_workers (qr_queue r) ! i = AtTop \<Longrightarrow>
     queue_step r (r\<lparr>qr_queue := sendQueued_take i (qr_queue r)\<rparr>)"
| worker_send: "i < length (sq_workers (qr_queue r)) \<Longrightarrow>
     sq_workers (qr_queue r) ! i = HoldsPacket p \<Longrightarrow>
     queue_step r (r\<lparr>qr_queue := sendQueued_done i (qr_queue r), qr_sent := qr_sent r @ [p]\<rparr>)"

inductive_cases queue_stepE: "queue_step r r'"

definition queue_init :: "queue_run \<Rightarrow> bool" where
  "queue_init r \<longleftrightarrow> r = \<lparr>qr_queue = empty_queue, qr_accepted = [], qr_sent = []\<rparr>"

subsection \<open>Creating a backend\<close>

text \<open>
  The metadata of the incoming stream; \<open>None\<close> when the context carries none. A key that is
  absent has no values.
\<close>

type_synonym metadata = "(string \<Rightarrow> string list) option"

definition getAgentID :: "metadata \<Rightarrow> go_error + string" where
  "getAgentID md =
     (case md of
        None \<Rightarrow> Inl (ErrText ''failed to get context'')
      | Some get \<Rightarrow>
          (case get ''agentID'' of
             [a] \<Rightarrow> Inr a
           | _ \<Rightarrow> Inl (ErrText ''expected one agent ID in the context'')))"

definition getAgentIdentifiers :: "metadata \<Rightarrow> (go_error + identifiers) outcome" where
  "getAgentIdentifiers md =
     (case md of
        None \<Rightarrow> Ret (Inl (ErrText ''failed to get metadata from context''))
      | Some get \<Rightarrow>
          (let agentIdent = get ''agentIdentifiers'' in
           if length agentIdent > 1
           then Ret (Inl (ErrText ''expected at most one set of agent identifiers in the context''))
           else (case agentIdent of
                   [] \<Rightarrow> Ret (Inr no_identifiers)
                 | a # _ \<Rightarrow> GenAgentIdentifiers a)))"

definition NewBackend :: "metadata \<Rightarrow> (go_error + backend) outcome" where
  "NewBackend md =
     (case getAgentID md of
        Inl err \<Rightarrow> Ret (Inl err)
      | Inr agentID \<Rightarrow>
          bind_outcome (getAgentIdentifiers md) (\<lambda>r.
            case r of
              Inl err \<Rightarrow> Ret (Inl err)
            | Inr idents \<Rightarrow> Ret (Inr
                \<lparr>be_id = agentID, be_idents = idents, be_done = False, be_draining = False,
                 be_recvLen = 0, be_recvCap = None, be_receivedEOF = False,
                 be_dialsInFlight = 0, be_queue = empty_queue, be_dialLatency = 0,
                 be_dialLatencyAt = None\<rparr>)))"

subsection \<open>Latency bookkeeping\<close>

text \<open>The latency a backend is held to: its average while a sample is recent, else nothing.\<close>

definition recentLatency :: "time \<Rightarrow> backend \<Rightarrow> duration" where
  "recentLatency now b =
     (case be_dialLatencyAt b of
        Some t \<Rightarrow> if time_sub now t \<le> dialLatencyWindow then be_dialLatency b else 0
      | None \<Rightarrow> 0)"

lemma dialLatencyFloor_pos [simp]: "0 < dialLatencyFloor"
  by (simp add: dialLatencyFloor_def Millisecond_def)

lemma dialCost_latency:
  "(case be_dialLatencyAt b of
      None \<Rightarrow> dialLatencyFloor
    | Some t \<Rightarrow>
        if time_sub now t \<le> dialLatencyWindow \<and> be_dialLatency b > dialLatencyFloor
        then be_dialLatency b else dialLatencyFloor)
   = max dialLatencyFloor (recentLatency now b)"
  using dialLatencyFloor_pos
  by (auto simp: recentLatency_def max_def simp del: dialLatencyFloor_pos split: option.splits)

lemma average_between:
  fixes a d :: int
  assumes "0 \<le> a" and "0 \<le> d"
  shows "min a d \<le> (a + d) div 2" and "(a + d) div 2 \<le> max a d"
  using assms by (auto simp: min_def max_def)

subsection \<open>The send queue: one sender, in order\<close>

fun in_hand :: "sender \<Rightarrow> packet list" where
  "in_hand AtTop = []"
| "in_hand (HoldsPacket p) = [p]"

definition queue_inv :: "queue_run \<Rightarrow> bool" where
  "queue_inv r \<longleftrightarrow>
     (let q = qr_queue r in
      length (sq_workers q) = (if sq_sending q then 1 else 0) \<and>
      qr_accepted r = qr_sent r @ concat (map in_hand (sq_workers q)) @ sq_queued q \<and>
      (\<not> sq_sending q \<longrightarrow> sq_queued q = []))"

lemma queue_inv_init: "queue_init r \<Longrightarrow> queue_inv r"
  by (simp add: queue_init_def queue_inv_def empty_queue_def)

lemma single_worker:
  "length ws = (if b then 1 else 0) \<Longrightarrow> i < length ws \<Longrightarrow> i = 0 \<and> b \<and> ws = [ws ! 0]"
  by (cases ws) (auto split: if_splits)

lemma queue_inv_step: "queue_inv r \<Longrightarrow> queue_step r r' \<Longrightarrow> queue_inv r'"
proof (elim queue_stepE)
  fix p
  assume "queue_inv r"
    and "r' = r\<lparr>qr_queue := queueSend p (qr_queue r), qr_accepted := qr_accepted r @ [p]\<rparr>"
  then show "queue_inv r'"
    by (auto simp: queue_inv_def queueSend_def Let_def split: if_splits)
next
  fix i
  assume inv: "queue_inv r" and r': "r' = r\<lparr>qr_queue := sendQueued_take i (qr_queue r)\<rparr>"
    and i: "i < length (sq_workers (qr_queue r))" and top: "sq_workers (qr_queue r) ! i = AtTop"
  have w: "i = 0 \<and> sq_sending (qr_queue r) \<and>
      sq_workers (qr_queue r) = [sq_workers (qr_queue r) ! 0]"
    using inv i by (intro single_worker) (simp_all add: queue_inv_def Let_def)
  then have "i = 0" and "sq_workers (qr_queue r) = [AtTop]" and "sq_sending (qr_queue r)"
    using top by simp_all
  with inv r' show "queue_inv r'"
    by (simp add: queue_inv_def sendQueued_take_def Let_def split: list.splits)
next
  fix i p
  assume inv: "queue_inv r"
    and r': "r' = r\<lparr>qr_queue := sendQueued_done i (qr_queue r), qr_sent := qr_sent r @ [p]\<rparr>"
    and i: "i < length (sq_workers (qr_queue r))"
    and hold: "sq_workers (qr_queue r) ! i = HoldsPacket p"
  have w: "i = 0 \<and> sq_sending (qr_queue r) \<and>
      sq_workers (qr_queue r) = [sq_workers (qr_queue r) ! 0]"
    using inv i by (intro single_worker) (simp_all add: queue_inv_def Let_def)
  then have "i = 0" and "sq_workers (qr_queue r) = [HoldsPacket p]" and "sq_sending (qr_queue r)"
    using hold by simp_all
  with inv r' show "queue_inv r'"
    by (simp add: queue_inv_def sendQueued_done_def Let_def)
qed

interpretation send_queue: invariant_system queue_init queue_step queue_inv
  by unfold_locales (blast intro: queue_inv_init queue_inv_step)+

subsection \<open>Properties\<close>

text \<open>
  A new dial over a backend is costed at its recent average latency, never below the 5 ms
  floor, times one more than the dials in flight; a backend with no sample in the last 30 s
  counts as fast. This holds exactly as long as the 64-bit product does not wrap.
\<close>

theorem dialCost_exact:
  assumes "in_int64 (max 0 (be_dialsInFlight b) + 1)"
    and "in_int64 (max dialLatencyFloor (recentLatency now b) * (max 0 (be_dialsInFlight b) + 1))"
  shows "dialCost now b =
     max dialLatencyFloor (recentLatency now b) * (max 0 (be_dialsInFlight b) + 1)"
proof -
  have "(if be_dialsInFlight b < 0 then 0 else be_dialsInFlight b) = max 0 (be_dialsInFlight b)"
    by simp
  with assms show ?thesis unfolding dialCost_def Let_def dialCost_latency by simp
qed

definition sample_backend :: backend where
  "sample_backend =
     \<lparr>be_id = ''a'', be_idents = no_identifiers, be_done = False, be_draining = False,
      be_recvLen = 0, be_recvCap = Some 10, be_receivedEOF = False, be_dialsInFlight = 2,
      be_queue = empty_queue, be_dialLatency = 40 * Millisecond, be_dialLatencyAt = Some 0\<rparr>"

theorem dialCost_exact_witness:
  "dialCost Second sample_backend = 120 * Millisecond \<and>
   dialCost (31 * Second) sample_backend = 15 * Millisecond"
  using dialCost_exact [of sample_backend Second] dialCost_exact [of sample_backend "31 * Second"]
  by (simp add: sample_backend_def in_int64_def recentLatency_def time_sub_def sat64_def
      dialLatencyWindow_def dialLatencyFloor_def Second_def Millisecond_def)

definition recentlyObserved :: "time \<Rightarrow> backend \<Rightarrow> bool" where
  "recentlyObserved now b \<longleftrightarrow>
     (case be_dialLatencyAt b of Some t \<Rightarrow> time_sub now t \<le> dialLatencyWindow | None \<Rightarrow> False)"

text \<open>
  Recording a completed dial keeps the backend's latency between the old average and the
  new sample while the old one is recent, and replaces it by the sample otherwise.
\<close>

theorem observeDial_average:
  assumes "0 \<le> be_dialLatency b" and "0 \<le> d" and "in_int64 (be_dialLatency b + d)"
  shows "be_dialLatencyAt (observeDial d now b) = Some now \<and>
    (if recentlyObserved now b
     then min (be_dialLatency b) d \<le> be_dialLatency (observeDial d now b) \<and>
          be_dialLatency (observeDial d now b) \<le> max (be_dialLatency b) d
     else be_dialLatency (observeDial d now b) = d)"
  using assms average_between [of "be_dialLatency b" d]
  by (auto simp: recentlyObserved_def observeDial_def trunc_div_nonneg split: option.splits)

theorem observeDial_average_witness:
  "be_dialLatency (observeDial (20 * Millisecond) Second sample_backend) \<le> 40 * Millisecond \<and>
   be_dialLatency (observeDial (20 * Millisecond) (40 * Second) sample_backend) = 20 * Millisecond"
  using observeDial_average [of sample_backend "20 * Millisecond" Second]
    observeDial_average [of sample_backend "20 * Millisecond" "40 * Second"]
  by (simp add: sample_backend_def in_int64_def recentlyObserved_def time_sub_def sat64_def
      dialLatencyWindow_def Second_def Millisecond_def)


definition queue_sample :: queue_run where
  "queue_sample =
     \<lparr>qr_queue = \<lparr>sq_queued = [newDrainPacket], sq_sending = True, sq_workers = [AtTop]\<rparr>,
      qr_accepted = [newDrainPacket], qr_sent = []\<rparr>"

lemma queue_sample_reach: "reach queue_init queue_step queue_sample"
proof -
  let ?r = "\<lparr>qr_queue = empty_queue, qr_accepted = [], qr_sent = []\<rparr>"
  have "reach queue_init queue_step ?r" by (rule reach_init) (simp add: queue_init_def)
  from reach_step [OF this queue_step.enqueue [of _ newDrainPacket]] show ?thesis
    by (simp add: queue_sample_def queueSend_def empty_queue_def Let_def)
qed


end
