(* ===== verification/KNP_Storage.thy ===== *)
theory KNP_Storage
  imports KNP_Backend
begin

section \<open>DefaultBackendStorage: registered agents and the random-routing index\<close>

text \<open>
  \<^verbatim>\<open>DefaultBackendStorage\<close> of \<^verbatim>\<open>pkg/server/backend_manager.go\<close>. Its methods run under the
  storage lock, so each is one step. The draining flag of a backend is set outside the lock
  (\<open>SetDraining\<close> of the heap), before the storage is told, so the index may lag behind it:
  \<open>storage_inv\<close> says what holds in every interleaving, and \<open>storage_step\<close> interleaves the
  operations with flags being set at any moment.

  Random numbers come from a source \<open>rng\<close>, a sequence of numbers of which \<open>Intn\<close> uses one
  per call; the theorems hold for every sequence.
\<close>

subsection \<open>State\<close>

record storage =
  st_backends :: "(string, bid list) gomap"
  st_nonDraining :: "string list"
  st_draining :: "string list"
  st_maintain :: bool
  st_idTypes :: "identifier_type list"
  st_strategy :: proxy_strategy
  st_totalGauge :: nat

definition NewDefaultBackendStorage :: "identifier_type list \<Rightarrow> proxy_strategy \<Rightarrow> storage" where
  "NewDefaultBackendStorage idTypes strategy =
     \<lparr>st_backends = [], st_nonDraining = [], st_draining = [],
      st_maintain = (strategy = ProxyStrategyDefault \<or> strategy = ProxyStrategyDefaultRoute),
      st_idTypes = idTypes, st_strategy = strategy, st_totalGauge = 0\<rparr>"

definition containIDType :: "identifier_type list \<Rightarrow> identifier_type \<Rightarrow> bool" where
  "containIDType idTypes idType \<longleftrightarrow> idType \<in> set idTypes"

subsection \<open>The identifier lists\<close>

fun index_of :: "string list \<Rightarrow> string \<Rightarrow> nat option" where
  "index_of [] x = None"
| "index_of (y # ys) x = (if y = x then Some 0 else map_option Suc (index_of ys x))"

definition removeIdentifier :: "string list \<Rightarrow> string \<Rightarrow> string list" where
  "removeIdentifier identifiers identifier =
     (case index_of identifiers identifier of
        None \<Rightarrow> identifiers
      | Some i \<Rightarrow>
          take (length identifiers - 1)
            (identifiers[i := identifiers ! (length identifiers - 1)]))"

definition backends_of :: "storage \<Rightarrow> string \<Rightarrow> bid list" where
  "backends_of s identifier = (case gm_get (st_backends s) identifier of Some bs \<Rightarrow> bs | None \<Rightarrow> [])"

definition refreshIdentifierState :: "bheap \<Rightarrow> string \<Rightarrow> storage \<Rightarrow> storage" where
  "refreshIdentifierState h identifier s =
     (case backends_of s identifier of
        [] \<Rightarrow> s\<lparr>st_nonDraining := removeIdentifier (st_nonDraining s) identifier,
               st_draining := removeIdentifier (st_draining s) identifier\<rparr>
      | b # _ \<Rightarrow>
          if IsDraining (h b) then
            (let s' = s\<lparr>st_nonDraining := removeIdentifier (st_nonDraining s) identifier\<rparr> in
             if identifier \<in> set (st_draining s') then s'
             else s'\<lparr>st_draining := st_draining s' @ [identifier]\<rparr>)
          else
            (let s' = s\<lparr>st_draining := removeIdentifier (st_draining s) identifier\<rparr> in
             if identifier \<in> set (st_nonDraining s') then s'
             else s'\<lparr>st_nonDraining := st_nonDraining s' @ [identifier]\<rparr>))"

subsection \<open>Adding, marking, removing\<close>

definition storage_addBackend ::
  "bheap \<Rightarrow> string \<Rightarrow> identifier_type \<Rightarrow> bid \<Rightarrow> storage \<Rightarrow> storage" where
  "storage_addBackend h identifier idType b s =
     (if \<not> containIDType (st_idTypes s) idType then s
      else
        (case gm_get (st_backends s) identifier of
           Some bs \<Rightarrow>
             if b \<in> set bs then s
             else s\<lparr>st_backends := gm_put identifier (bs @ [b]) (st_backends s)\<rparr>
         | None \<Rightarrow>
             let s1 = s\<lparr>st_backends := gm_put identifier [b] (st_backends s)\<rparr>;
                 s2 = (if st_maintain s1 then
                         (if IsDraining (h b)
                          then s1\<lparr>st_draining := st_draining s1 @ [identifier]\<rparr>
                          else s1\<lparr>st_nonDraining := st_nonDraining s1 @ [identifier]\<rparr>)
                       else s1)
             in s2\<lparr>st_totalGauge := length (st_backends s2)\<rparr>))"

definition markIdentifierBackendDraining ::
  "bheap \<Rightarrow> string \<Rightarrow> identifier_type \<Rightarrow> bid \<Rightarrow> storage \<Rightarrow> storage" where
  "markIdentifierBackendDraining h identifier idType b s =
     (if \<not> containIDType (st_idTypes s) idType then s
      else
        (case gm_get (st_backends s) identifier of
           None \<Rightarrow> s
         | Some bs \<Rightarrow>
             (case bs of
                [] \<Rightarrow> s
              | b0 # _ \<Rightarrow> if b0 \<noteq> b then s else refreshIdentifierState h identifier s)))"

text \<open>
  The loop of \<^verbatim>\<open>removeBackend\<close>. The slice it ranges over and the slice it shrinks share one
  array: \<open>arr\<close> is that array, \<open>n\<close> the length the range loop fixed when it started, \<open>m\<close> the
  current length of the stored slice. Cutting out position \<open>i\<close> moves the later elements one
  place down in the array, so the following iterations read moved elements; a cut beyond the
  current length would panic.
\<close>

function remove_loop ::
  "bid \<Rightarrow> nat \<Rightarrow> nat \<Rightarrow> bid list \<Rightarrow> nat \<Rightarrow> bool \<Rightarrow> (bid list \<times> nat \<times> bool) outcome" where
  "remove_loop b i n arr m found =
     (if i < n then
        if arr ! i = b then
          if Suc i > m then Panic ''slice bounds out of range''
          else remove_loop b (Suc i) n
                 (take i arr @ drop (Suc i) (take m arr) @ drop (m - 1) arr) (m - 1) True
        else remove_loop b (Suc i) n arr m found
      else Ret (arr, m, found))"
  by pat_completeness auto
termination
  by (relation "measure (\<lambda>(b, i, n, arr, m, found). n - i)") auto

declare remove_loop.simps [simp del]

definition storage_removeBackend ::
  "bheap \<Rightarrow> string \<Rightarrow> identifier_type \<Rightarrow> bid \<Rightarrow> storage \<Rightarrow> storage outcome" where
  "storage_removeBackend h identifier idType b s =
     (if \<not> containIDType (st_idTypes s) idType then Ret s
      else
        (case gm_get (st_backends s) identifier of
           None \<Rightarrow> Ret s
         | Some bs \<Rightarrow>
             bind_outcome (remove_loop b 0 (length bs) bs (length bs) False)
               (\<lambda>(arr, m, found).
                  let s1 = (if found
                            then s\<lparr>st_backends := gm_put identifier (take m arr) (st_backends s)\<rparr>
                            else s);
                      s2 = (if length (backends_of s1 identifier) = 0
                            then s1\<lparr>st_backends := gm_delete identifier (st_backends s1)\<rparr>
                            else s1);
                      s3 = (if st_maintain s2 then refreshIdentifierState h identifier s2 else s2)
                  in Ret (s3\<lparr>st_totalGauge := length (st_backends s3)\<rparr>))))"

definition NumBackends :: "storage \<Rightarrow> nat" where
  "NumBackends s = length (st_backends s)"

definition storage_Ready :: "storage \<Rightarrow> bool \<times> string" where
  "storage_Ready s =
     (if NumBackends s = 0 then (False, ''no connection to any proxy agent'') else (True, []))"

subsection \<open>Choosing a backend\<close>

type_synonym rng = "nat \<Rightarrow> nat"

definition Intn :: "rng \<Rightarrow> nat \<Rightarrow> nat \<times> rng" where
  "Intn r n = (r 0 mod n, r \<circ> Suc)"

lemma Intn_less: "(k, r') = Intn r n \<Longrightarrow> 0 < n \<Longrightarrow> k < n"
  by (simp add: Intn_def)

definition lessOccupiedBackend :: "bheap \<Rightarrow> rng \<Rightarrow> bid \<Rightarrow> bid \<Rightarrow> bid \<times> rng" where
  "lessOccupiedBackend h r first second =
     (let firstOccupancy = RecvChannelOccupancy (h first);
          secondOccupancy = RecvChannelOccupancy (h second) in
      if firstOccupancy < secondOccupancy then (first, r)
      else if secondOccupancy < firstOccupancy then (second, r)
      else (let (k, r') = Intn r 2 in if k = 0 then (first, r') else (second, r')))"

definition preferredBackend :: "time \<Rightarrow> bheap \<Rightarrow> rng \<Rightarrow> bid \<Rightarrow> bid \<Rightarrow> bid \<times> rng" where
  "preferredBackend now h r first second =
     (let firstCost = dialCost now (h first); secondCost = dialCost now (h second) in
      if secondCost \<ge> wrap64 (2 * firstCost) then (first, r)
      else if firstCost \<ge> wrap64 (2 * secondCost) then (second, r)
      else lessOccupiedBackend h r first second)"

text \<open>\<^verbatim>\<open>s.backends[id][0]\<close>: it panics for an identifier without backends.\<close>

definition primary_of :: "storage \<Rightarrow> string \<Rightarrow> bid outcome" where
  "primary_of s identifier =
     (case backends_of s identifier of [] \<Rightarrow> Panic index_out_of_range | b # _ \<Rightarrow> Ret b)"

lemma index_of_None: "index_of xs x = None \<longleftrightarrow> x \<notin> set xs"
  by (induction xs) auto

lemma index_of_Some: "index_of xs x = Some i \<Longrightarrow> i < length xs \<and> xs ! i = x"
  by (induction xs arbitrary: i) (auto split: if_splits)

lemma length_removeIdentifier:
  "length (removeIdentifier xs x) = (if x \<in> set xs then length xs - 1 else length xs)"
  using index_of_None [of xs x] by (auto simp: removeIdentifier_def split: option.splits)

lemma primary_of_Ret: "primary_of s i = Ret b \<longleftrightarrow> (\<exists>bs. backends_of s i = b # bs)"
  by (auto simp: primary_of_def split: list.splits)

lemma refresh_draining_shrinks:
  assumes "primary_of s i = Ret b" and "IsDraining (h b)" and "i \<in> set (st_nonDraining s)"
  shows "length (st_nonDraining (refreshIdentifierState h i s)) < length (st_nonDraining s)"
proof -
  have "st_nonDraining s \<noteq> []" using assms(3) by auto
  with assms show ?thesis
    by (auto simp: primary_of_Ret refreshIdentifierState_def length_removeIdentifier Let_def)
qed

text \<open>
  The selection loop. A draining candidate is moved to the other list and both candidates are
  drawn again; each such round shortens the list of non-draining identifiers.
\<close>

function GetRandomBackend_loop ::
  "time \<Rightarrow> bheap \<Rightarrow> rng \<Rightarrow> storage \<Rightarrow> ((go_error + bid) \<times> storage \<times> rng) outcome" where
  "GetRandomBackend_loop now h r s =
     (if length (st_nonDraining s) > 0 then
        (let (firstIndex, r1) = Intn r (length (st_nonDraining s));
             firstAgentID = st_nonDraining s ! firstIndex in
         case primary_of s firstAgentID of
           Panic m \<Rightarrow> Panic m
         | Ret first \<Rightarrow>
             if IsDraining (h first)
             then GetRandomBackend_loop now h r1 (refreshIdentifierState h firstAgentID s)
             else if length (st_nonDraining s) = 1 then Ret (Inr first, s, r1)
             else
               (let (k, r2) = Intn r1 (length (st_nonDraining s) - 1);
                    secondIndex = (if k \<ge> firstIndex then Suc k else k);
                    secondAgentID = st_nonDraining s ! secondIndex in
                case primary_of s secondAgentID of
                  Panic m \<Rightarrow> Panic m
                | Ret second \<Rightarrow>
                    if IsDraining (h second)
                    then GetRandomBackend_loop now h r2 (refreshIdentifierState h secondAgentID s)
                    else (let (selected, r3) = preferredBackend now h r2 first second
                          in Ret (Inr selected, s, r3))))
      else if length (st_draining s) > 0 then
        (let (i, r1) = Intn r (length (st_draining s)) in
         case primary_of s (st_draining s ! i) of
           Panic m \<Rightarrow> Panic m
         | Ret b \<Rightarrow> Ret (Inr b, s, r1))
      else Ret (Inl ErrNotFound, s, r))"
  by pat_completeness auto
termination
proof (relation "measure (\<lambda>(now, h, r, s). length (st_nonDraining s))")
  fix now :: time and h :: bheap and r :: rng and s :: storage
    and firstIndex r1 firstAgentID first p
  assume "0 < length (st_nonDraining s)" and "p = Intn r (length (st_nonDraining s))"
    and "(firstIndex, r1) = p" and "firstAgentID = st_nonDraining s ! firstIndex"
    and "primary_of s firstAgentID = Ret first" and "IsDraining (h first)"
  then show "((now, h, r1, refreshIdentifierState h firstAgentID s), now, h, r, s)
      \<in> measure (\<lambda>(now, h, r, s). length (st_nonDraining s))"
    by (auto simp: Intn_def intro!: refresh_draining_shrinks)
next
  fix now :: time and h :: bheap and r :: rng and s :: storage
    and firstIndex r1 firstAgentID first p k r2 secondIndex secondAgentID second p2
  assume "0 < length (st_nonDraining s)" and "p = Intn r (length (st_nonDraining s))"
    and "(firstIndex, r1) = p"
    and "length (st_nonDraining s) \<noteq> 1"
    and "p2 = Intn r1 (length (st_nonDraining s) - 1)" and "(k, r2) = p2"
    and si: "secondIndex = (if firstIndex \<le> k then Suc k else k)"
    and id: "secondAgentID = st_nonDraining s ! secondIndex"
    and "primary_of s secondAgentID = Ret second" and "IsDraining (h second)"
  moreover from this have "0 < length (st_nonDraining s) - 1" by linarith
  with \<open>p2 = _\<close> \<open>(k, r2) = p2\<close> have "k < length (st_nonDraining s) - 1"
    by (metis Intn_less)
  then have "secondIndex < length (st_nonDraining s)" using si by auto
  ultimately show "((now, h, r2, refreshIdentifierState h secondAgentID s), now, h, r, s)
      \<in> measure (\<lambda>(now, h, r, s). length (st_nonDraining s))"
    by (auto intro!: refresh_draining_shrinks)
qed simp

declare GetRandomBackend_loop.simps [simp del]

definition GetRandomBackend ::
  "time \<Rightarrow> bheap \<Rightarrow> rng \<Rightarrow> storage \<Rightarrow> ((go_error + bid) \<times> storage \<times> rng) outcome" where
  "GetRandomBackend now h r s =
     (if length (st_backends s) = 0 then Ret (Inl ErrNotFound, s, r)
      else GetRandomBackend_loop now h r s)"

subsection \<open>What the identifier lists hold\<close>

lemma mset_removeIdentifier: "mset (removeIdentifier xs x) = mset xs - {#x#}"
proof (cases "index_of xs x")
  case None
  then show ?thesis by (simp add: removeIdentifier_def) (simp add: index_of_None)
next
  case (Some i)
  then have i: "i < length xs" "xs ! i = x" by (simp_all add: index_of_Some)
  then obtain ys l where xs: "xs = ys @ [l]" by (cases xs rule: rev_cases) auto
  show ?thesis
  proof (cases "i = length ys")
    case True
    with Some i xs show ?thesis by (simp add: removeIdentifier_def list_update_append)
  next
    case False
    with i xs have len: "i < length ys" and y: "ys ! i = x" by (auto simp: nth_append)
    then have "mset (ys[i := l]) = add_mset l (mset ys - {#x#})" and "x \<in># mset ys"
      by (auto simp: mset_update)
    with Some xs len show ?thesis by (auto simp: removeIdentifier_def list_update_append)
  qed
qed

lemma distinct_removeIdentifier [simp]:
  "distinct xs \<Longrightarrow> distinct (removeIdentifier xs x)"
  by (metis distinct_remove1 mset_eq_imp_distinct_iff mset_remove1 mset_removeIdentifier)

lemma set_removeIdentifier [simp]:
  "distinct xs \<Longrightarrow> set (removeIdentifier xs x) = set xs - {x}"
  by (metis mset_eq_setD mset_remove1 mset_removeIdentifier set_remove1_eq)

lemma removeIdentifier_Nil [simp]: "removeIdentifier [] x = []"
  by (simp add: removeIdentifier_def)

subsection \<open>The removal loop on a list without duplicates\<close>

lemma remove_loop_skip:
  "\<forall>j. i \<le> j \<and> j < n \<longrightarrow> arr ! j \<noteq> b \<Longrightarrow> remove_loop b i n arr m found = Ret (arr, m, found)"
  by (induction b i n arr m found rule: remove_loop.induct) (subst remove_loop.simps, auto)

lemma remove_loop_prefix:
  "k \<le> n \<Longrightarrow> \<forall>j < k. i \<le> j \<longrightarrow> arr ! j \<noteq> b \<Longrightarrow> i \<le> k \<Longrightarrow>
     remove_loop b i n arr m found = remove_loop b k n arr m found"
proof (induction b i n arr m found rule: remove_loop.induct)
  case (1 b i n arr m found)
  show ?case
  proof (cases "i = k")
    case False
    with 1 show ?thesis by (subst remove_loop.simps) auto
  qed simp
qed

lemma remove_loop_distinct:
  assumes "distinct bs"
  shows "\<exists>arr m. remove_loop b 0 (length bs) bs (length bs) False = Ret (arr, m, b \<in> set bs) \<and>
     (b \<in> set bs \<longrightarrow> take m arr = remove1 b bs)"
proof (cases "b \<in> set bs")
  case False
  then have "remove_loop b 0 (length bs) bs (length bs) False = Ret (bs, length bs, False)"
    by (intro remove_loop_skip) auto
  with False show ?thesis by auto
next
  case True
  then obtain xs ys where bs: "bs = xs @ b # ys" and nx: "b \<notin> set xs"
    by (meson split_list_first)
  with assms have ny: "b \<notin> set ys" by simp
  let ?arr = "xs @ ys @ drop (length xs + length ys) bs"
  have "remove_loop b 0 (length bs) bs (length bs) False =
      remove_loop b (length xs) (length bs) bs (length bs) False"
    using bs nx by (intro remove_loop_prefix) (auto simp: nth_append)
  also have "\<dots> = remove_loop b (Suc (length xs)) (length bs) ?arr (length bs - 1) True"
    by (subst remove_loop.simps) (simp add: bs)
  also have "\<dots> = Ret (?arr, length bs - 1, True)"
  proof (intro remove_loop_skip allI impI)
    fix j assume j: "Suc (length xs) \<le> j \<and> j < length bs"
    show "?arr ! j \<noteq> b"
    proof (cases "ys")
      case (Cons y ys')
      have "?arr ! j \<in> set (ys @ drop (length xs + length ys) bs)"
        using j bs by (auto simp: nth_append in_set_conv_nth split: if_splits)
      moreover have "set (drop (length xs + length ys) bs) \<subseteq> set ys"
        using Cons bs by (auto simp: drop_Cons' dest: in_set_dropD)
      ultimately show ?thesis using ny by auto
    qed (use j bs in auto)
  qed
  finally show ?thesis using True nx bs by (auto simp: remove1_append)
qed

subsection \<open>The storage invariant\<close>

text \<open>
  Every registered identifier has backends, without duplicates; the gauge counts the
  identifiers. Where the random-routing index is kept, each registered identifier is in
  exactly one of its lists, and one in the draining list has a draining primary backend. The
  converse does not hold between \<open>SetDraining\<close> and the notification of the storage.
\<close>

definition index_ok :: "bheap \<Rightarrow> storage \<Rightarrow> bool" where
  "index_ok h s \<longleftrightarrow>
     (if st_maintain s then
        distinct (st_nonDraining s @ st_draining s) \<and>
        set (st_nonDraining s @ st_draining s) = set (gm_keys (st_backends s)) \<and>
        (\<forall>i \<in> set (st_draining s). IsDraining (h (hd (backends_of s i))))
      else st_nonDraining s = [] \<and> st_draining s = [])"

definition entries_ok :: "storage \<Rightarrow> bool" where
  "entries_ok s \<longleftrightarrow>
     gm_wf (st_backends s) \<and> (\<forall>(i, bs) \<in> set (st_backends s). bs \<noteq> [] \<and> distinct bs)"

definition storage_inv :: "bheap \<Rightarrow> storage \<Rightarrow> bool" where
  "storage_inv h s \<longleftrightarrow>
     entries_ok s \<and> st_totalGauge s = length (st_backends s) \<and> index_ok h s"

lemma entries_ok_get:
  "entries_ok s \<longleftrightarrow> gm_wf (st_backends s) \<and>
     (\<forall>i bs. gm_get (st_backends s) i = Some bs \<longrightarrow> bs \<noteq> [] \<and> distinct bs)"
  by (auto simp: entries_ok_def gm_get_wf_iff) blast+

lemma backends_of_registered:
  "entries_ok s \<Longrightarrow> backends_of s i \<noteq> [] \<longleftrightarrow> i \<in> set (gm_keys (st_backends s))"
  by (auto simp: entries_ok_get backends_of_def gm_get_None_iff gm_get_Some_key
      split: option.splits)

lemma storage_inv_init: "storage_inv h (NewDefaultBackendStorage idTypes strategy)"
  by (simp add: storage_inv_def NewDefaultBackendStorage_def entries_ok_def index_ok_def gm_keys_def)

text \<open>Refreshing one identifier repairs the index when only that identifier is misplaced.\<close>

definition index_ok_but :: "string \<Rightarrow> bheap \<Rightarrow> storage \<Rightarrow> bool" where
  "index_ok_but i h s \<longleftrightarrow>
     distinct (st_nonDraining s @ st_draining s) \<and>
     set (st_nonDraining s @ st_draining s) - {i} = set (gm_keys (st_backends s)) - {i} \<and>
     (\<forall>j \<in> set (st_draining s) - {i}. IsDraining (h (hd (backends_of s j))))"

lemma refresh_fields [simp]:
  "st_backends (refreshIdentifierState h i s) = st_backends s"
  "st_maintain (refreshIdentifierState h i s) = st_maintain s"
  "st_idTypes (refreshIdentifierState h i s) = st_idTypes s"
  "st_strategy (refreshIdentifierState h i s) = st_strategy s"
  "st_totalGauge (refreshIdentifierState h i s) = st_totalGauge s"
  "backends_of (refreshIdentifierState h i s) j = backends_of s j"
  by (auto simp: refreshIdentifierState_def Let_def backends_of_def split: list.splits)

lemma refresh_index_ok:
  assumes e: "entries_ok s" and m: "st_maintain s" and i: "index_ok_but i h s"
  shows "index_ok h (refreshIdentifierState h i s)"
proof (cases "backends_of s i")
  case Nil
  with e have "i \<notin> set (gm_keys (st_backends s))" by (simp add: backends_of_registered [symmetric])
  with m i Nil show ?thesis
    by (auto simp: index_ok_def index_ok_but_def refreshIdentifierState_def backends_of_def)
next
  case (Cons b bs)
  with e have k: "i \<in> set (gm_keys (st_backends s))" by (simp add: backends_of_registered [symmetric])
  let ?s = "refreshIdentifierState h i s"
  have sets: "set (st_nonDraining ?s) = (if IsDraining (h b) then set (st_nonDraining s) - {i}
        else insert i (set (st_nonDraining s)))"
    "set (st_draining ?s) = (if IsDraining (h b) then insert i (set (st_draining s))
        else set (st_draining s) - {i})"
    using i Cons by (auto simp: refreshIdentifierState_def Let_def index_ok_but_def)
  have "distinct (st_nonDraining ?s)" and "distinct (st_draining ?s)"
    using i Cons by (auto simp: refreshIdentifierState_def Let_def index_ok_but_def)
  moreover have "set (st_nonDraining ?s) \<inter> set (st_draining ?s) = {}"
    using i by (auto simp: sets index_ok_but_def)
  moreover have "set (st_nonDraining ?s) \<union> set (st_draining ?s) = set (gm_keys (st_backends s))"
    using i k by (auto simp: sets index_ok_but_def split: if_splits)
  moreover have "\<forall>j \<in> set (st_draining ?s). IsDraining (h (hd (backends_of s j)))"
    using i Cons by (auto simp: sets index_ok_but_def)
  ultimately show ?thesis using m by (simp add: index_ok_def)
qed

lemma refresh_inv:
  "storage_inv h s \<Longrightarrow> st_maintain s \<Longrightarrow> storage_inv h (refreshIdentifierState h i s)"
  unfolding storage_inv_def
  by (auto simp: entries_ok_def intro!: refresh_index_ok) (auto simp: index_ok_def index_ok_but_def)

text \<open>The index only depends on the registered identifiers and their primary backends.\<close>

lemma index_ok_cong:
  assumes "index_ok h s" and "st_maintain s' = st_maintain s"
    and "st_nonDraining s' = st_nonDraining s" and "st_draining s' = st_draining s"
    and "set (gm_keys (st_backends s')) = set (gm_keys (st_backends s))"
    and "\<And>i. i \<in> set (gm_keys (st_backends s)) \<Longrightarrow> hd (backends_of s' i) = hd (backends_of s i)"
  shows "index_ok h s'"
  using assms unfolding index_ok_def by (metis Un_iff set_append)

lemma index_ok_but_put:
  assumes "index_ok h s" and "st_maintain s" and "st_nonDraining s' = st_nonDraining s"
    and "st_draining s' = st_draining s"
    and "set (gm_keys (st_backends s')) - {i} = set (gm_keys (st_backends s)) - {i}"
    and "\<And>j. j \<noteq> i \<Longrightarrow> backends_of s' j = backends_of s j"
  shows "index_ok_but i h s'"
  using assms by (auto simp: index_ok_def index_ok_but_def)

lemma add_inv:
  assumes inv: "storage_inv h s"
  shows "storage_inv h (storage_addBackend h i t b s)"
proof (cases "gm_get (st_backends s) i")
  case None
  then have "i \<notin> set (gm_keys (st_backends s))" by (simp add: gm_get_None_iff)
  with inv None show ?thesis
    by (auto simp: storage_addBackend_def storage_inv_def entries_ok_get index_ok_def backends_of_def
        Let_def split: if_splits)
next
  case (Some bs)
  let ?s = "s\<lparr>st_backends := gm_put i (bs @ [b]) (st_backends s)\<rparr>"
  from inv Some have bs: "bs \<noteq> []" by (auto simp: storage_inv_def entries_ok_get)
  have "index_ok h ?s"
  proof (rule index_ok_cong [of h s])
    show "index_ok h s" using inv by (simp add: storage_inv_def)
    show "set (gm_keys (st_backends ?s)) = set (gm_keys (st_backends s))"
      using Some by (auto simp: gm_get_Some_key)
    fix j show "hd (backends_of ?s j) = hd (backends_of s j)"
      using Some bs by (simp add: backends_of_def)
  qed simp_all
  moreover have "b \<notin> set bs \<Longrightarrow> entries_ok ?s"
    using inv Some by (auto simp: storage_inv_def entries_ok_get)
  ultimately show ?thesis using inv Some
    by (auto simp: storage_addBackend_def storage_inv_def length_gm_put_existing)
qed

lemma gauge_irrelevant [simp]:
  "backends_of (s\<lparr>st_totalGauge := n\<rparr>) i = backends_of s i"
  "index_ok h (s\<lparr>st_totalGauge := n\<rparr>) = index_ok h s"
  "entries_ok (s\<lparr>st_totalGauge := n\<rparr>) = entries_ok s"
  by (simp_all add: backends_of_def index_ok_def entries_ok_def)

lemma remove_spec:
  assumes inv: "storage_inv h s"
  shows "\<exists>s'. storage_removeBackend h i t b s = Ret s' \<and> storage_inv h s' \<and>
     st_maintain s' = st_maintain s \<and> st_idTypes s' = st_idTypes s \<and>
     (\<forall>j. backends_of s' j = (if j = i \<and> containIDType (st_idTypes s) t
        then remove1 b (backends_of s j) else backends_of s j))"
proof (cases "containIDType (st_idTypes s) t \<and> gm_get (st_backends s) i \<noteq> None")
  case False
  with inv show ?thesis
    by (auto simp: storage_removeBackend_def backends_of_def split: option.splits)
next
  case True
  then obtain bs where g: "gm_get (st_backends s) i = Some bs" and c: "containIDType (st_idTypes s) t"
    by auto
  have d: "distinct bs" "bs \<noteq> []" and wf: "gm_wf (st_backends s)"
    using inv g by (auto simp: storage_inv_def entries_ok_get)
  obtain arr m where rl: "remove_loop b 0 (length bs) bs (length bs) False = Ret (arr, m, b \<in> set bs)"
    and tk: "b \<in> set bs \<longrightarrow> take m arr = remove1 b bs"
    using remove_loop_distinct [OF d(1)] by blast
  define s1 where "s1 = (if b \<in> set bs
     then s\<lparr>st_backends := gm_put i (take m arr) (st_backends s)\<rparr> else s)"
  define s2 where "s2 = (if length (backends_of s1 i) = 0
     then s1\<lparr>st_backends := gm_delete i (st_backends s1)\<rparr> else s1)"
  define s3 where "s3 = (if st_maintain s2 then refreshIdentifierState h i s2 else s2)"
  have run: "storage_removeBackend h i t b s = Ret (s3\<lparr>st_totalGauge := length (st_backends s3)\<rparr>)"
    using g c rl by (simp add: storage_removeBackend_def s1_def s2_def s3_def Let_def)
  have fields: "st_maintain s2 = st_maintain s" "st_idTypes s2 = st_idTypes s"
    "st_nonDraining s2 = st_nonDraining s" "st_draining s2 = st_draining s"
    by (auto simp: s1_def s2_def)
  have bo1: "backends_of s1 j = (if j = i then remove1 b (backends_of s j) else backends_of s j)" for j
    using g tk by (auto simp: s1_def backends_of_def remove1_idem)
  have bo: "backends_of s2 j = (if j = i then remove1 b (backends_of s j) else backends_of s j)" for j
    using bo1 [of j] bo1 [of i] by (auto simp: s2_def backends_of_def)
  have g2: "gm_get (st_backends s2) j = (if j = i then (if remove1 b bs = [] then None
       else Some (remove1 b bs)) else gm_get (st_backends s) j)" for j
    using g tk d bo1 [of i] by (auto simp: s2_def s1_def backends_of_def remove1_idem)
  have e2: "entries_ok s2"
    using inv d g2 by (auto simp: entries_ok_get storage_inv_def s2_def s1_def split: if_splits)
  have keys: "set (gm_keys (st_backends s2)) - {i} = set (gm_keys (st_backends s)) - {i}"
    by (auto simp: s2_def s1_def)
  have "index_ok h s3"
  proof (cases "st_maintain s")
    case True
    then have "index_ok_but i h s2"
      using inv keys fields bo by (intro index_ok_but_put [of h s]) (auto simp: storage_inv_def)
    with True e2 fields show ?thesis by (simp add: s3_def refresh_index_ok)
  next
    case False
    with inv fields show ?thesis by (simp add: s3_def index_ok_def storage_inv_def)
  qed
  moreover have "entries_ok s3" using e2 by (simp add: s3_def entries_ok_def)
  ultimately have "storage_inv h (s3\<lparr>st_totalGauge := length (st_backends s3)\<rparr>)"
    by (simp add: storage_inv_def)
  moreover have "backends_of s3 j = backends_of s2 j" for j by (simp add: s3_def)
  ultimately show ?thesis using run c bo fields by (simp add: s3_def)
qed

lemma mark_inv:
  assumes inv: "storage_inv h s" and m: "st_maintain s"
  shows "storage_inv h (markIdentifierBackendDraining h i t b s)"
  using inv refresh_inv [OF inv m, of i]
  by (auto simp: markIdentifierBackendDraining_def split: option.splits list.splits)

text \<open>Draining flags are only ever set: the invariant survives.\<close>

lemma heap_inv:
  assumes "storage_inv h s" and "\<And>b. IsDraining (h b) \<Longrightarrow> IsDraining (h' b)"
  shows "storage_inv h' s"
  using assms by (auto simp: storage_inv_def index_ok_def)

subsection \<open>The selection loop is total and prefers backends that do not drain\<close>

definition selection_ok :: "bheap \<Rightarrow> storage \<Rightarrow> go_error + bid \<Rightarrow> bool" where
  "selection_ok h s res \<longleftrightarrow>
     (case res of
        Inl e \<Rightarrow> e = ErrNotFound \<and> st_backends s = []
      | Inr b \<Rightarrow>
          (\<exists>i \<in> set (gm_keys (st_backends s)). hd (backends_of s i) = b) \<and>
          (IsDraining (h b) \<longrightarrow>
             (\<forall>i \<in> set (gm_keys (st_backends s)). IsDraining (h (hd (backends_of s i))))))"

lemma selection_ok_cong:
  "st_backends s' = st_backends s \<Longrightarrow> selection_ok h s' res = selection_ok h s res"
  by (simp add: selection_ok_def backends_of_def split: sum.splits)

lemma primary_registered:
  assumes "storage_inv h s" and "st_maintain s" and "i \<in> set (st_nonDraining s) \<union> set (st_draining s)"
  shows "primary_of s i = Ret (hd (backends_of s i)) \<and> i \<in> set (gm_keys (st_backends s))"
proof -
  have i: "i \<in> set (gm_keys (st_backends s))"
    using assms unfolding storage_inv_def index_ok_def by auto
  with assms(1) have "backends_of s i \<noteq> []" by (simp add: storage_inv_def backends_of_registered)
  with i show ?thesis by (cases "backends_of s i") (auto simp: primary_of_def)
qed

lemma preferred_one_of: "fst (preferredBackend now h r a b) \<in> {a, b}"
  by (simp add: preferredBackend_def lessOccupiedBackend_def Intn_def Let_def)

lemma second_index_less:
  assumes "1 < (n::nat)"
  shows "(if i \<le> k mod (n - 1) then Suc (k mod (n - 1)) else k mod (n - 1)) < n"
proof -
  have "k mod (n - 1) < n - 1" using assms by simp
  then show ?thesis by (auto simp: less_diff_conv)
qed

lemma selection_fresh:
  assumes "storage_inv h s" and "st_maintain s" and "i \<in> set (st_nonDraining s)"
    and "\<not> IsDraining (h (hd (backends_of s i)))"
  shows "selection_ok h s (Inr (hd (backends_of s i)))"
  using assms primary_registered [OF assms(1,2)] by (auto simp: selection_ok_def)

lemma loop_fallback:
  assumes inv: "storage_inv h s" and m: "st_maintain s" and e: "st_nonDraining s = []"
  shows "\<exists>res r'. GetRandomBackend_loop now h r s = Ret (res, s, r') \<and> selection_ok h s res"
proof (cases "st_draining s = []")
  case True
  with assms have "st_backends s = []" by (auto simp: storage_inv_def index_ok_def gm_keys_def)
  with True e show ?thesis by (subst GetRandomBackend_loop.simps) (simp add: selection_ok_def)
next
  case False
  define i where "i = st_draining s ! (r 0 mod length (st_draining s))"
  have i: "i \<in> set (st_draining s)" using False by (auto simp: i_def)
  have p: "primary_of s i = Ret (hd (backends_of s i)) \<and> i \<in> set (gm_keys (st_backends s))"
    using primary_registered [OF inv m] i by blast
  moreover have "selection_ok h s (Inr (hd (backends_of s i)))"
    using p assms unfolding selection_ok_def storage_inv_def index_ok_def by auto
  ultimately show ?thesis using False e
    by (subst GetRandomBackend_loop.simps) (simp add: Intn_def i_def [symmetric])
qed

text \<open>One round of the loop either repairs a stale entry or selects.\<close>

lemma loop_round:
  assumes inv: "storage_inv h s" and m: "st_maintain s"
  shows "(\<exists>i \<in> set (st_nonDraining s). \<exists>r'. IsDraining (h (hd (backends_of s i))) \<and>
       GetRandomBackend_loop now h r s = GetRandomBackend_loop now h r' (refreshIdentifierState h i s)) \<or>
     (\<exists>res r'. GetRandomBackend_loop now h r s = Ret (res, s, r') \<and> selection_ok h s res)"
proof (cases "st_nonDraining s = []")
  case True
  with loop_fallback [OF inv m] show ?thesis by blast
next
  case False
  let ?nd = "st_nonDraining s" and ?n = "length (st_nonDraining s)"
  define i where "i = ?nd ! (r 0 mod ?n)"
  define k where "k = r (Suc 0) mod (?n - Suc 0)"
  define j where "j = ?nd ! (if r 0 mod ?n \<le> k then Suc k else k)"
  let ?b = "hd (backends_of s i)" and ?c = "hd (backends_of s j)"
  have i: "i \<in> set ?nd" using False by (simp add: i_def)
  have pi: "primary_of s i = Ret ?b" using primary_registered [OF inv m] i by blast
  show ?thesis
  proof (cases "IsDraining (h ?b) \<or> ?n = 1")
    case True
    with i pi False selection_fresh [OF inv m i] show ?thesis
      by (subst (1 3) GetRandomBackend_loop.simps) (auto simp: Intn_def i_def [symmetric])
  next
    case single: False
    then have "1 < ?n" using False by (simp add: nat_neq_iff)
    then have j: "j \<in> set ?nd"
      using second_index_less [of ?n "r 0 mod ?n" "r (Suc 0)"]
      unfolding j_def k_def One_nat_def by (intro nth_mem)
    then have pj: "primary_of s j = Ret ?c" using primary_registered [OF inv m] by blast
    let ?r = "r \<circ> Suc \<circ> Suc"
    have run: "GetRandomBackend_loop now h r s =
       (if IsDraining (h ?c) then GetRandomBackend_loop now h ?r (refreshIdentifierState h j s)
        else Ret (Inr (fst (preferredBackend now h ?r ?b ?c)), s,
                  snd (preferredBackend now h ?r ?b ?c)))"
      using False single pi pj
      by (subst GetRandomBackend_loop.simps)
        (simp add: Intn_def i_def [symmetric] k_def [symmetric] j_def [symmetric] Let_def
          cong: if_cong split: prod.split split del: if_split)
    have "\<not> IsDraining (h ?c) \<Longrightarrow>
        selection_ok h s (Inr (fst (preferredBackend now h ?r ?b ?c)))"
      using preferred_one_of [of now h ?r ?b ?c] selection_fresh [OF inv m i]
        selection_fresh [OF inv m j] single by auto
    with run j show ?thesis by auto
  qed
qed

lemma GetRandomBackend_loop_spec:
  "storage_inv h s \<Longrightarrow> st_maintain s \<Longrightarrow>
     \<exists>res s' r'. GetRandomBackend_loop now h r s = Ret (res, s', r') \<and> storage_inv h s' \<and>
       st_maintain s' \<and> st_backends s' = st_backends s \<and> st_idTypes s' = st_idTypes s \<and>
       selection_ok h s res"
proof (induction "length (st_nonDraining s)" arbitrary: r s rule: less_induct)
  case less
  from loop_round [OF less.prems, of now r] show ?case
  proof (elim disjE bexE exE conjE)
    fix i r'
    let ?s = "refreshIdentifierState h i s"
    assume i: "i \<in> set (st_nonDraining s)" and d: "IsDraining (h (hd (backends_of s i)))"
      and run: "GetRandomBackend_loop now h r s = GetRandomBackend_loop now h r' ?s"
    have "primary_of s i = Ret (hd (backends_of s i))"
      using primary_registered [OF less.prems] i by blast
    from refresh_draining_shrinks [where h = h, OF this d i] less.hyps [of ?s r'] less.prems run
    show ?thesis by (simp add: refresh_inv selection_ok_cong [of ?s s])
  qed (use less.prems in auto)
qed

lemma GetRandomBackend_spec:
  assumes "storage_inv h s"
  shows "\<exists>res s' r'. GetRandomBackend now h r s = Ret (res, s', r') \<and> storage_inv h s' \<and>
     st_maintain s' = st_maintain s \<and> st_backends s' = st_backends s \<and>
     st_idTypes s' = st_idTypes s \<and>
     (if st_maintain s then selection_ok h s res else res = Inl ErrNotFound)"
proof (cases "st_backends s = [] \<or> \<not> st_maintain s")
  case True
  with assms show ?thesis
    by (subst GetRandomBackend_def, subst GetRandomBackend_loop.simps)
      (auto simp: selection_ok_def storage_inv_def index_ok_def)
next
  case False
  with GetRandomBackend_loop_spec [OF assms] show ?thesis by (auto simp: GetRandomBackend_def)
qed

subsection \<open>The storage as a system\<close>

text \<open>
  The operations in any order, interleaved with changes of the backends by other goroutines.
  \<^verbatim>\<open>markIdentifierBackendDraining\<close> is only called for the storages that keep the index.
\<close>

inductive storage_step :: "bheap \<times> storage \<Rightarrow> bheap \<times> storage \<Rightarrow> bool" where
  added: "storage_step (h, s) (h, storage_addBackend h i t b s)"
| marked: "st_maintain s \<Longrightarrow> storage_step (h, s) (h, markIdentifierBackendDraining h i t b s)"
| removed: "storage_removeBackend h i t b s = Ret s' \<Longrightarrow> storage_step (h, s) (h, s')"
| selected: "GetRandomBackend now h r s = Ret (res, s', r') \<Longrightarrow> storage_step (h, s) (h, s')"
| backends: "(\<And>b. IsDraining (h b) \<Longrightarrow> IsDraining (h' b)) \<Longrightarrow> storage_step (h, s) (h', s)"

inductive_cases storage_stepE: "storage_step x y"

definition storage_init :: "bheap \<times> storage \<Rightarrow> bool" where
  "storage_init x \<longleftrightarrow> (\<exists>idTypes strategy. snd x = NewDefaultBackendStorage idTypes strategy)"

definition storage_state_inv :: "bheap \<times> storage \<Rightarrow> bool" where
  "storage_state_inv x \<longleftrightarrow> storage_inv (fst x) (snd x)"

lemma storage_step_inv:
  assumes inv: "storage_state_inv x" and step: "storage_step x y"
  shows "storage_state_inv y"
  using step inv
proof (cases rule: storage_step.cases)
  case (removed h i t b s s')
  with inv remove_spec [of h s i t b] show ?thesis by (auto simp: storage_state_inv_def)
next
  case (selected now h r s res s' r')
  with inv GetRandomBackend_spec [of h s now r] show ?thesis by (auto simp: storage_state_inv_def)
next
  case (backends h h' s)
  with inv heap_inv [of h s h'] show ?thesis by (auto simp: storage_state_inv_def)
qed (auto simp: storage_state_inv_def add_inv mark_inv)

interpretation storage_system: invariant_system storage_init storage_step storage_state_inv
proof
  show "storage_state_inv x" if "storage_init x" for x
    using that by (auto simp: storage_init_def storage_inv_init storage_state_inv_def)
qed (rule storage_step_inv)

subsection \<open>Properties\<close>

text \<open>
  C13. In every interleaving of adding, removing, marking and selecting backends with draining
  flags being set, the storage is sound: registered identifiers have at least one backend and
  no backend twice, the gauge equals their number, and with a random-routing index every
  registered identifier is in exactly one of its two lists.
\<close>

theorem storage_reachable:
  assumes "reach storage_init storage_step (h, s)"
  shows "st_totalGauge s = NumBackends s \<and>
     (\<forall>i. gm_get (st_backends s) i \<noteq> Some []) \<and>
     (\<forall>i. distinct (backends_of s i)) \<and>
     (if st_maintain s
      then \<forall>i. count_list (st_nonDraining s @ st_draining s) i =
             (if gm_get (st_backends s) i = None then 0 else 1)
      else st_nonDraining s @ st_draining s = [])"
proof -
  have inv: "storage_inv h s"
    using storage_system.reach_inv [OF assms] by (simp add: storage_state_inv_def)
  have "count_list (st_nonDraining s @ st_draining s) i =
      (if gm_get (st_backends s) i = None then 0 else 1)" if "st_maintain s" for i
    using inv that unfolding gm_get_None_iff storage_inv_def index_ok_def
    by (simp add: count_list_distinct del: count_list_append set_append distinct_append)
  then show ?thesis using inv
    by (auto simp: storage_inv_def entries_ok_get index_ok_def NumBackends_def backends_of_def
        simp del: count_list_append split: option.splits)
qed

definition sample_heap :: bheap where
  "sample_heap b = sample_backend\<lparr>be_id := (if b = 0 then ''a'' else ''b''), be_draining := (b = 0),
     be_dialLatency := (if b = 2 then 200 else 40) * Millisecond\<rparr>"

definition sample_storage :: storage where
  "sample_storage =
     storage_addBackend sample_heap ''b'' UID 1 (storage_addBackend sample_heap ''a'' UID 0
       (NewDefaultBackendStorage [UID] ProxyStrategyDefault))"

lemma sample_storage_reach: "reach storage_init storage_step (sample_heap, sample_storage)"
proof -
  have add: "reach storage_init storage_step (h, s) \<Longrightarrow>
      reach storage_init storage_step (h, storage_addBackend h i t b s)" for h s i t b
    by (erule reach_step) (rule storage_step.added)
  show ?thesis unfolding sample_storage_def
    by (intro add reach_init) (auto simp: storage_init_def)
qed

lemma sample_storage_eq:
  "sample_storage = \<lparr>st_backends = [(''a'', [0]), (''b'', [1])], st_nonDraining = [''b''],
     st_draining = [''a''], st_maintain = True, st_idTypes = [UID],
     st_strategy = ProxyStrategyDefault, st_totalGauge = 2\<rparr>"
  by (simp add: sample_storage_def storage_addBackend_def NewDefaultBackendStorage_def
      containIDType_def gm_put_def gm_get_def sample_heap_def IsDraining_def)

theorem storage_reachable_witness:
  "st_totalGauge sample_storage = NumBackends sample_storage \<and> NumBackends sample_storage = 2 \<and>
   (\<forall>i. gm_get (st_backends sample_storage) i \<noteq> Some [])"
  using storage_reachable [OF sample_storage_reach] by (simp add: sample_storage_eq NumBackends_def)

text \<open>
  C14. Selecting from a reachable storage with a random-routing index always returns: an error
  exactly when no agent is registered, and otherwise the primary backend of a registered agent,
  a draining one only when every registered agent is draining. No registration is changed.
\<close>

theorem GetRandomBackend_correct:
  assumes "reach storage_init storage_step (h, s)" and "st_maintain s"
  shows "\<exists>res s' r'. GetRandomBackend now h r s = Ret (res, s', r') \<and> st_backends s' = st_backends s \<and>
     (case res of
        Inl e \<Rightarrow> e = ErrNotFound \<and> NumBackends s = 0
      | Inr b \<Rightarrow>
          (\<exists>i bs. gm_get (st_backends s) i = Some (b # bs)) \<and>
          (IsDraining (h b) \<longrightarrow>
             (\<forall>i b' bs. gm_get (st_backends s) i = Some (b' # bs) \<longrightarrow> IsDraining (h b'))))"
proof -
  have inv: "storage_inv h s"
    using storage_system.reach_inv [OF assms(1)] by (simp add: storage_state_inv_def)
  have prim: "\<exists>bs. gm_get (st_backends s) i = Some (hd (backends_of s i) # bs)"
    if "i \<in> set (gm_keys (st_backends s))" for i
  proof -
    from that obtain bs where "gm_get (st_backends s) i = Some bs"
      using gm_get_None_iff [of "st_backends s" i] by auto
    with inv show ?thesis
      by (cases bs) (auto simp: storage_inv_def entries_ok_get backends_of_def)
  qed
  have conv: "i \<in> set (gm_keys (st_backends s)) \<and> hd (backends_of s i) = b"
    if "gm_get (st_backends s) i = Some (b # bs)" for i b bs
    using that by (simp add: gm_get_Some_key backends_of_def)
  have found: "selection_ok h s (Inr b) \<Longrightarrow> (\<exists>i bs. gm_get (st_backends s) i = Some (b # bs)) \<and>
       (IsDraining (h b) \<longrightarrow>
          (\<forall>i b' bs. gm_get (st_backends s) i = Some (b' # bs) \<longrightarrow> IsDraining (h b')))" for b
    unfolding selection_ok_def sum.case by (metis prim conv)
  obtain res s' r' where run: "GetRandomBackend now h r s = Ret (res, s', r')"
      "st_backends s' = st_backends s" and ok: "selection_ok h s res"
    using GetRandomBackend_spec [OF inv, of now r] assms(2) by auto
  show ?thesis
  proof (cases res)
    case (Inl e)
    with run ok show ?thesis by (auto simp: NumBackends_def selection_ok_def)
  next
    case (Inr b)
    with run ok found [of b] show ?thesis by simp
  qed
qed

theorem GetRandomBackend_correct_witness:
  "\<exists>res s' r'. GetRandomBackend 0 sample_heap (\<lambda>_. 0) sample_storage = Ret (res, s', r') \<and>
     st_backends s' = st_backends sample_storage"
  using GetRandomBackend_correct [OF sample_storage_reach, of 0 "\<lambda>_. 0"]
  by (auto simp: sample_storage_eq)

text \<open>
  Removing a backend from a reachable storage never panics although the loop cuts the
  slice it ranges over: exactly that backend is taken out of that identifier's list, the order
  of the others is kept, and no other identifier changes.
\<close>

theorem storage_removeBackend_exact:
  assumes "reach storage_init storage_step (h, s)"
  shows "\<exists>s'. storage_removeBackend h i t b s = Ret s' \<and>
     (\<forall>j. backends_of s' j = (if j = i \<and> t \<in> set (st_idTypes s)
        then filter (\<lambda>b'. b' \<noteq> b) (backends_of s j) else backends_of s j))"
proof -
  have inv: "storage_inv h s"
    using storage_system.reach_inv [OF assms] by (simp add: storage_state_inv_def)
  then have "distinct (backends_of s j)" for j
    by (auto simp: storage_inv_def entries_ok_get backends_of_def split: option.splits)
  then have "remove1 b (backends_of s j) = filter (\<lambda>b'. b' \<noteq> b) (backends_of s j)" for j
    by (simp add: distinct_remove1_removeAll removeAll_filter_not_eq eq_commute)
  with remove_spec [OF inv, of i t b] show ?thesis by (auto simp: containIDType_def)
qed

theorem storage_removeBackend_exact_witness:
  "\<exists>s'. storage_removeBackend sample_heap ''b'' UID 1 sample_storage = Ret s' \<and>
     backends_of s' ''b'' = [] \<and> backends_of s' ''a'' = [0]"
  using storage_removeBackend_exact [OF sample_storage_reach, of "''b''" UID 1]
  by (auto simp: sample_storage_eq backends_of_def gm_get_def)

text \<open>
  C36. Of two candidates the one chosen for a dial is never the one whose estimated cost is at
  least twice the other's, as long as doubling the costs does not wrap; within that factor the
  one with less receive-channel pressure is chosen.
\<close>

theorem preferredBackend_cost:
  assumes "dialCost now (h a) = ca" and "dialCost now (h b) = cb"
    and "0 < ca" and "0 < cb" and "in_int64 (2 * ca)" and "in_int64 (2 * cb)"
  shows "(fst (preferredBackend now h r a b) = a \<longrightarrow> ca < 2 * cb) \<and>
     (fst (preferredBackend now h r a b) = b \<longrightarrow> cb < 2 * ca \<or> a = b) \<and>
     (ca < 2 * cb \<and> cb < 2 * ca \<and> RecvChannelOccupancy (h a) < RecvChannelOccupancy (h b)
        \<longrightarrow> fst (preferredBackend now h r a b) = a) \<and>
     (ca < 2 * cb \<and> cb < 2 * ca \<and> RecvChannelOccupancy (h b) < RecvChannelOccupancy (h a)
        \<longrightarrow> fst (preferredBackend now h r a b) = b)"
  using assms
  by (auto simp: preferredBackend_def lessOccupiedBackend_def Intn_def Let_def)

theorem preferredBackend_cost_witness:
  "fst (preferredBackend Second sample_heap (\<lambda>_. 0) 1 2) \<noteq> 2"
  using preferredBackend_cost [OF refl refl, of Second sample_heap 1 2 "\<lambda>_. 0"]
  by (simp add: dialCost_def sample_heap_def sample_backend_def in_int64_def time_sub_def sat64_def
      dialLatencyWindow_def dialLatencyFloor_def Second_def Millisecond_def wrap64_def)

end
