(* ===== verification/KNP_Managers.thy ===== *)
theory KNP_Managers
  imports KNP_Storage
begin

section \<open>Backend managers: the three routing strategies\<close>

text \<open>
  \<^verbatim>\<open>DefaultBackendManager\<close> (\<^verbatim>\<open>backend_manager.go\<close>), \<^verbatim>\<open>DestHostBackendManager\<close>
  (\<^verbatim>\<open>desthost_backend_manager.go\<close>) and \<^verbatim>\<open>DefaultRouteBackendManager\<close>
  (\<^verbatim>\<open>default_route_backend_manager.go\<close>), each a \<open>storage\<close> with its own way of registering and
  choosing backends, and the functions of \<^verbatim>\<open>server.go\<close> that run over the list of managers. The
  Go interface \<^verbatim>\<open>BackendManager\<close> is the datatype \<open>backend_manager\<close>; what its implementations
  promise is the locale \<open>manager\<close>, interpreted on all three. The session context is the value
  stored under \<^verbatim>\<open>destHostKey\<close>, \<open>None\<close> when there is none.
\<close>

subsection \<open>DefaultBackendManager\<close>

definition NewDefaultBackendManager :: storage where
  "NewDefaultBackendManager = NewDefaultBackendStorage [UID] ProxyStrategyDefault"

definition Default_AddBackend :: "bheap \<Rightarrow> bid \<Rightarrow> storage \<Rightarrow> storage" where
  "Default_AddBackend h b s = storage_addBackend h (GetAgentID (h b)) UID b s"

definition Default_markBackendDraining :: "bheap \<Rightarrow> bid \<Rightarrow> storage \<Rightarrow> storage" where
  "Default_markBackendDraining h b s = markIdentifierBackendDraining h (GetAgentID (h b)) UID b s"

definition Default_RemoveBackend :: "bheap \<Rightarrow> bid \<Rightarrow> storage \<Rightarrow> storage outcome" where
  "Default_RemoveBackend h b s = storage_removeBackend h (GetAgentID (h b)) UID b s"

definition Default_Backend ::
  "time \<Rightarrow> bheap \<Rightarrow> rng \<Rightarrow> string option \<Rightarrow> storage \<Rightarrow> ((go_error + bid) \<times> storage \<times> rng) outcome" where
  "Default_Backend now h r ctx s = GetRandomBackend now h r s"

subsection \<open>DefaultRouteBackendManager\<close>

definition NewDefaultRouteBackendManager :: storage where
  "NewDefaultRouteBackendManager = NewDefaultBackendStorage [DefaultRoute] ProxyStrategyDefaultRoute"

definition DefaultRoute_Backend ::
  "time \<Rightarrow> bheap \<Rightarrow> rng \<Rightarrow> string option \<Rightarrow> storage \<Rightarrow> ((go_error + bid) \<times> storage \<times> rng) outcome" where
  "DefaultRoute_Backend now h r ctx s = GetRandomBackend now h r s"

definition DefaultRoute_AddBackend :: "bheap \<Rightarrow> bid \<Rightarrow> storage \<Rightarrow> storage" where
  "DefaultRoute_AddBackend h b s =
     (if idDefaultRoute (GetAgentIdentifiers (h b))
      then storage_addBackend h (GetAgentID (h b)) DefaultRoute b s else s)"

definition DefaultRoute_markBackendDraining :: "bheap \<Rightarrow> bid \<Rightarrow> storage \<Rightarrow> storage" where
  "DefaultRoute_markBackendDraining h b s =
     (if idDefaultRoute (GetAgentIdentifiers (h b))
      then markIdentifierBackendDraining h (GetAgentID (h b)) DefaultRoute b s else s)"

definition DefaultRoute_RemoveBackend :: "bheap \<Rightarrow> bid \<Rightarrow> storage \<Rightarrow> storage outcome" where
  "DefaultRoute_RemoveBackend h b s =
     (if idDefaultRoute (GetAgentIdentifiers (h b))
      then storage_removeBackend h (GetAgentID (h b)) DefaultRoute b s else Ret s)"

subsection \<open>DestHostBackendManager\<close>

definition NewDestHostBackendManager :: storage where
  "NewDestHostBackendManager = NewDefaultBackendStorage [IPv4, IPv6, HostId] ProxyStrategyDestHost"

fun add_each :: "bheap \<Rightarrow> identifier_type \<Rightarrow> bid \<Rightarrow> string list \<Rightarrow> storage \<Rightarrow> storage" where
  "add_each h t b [] s = s"
| "add_each h t b (i # is) s = add_each h t b is (storage_addBackend h i t b s)"

definition DestHost_AddBackend :: "bheap \<Rightarrow> bid \<Rightarrow> storage \<Rightarrow> storage" where
  "DestHost_AddBackend h b s =
     (let ids = GetAgentIdentifiers (h b);
          s1 = add_each h IPv4 b (idIPv4 ids) s;
          s2 = add_each h IPv6 b (idIPv6 ids) s1
      in add_each h HostId b (idHost ids) s2)"

fun remove_each :: "bheap \<Rightarrow> identifier_type \<Rightarrow> bid \<Rightarrow> string list \<Rightarrow> storage \<Rightarrow> storage outcome" where
  "remove_each h t b [] s = Ret s"
| "remove_each h t b (i # is) s =
     bind_outcome (storage_removeBackend h i t b s) (remove_each h t b is)"

definition DestHost_RemoveBackend :: "bheap \<Rightarrow> bid \<Rightarrow> storage \<Rightarrow> storage outcome" where
  "DestHost_RemoveBackend h b s =
     (let ids = GetAgentIdentifiers (h b) in
      bind_outcome (remove_each h IPv4 b (idIPv4 ids) s) (\<lambda>s1.
      bind_outcome (remove_each h IPv6 b (idIPv6 ids) s1) (\<lambda>s2.
        remove_each h HostId b (idHost ids) s2)))"

text \<open>The search loop: \<open>fallback\<close> is \<^verbatim>\<open>firstDrainingBackend\<close>.\<close>

fun pick_not_draining :: "bheap \<Rightarrow> bid list \<Rightarrow> bid option \<Rightarrow> bid option" where
  "pick_not_draining h [] fallback = fallback"
| "pick_not_draining h (b # bs) fallback =
     (if \<not> IsDraining (h b) then Some b
      else pick_not_draining h bs (if fallback = None then Some b else fallback))"

definition DestHost_Backend ::
  "time \<Rightarrow> bheap \<Rightarrow> rng \<Rightarrow> string option \<Rightarrow> storage \<Rightarrow> ((go_error + bid) \<times> storage \<times> rng) outcome" where
  "DestHost_Backend now h r ctx s =
     (if length (st_backends s) = 0 then Ret (Inl ErrNotFound, s, r)
      else
        (case ctx of
           None \<Rightarrow> Panic ''interface conversion: interface {} is nil, not string''
         | Some destHost \<Rightarrow>
             if destHost \<noteq> [] then
               (case gm_get (st_backends s) destHost of
                  Some bes \<Rightarrow>
                    (case pick_not_draining h bes None of
                       Some b \<Rightarrow> Ret (Inr b, s, r)
                     | None \<Rightarrow> Ret (Inl ErrNotFound, s, r))
                | None \<Rightarrow> Ret (Inl ErrNotFound, s, r))
             else Ret (Inl ErrNotFound, s, r)))"

subsection \<open>The interface and its dispatch\<close>

datatype backend_manager = DefaultBM storage | DestHostBM storage | DefaultRouteBM storage

fun bm_storage :: "backend_manager \<Rightarrow> storage" where
  "bm_storage (DefaultBM s) = s"
| "bm_storage (DestHostBM s) = s"
| "bm_storage (DefaultRouteBM s) = s"

fun bm_Backend :: "time \<Rightarrow> bheap \<Rightarrow> rng \<Rightarrow> string option \<Rightarrow> backend_manager
     \<Rightarrow> ((go_error + bid) \<times> backend_manager \<times> rng) outcome" where
  "bm_Backend now h r ctx (DefaultBM s) =
     bind_outcome (Default_Backend now h r ctx s) (\<lambda>(b, s', r'). Ret (b, DefaultBM s', r'))"
| "bm_Backend now h r ctx (DestHostBM s) =
     bind_outcome (DestHost_Backend now h r ctx s) (\<lambda>(b, s', r'). Ret (b, DestHostBM s', r'))"
| "bm_Backend now h r ctx (DefaultRouteBM s) =
     bind_outcome (DefaultRoute_Backend now h r ctx s) (\<lambda>(b, s', r'). Ret (b, DefaultRouteBM s', r'))"

fun bm_AddBackend :: "bheap \<Rightarrow> bid \<Rightarrow> backend_manager \<Rightarrow> backend_manager" where
  "bm_AddBackend h b (DefaultBM s) = DefaultBM (Default_AddBackend h b s)"
| "bm_AddBackend h b (DestHostBM s) = DestHostBM (DestHost_AddBackend h b s)"
| "bm_AddBackend h b (DefaultRouteBM s) = DefaultRouteBM (DefaultRoute_AddBackend h b s)"

text \<open>\<^verbatim>\<open>DestHostBackendManager\<close> does not implement \<^verbatim>\<open>backendDrainingMarker\<close>.\<close>

fun bm_markBackendDraining :: "bheap \<Rightarrow> bid \<Rightarrow> backend_manager \<Rightarrow> backend_manager" where
  "bm_markBackendDraining h b (DefaultBM s) = DefaultBM (Default_markBackendDraining h b s)"
| "bm_markBackendDraining h b (DestHostBM s) = DestHostBM s"
| "bm_markBackendDraining h b (DefaultRouteBM s) = DefaultRouteBM (DefaultRoute_markBackendDraining h b s)"

fun bm_RemoveBackend :: "bheap \<Rightarrow> bid \<Rightarrow> backend_manager \<Rightarrow> backend_manager outcome" where
  "bm_RemoveBackend h b (DefaultBM s) =
     bind_outcome (Default_RemoveBackend h b s) (\<lambda>s'. Ret (DefaultBM s'))"
| "bm_RemoveBackend h b (DestHostBM s) =
     bind_outcome (DestHost_RemoveBackend h b s) (\<lambda>s'. Ret (DestHostBM s'))"
| "bm_RemoveBackend h b (DefaultRouteBM s) =
     bind_outcome (DefaultRoute_RemoveBackend h b s) (\<lambda>s'. Ret (DefaultRouteBM s'))"

subsection \<open>The server's list of managers\<close>

fun new_managers :: "proxy_strategy list \<Rightarrow> backend_manager list" where
  "new_managers [] = []"
| "new_managers (ps # rest) =
     (case ps of
        ProxyStrategyDestHost \<Rightarrow> DestHostBM NewDestHostBackendManager # new_managers rest
      | ProxyStrategyDefault \<Rightarrow> DefaultBM NewDefaultBackendManager # new_managers rest
      | ProxyStrategyDefaultRoute \<Rightarrow> DefaultRouteBM NewDefaultRouteBackendManager # new_managers rest
      | _ \<Rightarrow> new_managers rest)"

fun genContext_loop :: "proxy_strategy list \<Rightarrow> string \<Rightarrow> string option \<Rightarrow> string option" where
  "genContext_loop [] reqHost ctx = ctx"
| "genContext_loop (ps # rest) reqHost ctx =
     (case ps of
        ProxyStrategyDestHost \<Rightarrow> genContext_loop rest reqHost (Some (RemovePortFromHost reqHost))
      | _ \<Rightarrow> genContext_loop rest reqHost ctx)"

definition genContext :: "proxy_strategy list \<Rightarrow> string \<Rightarrow> string option" where
  "genContext proxyStrategies reqHost = genContext_loop proxyStrategies reqHost None"

definition ignoreNotFound :: "go_error \<Rightarrow> go_error option" where
  "ignoreNotFound e = (if e = ErrNotFound then None else Some e)"

fun getBackend_loop :: "time \<Rightarrow> bheap \<Rightarrow> rng \<Rightarrow> string option \<Rightarrow> backend_manager list
     \<Rightarrow> ((go_error + bid) \<times> backend_manager list \<times> rng) outcome" where
  "getBackend_loop now h r ctx [] = Ret (Inl ErrNotFound, [], r)"
| "getBackend_loop now h r ctx (bm # bms) =
     bind_outcome (bm_Backend now h r ctx bm) (\<lambda>(res, bm', r').
       case res of
         Inr b \<Rightarrow> Ret (Inr b, bm' # bms, r')
       | Inl e \<Rightarrow>
           (case ignoreNotFound e of
              Some e' \<Rightarrow> Ret (Inl e', bm' # bms, r')
            | None \<Rightarrow> bind_outcome (getBackend_loop now h r' ctx bms)
                        (\<lambda>(res', bms', r''). Ret (res', bm' # bms', r''))))"

definition getBackend :: "time \<Rightarrow> bheap \<Rightarrow> rng \<Rightarrow> proxy_strategy list \<Rightarrow> string
     \<Rightarrow> backend_manager list \<Rightarrow> ((go_error + bid) \<times> backend_manager list \<times> rng) outcome" where
  "getBackend now h r proxyStrategies reqHost bms =
     getBackend_loop now h r (genContext proxyStrategies reqHost) bms"

fun addBackend :: "bheap \<Rightarrow> bid \<Rightarrow> backend_manager list \<Rightarrow> backend_manager list" where
  "addBackend h b [] = []"
| "addBackend h b (bm # bms) = bm_AddBackend h b bm # addBackend h b bms"

fun notifyDraining :: "bheap \<Rightarrow> bid \<Rightarrow> backend_manager list \<Rightarrow> backend_manager list" where
  "notifyDraining h b [] = []"
| "notifyDraining h b (bm # bms) = bm_markBackendDraining h b bm # notifyDraining h b bms"

definition markBackendDraining ::
  "bid \<Rightarrow> bheap \<times> backend_manager list \<Rightarrow> bheap \<times> backend_manager list" where
  "markBackendDraining b = (\<lambda>(h, bms).
     let h' = h(b := SetDraining (h b)) in (h', notifyDraining h' b bms))"

fun removeBackend :: "bheap \<Rightarrow> bid \<Rightarrow> backend_manager list \<Rightarrow> backend_manager list outcome" where
  "removeBackend h b [] = Ret []"
| "removeBackend h b (bm # bms) =
     bind_outcome (bm_RemoveBackend h b bm) (\<lambda>bm'.
     bind_outcome (removeBackend h b bms) (\<lambda>bms'. Ret (bm' # bms')))"

definition Readiness_Ready :: "backend_manager list \<Rightarrow> (bool \<times> string) outcome" where
  "Readiness_Ready bms =
     (case bms of [] \<Rightarrow> Panic index_out_of_range | bm # _ \<Rightarrow> Ret (storage_Ready (bm_storage bm)))"

subsection \<open>What a manager promises\<close>

text \<open>
  \<open>names\<close> are the identifiers a manager registers a backend under. A manager is well formed
  (\<open>manager_wf\<close>) when its storage is, it accepts its own identifier types, and every backend
  is registered under its own identifiers only. The contract: adding registers a backend under
  exactly its names, removing takes it out everywhere, choosing returns a registered backend or
  \<^verbatim>\<open>ErrNotFound\<close> and registers nothing.
\<close>

definition keyed :: "(backend \<Rightarrow> string list) \<Rightarrow> bheap \<Rightarrow> storage \<Rightarrow> bool" where
  "keyed names h s \<longleftrightarrow> (\<forall>i b. b \<in> set (backends_of s i) \<longrightarrow> i \<in> set (names (h b)))"

definition manager_wf ::
  "(backend \<Rightarrow> string list) \<Rightarrow> identifier_type list \<Rightarrow> bool \<Rightarrow> bheap \<Rightarrow> storage \<Rightarrow> bool" where
  "manager_wf names idTypes idx h s \<longleftrightarrow>
     storage_inv h s \<and> st_idTypes s = idTypes \<and> st_maintain s = idx \<and> keyed names h s"

definition registered :: "storage \<Rightarrow> bid \<Rightarrow> bool" where
  "registered s b \<longleftrightarrow> (\<exists>i. b \<in> set (backends_of s i))"

definition same_identity :: "bheap \<Rightarrow> bheap \<Rightarrow> bool" where
  "same_identity h h' \<longleftrightarrow>
     (\<forall>b. be_id (h' b) = be_id (h b) \<and> be_idents (h' b) = be_idents (h b) \<and>
          (IsDraining (h b) \<longrightarrow> IsDraining (h' b)))"

locale manager =
  fixes names :: "backend \<Rightarrow> string list"
    and wf :: "bheap \<Rightarrow> storage \<Rightarrow> bool"
    and add :: "bheap \<Rightarrow> bid \<Rightarrow> storage \<Rightarrow> storage"
    and mark :: "bheap \<Rightarrow> bid \<Rightarrow> storage \<Rightarrow> storage"
    and remove :: "bheap \<Rightarrow> bid \<Rightarrow> storage \<Rightarrow> storage outcome"
    and pick :: "time \<Rightarrow> bheap \<Rightarrow> rng \<Rightarrow> string option \<Rightarrow> storage
       \<Rightarrow> ((go_error + bid) \<times> storage \<times> rng) outcome"
  assumes names_cong: "be_id x = be_id y \<Longrightarrow> be_idents x = be_idents y \<Longrightarrow> names x = names y"
    and wf_keyed: "wf h s \<Longrightarrow> keyed names h s"
    and wf_heap: "wf h s \<Longrightarrow> same_identity h h' \<Longrightarrow> wf h' s"
    and add_law: "wf h s \<Longrightarrow> wf h (add h b s) \<and>
       (\<forall>i. set (backends_of (add h b s) i) =
            (if i \<in> set (names (h b)) then insert b (set (backends_of s i)) else set (backends_of s i)))"
    and mark_law: "wf h s \<Longrightarrow> wf h (mark h b s) \<and> st_backends (mark h b s) = st_backends s"
    and remove_law: "wf h s \<Longrightarrow> \<exists>s'. remove h b s = Ret s' \<and> wf h s' \<and>
       (\<forall>i. set (backends_of s' i) =
            (if i \<in> set (names (h b)) then set (backends_of s i) - {b} else set (backends_of s i)))"
    and pick_law: "wf h s \<Longrightarrow> \<exists>res s' r'. pick now h r (Some host) s = Ret (res, s', r') \<and> wf h s' \<and>
       st_backends s' = st_backends s \<and>
       (case res of Inl e \<Rightarrow> e = ErrNotFound | Inr b \<Rightarrow> registered s b)"
begin

lemma add_registers: "wf h s \<Longrightarrow> registered (add h b s) b' \<longleftrightarrow> registered s b' \<or> b' = b \<and> names (h b) \<noteq> []"
  using add_law [of h s b] by (auto simp: registered_def split: if_splits) (metis list.set_intros(1) neq_Nil_conv)

lemma remove_unregisters:
  assumes "wf h s"
  shows "\<exists>s'. remove h b s = Ret s' \<and> wf h s' \<and> (\<forall>b'. registered s' b' \<longleftrightarrow> registered s b' \<and> b' \<noteq> b)"
proof -
  have "b \<in> set (backends_of s i) \<Longrightarrow> i \<in> set (names (h b))" for i
    using wf_keyed [OF assms] by (auto simp: keyed_def)
  with remove_law [OF assms, of b] show ?thesis
    unfolding registered_def by (metis Diff_iff empty_iff insert_iff)
qed

lemma removed_not_picked:
  assumes "wf h s" and "remove h b s = Ret s'" and "same_identity h h'"
    and "pick now h' r (Some host) s' = Ret (Inr b', s'', r')"
  shows "b' \<noteq> b"
proof -
  have "wf h s'" and "\<not> registered s' b"
    using remove_unregisters [OF assms(1), of b] assms(2) by auto
  then show ?thesis
    using pick_law [OF wf_heap [OF \<open>wf h s'\<close> assms(3)], of now r host] assms(4) by auto
qed

end

subsection \<open>The three managers keep the promise\<close>

lemma add_fields [simp]:
  "st_idTypes (storage_addBackend h i t b s) = st_idTypes s"
  "st_maintain (storage_addBackend h i t b s) = st_maintain s"
  by (auto simp: storage_addBackend_def Let_def split: option.splits)

lemma mark_fields [simp]:
  "st_idTypes (markIdentifierBackendDraining h i t b s) = st_idTypes s"
  "st_maintain (markIdentifierBackendDraining h i t b s) = st_maintain s"
  "st_backends (markIdentifierBackendDraining h i t b s) = st_backends s"
  by (auto simp: markIdentifierBackendDraining_def split: option.splits list.splits)

lemma add_backends_of:
  "set (backends_of (storage_addBackend h i t b s) j) =
     (if j = i \<and> t \<in> set (st_idTypes s) then insert b (set (backends_of s j)) else set (backends_of s j))"
  by (auto simp: storage_addBackend_def backends_of_def containIDType_def Let_def split: option.splits)

lemma wf_add:
  assumes "manager_wf names idTypes idx h s" and "i \<in> set (names (h b))"
  shows "manager_wf names idTypes idx h (storage_addBackend h i t b s)"
  using assms by (auto simp: manager_wf_def add_inv keyed_def add_backends_of split: if_splits)

lemma wf_mark:
  assumes "manager_wf names idTypes True h s"
  shows "manager_wf names idTypes True h (markIdentifierBackendDraining h i t b s)"
  using assms by (auto simp: manager_wf_def mark_inv keyed_def backends_of_def)

lemma wf_remove:
  assumes "manager_wf names idTypes idx h s"
  shows "\<exists>s'. storage_removeBackend h i t b s = Ret s' \<and> manager_wf names idTypes idx h s' \<and>
     (\<forall>j. set (backends_of s' j) = (if j = i \<and> t \<in> set idTypes
        then set (backends_of s j) - {b} else set (backends_of s j)))"
proof -
  have inv: "storage_inv h s" using assms by (simp add: manager_wf_def)
  have d: "distinct (backends_of s j)" for j
    using inv by (auto simp: storage_inv_def entries_ok_get backends_of_def split: option.splits)
  obtain s' where "storage_removeBackend h i t b s = Ret s'" "storage_inv h s'"
      "st_maintain s' = st_maintain s" "st_idTypes s' = st_idTypes s"
    and bo: "\<forall>j. backends_of s' j = (if j = i \<and> containIDType (st_idTypes s) t
        then remove1 b (backends_of s j) else backends_of s j)"
    using remove_spec [OF inv, of i t b] by blast
  moreover have "set (backends_of s' j) \<subseteq> set (backends_of s j)" for j
    using bo by (simp add: set_remove1_subset)
  ultimately show ?thesis using assms d
    by (auto simp: manager_wf_def keyed_def containIDType_def)
qed

lemma wf_random:
  assumes "manager_wf names idTypes True h s"
  shows "\<exists>res s' r'. GetRandomBackend now h r s = Ret (res, s', r') \<and>
     manager_wf names idTypes True h s' \<and> st_backends s' = st_backends s \<and>
     (case res of Inl e \<Rightarrow> e = ErrNotFound | Inr b \<Rightarrow> registered s b)"
proof -
  have inv: "storage_inv h s" and m: "st_maintain s" using assms by (simp_all add: manager_wf_def)
  obtain res s' r' where run: "GetRandomBackend now h r s = Ret (res, s', r')" "storage_inv h s'"
      "st_maintain s' = st_maintain s" "st_backends s' = st_backends s" "st_idTypes s' = st_idTypes s"
    and sel: "selection_ok h s res"
    using GetRandomBackend_spec [OF inv, of now r] m by auto
  have "hd (backends_of s i) \<in> set (backends_of s i)" if "i \<in> set (gm_keys (st_backends s))" for i
    using that inv by (intro hd_in_set) (simp add: storage_inv_def backends_of_registered)
  then have "case res of Inl e \<Rightarrow> e = ErrNotFound | Inr b \<Rightarrow> registered s b"
    using sel by (auto simp: selection_ok_def registered_def split: sum.splits)
  with run assms show ?thesis by (auto simp: manager_wf_def keyed_def backends_of_def)
qed

lemma wf_heap_change:
  assumes "manager_wf names idTypes idx h s" and "same_identity h h'"
    and "\<And>x y. be_id x = be_id y \<Longrightarrow> be_idents x = be_idents y \<Longrightarrow> names x = names y"
  shows "manager_wf names idTypes idx h' s"
proof -
  have "names (h' b) = names (h b)" for b
    by (rule assms(3)) (use assms(2) in \<open>simp_all add: same_identity_def\<close>)
  moreover have "storage_inv h' s"
    using assms(1,2) heap_inv [of h s h'] by (simp add: manager_wf_def same_identity_def)
  ultimately show ?thesis using assms(1) by (simp add: manager_wf_def keyed_def)
qed

lemma wf_new:
  "manager_wf names idTypes (strategy = ProxyStrategyDefault \<or> strategy = ProxyStrategyDefaultRoute) h
     (NewDefaultBackendStorage idTypes strategy)"
  by (simp add: manager_wf_def storage_inv_init keyed_def backends_of_def NewDefaultBackendStorage_def
      storage_inv_def [symmetric])
    (simp add: storage_inv_init [unfolded NewDefaultBackendStorage_def])

definition uid_names :: "backend \<Rightarrow> string list" where
  "uid_names b = [be_id b]"

definition route_names :: "backend \<Rightarrow> string list" where
  "route_names b = (if idDefaultRoute (be_idents b) then [be_id b] else [])"

definition host_names :: "backend \<Rightarrow> string list" where
  "host_names b = idIPv4 (be_idents b) @ idIPv6 (be_idents b) @ idHost (be_idents b)"

abbreviation "default_wf \<equiv> manager_wf uid_names [UID] True"
abbreviation "route_wf \<equiv> manager_wf route_names [DefaultRoute] True"
abbreviation "host_wf \<equiv> manager_wf host_names [IPv4, IPv6, HostId] False"

interpretation default_mgr: manager uid_names default_wf Default_AddBackend
  Default_markBackendDraining Default_RemoveBackend Default_Backend
proof
  fix h s b
  assume wf: "default_wf h s"
  show "keyed uid_names h s" using wf by (simp add: manager_wf_def)
  show "default_wf h' s" if "same_identity h h'" for h'
    using wf that by (rule wf_heap_change) (simp add: uid_names_def)
  show "default_wf h (Default_AddBackend h b s) \<and>
     (\<forall>i. set (backends_of (Default_AddBackend h b s) i) =
       (if i \<in> set (uid_names (h b)) then insert b (set (backends_of s i)) else set (backends_of s i)))"
    using wf_add [OF wf, of "be_id (h b)" b UID] wf
    by (auto simp: Default_AddBackend_def GetAgentID_def uid_names_def add_backends_of manager_wf_def)
  show "default_wf h (Default_markBackendDraining h b s) \<and>
     st_backends (Default_markBackendDraining h b s) = st_backends s"
    by (simp add: Default_markBackendDraining_def wf_mark [OF wf])
  show "\<exists>s'. Default_RemoveBackend h b s = Ret s' \<and> default_wf h s' \<and>
     (\<forall>i. set (backends_of s' i) =
       (if i \<in> set (uid_names (h b)) then set (backends_of s i) - {b} else set (backends_of s i)))"
    using wf_remove [OF wf, of "be_id (h b)" UID b]
    by (auto simp: Default_RemoveBackend_def GetAgentID_def uid_names_def)
  show "\<exists>res s' r'. Default_Backend now h r (Some host) s = Ret (res, s', r') \<and> default_wf h s' \<and>
     st_backends s' = st_backends s \<and> (case res of Inl e \<Rightarrow> e = ErrNotFound | Inr b \<Rightarrow> registered s b)"
    for now r host
    unfolding Default_Backend_def by (rule wf_random [OF wf])
qed (simp add: uid_names_def)

interpretation route_mgr: manager route_names route_wf DefaultRoute_AddBackend
  DefaultRoute_markBackendDraining DefaultRoute_RemoveBackend DefaultRoute_Backend
proof
  fix h s b
  assume wf: "route_wf h s"
  show "keyed route_names h s" using wf by (simp add: manager_wf_def)
  show "route_wf h' s" if "same_identity h h'" for h'
    using wf that by (rule wf_heap_change) (simp add: route_names_def)
  show "route_wf h (DefaultRoute_AddBackend h b s) \<and>
     (\<forall>i. set (backends_of (DefaultRoute_AddBackend h b s) i) =
       (if i \<in> set (route_names (h b)) then insert b (set (backends_of s i)) else set (backends_of s i)))"
    using wf_add [OF wf, of "be_id (h b)" b DefaultRoute] wf
    by (auto simp: DefaultRoute_AddBackend_def GetAgentID_def GetAgentIdentifiers_def route_names_def
        add_backends_of manager_wf_def)
  show "route_wf h (DefaultRoute_markBackendDraining h b s) \<and>
     st_backends (DefaultRoute_markBackendDraining h b s) = st_backends s"
    using wf by (simp add: DefaultRoute_markBackendDraining_def wf_mark)
  show "\<exists>s'. DefaultRoute_RemoveBackend h b s = Ret s' \<and> route_wf h s' \<and>
     (\<forall>i. set (backends_of s' i) =
       (if i \<in> set (route_names (h b)) then set (backends_of s i) - {b} else set (backends_of s i)))"
    using wf wf_remove [OF wf, of "be_id (h b)" DefaultRoute b]
    by (auto simp: DefaultRoute_RemoveBackend_def GetAgentID_def GetAgentIdentifiers_def route_names_def)
  show "\<exists>res s' r'. DefaultRoute_Backend now h r (Some host) s = Ret (res, s', r') \<and> route_wf h s' \<and>
     st_backends s' = st_backends s \<and> (case res of Inl e \<Rightarrow> e = ErrNotFound | Inr b \<Rightarrow> registered s b)"
    for now r host
    unfolding DefaultRoute_Backend_def by (rule wf_random [OF wf])
qed (simp add: route_names_def)

lemma add_each_law:
  assumes "manager_wf names idTypes idx h s" and "set is \<subseteq> set (names (h b))" and "t \<in> set idTypes"
  shows "manager_wf names idTypes idx h (add_each h t b is s) \<and>
     (\<forall>j. set (backends_of (add_each h t b is s) j) =
        (if j \<in> set is then insert b (set (backends_of s j)) else set (backends_of s j)))"
  using assms
proof (induction "is" arbitrary: s)
  case (Cons i "is")
  have wf: "manager_wf names idTypes idx h (storage_addBackend h i t b s)"
    using Cons.prems by (intro wf_add) auto
  have "t \<in> set (st_idTypes s)" using Cons.prems by (simp add: manager_wf_def)
  with Cons.IH [OF wf] Cons.prems show ?case by (auto simp: add_backends_of)
qed simp

lemma remove_each_law:
  assumes "manager_wf names idTypes idx h s" and "t \<in> set idTypes"
  shows "\<exists>s'. remove_each h t b is s = Ret s' \<and> manager_wf names idTypes idx h s' \<and>
     (\<forall>j. set (backends_of s' j) =
        (if j \<in> set is then set (backends_of s j) - {b} else set (backends_of s j)))"
  using assms
proof (induction "is" arbitrary: s)
  case (Cons i "is")
  obtain s1 where s1: "storage_removeBackend h i t b s = Ret s1" "manager_wf names idTypes idx h s1"
    "\<forall>j. set (backends_of s1 j) = (if j = i \<and> t \<in> set idTypes
        then set (backends_of s j) - {b} else set (backends_of s j))"
    using wf_remove [OF Cons.prems(1), of i t b] by blast
  with Cons.IH [OF s1(2)] Cons.prems(2) show ?case by auto
qed simp

lemma pick_not_draining_spec:
  "pick_not_draining h bs f =
     (case find (\<lambda>b. \<not> IsDraining (h b)) bs of
        Some b \<Rightarrow> Some b
      | None \<Rightarrow> if f = None \<and> bs \<noteq> [] then Some (hd bs) else f)"
  by (induction bs arbitrary: f) (auto split: option.splits)

lemma pick_not_draining_in: "pick_not_draining h bs None = Some b \<Longrightarrow> b \<in> set bs"
  by (auto simp: pick_not_draining_spec find_Some_iff split: option.splits if_splits)

lemma DestHost_add_law:
  assumes wf: "host_wf h s"
  shows "host_wf h (DestHost_AddBackend h b s) \<and>
     (\<forall>i. set (backends_of (DestHost_AddBackend h b s) i) =
       (if i \<in> set (host_names (h b)) then insert b (set (backends_of s i)) else set (backends_of s i)))"
proof -
  let ?ids = "be_idents (h b)"
  define s1 where "s1 = add_each h IPv4 b (idIPv4 ?ids) s"
  define s2 where "s2 = add_each h IPv6 b (idIPv6 ?ids) s1"
  have 1: "host_wf h s1 \<and> (\<forall>j. set (backends_of s1 j) =
       (if j \<in> set (idIPv4 ?ids) then insert b (set (backends_of s j)) else set (backends_of s j)))"
    unfolding s1_def using wf by (intro add_each_law) (auto simp: host_names_def)
  then have 2: "host_wf h s2 \<and> (\<forall>j. set (backends_of s2 j) =
       (if j \<in> set (idIPv6 ?ids) then insert b (set (backends_of s1 j)) else set (backends_of s1 j)))"
    unfolding s2_def by (intro add_each_law) (auto simp: host_names_def)
  then have "host_wf h (add_each h HostId b (idHost ?ids) s2) \<and>
     (\<forall>j. set (backends_of (add_each h HostId b (idHost ?ids) s2) j) =
       (if j \<in> set (idHost ?ids) then insert b (set (backends_of s2 j)) else set (backends_of s2 j)))"
    by (intro add_each_law) (auto simp: host_names_def)
  moreover have "DestHost_AddBackend h b s = add_each h HostId b (idHost ?ids) s2"
    by (simp add: DestHost_AddBackend_def GetAgentIdentifiers_def s1_def s2_def Let_def)
  ultimately show ?thesis using 1 2 by (simp add: host_names_def)
qed

lemma DestHost_remove_law:
  assumes wf: "host_wf h s"
  shows "\<exists>s'. DestHost_RemoveBackend h b s = Ret s' \<and> host_wf h s' \<and>
     (\<forall>i. set (backends_of s' i) =
       (if i \<in> set (host_names (h b)) then set (backends_of s i) - {b} else set (backends_of s i)))"
proof -
  let ?ids = "be_idents (h b)"
  obtain s1 where s1: "remove_each h IPv4 b (idIPv4 ?ids) s = Ret s1" "host_wf h s1"
    "\<forall>j. set (backends_of s1 j) =
      (if j \<in> set (idIPv4 ?ids) then set (backends_of s j) - {b} else set (backends_of s j))"
    using remove_each_law [OF wf, of IPv4 b "idIPv4 ?ids"] by auto
  obtain s2 where s2: "remove_each h IPv6 b (idIPv6 ?ids) s1 = Ret s2" "host_wf h s2"
    "\<forall>j. set (backends_of s2 j) =
      (if j \<in> set (idIPv6 ?ids) then set (backends_of s1 j) - {b} else set (backends_of s1 j))"
    using remove_each_law [OF s1(2), of IPv6 b "idIPv6 ?ids"] by auto
  obtain s3 where s3: "remove_each h HostId b (idHost ?ids) s2 = Ret s3" "host_wf h s3"
    "\<forall>j. set (backends_of s3 j) =
      (if j \<in> set (idHost ?ids) then set (backends_of s2 j) - {b} else set (backends_of s2 j))"
    using remove_each_law [OF s2(2), of HostId b "idHost ?ids"] by auto
  show ?thesis using s1 s2 s3
    by (simp add: DestHost_RemoveBackend_def GetAgentIdentifiers_def Let_def host_names_def)
qed

interpretation host_mgr: manager host_names host_wf DestHost_AddBackend
  "\<lambda>h b s. s" DestHost_RemoveBackend DestHost_Backend
proof
  fix h s b
  assume wf: "host_wf h s"
  show "keyed host_names h s" using wf by (simp add: manager_wf_def)
  show "host_wf h' s" if "same_identity h h'" for h'
    using wf that by (rule wf_heap_change) (simp add: host_names_def)
  show "host_wf h s \<and> st_backends s = st_backends s" using wf by simp
  show "\<exists>res s' r'. DestHost_Backend now h r (Some host) s = Ret (res, s', r') \<and> host_wf h s' \<and>
     st_backends s' = st_backends s \<and> (case res of Inl e \<Rightarrow> e = ErrNotFound | Inr b \<Rightarrow> registered s b)"
    for now r host
  proof (cases "gm_get (st_backends s) host")
    case (Some bes)
    with pick_not_draining_in [of h bes] have
      "pick_not_draining h bes None = Some b \<Longrightarrow> registered s b" for b
      by (auto simp: registered_def backends_of_def intro!: exI [of _ host])
    with Some wf show ?thesis by (auto simp: DestHost_Backend_def split: option.splits)
  qed (use wf in \<open>auto simp: DestHost_Backend_def\<close>)
qed (simp add: host_names_def, fact DestHost_add_law, fact DestHost_remove_law)

subsection \<open>Lists of managers\<close>

fun bm_wf :: "bheap \<Rightarrow> backend_manager \<Rightarrow> bool" where
  "bm_wf h (DefaultBM s) = default_wf h s"
| "bm_wf h (DestHostBM s) = host_wf h s"
| "bm_wf h (DefaultRouteBM s) = route_wf h s"

fun bm_names :: "backend_manager \<Rightarrow> backend \<Rightarrow> string list" where
  "bm_names (DefaultBM s) b = uid_names b"
| "bm_names (DestHostBM s) b = host_names b"
| "bm_names (DefaultRouteBM s) b = route_names b"

definition managers_wf :: "bheap \<Rightarrow> backend_manager list \<Rightarrow> bool" where
  "managers_wf h bms \<longleftrightarrow> (\<forall>bm \<in> set bms. bm_wf h bm)"

definition bm_registered :: "backend_manager \<Rightarrow> bid \<Rightarrow> bool" where
  "bm_registered bm b \<longleftrightarrow> registered (bm_storage bm) b"

lemma bm_wf_heap: "bm_wf h bm \<Longrightarrow> same_identity h h' \<Longrightarrow> bm_wf h' bm"
  by (cases bm) (auto intro: default_mgr.wf_heap host_mgr.wf_heap route_mgr.wf_heap)

lemma bm_add:
  "bm_wf h bm \<Longrightarrow> bm_wf h (bm_AddBackend h b bm) \<and>
     (\<forall>b'. bm_registered (bm_AddBackend h b bm) b' \<longleftrightarrow>
        bm_registered bm b' \<or> b' = b \<and> bm_names bm (h b) \<noteq> [])"
  by (cases bm) (auto simp: bm_registered_def default_mgr.add_registers host_mgr.add_registers
      route_mgr.add_registers default_mgr.add_law host_mgr.add_law route_mgr.add_law)

lemma bm_mark:
  "bm_wf h bm \<Longrightarrow> bm_wf h (bm_markBackendDraining h b bm) \<and>
     (\<forall>b'. bm_registered (bm_markBackendDraining h b bm) b' = bm_registered bm b')"
  by (cases bm) (auto simp: bm_registered_def registered_def backends_of_def
      default_mgr.mark_law route_mgr.mark_law)

lemma bm_remove:
  "bm_wf h bm \<Longrightarrow> \<exists>bm'. bm_RemoveBackend h b bm = Ret bm' \<and> bm_wf h bm' \<and>
     (\<forall>b'. bm_registered bm' b' \<longleftrightarrow> bm_registered bm b' \<and> b' \<noteq> b)"
  using default_mgr.remove_unregisters [of h "bm_storage bm" b]
    host_mgr.remove_unregisters [of h "bm_storage bm" b]
    route_mgr.remove_unregisters [of h "bm_storage bm" b]
  by (cases bm) (auto simp: bm_registered_def bind_outcome_Ret_iff)

fun bm_strategy :: "backend_manager \<Rightarrow> proxy_strategy" where
  "bm_strategy (DefaultBM s) = ProxyStrategyDefault"
| "bm_strategy (DestHostBM s) = ProxyStrategyDestHost"
| "bm_strategy (DefaultRouteBM s) = ProxyStrategyDefaultRoute"

lemma bm_strategy_ops [simp]:
  "bm_strategy (bm_AddBackend h b bm) = bm_strategy bm"
  "bm_strategy (bm_markBackendDraining h b bm) = bm_strategy bm"
  by (cases bm; simp)+

lemma bm_strategy_remove: "bm_RemoveBackend h b bm = Ret bm' \<Longrightarrow> bm_strategy bm' = bm_strategy bm"
  by (cases bm) (auto simp: bind_outcome_Ret_iff)

lemma bm_pick_host:
  "bm_wf h bm \<Longrightarrow> \<exists>res bm' r'. bm_Backend now h r (Some host) bm = Ret (res, bm', r') \<and>
     bm_wf h bm' \<and> bm_strategy bm' = bm_strategy bm \<and>
     (\<forall>b'. bm_registered bm' b' = bm_registered bm b') \<and>
     (case res of Inl e \<Rightarrow> e = ErrNotFound | Inr b \<Rightarrow> bm_registered bm b)"
  using default_mgr.pick_law [of h "bm_storage bm" now r host]
    host_mgr.pick_law [of h "bm_storage bm" now r host]
    route_mgr.pick_law [of h "bm_storage bm" now r host]
  by (cases bm) (fastforce simp: bm_registered_def bind_outcome_Ret_iff registered_def backends_of_def
      cong: sum.case_cong)+

text \<open>Only the destination-host manager reads the context.\<close>

lemma bm_Backend_ctx:
  "bm_strategy bm \<noteq> ProxyStrategyDestHost \<Longrightarrow> bm_Backend now h r ctx bm = bm_Backend now h r ctx' bm"
  by (cases bm) (auto simp: Default_Backend_def DefaultRoute_Backend_def)

lemma bm_pick:
  assumes "bm_wf h bm" and "bm_strategy bm = ProxyStrategyDestHost \<longrightarrow> ctx \<noteq> None"
  shows "\<exists>res bm' r'. bm_Backend now h r ctx bm = Ret (res, bm', r') \<and>
     bm_wf h bm' \<and> bm_strategy bm' = bm_strategy bm \<and>
     (\<forall>b'. bm_registered bm' b' = bm_registered bm b') \<and>
     (case res of Inl e \<Rightarrow> e = ErrNotFound | Inr b \<Rightarrow> bm_registered bm b)"
  using assms bm_pick_host [of h bm now r] bm_Backend_ctx [of bm now h r ctx "Some []"]
  by (cases ctx) auto

definition ctx_fits :: "string option \<Rightarrow> backend_manager list \<Rightarrow> bool" where
  "ctx_fits ctx bms \<longleftrightarrow> (\<forall>bm \<in> set bms. bm_strategy bm = ProxyStrategyDestHost \<longrightarrow> ctx \<noteq> None)"

lemma getBackend_loop_spec:
  assumes "managers_wf h bms" and "ctx_fits ctx bms"
  shows "\<exists>res bms' r'. getBackend_loop now h r ctx bms = Ret (res, bms', r') \<and>
     managers_wf h bms' \<and> map bm_strategy bms' = map bm_strategy bms \<and>
     map bm_registered bms' = map bm_registered bms \<and>
     (case res of Inl e \<Rightarrow> e = ErrNotFound | Inr b \<Rightarrow> \<exists>bm \<in> set bms. bm_registered bm b)"
  using assms
proof (induction bms arbitrary: r)
  case (Cons bm bms)
  have wf: "bm_wf h bm" "managers_wf h bms" "ctx_fits ctx bms"
    and c: "bm_strategy bm = ProxyStrategyDestHost \<longrightarrow> ctx \<noteq> None"
    using Cons.prems by (simp_all add: managers_wf_def ctx_fits_def)
  obtain res bm' r' where one: "bm_Backend now h r ctx bm = Ret (res, bm', r')" "bm_wf h bm'"
      "bm_strategy bm' = bm_strategy bm" "bm_registered bm' = bm_registered bm"
      "case res of Inl e \<Rightarrow> e = ErrNotFound | Inr b \<Rightarrow> bm_registered bm b"
    using bm_pick [OF wf(1) c, of now r] by (auto simp: fun_eq_iff)
  show ?case
  proof (cases res)
    case (Inr b)
    with one wf show ?thesis by (auto simp: managers_wf_def)
  next
    case (Inl e)
    obtain res' bms' r'' where rest: "getBackend_loop now h r' ctx bms = Ret (res', bms', r'')"
        "managers_wf h bms'" "map bm_strategy bms' = map bm_strategy bms"
        "map bm_registered bms' = map bm_registered bms"
        "case res' of Inl e \<Rightarrow> e = ErrNotFound | Inr b \<Rightarrow> \<exists>bm \<in> set bms. bm_registered bm b"
      using Cons.IH [OF wf(2,3), of r'] by blast
    have "getBackend_loop now h r ctx (bm # bms) = Ret (res', bm' # bms', r'')"
      using Inl one rest(1) by (simp add: ignoreNotFound_def)
    with one rest show ?thesis
      by (cases res') (auto simp: managers_wf_def)
  qed
qed (simp add: managers_wf_def)

lemma genContext_loop_fits:
  "ctx \<noteq> None \<or> ProxyStrategyDestHost \<in> set ps \<Longrightarrow> genContext_loop ps host ctx \<noteq> None"
  by (induction ps host ctx rule: genContext_loop.induct) (auto split: proxy_strategy.splits)

lemma new_managers_strategies: "set (map bm_strategy (new_managers ps)) \<subseteq> set ps"
  by (induction ps rule: new_managers.induct) (auto split: proxy_strategy.splits)

lemma new_managers_wf: "managers_wf h (new_managers ps)"
  using wf_new [of uid_names "[UID]" ProxyStrategyDefault h]
    wf_new [of host_names "[IPv4, IPv6, HostId]" ProxyStrategyDestHost h]
    wf_new [of route_names "[DefaultRoute]" ProxyStrategyDefaultRoute h]
  by (induction ps rule: new_managers.induct)
    (auto simp: managers_wf_def NewDefaultBackendManager_def NewDestHostBackendManager_def
      NewDefaultRouteBackendManager_def split: proxy_strategy.splits)

lemma addBackend_spec:
  "managers_wf h bms \<Longrightarrow> managers_wf h (addBackend h b bms) \<and>
     map bm_strategy (addBackend h b bms) = map bm_strategy bms"
  by (induction bms) (auto simp: managers_wf_def bm_add)

lemma notifyDraining_spec:
  "managers_wf h bms \<Longrightarrow> managers_wf h (notifyDraining h b bms) \<and>
     map bm_strategy (notifyDraining h b bms) = map bm_strategy bms \<and>
     map bm_registered (notifyDraining h b bms) = map bm_registered bms"
  by (induction bms) (auto simp: managers_wf_def bm_mark)

lemma removeBackend_spec:
  "managers_wf h bms \<Longrightarrow> \<exists>bms'. removeBackend h b bms = Ret bms' \<and> managers_wf h bms' \<and>
     map bm_strategy bms' = map bm_strategy bms \<and>
     (\<forall>bm \<in> set bms'. \<not> bm_registered bm b)"
proof (induction bms)
  case (Cons bm bms)
  then obtain bm' where "bm_RemoveBackend h b bm = Ret bm'" "bm_wf h bm'" "\<not> bm_registered bm' b"
    using bm_remove [of h bm b] by (auto simp: managers_wf_def)
  with Cons bm_strategy_remove [of h b bm bm'] show ?case by (auto simp: managers_wf_def)
qed (simp add: managers_wf_def)

lemma managers_heap: "managers_wf h bms \<Longrightarrow> same_identity h h' \<Longrightarrow> managers_wf h' bms"
  by (auto simp: managers_wf_def intro: bm_wf_heap)

lemma addBackend_registered:
  "managers_wf h bms \<Longrightarrow> bm \<in> set (addBackend h b bms) \<Longrightarrow> bm_registered bm b' \<Longrightarrow>
     b' = b \<or> (\<exists>bm \<in> set bms. bm_registered bm b')"
  by (induction bms) (auto simp: managers_wf_def bm_add)

lemma removeBackend_registered:
  "managers_wf h bms \<Longrightarrow> removeBackend h b bms = Ret bms' \<Longrightarrow> bm \<in> set bms' \<Longrightarrow>
     bm_registered bm b' \<Longrightarrow> \<exists>bm \<in> set bms. bm_registered bm b'"
proof (induction bms arbitrary: bms')
  case (Cons x xs)
  obtain x' where x': "bm_RemoveBackend h b x = Ret x'" "\<forall>c. bm_registered x' c \<longrightarrow> bm_registered x c"
    using bm_remove [of h x b] Cons.prems(1) by (auto simp: managers_wf_def)
  with Cons.prems obtain xs' where "removeBackend h b xs = Ret xs'" "bms' = x' # xs'"
    by (auto simp: bind_outcome_Ret_iff)
  with Cons x' show ?case by (auto simp: managers_wf_def)
qed simp

text \<open>A backend no manager lists can be anything.\<close>

lemma manager_wf_unregistered:
  assumes "manager_wf names idTypes idx h s" and "\<not> registered s b"
  shows "manager_wf names idTypes idx (h(b := be)) s"
proof -
  have not_b: "b \<notin> set (backends_of s i)" for i using assms(2) by (simp add: registered_def)
  have e: "entries_ok s" using assms(1) by (simp add: manager_wf_def storage_inv_def)
  have "hd (backends_of s i) \<noteq> b" if "i \<in> set (gm_keys (st_backends s))" for i
    using that not_b [of i] backends_of_registered [OF e, of i] hd_in_set [of "backends_of s i"] by auto
  moreover have "i \<in> set (gm_keys (st_backends s))" if "st_maintain s" "i \<in> set (st_draining s)" for i
    using that assms(1) by (auto simp: manager_wf_def storage_inv_def index_ok_def)
  ultimately have "storage_inv (h(b := be)) s"
    using assms(1) unfolding manager_wf_def storage_inv_def index_ok_def
    by (cases "st_maintain s") auto
  with assms(1) not_b show ?thesis by (auto simp: manager_wf_def keyed_def)
qed

lemma managers_wf_unregistered:
  "managers_wf h bms \<Longrightarrow> \<forall>bm \<in> set bms. \<not> bm_registered bm b \<Longrightarrow> managers_wf (h(b := be)) bms"
  unfolding managers_wf_def
proof
  fix bm
  assume "\<forall>bm \<in> set bms. bm_wf h bm" "\<forall>bm \<in> set bms. \<not> bm_registered bm b" "bm \<in> set bms"
  then show "bm_wf (h(b := be)) bm"
    by (cases bm) (auto simp: bm_registered_def intro!: manager_wf_unregistered)
qed

subsection \<open>The managers as a system\<close>

text \<open>
  A server created with a list of strategies: its managers are changed by agents connecting,
  leaving and draining and by requests choosing a backend, while other goroutines change the
  backends' flags and counters (never their identity).
\<close>

type_synonym managers_state = "proxy_strategy list \<times> bheap \<times> backend_manager list"

inductive managers_step :: "managers_state \<Rightarrow> managers_state \<Rightarrow> bool" where
  connected: "managers_step (ps, h, bms) (ps, h, addBackend h b bms)"
| drained: "markBackendDraining b (h, bms) = (h', bms') \<Longrightarrow> managers_step (ps, h, bms) (ps, h', bms')"
| left: "removeBackend h b bms = Ret bms' \<Longrightarrow> managers_step (ps, h, bms) (ps, h, bms')"
| chosen: "getBackend now h r ps reqHost bms = Ret (res, bms', r') \<Longrightarrow>
     managers_step (ps, h, bms) (ps, h, bms')"
| elsewhere: "same_identity h h' \<Longrightarrow> managers_step (ps, h, bms) (ps, h', bms)"

definition managers_init :: "managers_state \<Rightarrow> bool" where
  "managers_init = (\<lambda>(ps, h, bms). bms = new_managers ps)"

definition managers_inv :: "managers_state \<Rightarrow> bool" where
  "managers_inv = (\<lambda>(ps, h, bms). managers_wf h bms \<and> set (map bm_strategy bms) \<subseteq> set ps)"

lemma inv_ctx_fits: "managers_inv (ps, h, bms) \<Longrightarrow> ctx_fits (genContext ps host) bms"
  using genContext_loop_fits [of None ps host] by (auto simp: managers_inv_def ctx_fits_def genContext_def)

lemma SetDraining_identity: "same_identity h (h(b := SetDraining (h b)))"
  by (simp add: same_identity_def SetDraining_def IsDraining_def)

lemma managers_inv_step:
  assumes inv: "managers_inv x" and step: "managers_step x y"
  shows "managers_inv y"
  using step inv
proof (cases rule: managers_step.cases)
  case (connected ps h bms b)
  with inv addBackend_spec [of h bms b] show ?thesis
    by (auto simp: managers_inv_def simp flip: set_map)
next
  case (drained b h bms h' bms' ps)
  with inv notifyDraining_spec [OF managers_heap [OF _ SetDraining_identity], of h bms b b]
  show ?thesis
    by (auto simp: managers_inv_def markBackendDraining_def Let_def simp flip: set_map)
next
  case (left h b bms bms' ps)
  with inv removeBackend_spec [of h bms b] show ?thesis
    by (auto simp: managers_inv_def simp flip: set_map)
next
  case (chosen now h r ps reqHost bms res bms' r')
  with inv getBackend_loop_spec [of h bms "genContext ps reqHost" now r] inv_ctx_fits [of ps h bms reqHost]
  show ?thesis by (auto simp: managers_inv_def getBackend_def simp flip: set_map)
next
  case (elsewhere h h' ps bms)
  with inv managers_heap [of h bms h'] show ?thesis by (auto simp: managers_inv_def)
qed

interpretation managers_system: invariant_system managers_init managers_step managers_inv
proof
  show "managers_inv x" if "managers_init x" for x
    using that new_managers_wf new_managers_strategies [of "fst x"]
    by (cases x) (simp add: managers_init_def managers_inv_def)
qed (rule managers_inv_step)

subsection \<open>Properties\<close>

text \<open>
  On a reachable server choosing a backend for a host never panics: it returns a backend
  registered with one of the managers, or the error saying that no agent is available.
\<close>

theorem getBackend_registered:
  assumes "reach managers_init managers_step (ps, h, bms)"
  shows "\<exists>res bms' r'. getBackend now h r ps reqHost bms = Ret (res, bms', r') \<and>
     (case res of Inl e \<Rightarrow> e = ErrNotFound | Inr b \<Rightarrow> \<exists>bm \<in> set bms. bm_registered bm b)"
proof -
  have "managers_inv (ps, h, bms)" by (rule managers_system.reach_inv [OF assms])
  with getBackend_loop_spec [of h bms "genContext ps reqHost" now r] inv_ctx_fits
  show ?thesis by (auto simp: getBackend_def managers_inv_def)
qed

definition sample_managers :: "backend_manager list" where
  "sample_managers = addBackend sample_heap 1 (addBackend sample_heap 0
     (new_managers [ProxyStrategyDestHost, ProxyStrategyDefault]))"

lemma sample_managers_reach:
  "reach managers_init managers_step
     ([ProxyStrategyDestHost, ProxyStrategyDefault], sample_heap, sample_managers)"
proof -
  have add: "reach managers_init managers_step (ps, h, bms) \<Longrightarrow>
      reach managers_init managers_step (ps, h, addBackend h b bms)" for ps h bms b
    by (erule reach_step) (rule managers_step.connected)
  show ?thesis unfolding sample_managers_def
    by (intro add reach_init) (simp add: managers_init_def)
qed

theorem getBackend_registered_witness:
  "\<exists>res bms' r'. getBackend 0 sample_heap (\<lambda>_. 0) [ProxyStrategyDestHost, ProxyStrategyDefault]
     ''host:80'' sample_managers = Ret (res, bms', r')"
  using getBackend_registered [OF sample_managers_reach] by blast

text \<open>
  C17. Once an agent's backend has been removed no later request is routed to it: removing
  never panics, no manager lists the backend afterwards, and choosing a backend, whatever the
  other backends' flags and counters have become, returns another one or none.
\<close>

theorem removed_never_chosen:
  assumes "reach managers_init managers_step (ps, h, bms)"
  shows "\<exists>bms'. removeBackend h b bms = Ret bms' \<and> (\<forall>bm \<in> set bms'. \<not> bm_registered bm b) \<and>
     (\<forall>h' now r reqHost bms'' r'. same_identity h h' \<longrightarrow>
        getBackend now h' r ps reqHost bms' \<noteq> Ret (Inr b, bms'', r'))"
proof -
  have inv: "managers_inv (ps, h, bms)" by (rule managers_system.reach_inv [OF assms])
  then obtain bms' where rem: "removeBackend h b bms = Ret bms'" "managers_wf h bms'"
      "map bm_strategy bms' = map bm_strategy bms" and gone: "\<forall>bm \<in> set bms'. \<not> bm_registered bm b"
    using removeBackend_spec [of h bms b] by (auto simp: managers_inv_def)
  have "getBackend now h' r ps reqHost bms' \<noteq> Ret (Inr b, bms'', r')"
    if "same_identity h h'" for h' now r reqHost bms'' r'
  proof -
    have "managers_inv (ps, h', bms')"
      using inv rem managers_heap [OF rem(2) that] by (simp add: managers_inv_def flip: set_map)
    with getBackend_loop_spec [of h' bms' "genContext ps reqHost" now r] inv_ctx_fits gone
    show ?thesis by (auto simp: getBackend_def managers_inv_def)
  qed
  with rem gone show ?thesis by blast
qed

theorem removed_never_chosen_witness:
  "\<exists>bms'. removeBackend sample_heap 1 sample_managers = Ret bms' \<and>
     (\<forall>bms'' r'. getBackend 0 sample_heap (\<lambda>_. 0) [ProxyStrategyDestHost, ProxyStrategyDefault]
        ''host:80'' bms' \<noteq> Ret (Inr 1, bms'', r'))"
  using removed_never_chosen [OF sample_managers_reach, of 1]
  by (auto simp: same_identity_def)

text \<open>
  Destination-host routing sends a request to a backend registered under exactly the
  requested host: the first of them that does not drain, the first of all when they all
  drain; and it finds none when the host is empty or has no backend.
\<close>

theorem DestHost_Backend_exact:
  assumes "host_wf h s"
  shows "DestHost_Backend now h r (Some host) s =
     Ret (if host = [] \<or> backends_of s host = [] then Inl ErrNotFound
          else Inr (case find (\<lambda>b. \<not> IsDraining (h b)) (backends_of s host) of
                      Some b \<Rightarrow> b | None \<Rightarrow> hd (backends_of s host)), s, r)"
proof (cases "gm_get (st_backends s) host")
  case None
  then show ?thesis by (simp add: DestHost_Backend_def backends_of_def)
next
  case (Some bes)
  with assms have "bes \<noteq> []" by (auto simp: manager_wf_def storage_inv_def entries_ok_get)
  moreover have "st_backends s \<noteq> []" using Some by auto
  ultimately show ?thesis using Some
    by (auto simp: DestHost_Backend_def backends_of_def pick_not_draining_spec split: option.splits)
qed

definition host_heap :: bheap where
  "host_heap b = (sample_heap b)\<lparr>be_idents := no_identifiers\<lparr>idHost := [''n1'']\<rparr>\<rparr>"

definition host_storage :: storage where
  "host_storage = DestHost_AddBackend host_heap 1 (DestHost_AddBackend host_heap 0 NewDestHostBackendManager)"

lemma host_storage_wf: "host_wf host_heap host_storage"
  using wf_new [of host_names "[IPv4, IPv6, HostId]" ProxyStrategyDestHost host_heap]
  by (simp add: host_storage_def NewDestHostBackendManager_def host_mgr.add_law)

lemma host_storage_n1: "backends_of host_storage ''n1'' = [0, 1]"
  by (simp add: host_storage_def NewDestHostBackendManager_def NewDefaultBackendStorage_def
      DestHost_AddBackend_def GetAgentIdentifiers_def host_heap_def no_identifiers_def Let_def
      storage_addBackend_def containIDType_def backends_of_def)

theorem DestHost_Backend_exact_witness:
  "DestHost_Backend 0 host_heap (\<lambda>_. 0) (Some ''n1'') host_storage = Ret (Inr 1, host_storage, \<lambda>_. 0)"
  using DestHost_Backend_exact [OF host_storage_wf, of 0 "\<lambda>_. 0" "''n1''"]
  by (simp add: host_storage_n1 host_heap_def sample_heap_def IsDraining_def)

end
