(* ===== verification/KNP_PendingDial.thy ===== *)
theory KNP_PendingDial
  imports KNP_Managers
begin

section \<open>PendingDialManager: dials waiting for an answer\<close>

text \<open>
  \<^verbatim>\<open>PendingDialManager\<close> and \<^verbatim>\<open>ProxyClientConnection\<close> of \<^verbatim>\<open>pkg/server/server.go\<close>. Each method
  runs under the manager's lock and is one step on the table and on the counters
  \<^verbatim>\<open>dialsInFlight\<close> of the backends, which live in the heap. A dial ends exactly once: whichever of
  the response, the timeout, the frontend's close, the agent's disconnect or the frontend's
  disconnect removes the entry first owns it.
\<close>

subsection \<open>State\<close>

record frontend =
  fr_id :: fid
  fr_streamUID :: string

record client_conn =
  pc_frontend :: "frontend option"
  pc_dialID :: int
  pc_connectID :: int
  pc_agentID :: string
  pc_start :: time
  pc_establishedAt :: "time option"
  pc_backend :: "bid option"
  pc_dialAddress :: string

record pending =
  pd_map :: "(int, client_conn) gomap"
  pd_gauge :: nat

definition NewPendingDialManager :: pending where
  "NewPendingDialManager = \<lparr>pd_map = [], pd_gauge = 0\<rparr>"

type_synonym pending_state = "bheap \<times> pending"

subsection \<open>Operations\<close>

text \<open>\<^verbatim>\<open>dialsInFlight.Add(d)\<close> on the backend of a connection, when it has one.\<close>

definition add_inflight :: "int \<Rightarrow> bid option \<Rightarrow> bheap \<Rightarrow> bheap" where
  "add_inflight d ob h =
     (case ob of
        None \<Rightarrow> h
      | Some b \<Rightarrow> h(b := (h b)\<lparr>be_dialsInFlight := wrap64 (be_dialsInFlight (h b) + d)\<rparr>))"

definition set_pending :: "(int, client_conn) gomap \<Rightarrow> pending" where
  "set_pending m = \<lparr>pd_map = m, pd_gauge = length m\<rparr>"

definition PendingDial_Add :: "int \<Rightarrow> client_conn \<Rightarrow> pending_state \<Rightarrow> pending_state" where
  "PendingDial_Add random clientConn = (\<lambda>(h, pm).
     let h1 = (case gm_get (pd_map pm) random of
                 Some old \<Rightarrow> add_inflight (- 1) (pc_backend old) h
               | None \<Rightarrow> h)
     in (add_inflight 1 (pc_backend clientConn) h1, set_pending (gm_put random clientConn (pd_map pm))))"

definition PendingDial_Remove :: "int \<Rightarrow> pending_state \<Rightarrow> client_conn option \<times> pending_state" where
  "PendingDial_Remove random = (\<lambda>(h, pm).
     let pd = gm_get (pd_map pm) random;
         m = gm_delete random (pd_map pm);
         h1 = (case pd of Some c \<Rightarrow> add_inflight (- 1) (pc_backend c) h | None \<Rightarrow> h)
     in (pd, (h1, set_pending m)))"

definition release_all :: "client_conn list \<Rightarrow> bheap \<Rightarrow> bheap" where
  "release_all cs h = fold (\<lambda>c. add_inflight (- 1) (pc_backend c)) cs h"

definition removeForBackend :: "bid option \<Rightarrow> pending_state \<Rightarrow> client_conn list \<times> pending_state" where
  "removeForBackend backend = (\<lambda>(h, pm).
     case backend of
       None \<Rightarrow> ([], (h, pm))
     | Some b \<Rightarrow>
         (let (m, ret) = sweep (\<lambda>c. pc_backend c = Some b) (pd_map pm) (pd_map pm)
          in (ret, (release_all ret h, set_pending m))))"

definition on_stream :: "string \<Rightarrow> client_conn \<Rightarrow> bool" where
  "on_stream streamUID c \<longleftrightarrow>
     (case pc_frontend c of None \<Rightarrow> False | Some f \<Rightarrow> fr_streamUID f = streamUID)"

definition removeForStream :: "string \<Rightarrow> pending_state \<Rightarrow> client_conn list \<times> pending_state" where
  "removeForStream streamUID = (\<lambda>(h, pm).
     if streamUID = [] then ([], (h, pm))
     else
       (let (m, ret) = sweep (on_stream streamUID) (pd_map pm) (pd_map pm)
        in (ret, (release_all ret h, set_pending m))))"

subsection \<open>The accounting invariant\<close>

definition pending_of :: "bid \<Rightarrow> (int, client_conn) gomap \<Rightarrow> nat" where
  "pending_of b m = length (filter (\<lambda>e. pc_backend (snd e) = Some b) m)"

definition pending_inv :: "pending_state \<Rightarrow> bool" where
  "pending_inv = (\<lambda>(h, pm).
     gm_wf (pd_map pm) \<and> pd_gauge pm = length (pd_map pm) \<and>
     (\<forall>b. be_dialsInFlight (h b) = wrap64 (int (pending_of b (pd_map pm)))))"

lemma inflight_add_inflight:
  "be_dialsInFlight (add_inflight d ob h b) =
     (if ob = Some b then wrap64 (be_dialsInFlight (h b) + d) else be_dialsInFlight (h b))"
  by (auto simp: add_inflight_def split: option.splits)

lemma inflight_release_all:
  assumes "be_dialsInFlight (h b) = wrap64 n"
  shows "be_dialsInFlight (release_all cs h b) =
     wrap64 (n - int (length (filter (\<lambda>c. pc_backend c = Some b) cs)))"
  using assms
proof (induction cs arbitrary: h n)
  case (Cons c cs)
  show ?case
  proof (cases "pc_backend c = Some b")
    case True
    then have "be_dialsInFlight (add_inflight (- 1) (pc_backend c) h b) = wrap64 (n - 1)"
      using Cons.prems wrap64_add [of n "- 1"] by (simp add: inflight_add_inflight)
    from Cons.IH [where n = "n - 1" and h = "add_inflight (- 1) (pc_backend c) h", OF this] True show ?thesis by (simp add: release_all_def algebra_simps)
  next
    case False
    then have "be_dialsInFlight (add_inflight (- 1) (pc_backend c) h b) = wrap64 n"
      using Cons.prems by (simp add: inflight_add_inflight)
    from Cons.IH [where n = n and h = "add_inflight (- 1) (pc_backend c) h", OF this] False show ?thesis by (simp add: release_all_def)
  qed
qed (simp add: release_all_def)

lemma pending_of_mset: "pending_of b m = size (filter_mset (\<lambda>e. pc_backend (snd e) = Some b) (mset m))"
  by (simp add: pending_of_def flip: mset_filter)

lemma pending_of_delete:
  "gm_wf m \<Longrightarrow> gm_get m k = Some c \<Longrightarrow>
     pending_of b m = pending_of b (gm_delete k m) + (if pc_backend c = Some b then 1 else 0)"
  using gm_delete_mset [of m k c] by (simp add: pending_of_mset)

lemma pending_of_put:
  "gm_wf m \<Longrightarrow>
     pending_of b (gm_put k c m) + (case gm_get m k of Some old \<Rightarrow> if pc_backend old = Some b then 1 else 0 | None \<Rightarrow> 0)
     = pending_of b m + (if pc_backend c = Some b then 1 else 0)"
proof (cases "gm_get m k")
  case None
  then show ?thesis by (simp add: gm_put_new pending_of_def)
next
  case (Some old)
  assume "gm_wf m"
  from arg_cong [OF gm_put_old [OF this Some, of c], of "\<lambda>M. size (filter_mset (\<lambda>e. pc_backend (snd e) = Some b) M)"]
  show ?thesis using Some by (auto simp: pending_of_mset split: if_splits)
qed

lemma pending_of_filter:
  "int (pending_of b (filter (\<lambda>e. \<not> P (snd e)) m)) =
     int (pending_of b m) - int (length (filter (\<lambda>c. pc_backend c = Some b) (map snd (filter (\<lambda>e. P (snd e)) m))))"
  by (induction m) (auto simp: pending_of_def)

lemma Add_inv: "pending_inv st \<Longrightarrow> pending_inv (PendingDial_Add random c st)"
proof (cases st)
  case (Pair h pm)
  assume inv: "pending_inv st"
  let ?m = "pd_map pm"
  have "be_dialsInFlight (fst (PendingDial_Add random c st) b) =
      wrap64 (int (pending_of b (gm_put random c ?m)))" for b
  proof -
    have "be_dialsInFlight (h b) = wrap64 (int (pending_of b ?m))" and wf: "gm_wf ?m"
      using inv Pair by (simp_all add: pending_inv_def)
    then show ?thesis
      using pending_of_put [OF wf, of b random c] Pair
      by (auto simp: PendingDial_Add_def Let_def inflight_add_inflight wrap64_arith
          split: option.splits if_splits intro!: arg_cong [where f = wrap64])
  qed
  with inv Pair show ?thesis
    by (simp add: pending_inv_def PendingDial_Add_def Let_def set_pending_def split: prod.splits)
qed

lemma Remove_inv: "pending_inv st \<Longrightarrow> pending_inv (snd (PendingDial_Remove random st))"
proof (cases st)
  case (Pair h pm)
  assume inv: "pending_inv st"
  let ?m = "pd_map pm"
  have wf: "gm_wf ?m" using inv Pair by (simp add: pending_inv_def)
  show ?thesis
  proof (cases "gm_get ?m random")
    case None
    then have "gm_delete random ?m = ?m" by (simp add: gm_delete_absent gm_get_None_iff)
    with None inv Pair show ?thesis
      by (simp add: pending_inv_def PendingDial_Remove_def set_pending_def Let_def)
  next
    case (Some c)
    with inv Pair pending_of_delete [OF wf Some] show ?thesis
      by (auto simp: pending_inv_def PendingDial_Remove_def set_pending_def inflight_add_inflight Let_def
          wrap64_arith wf intro!: arg_cong [where f = wrap64])
  qed
qed

lemma sweep_inv:
  assumes "pending_inv (h, pm)" and "sweep P (pd_map pm) (pd_map pm) = (m, ret)"
  shows "pending_inv (release_all ret h, set_pending m)"
proof -
  have wf: "gm_wf (pd_map pm)" using assms(1) by (simp add: pending_inv_def)
  then have m: "m = filter (\<lambda>e. \<not> P (snd e)) (pd_map pm)"
    and ret: "ret = map snd (filter (\<lambda>e. P (snd e)) (pd_map pm))"
    using assms(2) by (simp_all add: sweep_all)
  have "be_dialsInFlight (release_all ret h b) = wrap64 (int (pending_of b m))" for b
  proof -
    have "be_dialsInFlight (h b) = wrap64 (int (pending_of b (pd_map pm)))"
      using assms(1) by (simp add: pending_inv_def)
    then show ?thesis unfolding m ret pending_of_filter by (rule inflight_release_all)
  qed
  with wf m show ?thesis by (simp add: pending_inv_def set_pending_def gm_wf_filter)
qed

lemma removeForBackend_inv: "pending_inv st \<Longrightarrow> pending_inv (snd (removeForBackend ob st))"
  by (cases st; cases ob) (auto simp: removeForBackend_def dest: sweep_inv split: prod.splits)

lemma removeForStream_inv: "pending_inv st \<Longrightarrow> pending_inv (snd (removeForStream uid st))"
  by (cases st) (auto simp: removeForStream_def dest: sweep_inv split: prod.splits)

subsection \<open>The pending dials as a system\<close>

definition pending_lookup :: "pending_state \<Rightarrow> int \<Rightarrow> client_conn option" where
  "pending_lookup st random = gm_get (pd_map (snd st)) random"

interpretation pending_dials: claim_table pending_lookup PendingDial_Remove pending_inv
  by unfold_locales
    (auto simp: pending_lookup_def PendingDial_Remove_def set_pending_def Let_def Remove_inv
      split: prod.splits dest: Remove_inv)

inductive pending_step :: "pending_state \<Rightarrow> pending_state \<Rightarrow> bool" where
  dialled: "pending_step st (PendingDial_Add random c st)"
| claimed: "PendingDial_Remove random st = (c, st') \<Longrightarrow> pending_step st st'"
| agent_left: "removeForBackend ob st = (cs, st') \<Longrightarrow> pending_step st st'"
| stream_left: "removeForStream uid st = (cs, st') \<Longrightarrow> pending_step st st'"

definition pending_init :: "pending_state \<Rightarrow> bool" where
  "pending_init = (\<lambda>(h, pm). pm = NewPendingDialManager \<and> (\<forall>b. be_dialsInFlight (h b) = 0))"

lemma wrap64_0 [simp]: "wrap64 0 = 0"
  by (simp add: wrap64_def)

interpretation pending_system: invariant_system pending_init pending_step pending_inv
proof
  show "pending_inv st" if "pending_init st" for st
    using that by (auto simp: pending_init_def pending_inv_def NewPendingDialManager_def pending_of_def)
  show "pending_inv st'" if "pending_inv st" "pending_step st st'" for st st'
    using that(2,1)
    by (cases rule: pending_step.cases)
      (metis Add_inv Remove_inv removeForBackend_inv removeForStream_inv snd_conv)+
qed

subsection \<open>Properties\<close>

text \<open>
  C15. In every order of dialling, answering, timing out and disconnecting, the number of dials
  in flight of each backend is exactly the number of pending entries that name it (as long as
  it fits 63 bits), and the pending gauge is the size of the table.
\<close>

theorem dialsInFlight_exact:
  assumes "reach pending_init pending_step (h, pm)" and "length (pd_map pm) < 2 ^ 63"
  shows "be_dialsInFlight (h b) =
       int (card {random. \<exists>c. gm_get (pd_map pm) random = Some c \<and> pc_backend c = Some b}) \<and>
     pd_gauge pm = length (pd_map pm)"
proof -
  have inv: "pending_inv (h, pm)" by (rule pending_system.reach_inv [OF assms(1)])
  let ?m = "pd_map pm" and ?P = "\<lambda>e. pc_backend (snd e) = Some b"
  have wf: "gm_wf ?m" using inv by (simp add: pending_inv_def)
  have "{random. \<exists>c. gm_get ?m random = Some c \<and> pc_backend c = Some b} = fst ` set (filter ?P ?m)"
    using gm_get_wf_iff [OF wf] by (force simp: image_iff)
  moreover have "card (fst ` set (filter ?P ?m)) = pending_of b ?m"
    using gm_wf_filter [OF wf, of ?P] distinct_card [of "map fst (filter ?P ?m)"]
    by (simp add: gm_wf_def pending_of_def)
  moreover have "pending_of b ?m \<le> length ?m" by (simp add: pending_of_def)
  then have "in_int64 (int (pending_of b ?m))" using assms(2) by (simp add: in_int64_def)
  ultimately show ?thesis using inv by (simp add: pending_inv_def)
qed

definition quiet_heap :: bheap where
  "quiet_heap b = sample_backend\<lparr>be_dialsInFlight := 0\<rparr>"

definition sample_conn :: client_conn where
  "sample_conn = \<lparr>pc_frontend = Some \<lparr>fr_id = 0, fr_streamUID = ''s''\<rparr>, pc_dialID = 7, pc_connectID = 0,
     pc_agentID = [], pc_start = 0, pc_establishedAt = None, pc_backend = Some 3, pc_dialAddress = ''x:1''\<rparr>"

definition sample_pending :: pending_state where
  "sample_pending = PendingDial_Add 7 sample_conn (quiet_heap, NewPendingDialManager)"

lemma sample_pending_reach: "reach pending_init pending_step sample_pending"
proof -
  have "reach pending_init pending_step (quiet_heap, NewPendingDialManager)"
    by (rule reach_init) (simp add: pending_init_def quiet_heap_def)
  from reach_step [OF this pending_step.dialled] show ?thesis unfolding sample_pending_def .
qed

theorem dialsInFlight_exact_witness:
  "be_dialsInFlight (fst sample_pending 3) =
     int (card {random. \<exists>c. gm_get (pd_map (snd sample_pending)) random = Some c \<and> pc_backend c = Some 3})"
  using dialsInFlight_exact [of "fst sample_pending" "snd sample_pending" 3] sample_pending_reach
  by (simp add: sample_pending_def PendingDial_Add_def NewPendingDialManager_def set_pending_def gm_put_def)

text \<open>
  A pending dial ends exactly once: however many goroutines try to remove it, in
  whatever order and among whatever other removals, exactly one of them gets it.
\<close>

theorem pending_claimed_once:
  assumes "reach pending_init pending_step st"
  shows "wins random ks (fst (claim_list PendingDial_Remove ks st)) =
     (if gm_get (pd_map (snd st)) random \<noteq> None \<and> random \<in> set ks then 1 else 0)"
  using pending_dials.claimed_once [OF pending_system.reach_inv [OF assms], of random ks]
  by (simp only: pending_lookup_def)

theorem pending_claimed_once_witness:
  "wins (7::int) [7, 8, 7] (fst (claim_list PendingDial_Remove [7, 8, 7] sample_pending)) = 1"
  using pending_claimed_once [OF sample_pending_reach, of 7 "[7, 8, 7]"]
  by (simp add: sample_pending_def PendingDial_Add_def NewPendingDialManager_def set_pending_def)

text \<open>
  When an agent connection ends, every pending dial sent over it is handed back and no
  other; when a frontend stream ends, every pending dial of that stream is handed back and no
  other. The rest of the table is unchanged.
\<close>

theorem remove_for_complete:
  assumes "reach pending_init pending_step st" and "uid \<noteq> []"
  shows "(let (cs, st') = removeForBackend (Some b) st in
       set cs = {c. \<exists>k. gm_get (pd_map (snd st)) k = Some c \<and> pc_backend c = Some b} \<and>
       (\<forall>k. gm_get (pd_map (snd st')) k =
          (case gm_get (pd_map (snd st)) k of
             Some c \<Rightarrow> if pc_backend c = Some b then None else Some c | None \<Rightarrow> None))) \<and>
     (let (cs, st') = removeForStream uid st in
       set cs = {c. \<exists>k. gm_get (pd_map (snd st)) k = Some c \<and> on_stream uid c} \<and>
       (\<forall>k. gm_get (pd_map (snd st')) k =
          (case gm_get (pd_map (snd st)) k of
             Some c \<Rightarrow> if on_stream uid c then None else Some c | None \<Rightarrow> None)))"
proof -
  have wf: "gm_wf (pd_map (snd st))"
    using pending_system.reach_inv [OF assms(1)] by (cases st) (simp add: pending_inv_def)
  from sweep_spec [OF this, of "on_stream uid"] sweep_spec [OF this, of "\<lambda>c. pc_backend c = Some b"]
  show ?thesis using assms(2)
    unfolding removeForBackend_def removeForStream_def
    by (simp add: case_prod_unfold Let_def set_pending_def cong: option.case_cong)
qed

theorem remove_for_complete_witness:
  "set (fst (removeForBackend (Some 3) sample_pending)) = {sample_conn}"
  using remove_for_complete [OF sample_pending_reach, of "''s''" 3]
  by (auto simp: sample_pending_def PendingDial_Add_def NewPendingDialManager_def set_pending_def
      case_prod_unfold Let_def sample_conn_def)

end
