(* ===== verification/KNP_Established.thy ===== *)
theory KNP_Established
  imports KNP_PendingDial
begin

section \<open>Established connections\<close>

text \<open>
  The map \<^verbatim>\<open>established[agentID][connID]\<close> of \<^verbatim>\<open>ProxyServer\<close> and its operations
  (\<^verbatim>\<open>pkg/server/server.go\<close>), each under the lock \<^verbatim>\<open>fmu\<close>. The abstract view of the nested map is
  \<open>est_lookup\<close>, a partial function of agent and connection ID; the operations refine the obvious
  updates of it, keep no empty inner map, and keep the gauge equal to the number of
  connections.
\<close>

record established =
  es_conns :: "(string, (int, client_conn) gomap) gomap"
  es_gauge :: nat

definition no_established :: established where
  "no_established = \<lparr>es_conns = [], es_gauge = 0\<rparr>"

subsection \<open>Operations\<close>

fun getCount :: "(string, (int, client_conn) gomap) gomap \<Rightarrow> nat" where
  "getCount [] = 0"
| "getCount ((a, inner) # rest) = getCount rest + length inner"

definition set_established :: "(string, (int, client_conn) gomap) gomap \<Rightarrow> established" where
  "set_established m = \<lparr>es_conns = m, es_gauge = getCount m\<rparr>"

definition addEstablished :: "time \<Rightarrow> string \<Rightarrow> int \<Rightarrow> client_conn \<Rightarrow> established \<Rightarrow> established" where
  "addEstablished now agentID connID p es =
     (let m = (case gm_get (es_conns es) agentID of
                 None \<Rightarrow> gm_put agentID [] (es_conns es) | Some _ \<Rightarrow> es_conns es);
          inner = (case gm_get m agentID of Some i \<Rightarrow> i | None \<Rightarrow> []);
          p' = p\<lparr>pc_establishedAt := Some now\<rparr>
      in set_established (gm_put agentID (gm_put connID p' inner) m))"

definition removeEstablished :: "string \<Rightarrow> int \<Rightarrow> established \<Rightarrow> client_conn option \<times> established" where
  "removeEstablished agentID connID es =
     (case gm_get (es_conns es) agentID of
        None \<Rightarrow> (None, es)
      | Some conns \<Rightarrow>
          (case gm_get conns connID of
             None \<Rightarrow> (None, es)
           | Some ret \<Rightarrow>
               (let conns' = gm_delete connID conns;
                    m = gm_put agentID conns' (es_conns es);
                    m' = (if length conns' = 0 then gm_delete agentID m else m)
                in (Some ret, set_established m'))))"

definition getFrontend :: "string \<Rightarrow> int \<Rightarrow> established \<Rightarrow> go_error + client_conn" where
  "getFrontend agentID connID es =
     (case gm_get (es_conns es) agentID of
        None \<Rightarrow> Inl (ErrText ''can't find agentID in the established'')
      | Some conns \<Rightarrow>
          (case gm_get conns connID of
             None \<Rightarrow> Inl (ErrText ''can't find connID in the established'')
           | Some conn \<Rightarrow> Inr conn))"

definition removeEstablishedForBackendConn ::
  "string \<Rightarrow> bid option \<Rightarrow> established \<Rightarrow> (go_error + client_conn list) \<times> established" where
  "removeEstablishedForBackendConn agentID backend es =
     (case backend of
        None \<Rightarrow> (Inr [], es)
      | Some b \<Rightarrow>
          (case gm_get (es_conns es) agentID of
             None \<Rightarrow> (Inl (ErrText ''can't find agentID in the established''), es)
           | Some conns \<Rightarrow>
               (let (conns', ret) = sweep (\<lambda>c. pc_backend c = Some b) conns conns;
                    m = gm_put agentID conns' (es_conns es);
                    m' = (if length conns' = 0 then gm_delete agentID m else m)
                in (Inr ret, set_established m'))))"

text \<open>
  The outer loop of \<^verbatim>\<open>removeEstablishedForStream\<close>: the inner maps are references, so deleting
  from one changes the outer map.
\<close>

fun stream_loop :: "string \<Rightarrow> (string, (int, client_conn) gomap) gomap
     \<Rightarrow> (string, (int, client_conn) gomap) gomap
     \<Rightarrow> (string, (int, client_conn) gomap) gomap \<times> client_conn list" where
  "stream_loop uid [] m = (m, [])"
| "stream_loop uid ((agentID, conns) # es) m =
     (let (conns', ret) = sweep (on_stream uid) conns conns;
          m' = gm_put agentID conns' m;
          m'' = (if length conns' = 0 then gm_delete agentID m' else m');
          (m3, ret') = stream_loop uid es m''
      in (m3, ret @ ret'))"

definition removeEstablishedForStream :: "string \<Rightarrow> established \<Rightarrow> client_conn list \<times> established" where
  "removeEstablishedForStream streamUID es =
     (if streamUID = [] then ([], es)
      else (let (m, ret) = stream_loop streamUID (es_conns es) (es_conns es)
            in (ret, set_established m)))"

subsection \<open>The invariant and the abstract view\<close>

definition est_lookup :: "established \<Rightarrow> string \<times> int \<Rightarrow> client_conn option" where
  "est_lookup es = (\<lambda>(agentID, connID).
     case gm_get (es_conns es) agentID of None \<Rightarrow> None | Some conns \<Rightarrow> gm_get conns connID)"

definition conns_ok :: "(string, (int, client_conn) gomap) gomap \<Rightarrow> bool" where
  "conns_ok m \<longleftrightarrow> gm_wf m \<and> (\<forall>a conns. gm_get m a = Some conns \<longrightarrow> gm_wf conns \<and> conns \<noteq> [])"

definition est_inv :: "established \<Rightarrow> bool" where
  "est_inv es \<longleftrightarrow> conns_ok (es_conns es) \<and> es_gauge es = getCount (es_conns es)"

lemma est_inv_set [simp]: "est_inv (set_established m) = conns_ok m"
  by (simp add: est_inv_def set_established_def)

lemma est_lookup_set [simp]:
  "est_lookup (set_established m) (a, c) = (case gm_get m a of None \<Rightarrow> None | Some i \<Rightarrow> gm_get i c)"
  by (simp add: est_lookup_def set_established_def)

lemma est_lookup_Some:
  "est_lookup es (a, c) = Some p \<longleftrightarrow>
     (\<exists>conns. gm_get (es_conns es) a = Some conns \<and> gm_get conns c = Some p)"
  by (auto simp: est_lookup_def split: option.splits)

lemma est_inv_init: "est_inv no_established"
  by (simp add: est_inv_def no_established_def conns_ok_def)

lemma gm_put_not_Nil [simp]: "gm_put k v m \<noteq> []"
  by (cases m) (auto simp: gm_put_def)

lemma addEstablished_inv: "est_inv es \<Longrightarrow> est_inv (addEstablished now a c p es)"
  by (auto simp: addEstablished_def Let_def est_inv_def conns_ok_def set_established_def
      split: option.splits if_splits)

lemma addEstablished_lookup:
  "est_lookup (addEstablished now a c p es) k =
     (if k = (a, c) then Some (p\<lparr>pc_establishedAt := Some now\<rparr>) else est_lookup es k)"
  by (cases k) (auto simp: addEstablished_def Let_def est_lookup_def set_established_def split: option.splits)

text \<open>Storing a changed inner map, or dropping it when it became empty.\<close>

definition store_conns :: "string \<Rightarrow> (int, client_conn) gomap \<Rightarrow> (string, (int, client_conn) gomap) gomap
     \<Rightarrow> (string, (int, client_conn) gomap) gomap" where
  "store_conns a conns m =
     (if length conns = 0 then gm_delete a (gm_put a conns m) else gm_put a conns m)"

lemma store_conns_ok: "conns_ok m \<Longrightarrow> gm_wf conns \<Longrightarrow> conns_ok (store_conns a conns m)"
  by (auto simp: store_conns_def conns_ok_def split: if_splits)

lemma store_conns_get:
  "gm_get (store_conns a conns m) a' =
     (if a' = a then (if conns = [] then None else Some conns) else gm_get m a')"
  by (simp add: store_conns_def)

lemma store_conns_lookup:
  "est_lookup (set_established (store_conns a conns (es_conns es))) (a', c) =
     (if a' = a then gm_get conns c else est_lookup es (a', c))"
  by (simp add: store_conns_get) (simp add: est_lookup_def)

lemma removeEstablished_alt:
  "removeEstablished a c es =
     (case est_lookup es (a, c) of
        None \<Rightarrow> (None, es)
      | Some ret \<Rightarrow> (Some ret, set_established (store_conns a
          (gm_delete c (the (gm_get (es_conns es) a))) (es_conns es))))"
  by (auto simp: removeEstablished_def est_lookup_def store_conns_def Let_def split: option.splits)

lemma removeEstablished_inv: "est_inv es \<Longrightarrow> est_inv (snd (removeEstablished a c es))"
  by (auto simp: removeEstablished_alt est_lookup_def conns_ok_def [of "es_conns es"] est_inv_def [of es]
      split: option.splits intro!: store_conns_ok)

lemma removeEstablished_spec:
  "fst (removeEstablished a c es) = est_lookup es (a, c)"
  "est_lookup (snd (removeEstablished a c es)) k = (if k = (a, c) then None else est_lookup es k)"
proof -
  show "fst (removeEstablished a c es) = est_lookup es (a, c)"
    by (simp add: removeEstablished_alt split: option.split)
  obtain a' c' where k: "k = (a', c')" by (cases k)
  show "est_lookup (snd (removeEstablished a c es)) k = (if k = (a, c) then None else est_lookup es k)"
    unfolding k by (cases "est_lookup es (a, c)")
      (auto simp: removeEstablished_alt store_conns_lookup simp del: est_lookup_set,
        auto simp: est_lookup_def split: option.splits)
qed

interpretation established_conns: claim_table est_lookup "\<lambda>(a, c). removeEstablished a c" est_inv
  by unfold_locales (auto simp: removeEstablished_spec removeEstablished_inv case_prod_unfold)

lemma forBackend_alt:
  "removeEstablishedForBackendConn a (Some b) es =
     (case gm_get (es_conns es) a of
        None \<Rightarrow> (Inl (ErrText ''can't find agentID in the established''), es)
      | Some conns \<Rightarrow>
          (let (conns', ret) = sweep (\<lambda>c. pc_backend c = Some b) conns conns
           in (Inr ret, set_established (store_conns a conns' (es_conns es)))))"
  by (simp add: removeEstablishedForBackendConn_def store_conns_def Let_def split: option.split)

lemma inner_wf: "est_inv es \<Longrightarrow> gm_get (es_conns es) a = Some conns \<Longrightarrow> gm_wf conns"
  by (auto simp: est_inv_def conns_ok_def)

lemma forBackend_spec:
  assumes inv: "est_inv es"
  shows "est_inv (snd (removeEstablishedForBackendConn a (Some b) es)) \<and>
     (\<forall>k. est_lookup (snd (removeEstablishedForBackendConn a (Some b) es)) k =
        (case est_lookup es k of
           Some p \<Rightarrow> if fst k = a \<and> pc_backend p = Some b then None else Some p | None \<Rightarrow> None)) \<and>
     (case fst (removeEstablishedForBackendConn a (Some b) es) of
        Inl _ \<Rightarrow> \<forall>c. est_lookup es (a, c) = None
      | Inr ps \<Rightarrow> set ps = {p. \<exists>c. est_lookup es (a, c) = Some p \<and> pc_backend p = Some b})"
proof (cases "gm_get (es_conns es) a")
  case None
  with inv show ?thesis
    by (auto simp: removeEstablishedForBackendConn_def est_lookup_def split: option.splits)
next
  case (Some conns)
  let ?conns = "filter (\<lambda>e. pc_backend (snd e) \<noteq> Some b) conns"
  have wf: "gm_wf conns" using inv Some by (rule inner_wf)
  have run: "removeEstablishedForBackendConn a (Some b) es =
     (Inr (map snd (filter (\<lambda>e. pc_backend (snd e) = Some b) conns)),
      set_established (store_conns a ?conns (es_conns es)))"
    using Some by (simp add: forBackend_alt sweep_all [OF wf])
  have "est_inv (set_established (store_conns a ?conns (es_conns es)))"
    using inv wf by (simp add: store_conns_ok est_inv_def [of es] gm_wf_filter)
  moreover have "est_lookup (set_established (store_conns a ?conns (es_conns es))) (a', c) =
      (case est_lookup es (a', c) of
         Some p \<Rightarrow> if a' = a \<and> pc_backend p = Some b then None else Some p | None \<Rightarrow> None)" for a' c
    unfolding store_conns_lookup gm_get_filter [OF wf]
    using Some by (auto simp: est_lookup_def split: option.splits)
  moreover have "set (map snd (filter (\<lambda>e. pc_backend (snd e) = Some b) conns)) =
      {p. \<exists>c. est_lookup es (a, c) = Some p \<and> pc_backend p = Some b}"
    using Some gm_get_wf_iff [OF wf] by (auto simp: est_lookup_def image_iff)
  ultimately show ?thesis unfolding run by (simp add: split_paired_all cong: option.case_cong)
qed

text \<open>The loop over the agents, on the entries that are still to be visited.\<close>

lemma stream_loop_spec:
  assumes "gm_wf es" and "\<forall>(a, conns) \<in> set es. gm_wf conns \<and> gm_get m a = Some conns" and "conns_ok m"
  shows "conns_ok (fst (stream_loop uid es m)) \<and>
     (\<forall>a. gm_get (fst (stream_loop uid es m)) a =
        (case gm_get es a of
           None \<Rightarrow> gm_get m a
         | Some conns \<Rightarrow>
             (let conns' = filter (\<lambda>e. \<not> on_stream uid (snd e)) conns in
              if conns' = [] then None else Some conns'))) \<and>
     set (snd (stream_loop uid es m)) =
       {p. \<exists>a conns c. gm_get es a = Some conns \<and> gm_get conns c = Some p \<and> on_stream uid p}"
  using assms
proof (induction uid es m rule: stream_loop.induct)
  case (2 uid agentID conns es m)
  let ?conns = "filter (\<lambda>e. \<not> on_stream uid (snd e)) conns"
  let ?m = "store_conns agentID ?conns m"
  have wf: "gm_wf conns" and es: "gm_wf es" and fresh: "gm_get es agentID = None"
    using 2(2,3) by (auto simp: gm_wf_def gm_get_None_iff gm_keys_def)
  have sw: "sweep (on_stream uid) conns conns = (?conns, map snd (filter (\<lambda>e. on_stream uid (snd e)) conns))"
    by (rule sweep_all [OF wf])
  have run: "stream_loop uid ((agentID, conns) # es) m =
     (fst (stream_loop uid es ?m),
      map snd (filter (\<lambda>e. on_stream uid (snd e)) conns) @ snd (stream_loop uid es ?m))"
    by (simp add: sw Let_def store_conns_def case_prod_unfold)
  have ok: "conns_ok ?m" using 2(4) wf by (simp add: store_conns_ok gm_wf_filter)
  have rest: "\<forall>(a, c) \<in> set es. gm_wf c \<and> gm_get ?m a = Some c"
  proof (clarify)
    fix a c assume "(a, c) \<in> set es"
    moreover from this fresh have "a \<noteq> agentID" by (metis es gm_get_wf_iff option.distinct(1))
    ultimately show "gm_wf c \<and> gm_get ?m a = Some c" using 2(3) by (auto simp: store_conns_get)
  qed
  have IH: "conns_ok (fst (stream_loop uid es ?m)) \<and>
     (\<forall>a. gm_get (fst (stream_loop uid es ?m)) a =
        (case gm_get es a of
           None \<Rightarrow> gm_get ?m a
         | Some conns \<Rightarrow>
             (let conns' = filter (\<lambda>e. \<not> on_stream uid (snd e)) conns in
              if conns' = [] then None else Some conns'))) \<and>
     set (snd (stream_loop uid es ?m)) =
       {p. \<exists>a conns c. gm_get es a = Some conns \<and> gm_get conns c = Some p \<and> on_stream uid p}"
    by (rule 2(1) [OF sw [symmetric] refl _ _ es rest ok]) (simp_all add: sw store_conns_def)
  have hd: "gm_get ((agentID, conns) # es) a = (if a = agentID then Some conns else gm_get es a)" for a
    by (simp add: gm_get_def)
  have new: "set (map snd (filter (\<lambda>e. on_stream uid (snd e)) conns)) =
      {p. \<exists>c. gm_get conns c = Some p \<and> on_stream uid p}"
    using gm_get_wf_iff [OF wf] by (auto simp: image_iff)
  have "{p. \<exists>c. gm_get conns c = Some p \<and> on_stream uid p} \<union> set (snd (stream_loop uid es ?m)) =
      {p. \<exists>a cs c. (if a = agentID then Some conns else gm_get es a) = Some cs \<and>
         gm_get cs c = Some p \<and> on_stream uid p}"
    using IH fresh by (auto split: if_splits) (metis option.distinct(1))
  moreover have "gm_get (fst (stream_loop uid es ?m)) a =
      (case if a = agentID then Some conns else gm_get es a of
         None \<Rightarrow> gm_get m a
       | Some conns \<Rightarrow>
           (let conns' = filter (\<lambda>e. \<not> on_stream uid (snd e)) conns in
            if conns' = [] then None else Some conns'))" for a
    using IH fresh by (auto simp: store_conns_get Let_def split: option.splits)
  ultimately show ?case unfolding run fst_conv snd_conv hd set_append new using IH by blast
qed simp

lemma forStream_spec:
  assumes inv: "est_inv es" and uid: "uid \<noteq> []"
  shows "est_inv (snd (removeEstablishedForStream uid es)) \<and>
     (\<forall>k. est_lookup (snd (removeEstablishedForStream uid es)) k =
        (case est_lookup es k of
           Some p \<Rightarrow> if on_stream uid p then None else Some p | None \<Rightarrow> None)) \<and>
     set (fst (removeEstablishedForStream uid es)) = {p. \<exists>k. est_lookup es k = Some p \<and> on_stream uid p}"
proof -
  let ?m = "es_conns es" and ?r = "stream_loop uid (es_conns es) (es_conns es)"
  have run: "removeEstablishedForStream uid es = (snd ?r, set_established (fst ?r))"
    using uid by (simp add: removeEstablishedForStream_def case_prod_unfold Let_def)
  have ok: "conns_ok ?m" and wf: "gm_wf ?m" using inv by (auto simp: est_inv_def conns_ok_def)
  have all: "\<forall>(a, conns) \<in> set ?m. gm_wf conns \<and> gm_get ?m a = Some conns"
    using ok by (auto simp: conns_ok_def gm_get_wf_iff)
  note spec = stream_loop_spec [OF wf all ok, of uid]
  have "est_lookup (set_established (fst ?r)) (a, c) =
      (case est_lookup es (a, c) of
         Some p \<Rightarrow> if on_stream uid p then None else Some p | None \<Rightarrow> None)" for a c
  proof (cases "gm_get ?m a")
    case None
    with spec show ?thesis by (simp add: est_lookup_def [of es])
  next
    case (Some conns)
    with inv have "gm_wf conns" by (simp add: inner_wf)
    from gm_get_filter [OF this, of "\<lambda>e. \<not> on_stream uid (snd e)" c] spec Some show ?thesis
      by (auto simp: est_lookup_def [of es] Let_def split: option.splits if_splits)
  qed
  moreover have "set (snd ?r) = {p. \<exists>k. est_lookup es k = Some p \<and> on_stream uid p}"
    using spec by (auto simp: est_lookup_Some)
  ultimately show ?thesis using spec unfolding run by (simp add: split_paired_all)
qed

lemma bulk_removal_sub:
  assumes "est_inv es"
  shows "est_lookup (snd (removeEstablishedForBackendConn a (Some b) es)) k = Some p \<Longrightarrow>
      est_lookup es k = Some p"
    and "uid \<noteq> [] \<Longrightarrow> est_lookup (snd (removeEstablishedForStream uid es)) k = Some p \<Longrightarrow>
      est_lookup es k = Some p"
  using forBackend_spec [OF assms, of a b] forStream_spec [OF assms, of uid]
  by (auto split: option.splits if_splits simp del: split_paired_All)

subsection \<open>The gauge counts the connections\<close>

lemma getCount_sum: "getCount m = sum_list (map (\<lambda>e. length (snd e)) m)"
  by (induction m rule: getCount.induct) auto

lemma finite_dom_gm_get: "finite {k. gm_get m k \<noteq> None}"
  by (simp add: gm_get_None_iff)

lemma card_dom_gm_get: "gm_wf m \<Longrightarrow> card {k. gm_get m k \<noteq> None} = length m"
  using distinct_card [of "gm_keys m"] by (simp add: gm_get_None_iff gm_wf_def gm_keys_def)

lemma getCount_card:
  assumes "gm_wf m" and "\<forall>a conns. gm_get m a = Some conns \<longrightarrow> gm_wf conns"
  shows "getCount m = card {(a, c). \<exists>conns p. gm_get m a = Some conns \<and> gm_get conns c = Some p}"
proof -
  let ?A = "{a. gm_get m a \<noteq> None}"
  let ?B = "\<lambda>a. {c. gm_get (the (gm_get m a)) c \<noteq> None}"
  have "{(a, c). \<exists>conns p. gm_get m a = Some conns \<and> gm_get conns c = Some p} = Sigma ?A ?B"
    by auto
  then have "card {(a, c). \<exists>conns p. gm_get m a = Some conns \<and> gm_get conns c = Some p} =
      (\<Sum>a \<in> ?A. card (?B a))"
    by (simp add: card_SigmaI finite_dom_gm_get del: not_None_eq)
  also have "\<dots> = (\<Sum>a \<in> ?A. length (the (gm_get m a)))"
  proof (rule sum.cong [OF refl])
    fix a assume "a \<in> ?A"
    then obtain conns where "gm_get m a = Some conns" by auto
    with assms(2) card_dom_gm_get [of conns] show "card (?B a) = length (the (gm_get m a))"
      by (simp del: not_None_eq)
  qed
  also have "\<dots> = (\<Sum>a \<in> set (map fst m). length (the (gm_get m a)))"
    by (rule sum.cong) (auto simp: gm_get_None_iff gm_keys_def)
  also have "\<dots> = sum_list (map (\<lambda>a. length (the (gm_get m a))) (map fst m))"
    using assms(1) by (intro sum_list_distinct_conv_sum_set [symmetric]) (simp add: gm_wf_def)
  also have "\<dots> = sum_list (map (\<lambda>e. length (snd e)) m)"
  proof -
    have "gm_get m (fst e) = Some (snd e)" if "e \<in> set m" for e
      using that assms(1) by (simp add: gm_get_wf_iff)
    then show ?thesis by (simp add: comp_def cong: map_cong)
  qed
  finally show ?thesis by (simp add: getCount_sum)
qed

subsection \<open>The established connections as a system\<close>

inductive est_step :: "established \<Rightarrow> established \<Rightarrow> bool" where
  est_added: "est_step es (addEstablished now a c p es)"
| est_removed: "est_step es (snd (removeEstablished a c es))"
| est_backend_left: "est_step es (snd (removeEstablishedForBackendConn a ob es))"
| est_stream_left: "est_step es (snd (removeEstablishedForStream uid es))"

definition est_init :: "established \<Rightarrow> bool" where
  "est_init es \<longleftrightarrow> es = no_established"

lemma forBackend_inv: "est_inv es \<Longrightarrow> est_inv (snd (removeEstablishedForBackendConn a ob es))"
  using forBackend_spec by (cases ob) (auto simp: removeEstablishedForBackendConn_def)

lemma forStream_inv: "est_inv es \<Longrightarrow> est_inv (snd (removeEstablishedForStream uid es))"
  using forStream_spec by (cases "uid = []") (auto simp: removeEstablishedForStream_def)

interpretation est_system: invariant_system est_init est_step est_inv
proof
  show "est_inv es" if "est_init es" for es
    using that by (simp add: est_init_def est_inv_init)
  show "est_inv es'" if "est_inv es" "est_step es es'" for es es'
    using that(2,1) by (cases rule: est_step.cases)
      (simp_all add: addEstablished_inv removeEstablished_inv forBackend_inv forStream_inv)
qed

subsection \<open>Properties\<close>

text \<open>
  Whatever connections are established and removed, one by one, by agent connection or by
  frontend stream, the gauge of established connections is the number of agent and connection
  ID pairs in the table, and no agent is left with an empty table.
\<close>

theorem established_gauge:
  assumes "reach est_init est_step es"
  shows "es_gauge es = card {k. est_lookup es k \<noteq> None} \<and>
     (\<forall>a. gm_get (es_conns es) a \<noteq> Some [])"
proof -
  have inv: "est_inv es" by (rule est_system.reach_inv [OF assms])
  have "{k. est_lookup es k \<noteq> None} =
      {(a, c). \<exists>conns p. gm_get (es_conns es) a = Some conns \<and> gm_get conns c = Some p}"
    by (auto simp: est_lookup_Some)
  with inv getCount_card [of "es_conns es"] show ?thesis
    by (auto simp: est_inv_def conns_ok_def)
qed

definition sample_established :: established where
  "sample_established = addEstablished 5 ''agent'' 1 sample_conn no_established"

lemma sample_established_reach: "reach est_init est_step sample_established"
proof -
  have "reach est_init est_step no_established" by (rule reach_init) (simp add: est_init_def)
  from reach_step [OF this est_step.est_added] show ?thesis unfolding sample_established_def .
qed

theorem established_gauge_witness:
  "es_gauge sample_established = card {k. est_lookup sample_established k \<noteq> None} \<and>
   es_gauge sample_established = 1"
  using established_gauge [OF sample_established_reach]
  by (simp add: sample_established_def addEstablished_def no_established_def set_established_def
      Let_def gm_put_def gm_get_def)

text \<open>
  C16. The nested table implements a partial function of agent and connection ID: adding
  binds exactly the pair, removing returns what is bound and unbinds exactly the pair, the
  lookup of a packet handler finds what is bound, and the two bulk removals return and unbind
  exactly the connections over one agent connection and those of one frontend stream.
\<close>

theorem established_refines:
  assumes "reach est_init est_step es" and "uid \<noteq> []"
  shows "est_lookup (addEstablished now a c p es) = (est_lookup es)((a, c) \<mapsto> p\<lparr>pc_establishedAt := Some now\<rparr>) \<and>
     removeEstablished a c es = (est_lookup es (a, c), snd (removeEstablished a c es)) \<and>
     est_lookup (snd (removeEstablished a c es)) = (est_lookup es)((a, c) := None) \<and>
     (getFrontend a c es = Inr p \<longleftrightarrow> est_lookup es (a, c) = Some p) \<and>
     est_lookup (snd (removeEstablishedForBackendConn a (Some b) es)) =
       (\<lambda>k. case est_lookup es k of
          Some q \<Rightarrow> if fst k = a \<and> pc_backend q = Some b then None else Some q | None \<Rightarrow> None) \<and>
     (\<forall>qs. fst (removeEstablishedForBackendConn a (Some b) es) = Inr qs \<longrightarrow>
        set qs = {q. \<exists>c. est_lookup es (a, c) = Some q \<and> pc_backend q = Some b}) \<and>
     est_lookup (snd (removeEstablishedForStream uid es)) =
       (\<lambda>k. case est_lookup es k of Some q \<Rightarrow> if on_stream uid q then None else Some q | None \<Rightarrow> None) \<and>
     set (fst (removeEstablishedForStream uid es)) = {q. \<exists>k. est_lookup es k = Some q \<and> on_stream uid q}"
proof -
  have inv: "est_inv es" by (rule est_system.reach_inv [OF assms(1)])
  have get: "getFrontend a c es = Inr p \<longleftrightarrow> est_lookup es (a, c) = Some p"
    by (auto simp: getFrontend_def est_lookup_def split: option.splits)
  have add: "est_lookup (addEstablished now a c p es) = (est_lookup es)((a, c) \<mapsto> p\<lparr>pc_establishedAt := Some now\<rparr>)"
    by (simp add: fun_eq_iff addEstablished_lookup del: split_paired_All)
  have rem: "removeEstablished a c es = (est_lookup es (a, c), snd (removeEstablished a c es))"
    "est_lookup (snd (removeEstablished a c es)) = (est_lookup es)((a, c) := None)"
    by (simp_all add: prod_eq_iff fun_eq_iff removeEstablished_spec del: split_paired_All)
  show ?thesis
    using get add rem forBackend_spec [OF inv, of a b] forStream_spec [OF inv assms(2)]
    by (intro conjI) (auto simp: fun_eq_iff simp del: split_paired_All)
qed

theorem established_refines_witness:
  "fst (removeEstablished ''agent'' 1 sample_established) = est_lookup sample_established (''agent'', 1) \<and>
   set (fst (removeEstablishedForStream ''s'' sample_established)) \<noteq> {}"
proof -
  have "est_lookup sample_established (''agent'', 1) = Some (sample_conn\<lparr>pc_establishedAt := Some 5\<rparr>)"
    by (simp add: sample_established_def addEstablished_lookup)
  moreover have "on_stream ''s'' (sample_conn\<lparr>pc_establishedAt := Some 5\<rparr>)"
    by (simp add: on_stream_def sample_conn_def)
  ultimately have "{q. \<exists>k. est_lookup sample_established k = Some q \<and> on_stream ''s'' q} \<noteq> {}"
    by blast
  moreover note r = established_refines [OF sample_established_reach, of "''s''" 0 "''agent''" 1 sample_conn 3]
  have "removeEstablished ''agent'' 1 sample_established =
      (est_lookup sample_established (''agent'', 1), snd (removeEstablished ''agent'' 1 sample_established))"
    by (rule r [THEN conjunct2, THEN conjunct1]) simp
  then have "fst (removeEstablished ''agent'' 1 sample_established) = est_lookup sample_established (''agent'', 1)"
    by (rule arg_cong [where f = fst, THEN trans]) simp
  moreover have "set (fst (removeEstablishedForStream ''s'' sample_established)) =
      {q. \<exists>k. est_lookup sample_established k = Some q \<and> on_stream ''s'' q}"
    using r by simp
  ultimately show ?thesis by simp
qed

end
