(* ===== verification/KNP_Auth.thy ===== *)
theory KNP_Auth
  imports KNP_Backend
begin

section \<open>Agent authentication by service account token\<close>

text \<open>
  \<^verbatim>\<open>validateAuthToken\<close> and \<^verbatim>\<open>authenticateAgentViaToken\<close> of \<^verbatim>\<open>pkg/server/server.go\<close>. The
  Kubernetes API that reviews the token is not part of the sources: it is the parameter
  \<open>review\<close>, from the token and the audience to an error or the status of the review.
\<close>

record token_review =
  tr_error :: string
  tr_authenticated :: bool
  tr_username :: string

record auth_options =
  ao_enabled :: bool
  ao_namespace :: string
  ao_serviceAccount :: string
  ao_audience :: string

type_synonym reviewer = "string \<Rightarrow> string list \<Rightarrow> go_error + token_review"

definition validateAuthToken :: "reviewer \<Rightarrow> auth_options \<Rightarrow> string \<Rightarrow> go_error + string" where
  "validateAuthToken review opts token =
     (case review token [ao_audience opts] of
        Inl err \<Rightarrow> Inl (ErrText (''Failed to authenticate request. err:'' @ error_string err))
      | Inr r \<Rightarrow>
          if tr_error r \<noteq> [] then Inl (ErrText (''lookup failed: '' @ tr_error r))
          else if \<not> tr_authenticated r then
            Inl (ErrText ''lookup failed: service account jwt not valid'')
          else
            (let parts = split_on (CHR '':'') (tr_username r) in
             if length parts \<noteq> 4 then Inl (ErrText ''lookup failed: unexpected username format'')
             else if parts ! 0 \<noteq> ''system'' \<or> parts ! 1 \<noteq> ''serviceaccount'' then
               Inl (ErrText ''lookup failed: username returned is not a service account'')
             else if ao_namespace opts \<noteq> parts ! 2 then
               Inl (ErrText ''lookup failed: incoming request from unexpected namespace'')
             else if ao_serviceAccount opts \<noteq> parts ! 3 then
               Inl (ErrText ''lookup failed: incoming request from unexpected service account'')
             else Inr (tr_username r)))"

definition AuthenticationTokenContextKey :: string where
  "AuthenticationTokenContextKey = ''Authorization''"

definition AuthenticationTokenContextSchemePrefix :: string where
  "AuthenticationTokenContextSchemePrefix = ''Bearer ''"

definition authenticateAgentViaToken :: "reviewer \<Rightarrow> auth_options \<Rightarrow> metadata \<Rightarrow> go_error option" where
  "authenticateAgentViaToken review opts md =
     (case md of
        None \<Rightarrow> Some (ErrText ''Failed to retrieve metadata from context'')
      | Some get \<Rightarrow>
          (let authContext = get AuthenticationTokenContextKey in
           if length authContext = 0 then
             Some (ErrText ''Authentication context was not found in metadata'')
           else if length authContext > 1 then Some (ErrText ''too many tokens are received'')
           else if \<not> has_prefix (hd authContext) AuthenticationTokenContextSchemePrefix then
             Some (ErrText ''received token does not have the Bearer prefix'')
           else
             (case validateAuthToken review opts
                     (trim_prefix (hd authContext) AuthenticationTokenContextSchemePrefix) of
                Inl err \<Rightarrow>
                  Some (ErrText (''Failed to validate authentication token, err:'' @ error_string err))
              | Inr username \<Rightarrow> None)))"

definition serviceAccountName :: "string \<Rightarrow> string \<Rightarrow> string" where
  "serviceAccountName ns sa = join_with (CHR '':'') [''system'', ''serviceaccount'', ns, sa]"

lemma four_parts:
  "ps = [a, b, c, d] \<longleftrightarrow> length ps = 4 \<and> ps ! 0 = a \<and> ps ! 1 = b \<and> ps ! 2 = c \<and> ps ! 3 = d"
  by (auto simp: numeral_eq_Suc length_Suc_conv)

lemma split_is_service_account:
  assumes "CHR '':'' \<notin> set ns" and "CHR '':'' \<notin> set sa"
  shows "split_on (CHR '':'') u = [''system'', ''serviceaccount'', ns, sa] \<longleftrightarrow>
     u = serviceAccountName ns sa"
  using assms join_split_on [of "CHR '':''" u]
    split_on_join [of "[''system'', ''serviceaccount'', ns, sa]" "CHR '':''"]
  by (auto simp: serviceAccountName_def)

lemma validateAuthToken_iff:
  assumes "CHR '':'' \<notin> set (ao_namespace opts)" and "CHR '':'' \<notin> set (ao_serviceAccount opts)"
  shows "validateAuthToken review opts token = Inr u \<longleftrightarrow>
     (\<exists>r. review token [ao_audience opts] = Inr r \<and> tr_error r = [] \<and> tr_authenticated r \<and>
          tr_username r = u \<and> u = serviceAccountName (ao_namespace opts) (ao_serviceAccount opts))"
proof (cases "review token [ao_audience opts]")
  case (Inr r)
  let ?ps = "split_on (CHR '':'') (tr_username r)"
  have "u = serviceAccountName (ao_namespace opts) (ao_serviceAccount opts) \<longleftrightarrow>
      length ?ps = 4 \<and> ?ps ! 0 = ''system'' \<and> ?ps ! 1 = ''serviceaccount'' \<and>
      ?ps ! 2 = ao_namespace opts \<and> ?ps ! 3 = ao_serviceAccount opts" if "u = tr_username r"
    unfolding that split_is_service_account [OF assms, symmetric] by (rule four_parts)
  with Inr show ?thesis unfolding validateAuthToken_def Let_def
    by (cases "tr_username r = u"; cases "tr_error r = []"; cases "tr_authenticated r") auto
qed (simp add: validateAuthToken_def)

subsection \<open>Properties\<close>

text \<open>
  An agent is admitted exactly when its stream carries one authorization value, that value
  has the Bearer prefix, and the review of the rest of it for the configured audience reports
  no error, an authenticated token, and the user name of the configured service account.
\<close>

theorem authenticateAgentViaToken_iff:
  assumes "CHR '':'' \<notin> set (ao_namespace opts)" and "CHR '':'' \<notin> set (ao_serviceAccount opts)"
  shows "authenticateAgentViaToken review opts md = None \<longleftrightarrow>
     (\<exists>get token r. md = Some get \<and> get ''Authorization'' = [''Bearer '' @ token] \<and>
        review token [ao_audience opts] = Inr r \<and> tr_error r = [] \<and> tr_authenticated r \<and>
        tr_username r = serviceAccountName (ao_namespace opts) (ao_serviceAccount opts))"
proof (cases md)
  case None
  then show ?thesis by (simp add: authenticateAgentViaToken_def)
next
  case (Some get)
  show ?thesis
  proof (cases "\<exists>token. get ''Authorization'' = [''Bearer '' @ token]")
    case True
    then obtain token where t: "get ''Authorization'' = [''Bearer '' @ token]" by blast
    have "trim_prefix (''Bearer '' @ token) ''Bearer '' = token" "has_prefix (''Bearer '' @ token) ''Bearer ''"
      by (rule trim_prefix_append, rule has_prefix_append)
    then have "authenticateAgentViaToken review opts md = None \<longleftrightarrow>
        (\<exists>u. validateAuthToken review opts token = Inr u)"
      using Some t
      by (simp add: authenticateAgentViaToken_def AuthenticationTokenContextKey_def
          AuthenticationTokenContextSchemePrefix_def split: sum.split)
    with Some t show ?thesis by (auto simp: validateAuthToken_iff [OF assms])
  next
    case False
    then have "authenticateAgentViaToken review opts md \<noteq> None"
      using Some by (cases "get ''Authorization''")
        (auto simp: authenticateAgentViaToken_def AuthenticationTokenContextKey_def
          AuthenticationTokenContextSchemePrefix_def has_prefix_iff Let_def)
    with False Some show ?thesis by auto
  qed
qed

definition sample_auth :: auth_options where
  "sample_auth = \<lparr>ao_enabled = True, ao_namespace = ''ns'', ao_serviceAccount = ''sa'', ao_audience = ''aud''\<rparr>"

definition sample_review :: reviewer where
  "sample_review token auds =
     (if token = ''t'' \<and> auds = [''aud'']
      then Inr \<lparr>tr_error = [], tr_authenticated = True, tr_username = ''system:serviceaccount:ns:sa''\<rparr>
      else Inl (ErrText ''unavailable''))"

theorem authenticateAgentViaToken_iff_witness:
  "authenticateAgentViaToken sample_review sample_auth (Some (\<lambda>k. [''Bearer t''])) = None \<and>
   authenticateAgentViaToken sample_review sample_auth (Some (\<lambda>k. [''t''])) \<noteq> None"
  using authenticateAgentViaToken_iff [of sample_auth sample_review "Some (\<lambda>k. [''Bearer t''])"]
    authenticateAgentViaToken_iff [of sample_auth sample_review "Some (\<lambda>k. [''t''])"]
  by (simp add: sample_auth_def sample_review_def serviceAccountName_def)

end
