(* ===== verification/KNP_World.thy ===== *)
theory KNP_World
  imports KNP_Established KNP_Auth
begin

section \<open>The server's shared state and its goroutines\<close>

text \<open>
  The state the goroutines of \<^verbatim>\<open>ProxyServer\<close> share, and a model of goroutines that interleaves
  them. A goroutine is a \<open>thread\<close>: a tree of atomic actions on the shared state (one per
  critical section, send or receive), spawns, and an end, which is a return or a crash of the
  process by a panic. Handlers are written in continuation-passing style, so that the
  \<^verbatim>\<open>continue\<close>, \<^verbatim>\<open>break\<close> and \<^verbatim>\<open>return\<close> of the sources are the continuation a branch calls.

  What the world outside answers (streams, contexts, timers, clocks) is an oracle, a sequence of
  \<open>answer\<close>s of which every external interaction uses the next; the theorems hold for every
  oracle.
\<close>

subsection \<open>Shared state\<close>

text \<open>
  \<open>dial_select\<close> is what the \<^verbatim>\<open>select\<close> of \<^verbatim>\<open>sendDialRequestToBackend\<close> meets: the send finished
  first, or the context ended first, with the error of the context, and then the send may or
  may not have finished as well.
\<close>

datatype dial_select = SendFinished | ContextDone go_error bool

datatype stop_reason = StopEOF | StopError go_error | StopRetired

record answer =
  an_now :: time
  an_send :: send_env
  an_front :: "go_error option"
  an_select :: dial_select
  an_timerFires :: bool
  an_sendHeader :: "go_error option"
  an_stop :: stop_reason

record world =
  w_strategies :: "proxy_strategy list"
  w_managers :: "backend_manager list"
  w_established :: established
  w_pending :: pending
  w_heap :: bheap
  w_nextBackend :: bid
  w_dialTimeout :: duration
  w_auth :: auth_options
  w_rng :: rng
  w_oracle :: "nat \<Rightarrow> answer"
  w_tick :: nat
  w_log :: "effect list"

definition ask :: "world \<Rightarrow> answer \<times> world" where
  "ask w = (w_oracle w (w_tick w), w\<lparr>w_tick := Suc (w_tick w)\<rparr>)"

definition log_effects :: "effect list \<Rightarrow> world \<Rightarrow> world" where
  "log_effects es w = w\<lparr>w_log := w_log w @ es\<rparr>"

subsection \<open>Atomic actions\<close>

text \<open>\<^verbatim>\<open>Frontend.Send\<close>: count the packet, hand it to the stream, count an error.\<close>

definition Frontend_Send :: "frontend \<Rightarrow> packet \<Rightarrow> world \<Rightarrow> go_error option \<times> world" where
  "Frontend_Send f p w =
     (let (a, w1) = ask w; err = an_front a in
      (err, log_effects
         ([ObservePacket SegmentToClient (ptype p), ToFrontend (fr_id f) p err] @
          (if err \<noteq> None then [ObserveStreamError SegmentToClient (ptype p)] else [])) w1))"

definition w_Send :: "bid \<Rightarrow> packet \<Rightarrow> world \<Rightarrow> go_error option \<times> world" where
  "w_Send b p w =
     (let (a, w1) = ask w; (err, es) = Backend_Send (an_send a) b p in (err, log_effects es w1))"

definition observe :: "effect \<Rightarrow> world \<Rightarrow> unit \<times> world" where
  "observe e w = ((), log_effects [e] w)"

definition time_Now :: "world \<Rightarrow> time \<times> world" where
  "time_Now w = (let (a, w1) = ask w in (an_now a, w1))"

definition w_getBackend :: "string \<Rightarrow> world \<Rightarrow> (go_error + bid) outcome \<times> world" where
  "w_getBackend reqHost w =
     (let (a, w1) = ask w in
      case getBackend (an_now a) (w_heap w) (w_rng w) (w_strategies w) reqHost (w_managers w) of
        Panic m \<Rightarrow> (Panic m, w1)
      | Ret (res, bms, r) \<Rightarrow> (Ret res, w1\<lparr>w_managers := bms, w_rng := r\<rparr>))"

definition w_pendingAdd :: "int \<Rightarrow> client_conn \<Rightarrow> world \<Rightarrow> unit \<times> world" where
  "w_pendingAdd random c w =
     (let (h, pm) = PendingDial_Add random c (w_heap w, w_pending w)
      in ((), w\<lparr>w_heap := h, w_pending := pm\<rparr>))"

definition w_pendingRemove :: "int \<Rightarrow> world \<Rightarrow> client_conn option \<times> world" where
  "w_pendingRemove random w =
     (let (c, (h, pm)) = PendingDial_Remove random (w_heap w, w_pending w)
      in (c, w\<lparr>w_heap := h, w_pending := pm\<rparr>))"

definition w_pendingForBackend :: "bid \<Rightarrow> world \<Rightarrow> client_conn list \<times> world" where
  "w_pendingForBackend b w =
     (let (cs, (h, pm)) = removeForBackend (Some b) (w_heap w, w_pending w)
      in (cs, w\<lparr>w_heap := h, w_pending := pm\<rparr>))"

definition w_pendingForStream :: "string \<Rightarrow> world \<Rightarrow> client_conn list \<times> world" where
  "w_pendingForStream uid w =
     (let (cs, (h, pm)) = removeForStream uid (w_heap w, w_pending w)
      in (cs, w\<lparr>w_heap := h, w_pending := pm\<rparr>))"

definition w_addEstablished :: "string \<Rightarrow> int \<Rightarrow> client_conn \<Rightarrow> world \<Rightarrow> client_conn \<times> world" where
  "w_addEstablished agentID connID p w =
     (let (a, w1) = ask w in
      (p\<lparr>pc_establishedAt := Some (an_now a)\<rparr>,
       w1\<lparr>w_established := addEstablished (an_now a) agentID connID p (w_established w)\<rparr>))"

definition w_removeEstablished :: "string \<Rightarrow> int \<Rightarrow> world \<Rightarrow> client_conn option \<times> world" where
  "w_removeEstablished agentID connID w =
     (let (c, es) = removeEstablished agentID connID (w_established w)
      in (c, w\<lparr>w_established := es\<rparr>))"

definition w_getFrontend :: "string \<Rightarrow> int \<Rightarrow> world \<Rightarrow> (go_error + client_conn) \<times> world" where
  "w_getFrontend agentID connID w = (getFrontend agentID connID (w_established w), w)"

definition w_establishedForBackend ::
  "string \<Rightarrow> bid \<Rightarrow> world \<Rightarrow> (go_error + client_conn list) \<times> world" where
  "w_establishedForBackend agentID b w =
     (let (r, es) = removeEstablishedForBackendConn agentID (Some b) (w_established w)
      in (r, w\<lparr>w_established := es\<rparr>))"

definition w_establishedForStream :: "string \<Rightarrow> world \<Rightarrow> client_conn list \<times> world" where
  "w_establishedForStream uid w =
     (let (cs, es) = removeEstablishedForStream uid (w_established w)
      in (cs, w\<lparr>w_established := es\<rparr>))"

definition w_markBackendDraining :: "bid \<Rightarrow> world \<Rightarrow> unit \<times> world" where
  "w_markBackendDraining b w =
     (let (h, bms) = markBackendDraining b (w_heap w, w_managers w)
      in ((), w\<lparr>w_heap := h, w_managers := bms\<rparr>))"

definition w_observeDial :: "duration \<Rightarrow> time \<Rightarrow> bid \<Rightarrow> world \<Rightarrow> unit \<times> world" where
  "w_observeDial d now b w = ((), w\<lparr>w_heap := (w_heap w)(b := observeDial d now (w_heap w b))\<rparr>)"

definition w_addBackend :: "bid \<Rightarrow> world \<Rightarrow> unit \<times> world" where
  "w_addBackend b w = ((), w\<lparr>w_managers := addBackend (w_heap w) b (w_managers w)\<rparr>)"

definition w_removeBackend :: "bid \<Rightarrow> world \<Rightarrow> unit outcome \<times> world" where
  "w_removeBackend b w =
     (case removeBackend (w_heap w) b (w_managers w) of
        Panic m \<Rightarrow> (Panic m, w)
      | Ret bms \<Rightarrow> (Ret (), w\<lparr>w_managers := bms\<rparr>))"

text \<open>A new backend gets an address nothing refers to yet.\<close>

definition w_newBackend :: "backend \<Rightarrow> world \<Rightarrow> bid \<times> world" where
  "w_newBackend be w =
     (w_nextBackend w,
      w\<lparr>w_heap := (w_heap w)(w_nextBackend w := be), w_nextBackend := Suc (w_nextBackend w)\<rparr>)"

lemmas world_actions [knp_defs] =
  ask_def log_effects_def Frontend_Send_def w_Send_def observe_def time_Now_def w_getBackend_def
  w_pendingAdd_def w_pendingRemove_def w_pendingForBackend_def w_pendingForStream_def
  w_addEstablished_def w_removeEstablished_def w_getFrontend_def w_establishedForBackend_def
  w_establishedForStream_def w_markBackendDraining_def w_observeDial_def w_addBackend_def
  w_removeBackend_def w_newBackend_def

subsection \<open>Threads\<close>

datatype thread =
    Stop
  | Crash string
  | Act "world \<Rightarrow> thread \<times> world"
  | Go thread thread

definition atomically :: "(world \<Rightarrow> 'a \<times> world) \<Rightarrow> ('a \<Rightarrow> thread) \<Rightarrow> thread" where
  "atomically f k = Act (\<lambda>w. let (x, w') = f w in (k x, w'))"

text \<open>Continue with the value of a call, or crash with its panic.\<close>

fun unwrap :: "'a outcome \<Rightarrow> ('a \<Rightarrow> thread) \<Rightarrow> thread" where
  "unwrap (Ret x) k = k x"
| "unwrap (Panic m) k = Crash m"

text \<open>
  \<open>run\<close> executes one thread on its own: the outcome, the state and the threads it spawned.
\<close>

primrec run :: "thread \<Rightarrow> world \<Rightarrow> unit outcome \<times> world \<times> thread list" where
  "run Stop = (\<lambda>w. (Ret (), w, []))"
| "run (Crash m) = (\<lambda>w. (Panic m, w, []))"
| "run (Act f) = (\<lambda>w. case map_prod run id (f w) of (r, w') \<Rightarrow> r w')"
| "run (Go t k) = (\<lambda>w. case run k w of (out, w', ts) \<Rightarrow> (out, w', t # ts))"

lemma run_atomically [simp]: "run (atomically f k) w = run (k (fst (f w))) (snd (f w))"
  by (simp add: atomically_def case_prod_unfold Let_def)

text \<open>
  The pool of goroutines: any of them takes its next action; a crash ends the process; frontends
  and agents come with new goroutines, given by \<open>spawn\<close>; and the backends change outside the
  modelled code (receive channels fill, connections retire) without changing identity or dials
  in flight.
\<close>

datatype process = Running world "thread list" | Crashed

definition outside :: "bheap \<Rightarrow> bheap \<Rightarrow> bool" where
  "outside h h' \<longleftrightarrow>
     same_identity h h' \<and> (\<forall>b. be_dialsInFlight (h' b) = be_dialsInFlight (h b))"

inductive process_step :: "(thread \<Rightarrow> bool) \<Rightarrow> process \<Rightarrow> process \<Rightarrow> bool"
  for spawn :: "thread \<Rightarrow> bool" where
  acts: "f w = (t, w') \<Longrightarrow>
     process_step spawn (Running w (ts @ Act f # ts')) (Running w' (ts @ t # ts'))"
| spawns: "process_step spawn (Running w (ts @ Go t k # ts')) (Running w (ts @ k # t # ts'))"
| ends: "process_step spawn (Running w (ts @ Stop # ts')) (Running w (ts @ ts'))"
| crashes: "process_step spawn (Running w (ts @ Crash m # ts')) Crashed"
| arrives: "spawn t \<Longrightarrow> process_step spawn (Running w ts) (Running w (t # ts))"
| elsewhere: "outside (w_heap w) h' \<Longrightarrow>
     process_step spawn (Running w ts) (Running (w\<lparr>w_heap := h'\<rparr>) ts)"

text \<open>
  Rely and guarantee. \<open>keeps I w0 t\<close>: whenever \<open>t\<close>, as it stands in state \<open>w0\<close>, acts later on,
  in a state that satisfies \<open>I\<close> and in which backends have at most been added, it keeps \<open>I\<close>,
  removes no backend from memory, does not crash, and goes on like this.
\<close>

definition grown :: "world \<Rightarrow> world \<Rightarrow> bool" where
  "grown w w' \<longleftrightarrow> w_nextBackend w \<le> w_nextBackend w'"

lemma grown_refl [simp]: "grown w w"
  by (simp add: grown_def)

lemma grown_trans: "grown w w' \<Longrightarrow> grown w' w'' \<Longrightarrow> grown w w''"
  by (simp add: grown_def)

inductive keeps :: "(world \<Rightarrow> bool) \<Rightarrow> world \<Rightarrow> thread \<Rightarrow> bool" for I :: "world \<Rightarrow> bool" where
  keeps_Stop: "keeps I w0 Stop"
| keeps_Act: "(\<And>w. I w \<Longrightarrow> grown w0 w \<Longrightarrow>
     I (snd (f w)) \<and> grown w (snd (f w)) \<and> keeps I (snd (f w)) (fst (f w))) \<Longrightarrow> keeps I w0 (Act f)"
| keeps_Go: "keeps I w0 t \<Longrightarrow> keeps I w0 k \<Longrightarrow> keeps I w0 (Go t k)"

inductive_cases keeps_ActE: "keeps I w0 (Act f)"
inductive_cases keeps_GoE: "keeps I w0 (Go t k)"
inductive_simps keeps_Crash: "keeps I w0 (Crash m)"

lemma keeps_later: "keeps I w0 t \<Longrightarrow> grown w0 w1 \<Longrightarrow> keeps I w1 t"
proof (induction arbitrary: w1 rule: keeps.induct)
  case (keeps_Act w0 f)
  show ?case by (rule keeps.keeps_Act) (use keeps_Act grown_trans in blast)
qed (auto intro: keeps.intros)

lemma keeps_atomically:
  assumes "\<And>w. I w \<Longrightarrow> grown w0 w \<Longrightarrow>
     I (snd (f w)) \<and> grown w (snd (f w)) \<and> keeps I (snd (f w)) (k (fst (f w)))"
  shows "keeps I w0 (atomically f k)"
  unfolding atomically_def by (rule keeps_Act) (use assms in \<open>auto simp: case_prod_unfold Let_def\<close>)

lemma keeps_run: "keeps I w0 t \<Longrightarrow> I w \<Longrightarrow> grown w0 w \<Longrightarrow> fst (run t w) = Ret () \<and> I (fst (snd (run t w)))"
proof (induction arbitrary: w rule: keeps.induct)
  case (keeps_Act w0 f)
  then have "I (snd (f w))" and
    "\<And>w'. I w' \<Longrightarrow> grown (snd (f w)) w' \<Longrightarrow> fst (run (fst (f w)) w') = Ret () \<and> I (fst (snd (run (fst (f w)) w')))"
    by blast+
  then show ?case by (simp add: case_prod_unfold)
qed (auto simp: case_prod_unfold)

locale interleaved =
  fixes I :: "world \<Rightarrow> bool"
    and spawn :: "thread \<Rightarrow> bool"
  assumes spawn_keeps: "spawn t \<Longrightarrow> keeps I w t"
    and outside_keeps: "I w \<Longrightarrow> outside (w_heap w) h' \<Longrightarrow> I (w\<lparr>w_heap := h'\<rparr>)"
begin

definition process_inv :: "process \<Rightarrow> bool" where
  "process_inv p \<longleftrightarrow>
     (case p of Crashed \<Rightarrow> False | Running w ts \<Rightarrow> I w \<and> (\<forall>t \<in> set ts. keeps I w t))"

definition process_init :: "process \<Rightarrow> bool" where
  "process_init p \<longleftrightarrow> (\<exists>w. p = Running w [] \<and> I w)"

lemma pool_later: "\<forall>t \<in> set ts. keeps I w t \<Longrightarrow> grown w w' \<Longrightarrow> \<forall>t \<in> set ts. keeps I w' t"
  by (blast intro: keeps_later)

lemma process_inv_step: "process_inv p \<Longrightarrow> process_step spawn p p' \<Longrightarrow> process_inv p'"
proof (erule process_step.cases, goal_cases)
  case (1 f w t w' ts ts')
  then have k: "keeps I w (Act f)" and I: "I w" by (auto simp: process_inv_def)
  from k I have step: "I (snd (f w)) \<and> grown w (snd (f w)) \<and> keeps I (snd (f w)) (fst (f w))"
    by (auto elim!: keeps_ActE)
  with 1 pool_later [of "ts @ ts'" w w'] show ?case by (auto simp: process_inv_def)
next
  case (2 w ts t k ts')
  then have "keeps I w (Go t k)" by (auto simp: process_inv_def)
  with 2 show ?case by (auto simp: process_inv_def elim!: keeps_GoE)
next
  case (4 w ts m ts')
  then show ?case by (auto simp: process_inv_def keeps_Crash)
next
  case (6 w h' ts)
  then show ?case
    using pool_later [of ts w "w\<lparr>w_heap := h'\<rparr>"] by (auto simp: process_inv_def outside_keeps grown_def)
qed (auto simp: process_inv_def spawn_keeps)

end

sublocale interleaved \<subseteq> processes: invariant_system process_init "process_step spawn" process_inv
proof
  show "process_inv p" if "process_init p" for p
    using that by (auto simp: process_init_def process_inv_def)
qed (rule process_inv_step)

end
