(* ===== verification/KNP_Server.thy ===== *)
theory KNP_Server
  imports KNP_World
begin

section \<open>ProxyServer: the packet handlers\<close>

text \<open>
  The goroutines of \<^verbatim>\<open>pkg/server/server.go\<close>: \<^verbatim>\<open>proxy\<close> with \<^verbatim>\<open>serveRecvFrontend\<close> for each
  frontend stream, \<^verbatim>\<open>connect\<close> with \<^verbatim>\<open>serveRecvBackend\<close> for each agent stream, and the timer of
  \<^verbatim>\<open>startPendingDialTimeout\<close>. The packets a goroutine reads from its receive channel are a list
  argument; the channel is closed at the end of the list. A deferred cleanup is the
  continuation of the loop, so it also runs on every early return.
\<close>

subsection \<open>Sending helpers\<close>

text \<open>\<^verbatim>\<open>ProxyClientConnection.send\<close>: it panics when the connection has no frontend.\<close>

definition client_send :: "client_conn \<Rightarrow> packet \<Rightarrow> (go_error option \<Rightarrow> thread) \<Rightarrow> thread" where
  "client_send c p k =
     (case pc_frontend c of None \<Rightarrow> Crash nil_deref | Some f \<Rightarrow> atomically (Frontend_Send f p) k)"

definition sendBackendClose :: "bid option \<Rightarrow> int \<Rightarrow> thread \<Rightarrow> thread" where
  "sendBackendClose backend connectID k =
     (case backend of
        None \<Rightarrow> Crash nil_deref
      | Some b \<Rightarrow> atomically (w_Send b (newCloseRequestPacket connectID)) (\<lambda>err. k))"

definition sendBackendDialClose :: "bid option \<Rightarrow> int \<Rightarrow> thread \<Rightarrow> thread" where
  "sendBackendDialClose backend random k =
     (case backend of
        None \<Rightarrow> Crash nil_deref
      | Some b \<Rightarrow> atomically (w_Send b (newDialClosePacket random)) (\<lambda>err. k))"

definition sendFrontendClose :: "frontend \<Rightarrow> int \<Rightarrow> string \<Rightarrow> thread \<Rightarrow> thread" where
  "sendFrontendClose f connectID reason k =
     atomically (Frontend_Send f (newCloseResponsePacket connectID reason)) (\<lambda>err. k)"

subsection \<open>Sending a dial request\<close>

definition dial_error :: "go_error option \<Rightarrow> go_error option" where
  "dial_error err =
     (case err of
        None \<Rightarrow> None
      | Some e \<Rightarrow> if errors_is e ErrDeadlineExceeded then Some ErrBackendDialTimeout else Some e)"

text \<open>
  \<open>sent\<close> is the result in \<^verbatim>\<open>errCh\<close> when it is there, \<open>None\<close> when the channel is still empty.
\<close>

definition resolveDialSendOnContextDone ::
  "go_error \<Rightarrow> go_error option option \<Rightarrow> go_error option" where
  "resolveDialSendOnContextDone ctxErr sent =
     (case sent of
        Some err \<Rightarrow> dial_error err
      | None \<Rightarrow>
          if errors_is ctxErr ErrDeadlineExceeded then Some ErrBackendDialTimeout else Some ctxErr)"

text \<open>
  \<open>ctxDone\<close> is what \<^verbatim>\<open>ctx.Err()\<close> returns at the end and \<open>cancellable\<close> whether
  \<^verbatim>\<open>ctx.Done()\<close> is non-nil. Giving up leaves the send running in its goroutine.
\<close>

definition sendDialRequestToBackend ::
  "bool \<Rightarrow> go_error option \<Rightarrow> bid \<Rightarrow> packet \<Rightarrow> world \<Rightarrow> go_error option \<times> world" where
  "sendDialRequestToBackend cancellable ctxDone b p w =
     (if w_dialTimeout w \<le> 0 \<and> \<not> cancellable then w_Send b p w
      else
        (let (a, w1) = ask w; (sent, es) = SendContext (an_send a) b p;
             (err, es') =
               (case an_select a of
                  SendFinished \<Rightarrow> (dial_error sent, es)
                | ContextDone ctxErr ready \<Rightarrow>
                    if ready then (resolveDialSendOnContextDone ctxErr (Some sent), es)
                    else (resolveDialSendOnContextDone ctxErr None, [AbandonedToAgent b p]))
         in (if err \<noteq> None \<and> ctxDone \<noteq> None then ctxDone else err, log_effects es' w1)))"

text \<open>The goroutine of \<^verbatim>\<open>startPendingDialTimeout\<close>.\<close>

definition pendingDialTimer :: "int \<Rightarrow> frontend \<Rightarrow> thread" where
  "pendingDialTimer random f =
     atomically (\<lambda>w. let (a, w1) = ask w in (an_timerFires a, w1)) (\<lambda>fires.
       if \<not> fires then Stop
       else atomically (w_pendingRemove random) (\<lambda>pd.
         case pd of
           None \<Rightarrow> Stop
         | Some _ \<Rightarrow>
             atomically (observe (ObserveDialFailure DialFailureBackendDialTimeout)) (\<lambda>_.
             atomically (Frontend_Send f
               (newDialResponsePacket random 0 (error_string ErrBackendDialTimeout))) (\<lambda>err. Stop))))"

definition startPendingDialTimeout :: "int \<Rightarrow> frontend \<Rightarrow> thread \<Rightarrow> thread" where
  "startPendingDialTimeout random f k =
     atomically (\<lambda>w. (w_dialTimeout w, w)) (\<lambda>timeout.
       if timeout \<le> 0 then k else Go (pendingDialTimer random f) k)"

subsection \<open>Packets from a frontend\<close>

text \<open>
  The local variables of the loop are \<^verbatim>\<open>backend\<close> and \<^verbatim>\<open>firstConnID\<close>; \<open>next\<close> continues the loop
  with their values and \<open>ret\<close> returns.
\<close>

type_synonym frontend_next = "bid option \<Rightarrow> int \<Rightarrow> thread"

definition frontend_DIAL_REQ ::
  "frontend \<Rightarrow> packet \<Rightarrow> int \<Rightarrow> frontend_next \<Rightarrow> thread \<Rightarrow> thread" where
  "frontend_DIAL_REQ f pkt firstConnID next ret =
     unwrap (deref (GetDialRequest pkt)) (\<lambda>req.
       let random = dq_random req; address = dq_address req in
       atomically (w_getBackend address) (\<lambda>r. unwrap r (\<lambda>res.
         case res of
           Inl err \<Rightarrow>
             atomically (observe (ObserveDialFailure DialFailureNoAgent)) (\<lambda>_.
             atomically (Frontend_Send f (newDialResponsePacket random 0 (error_string err))) (\<lambda>_. ret))
         | Inr b \<Rightarrow>
             atomically time_Now (\<lambda>now.
             atomically (w_pendingAdd random
               \<lparr>pc_frontend = Some f, pc_dialID = random, pc_connectID = 0, pc_agentID = [],
                pc_start = now, pc_establishedAt = None, pc_backend = Some b,
                pc_dialAddress = address\<rparr>) (\<lambda>_.
             atomically (sendDialRequestToBackend False None b pkt) (\<lambda>err.
               case err of
                 Some e \<Rightarrow>
                   atomically (w_pendingRemove random) (\<lambda>pd.
                     case pd of
                       None \<Rightarrow> next (Some b) firstConnID
                     | Some _ \<Rightarrow>
                         atomically (observe (ObserveDialFailure
                           (if errors_is e ErrBackendDialTimeout then DialFailureBackendDialTimeout
                            else DialFailureBackendClose))) (\<lambda>_.
                         atomically (Frontend_Send f
                           (newDialResponsePacket random 0 (error_string e))) (\<lambda>_. ret)))
               | None \<Rightarrow>
                   startPendingDialTimeout random f (next (Some b) firstConnID)))))))"

definition frontend_CLOSE_REQ ::
  "frontend \<Rightarrow> packet \<Rightarrow> bid option \<Rightarrow> int \<Rightarrow> frontend_next \<Rightarrow> thread \<Rightarrow> thread" where
  "frontend_CLOSE_REQ f pkt backend firstConnID next ret =
     unwrap (deref (GetCloseRequest pkt)) (\<lambda>req.
       let connID = cq_connectID req in
       case backend of
         None \<Rightarrow> sendFrontendClose f connID ''backend uninitialized'' (next backend firstConnID)
       | Some b \<Rightarrow>
           atomically (w_Send b pkt) (\<lambda>err.
             if err \<noteq> None then sendFrontendClose f connID ''CLOSE_REQ to backend failed'' ret
             else ret))"

definition frontend_DIAL_CLS ::
  "packet \<Rightarrow> bid option \<Rightarrow> int \<Rightarrow> frontend_next \<Rightarrow> thread" where
  "frontend_DIAL_CLS pkt backend firstConnID next =
     unwrap (deref (GetCloseDial pkt)) (\<lambda>req.
       atomically (w_pendingRemove (cd_random req)) (\<lambda>pd.
         case pd of
           Some _ \<Rightarrow>
             atomically (observe (ObserveDialFailure DialFailureFrontendClose))
               (\<lambda>_. next backend firstConnID)
         | None \<Rightarrow> next backend firstConnID))"

definition frontend_DATA ::
  "frontend \<Rightarrow> packet \<Rightarrow> bid option \<Rightarrow> int \<Rightarrow> frontend_next \<Rightarrow> thread \<Rightarrow> thread" where
  "frontend_DATA f pkt backend firstConnID next ret =
     unwrap (deref (GetData pkt)) (\<lambda>req.
       let connID = dm_connectID req in
       case backend of
         None \<Rightarrow> sendFrontendClose f connID ''backend not initialized'' ret
       | Some b \<Rightarrow>
           if connID = 0 then next backend firstConnID
           else if firstConnID \<noteq> 0 \<and> firstConnID \<noteq> connID then
             sendBackendClose backend connID
             (sendBackendClose backend firstConnID
             (sendFrontendClose f connID ''mismatched connection IDs''
             (sendFrontendClose f firstConnID ''mismatched connection IDs'' ret)))
           else
             atomically (w_Send b pkt) (\<lambda>err.
               next backend (if firstConnID = 0 then connID else firstConnID)))"

fun serveRecvFrontend ::
  "frontend \<Rightarrow> packet list \<Rightarrow> bid option \<Rightarrow> int \<Rightarrow> thread \<Rightarrow> thread" where
  "serveRecvFrontend f [] backend firstConnID ret = ret"
| "serveRecvFrontend f (pkt # pkts) backend firstConnID ret =
     (let next = (\<lambda>be fc. serveRecvFrontend f pkts be fc ret) in
      case ptype pkt of
        DIAL_REQ \<Rightarrow> frontend_DIAL_REQ f pkt firstConnID next ret
      | CLOSE_REQ \<Rightarrow> frontend_CLOSE_REQ f pkt backend firstConnID next ret
      | DIAL_CLS \<Rightarrow> frontend_DIAL_CLS pkt backend firstConnID next
      | DATA \<Rightarrow> frontend_DATA f pkt backend firstConnID next ret
      | _ \<Rightarrow> next backend firstConnID)"

text \<open>The deferred cleanup of \<^verbatim>\<open>proxy\<close>.\<close>

fun close_dials :: "client_conn list \<Rightarrow> thread \<Rightarrow> thread" where
  "close_dials [] k = k"
| "close_dials (p # ps) k = sendBackendDialClose (pc_backend p) (pc_dialID p) (close_dials ps k)"

fun close_conns :: "client_conn list \<Rightarrow> thread \<Rightarrow> thread" where
  "close_conns [] k = k"
| "close_conns (c # cs) k =
     atomically (observe (ObserveConnectionsClosed ConnectionClosedFrontendClose 1)) (\<lambda>_.
       sendBackendClose (pc_backend c) (pc_connectID c) (close_conns cs k))"

definition frontend_shutdown :: "frontend \<Rightarrow> thread \<Rightarrow> thread" where
  "frontend_shutdown f k =
     atomically (w_pendingForStream (fr_streamUID f)) (\<lambda>ps. close_dials ps
       (atomically (w_establishedForStream (fr_streamUID f)) (\<lambda>cs. close_conns cs k)))"

text \<open>\<open>md\<close>: whether the stream's context carries metadata at all.\<close>

definition proxy :: "bool \<Rightarrow> frontend \<Rightarrow> packet list \<Rightarrow> thread" where
  "proxy md f pkts =
     (if \<not> md then Stop else serveRecvFrontend f pkts None 0 (frontend_shutdown f Stop))"

subsection \<open>Packets from an agent\<close>

definition backend_DIAL_RSP :: "bid \<Rightarrow> string \<Rightarrow> packet \<Rightarrow> thread \<Rightarrow> thread" where
  "backend_DIAL_RSP b agentID pkt next =
     unwrap (deref (GetDialResponse pkt)) (\<lambda>resp.
       atomically (w_pendingRemove (dr_random resp)) (\<lambda>pd.
         case pd of
           None \<Rightarrow>
             atomically (observe (ObserveDialFailure DialFailureUnrecognizedResponse)) (\<lambda>_.
               if dr_connectID resp \<noteq> 0 then sendBackendClose (Some b) (dr_connectID resp) next
               else next)
         | Some c \<Rightarrow>
             if dr_error resp \<noteq> [] then
               atomically (observe (ObserveDialFailure DialFailureErrorResponse)) (\<lambda>_.
                 client_send c pkt (\<lambda>err. next))
             else
               atomically (w_addEstablished agentID (dr_connectID resp)
                 (c\<lparr>pc_connectID := dr_connectID resp, pc_agentID := agentID\<rparr>)) (\<lambda>c'.
               unwrap (deref (pc_frontend c')) (\<lambda>f.
               atomically (observe (ClosesWithBackend (fr_id f) b)) (\<lambda>_.
               client_send c' pkt (\<lambda>err.
                 if err \<noteq> None then
                   atomically (observe (ObserveDialFailure DialFailureSendResponse)) (\<lambda>_.
                   atomically (w_removeEstablished agentID (dr_connectID resp)) (\<lambda>removed.
                     if removed \<noteq> None then
                       atomically (observe (ObserveConnectionsClosed ConnectionClosedSendResponse 1)) (\<lambda>_.
                         sendBackendClose (Some b) (dr_connectID resp) next)
                     else sendBackendClose (Some b) (dr_connectID resp) next))
                 else
                   atomically time_Now (\<lambda>now.
                   atomically (observe (ObserveDialLatency (time_sub now (pc_start c')))) (\<lambda>_.
                     case pc_backend c' of
                       Some b' \<Rightarrow>
                         atomically (w_observeDial (time_sub now (pc_start c')) now b') (\<lambda>_. next)
                     | None \<Rightarrow> next))))))))"

definition backend_DIAL_CLS :: "packet \<Rightarrow> thread \<Rightarrow> thread" where
  "backend_DIAL_CLS pkt next =
     unwrap (deref (GetCloseDial pkt)) (\<lambda>resp.
       atomically (w_pendingRemove (cd_random resp)) (\<lambda>pd.
         case pd of
           None \<Rightarrow> next
         | Some c \<Rightarrow>
             client_send c pkt (\<lambda>err.
               atomically (observe (ObserveDialFailure DialFailureBackendClose)) (\<lambda>_. next))))"

definition backend_DATA :: "bid \<Rightarrow> string \<Rightarrow> packet \<Rightarrow> thread \<Rightarrow> thread" where
  "backend_DATA b agentID pkt next =
     unwrap (deref (GetData pkt)) (\<lambda>resp.
       if dm_connectID resp = 0 then next
       else
         atomically (w_getFrontend agentID (dm_connectID resp)) (\<lambda>r.
           case r of
             Inl err \<Rightarrow> sendBackendClose (Some b) (dm_connectID resp) next
           | Inr c \<Rightarrow> client_send c pkt (\<lambda>err. next)))"

definition backend_CLOSE_RSP :: "string \<Rightarrow> packet \<Rightarrow> thread \<Rightarrow> thread" where
  "backend_CLOSE_RSP agentID pkt next =
     unwrap (deref (GetCloseResponse pkt)) (\<lambda>resp.
       atomically (w_removeEstablished agentID (cr_connectID resp)) (\<lambda>removed.
         case removed of
           None \<Rightarrow> next
         | Some c \<Rightarrow>
             atomically (observe (ObserveConnectionsClosed ConnectionClosedCloseResponse 1)) (\<lambda>_.
               client_send c pkt (\<lambda>err. next))))"

fun fail_dials :: "client_conn list \<Rightarrow> thread \<Rightarrow> thread" where
  "fail_dials [] k = k"
| "fail_dials (c # cs) k =
     atomically (observe (ObserveDialFailure DialFailureBackendClose)) (\<lambda>_.
       client_send c (newDialResponsePacket (pc_dialID c) 0 (error_string ErrBackendClosedWhileDialing))
         (\<lambda>err. fail_dials cs k))"

fun close_frontends :: "client_conn list \<Rightarrow> thread \<Rightarrow> thread" where
  "close_frontends [] k = k"
| "close_frontends (c # cs) k =
     client_send c (newCloseResponsePacket (pc_connectID c) []) (\<lambda>err. close_frontends cs k)"

text \<open>The deferred cleanup of \<^verbatim>\<open>serveRecvBackend\<close>.\<close>

definition backend_shutdown :: "bid \<Rightarrow> string \<Rightarrow> thread \<Rightarrow> thread" where
  "backend_shutdown b agentID k =
     atomically (w_pendingForBackend b) (\<lambda>ps. fail_dials ps
       (atomically (w_establishedForBackend agentID b) (\<lambda>r.
          case r of
            Inl err \<Rightarrow> k
          | Inr cs \<Rightarrow>
              if length cs > 0 then
                atomically (observe (ObserveConnectionsClosed ConnectionClosedBackendClose (length cs)))
                  (\<lambda>_. close_frontends cs k)
              else close_frontends cs k)))"

fun serveRecvBackend :: "bid \<Rightarrow> string \<Rightarrow> packet list \<Rightarrow> thread \<Rightarrow> thread" where
  "serveRecvBackend b agentID [] k = backend_shutdown b agentID k"
| "serveRecvBackend b agentID (pkt # pkts) k =
     (let next = serveRecvBackend b agentID pkts k in
      case ptype pkt of
        DIAL_RSP \<Rightarrow> backend_DIAL_RSP b agentID pkt next
      | DIAL_CLS \<Rightarrow> backend_DIAL_CLS pkt next
      | DATA \<Rightarrow> backend_DATA b agentID pkt next
      | CLOSE_RSP \<Rightarrow> backend_CLOSE_RSP agentID pkt next
      | DRAIN \<Rightarrow> atomically (w_markBackendDraining b) (\<lambda>_. next)
      | _ \<Rightarrow> next)"

text \<open>
  \<^verbatim>\<open>connect\<close> waits for the reading goroutine to stop or the backend to be retired; a clean end
  of the stream is published in \<^verbatim>\<open>receivedEOF\<close> before that.
\<close>

definition w_await :: "bid \<Rightarrow> world \<Rightarrow> unit \<times> world" where
  "w_await b w =
     (let (a, w1) = ask w in
      ((), case an_stop a of
             StopEOF \<Rightarrow> w1\<lparr>w_heap := (w_heap w1)(b := (w_heap w1 b)\<lparr>be_receivedEOF := True\<rparr>)\<rparr>
           | _ \<Rightarrow> w1))"

definition connect :: "reviewer \<Rightarrow> metadata \<Rightarrow> nat \<Rightarrow> packet list \<Rightarrow> thread" where
  "connect review md xfrChannelSize pkts =
     unwrap (NewBackend md) (\<lambda>r.
       case r of
         Inl err \<Rightarrow> Stop
       | Inr be \<Rightarrow>
           atomically (\<lambda>w. (w_auth w, w)) (\<lambda>auth.
           if ao_enabled auth \<and> authenticateAgentViaToken review auth md \<noteq> None then Stop
           else
             atomically (\<lambda>w. let (a, w1) = ask w in (an_sendHeader a, w1)) (\<lambda>err.
             if err \<noteq> None then Stop
             else
               atomically (w_newBackend (be\<lparr>be_recvCap := Some xfrChannelSize\<rparr>)) (\<lambda>b.
               atomically (w_addBackend b) (\<lambda>_.
               Go (serveRecvBackend b (GetAgentID be) pkts Stop)
               (atomically (w_await b) (\<lambda>_.
                atomically (w_removeBackend b) (\<lambda>r. unwrap r (\<lambda>_. Stop))))))))) "

subsection \<open>A new server\<close>

text \<open>\<^verbatim>\<open>bms[0]\<close> panics when no known strategy is given.\<close>

definition NewProxyServer ::
  "proxy_strategy list \<Rightarrow> auth_options \<Rightarrow> rng \<Rightarrow> (nat \<Rightarrow> answer) \<Rightarrow> bheap \<Rightarrow> world outcome" where
  "NewProxyServer proxyStrategies auth r oracle h =
     (let bms = new_managers proxyStrategies in
      if bms = [] then Panic index_out_of_range
      else Ret \<lparr>w_strategies = proxyStrategies, w_managers = bms, w_established = no_established,
             w_pending = NewPendingDialManager, w_heap = h, w_nextBackend = 0, w_dialTimeout = 0,
             w_auth = auth, w_rng = r, w_oracle = oracle, w_tick = 0, w_log = []\<rparr>)"

definition SetBackendDialTimeout :: "duration \<Rightarrow> world \<Rightarrow> world" where
  "SetBackendDialTimeout timeout w = w\<lparr>w_dialTimeout := timeout\<rparr>"

subsection \<open>The server invariant\<close>

text \<open>
  The tables are sound; every pending dial and every established connection has a frontend and
  a backend and is filed under its own dial ID, or agent and connection ID; and everything
  refers to backends that exist.
\<close>

definition exists_backend :: "world \<Rightarrow> client_conn \<Rightarrow> bool" where
  "exists_backend w c \<longleftrightarrow> (\<exists>b. pc_backend c = Some b \<and> b < w_nextBackend w)"

definition pending_entry_ok :: "world \<Rightarrow> int \<Rightarrow> client_conn \<Rightarrow> bool" where
  "pending_entry_ok w random c \<longleftrightarrow>
     pc_frontend c \<noteq> None \<and> exists_backend w c \<and> pc_dialID c = random"

definition established_entry_ok :: "world \<Rightarrow> string \<times> int \<Rightarrow> client_conn \<Rightarrow> bool" where
  "established_entry_ok w k c \<longleftrightarrow>
     pc_frontend c \<noteq> None \<and> exists_backend w c \<and> k = (pc_agentID c, pc_connectID c)"

definition tables_ok :: "world \<Rightarrow> bool" where
  "tables_ok w \<longleftrightarrow>
     managers_inv (w_strategies w, w_heap w, w_managers w) \<and>
     pending_inv (w_heap w, w_pending w) \<and> est_inv (w_established w)"

definition entries_sound :: "world \<Rightarrow> bool" where
  "entries_sound w \<longleftrightarrow>
     (\<forall>random c. gm_get (pd_map (w_pending w)) random = Some c \<longrightarrow> pending_entry_ok w random c) \<and>
     (\<forall>k c. est_lookup (w_established w) k = Some c \<longrightarrow> established_entry_ok w k c) \<and>
     (\<forall>bm \<in> set (w_managers w). \<forall>b. bm_registered bm b \<longrightarrow> b < w_nextBackend w)"

definition server_inv :: "world \<Rightarrow> bool" where
  "server_inv w \<longleftrightarrow> tables_ok w \<and> entries_sound w"

lemma entry_ok_updates [simp]:
  "exists_backend (w\<lparr>w_heap := h\<rparr>) = exists_backend w"
  "exists_backend (w\<lparr>w_pending := pm\<rparr>) = exists_backend w"
  "exists_backend (w\<lparr>w_established := es\<rparr>) = exists_backend w"
  "exists_backend (w\<lparr>w_managers := bms\<rparr>) = exists_backend w"
  "exists_backend (w\<lparr>w_tick := n\<rparr>) = exists_backend w"
  "exists_backend (w\<lparr>w_log := l\<rparr>) = exists_backend w"
  "exists_backend (w\<lparr>w_rng := r\<rparr>) = exists_backend w"
  by (simp_all add: exists_backend_def fun_eq_iff)

lemma server_inv_irrelevant [simp]:
  "server_inv (w\<lparr>w_tick := n\<rparr>) = server_inv w"
  "server_inv (w\<lparr>w_log := l\<rparr>) = server_inv w"
  "server_inv (w\<lparr>w_rng := r\<rparr>) = server_inv w"
  "server_inv (w\<lparr>w_tick := n, w_established := es\<rparr>) = server_inv (w\<lparr>w_established := es\<rparr>)"
  "server_inv (w\<lparr>w_tick := n, w_managers := bms\<rparr>) = server_inv (w\<lparr>w_managers := bms\<rparr>)"
  "server_inv (w\<lparr>w_heap := h, w_tick := n\<rparr>) = server_inv (w\<lparr>w_heap := h\<rparr>)"
  "server_inv (w\<lparr>w_tick := n, w_heap := h\<rparr>) = server_inv (w\<lparr>w_heap := h\<rparr>)"
  by (simp_all add: server_inv_def tables_ok_def entries_sound_def pending_entry_ok_def
      established_entry_ok_def exists_backend_def)

lemma inv_ask: "server_inv w \<Longrightarrow> server_inv (snd (ask w))"
  by (simp add: ask_def)

lemma inv_Frontend_Send: "server_inv w \<Longrightarrow> server_inv (snd (Frontend_Send f p w))"
  by (simp add: Frontend_Send_def ask_def log_effects_def Let_def)

lemma inv_w_Send: "server_inv w \<Longrightarrow> server_inv (snd (w_Send b p w))"
  by (simp add: w_Send_def ask_def log_effects_def Let_def case_prod_unfold)

lemma inv_observe: "server_inv w \<Longrightarrow> server_inv (snd (observe e w))"
  by (simp add: observe_def log_effects_def)

lemma inv_time_Now: "server_inv w \<Longrightarrow> server_inv (snd (time_Now w))"
  by (simp add: time_Now_def ask_def)

lemma inv_dial: "server_inv w \<Longrightarrow> server_inv (snd (sendDialRequestToBackend c d b p w))"
  by (simp add: sendDialRequestToBackend_def inv_w_Send ask_def log_effects_def Let_def case_prod_unfold)

lemma inv_getBackend:
  assumes "server_inv w"
  shows "server_inv (snd (w_getBackend host w)) \<and>
     (\<exists>res. fst (w_getBackend host w) = Ret res \<and>
        (\<forall>b. res = Inr b \<longrightarrow> b < w_nextBackend (snd (w_getBackend host w))))"
proof -
  let ?ctx = "genContext (w_strategies w) host"
  have inv: "managers_inv (w_strategies w, w_heap w, w_managers w)"
    using assms by (simp add: server_inv_def tables_ok_def)
  then have wf: "managers_wf (w_heap w) (w_managers w)" by (simp add: managers_inv_def)
  obtain res bms r where run: "getBackend (an_now (fst (ask w))) (w_heap w) (w_rng w) (w_strategies w)
        host (w_managers w) = Ret (res, bms, r)" "managers_wf (w_heap w) bms"
      "map bm_strategy bms = map bm_strategy (w_managers w)"
      "map bm_registered bms = map bm_registered (w_managers w)"
    and res: "case res of Inl e \<Rightarrow> e = ErrNotFound | Inr b \<Rightarrow> \<exists>bm \<in> set (w_managers w). bm_registered bm b"
    using getBackend_loop_spec [OF wf inv_ctx_fits [OF inv], of "an_now (fst (ask w))" "w_rng w" host]
    by (auto simp: getBackend_def)
  have reg: "\<exists>bm' \<in> set (w_managers w). bm_registered bm' = bm_registered bm" if "bm \<in> set bms" for bm
    using that arg_cong [OF run(4), of set] by (metis imageE imageI list.set_map)
  have b: "res = Inr b \<Longrightarrow> b < w_nextBackend w" for b
    using res assms by (auto simp: server_inv_def entries_sound_def)
  have "server_inv (w\<lparr>w_managers := bms\<rparr>)"
  proof -
    have "\<forall>bm \<in> set bms. \<forall>b. bm_registered bm b \<longrightarrow> b < w_nextBackend w"
      using reg assms unfolding server_inv_def entries_sound_def by metis
    moreover have "managers_inv (w_strategies w, w_heap w, bms)"
      using inv run(2) arg_cong [OF run(3), of set] by (simp add: managers_inv_def)
    ultimately show ?thesis using assms
      by (simp add: server_inv_def tables_ok_def entries_sound_def pending_entry_ok_def
          established_entry_ok_def)
  qed
  moreover have "w_getBackend host w = (Ret res, (snd (ask w))\<lparr>w_managers := bms, w_rng := r\<rparr>)"
    using run(1) by (simp add: w_getBackend_def case_prod_unfold Let_def)
  ultimately show ?thesis using b by (simp add: ask_def)
qed

lemma add_inflight_identity: "same_identity h (add_inflight d ob h)"
  by (auto simp: same_identity_def add_inflight_def IsDraining_def split: option.splits)

lemma same_identity_refl: "same_identity h h"
  by (simp add: same_identity_def)

lemma same_identity_trans: "same_identity h h' \<Longrightarrow> same_identity h' h'' \<Longrightarrow> same_identity h h''"
  by (simp add: same_identity_def)

lemma release_all_identity: "same_identity h (release_all cs h)"
  by (induction cs arbitrary: h)
    (auto simp: release_all_def same_identity_refl
      intro: same_identity_trans [OF add_inflight_identity])

text \<open>A step of the pending table that keeps its invariant and only removes entries.\<close>

lemma inv_pending_update:
  assumes "server_inv w" and "pending_inv (h, pm)" and "same_identity (w_heap w) h"
    and "\<And>random c. gm_get (pd_map pm) random = Some c \<Longrightarrow> pending_entry_ok w random c"
  shows "server_inv (w\<lparr>w_heap := h, w_pending := pm\<rparr>)"
proof -
  have "managers_inv (w_strategies w, h, w_managers w)"
    using assms(1,3) managers_heap [of "w_heap w" "w_managers w" h]
    by (simp add: server_inv_def tables_ok_def managers_inv_def)
  then show ?thesis using assms(1,2,4)
    by (simp add: server_inv_def tables_ok_def entries_sound_def pending_entry_ok_def
        established_entry_ok_def)
qed

lemma entry_of_pending:
  "server_inv w \<Longrightarrow> gm_get (pd_map (w_pending w)) random = Some c \<Longrightarrow> pending_entry_ok w random c"
  by (simp add: server_inv_def entries_sound_def)

lemma inv_pending_shrinks:
  assumes "server_inv w" and "pending_inv (h, pm)" and "same_identity (w_heap w) h"
    and "\<And>random c. gm_get (pd_map pm) random = Some c \<Longrightarrow> gm_get (pd_map (w_pending w)) random = Some c"
  shows "server_inv (w\<lparr>w_heap := h, w_pending := pm\<rparr>)"
  using assms by (intro inv_pending_update) (auto intro: entry_of_pending)

lemma pending_of_world: "server_inv w \<Longrightarrow> pending_inv (w_heap w, w_pending w)"
  by (simp add: server_inv_def tables_ok_def)

lemma pending_wf: "server_inv w \<Longrightarrow> gm_wf (pd_map (w_pending w))"
  by (simp add: server_inv_def tables_ok_def pending_inv_def)

lemma inv_pendingRemove:
  assumes "server_inv w"
  shows "server_inv (snd (w_pendingRemove random w)) \<and>
     (\<forall>c. fst (w_pendingRemove random w) = Some c \<longrightarrow>
        pending_entry_ok (snd (w_pendingRemove random w)) random c)"
proof -
  obtain c h pm where r: "PendingDial_Remove random (w_heap w, w_pending w) = (c, h, pm)"
    by (metis prod_cases3)
  have "same_identity (w_heap w) h"
    and "\<And>k c. gm_get (pd_map pm) k = Some c \<Longrightarrow> gm_get (pd_map (w_pending w)) k = Some c"
    and c: "c = gm_get (pd_map (w_pending w)) random"
    using r by (auto simp: PendingDial_Remove_def set_pending_def Let_def add_inflight_identity
        same_identity_refl split: option.splits if_splits)
  then have "server_inv (w\<lparr>w_heap := h, w_pending := pm\<rparr>)"
    using Remove_inv [OF pending_of_world [OF assms], of random] r
    by (intro inv_pending_shrinks [OF assms]) auto
  with c r entry_of_pending [OF assms] show ?thesis
    by (auto simp: w_pendingRemove_def pending_entry_ok_def)
qed

lemma inv_pendingAdd:
  assumes "server_inv w" and "pending_entry_ok w random c"
  shows "server_inv (snd (w_pendingAdd random c w))"
proof -
  obtain h pm where r: "PendingDial_Add random c (w_heap w, w_pending w) = (h, pm)" by fastforce
  then have "same_identity (w_heap w) h"
    by (auto simp: PendingDial_Add_def Let_def split: option.splits
        intro: add_inflight_identity same_identity_trans [OF add_inflight_identity])
  moreover have "\<And>k c'. gm_get (pd_map pm) k = Some c' \<Longrightarrow>
      c' = c \<and> k = random \<or> gm_get (pd_map (w_pending w)) k = Some c'"
    using r by (auto simp: PendingDial_Add_def Let_def set_pending_def split: if_splits)
  moreover have "pending_inv (h, pm)"
    using Add_inv [OF pending_of_world [OF assms(1)], of random c] r by simp
  ultimately have "server_inv (w\<lparr>w_heap := h, w_pending := pm\<rparr>)"
    using assms entry_of_pending [OF assms(1)] by (intro inv_pending_update) blast+
  then show ?thesis using r by (simp add: w_pendingAdd_def)
qed

lemma inv_pendingSweep:
  assumes inv: "server_inv w" and sw: "sweep P (pd_map (w_pending w)) (pd_map (w_pending w)) = (m, ret)"
  shows "server_inv (w\<lparr>w_heap := release_all ret (w_heap w), w_pending := set_pending m\<rparr>) \<and>
     (\<forall>c \<in> set ret. pc_frontend c \<noteq> None \<and> pc_backend c \<noteq> None)"
proof -
  have wf: "gm_wf (pd_map (w_pending w))" using inv by (rule pending_wf)
  from sw have m: "m = filter (\<lambda>e. \<not> P (snd e)) (pd_map (w_pending w))"
    and ret: "ret = map snd (filter (\<lambda>e. P (snd e)) (pd_map (w_pending w)))"
    by (simp_all add: sweep_all [OF wf])
  have "\<And>k c. gm_get m k = Some c \<Longrightarrow> gm_get (pd_map (w_pending w)) k = Some c"
    by (auto simp: m gm_get_filter [OF wf] split: option.splits if_splits)
  then have "server_inv (w\<lparr>w_heap := release_all ret (w_heap w), w_pending := set_pending m\<rparr>)"
    using sweep_inv [OF pending_of_world [OF inv] sw]
    by (intro inv_pending_shrinks [OF inv]) (auto simp: release_all_identity set_pending_def)
  moreover have "pc_frontend c \<noteq> None \<and> pc_backend c \<noteq> None" if "c \<in> set ret" for c
  proof -
    from that ret obtain k where "(k, c) \<in> set (pd_map (w_pending w))" by auto
    then have "gm_get (pd_map (w_pending w)) k = Some c" by (simp add: gm_get_wf_iff [OF wf])
    from entry_of_pending [OF inv this] show ?thesis
      by (auto simp: pending_entry_ok_def exists_backend_def)
  qed
  ultimately show ?thesis by blast
qed

lemma inv_pendingForBackend:
  "server_inv w \<Longrightarrow> server_inv (snd (w_pendingForBackend b w)) \<and>
     (\<forall>c \<in> set (fst (w_pendingForBackend b w)). pc_frontend c \<noteq> None \<and> pc_backend c \<noteq> None)"
  using inv_pendingSweep [of w "\<lambda>c. pc_backend c = Some b", OF _ surjective_pairing]
  by (simp add: w_pendingForBackend_def removeForBackend_def case_prod_unfold Let_def)

lemma inv_pendingForStream:
  "server_inv w \<Longrightarrow> server_inv (snd (w_pendingForStream uid w)) \<and>
     (\<forall>c \<in> set (fst (w_pendingForStream uid w)). pc_frontend c \<noteq> None \<and> pc_backend c \<noteq> None)"
  using inv_pendingSweep [of w "on_stream uid", OF _ surjective_pairing]
  by (simp add: w_pendingForStream_def removeForStream_def case_prod_unfold Let_def)

lemma inv_established_update:
  assumes "server_inv w" and "est_inv es"
    and "\<And>k c. est_lookup es k = Some c \<Longrightarrow> established_entry_ok w k c"
  shows "server_inv (w\<lparr>w_established := es\<rparr>)"
  using assms by (simp add: server_inv_def tables_ok_def entries_sound_def pending_entry_ok_def
      established_entry_ok_def)

lemma est_of_world: "server_inv w \<Longrightarrow> est_inv (w_established w)"
  by (simp add: server_inv_def tables_ok_def)

lemma entry_of_established:
  "server_inv w \<Longrightarrow> est_lookup (w_established w) k = Some c \<Longrightarrow> established_entry_ok w k c"
  unfolding server_inv_def entries_sound_def by blast

lemma inv_addEstablished:
  assumes "server_inv w" and "established_entry_ok w (agentID, connID) c"
  shows "server_inv (snd (w_addEstablished agentID connID c w)) \<and>
     established_entry_ok (snd (w_addEstablished agentID connID c w)) (agentID, connID)
       (fst (w_addEstablished agentID connID c w))"
proof -
  let ?now = "an_now (fst (ask w))"
  have "established_entry_ok w k c'"
    if "est_lookup (addEstablished ?now agentID connID c (w_established w)) k = Some c'" for k c'
    using that assms entry_of_established [OF assms(1), of k c']
    by (auto simp: addEstablished_lookup established_entry_ok_def exists_backend_def split: if_splits)
  then have "server_inv (w\<lparr>w_established := addEstablished ?now agentID connID c (w_established w)\<rparr>)"
    using assms(1) est_of_world [OF assms(1)] by (intro inv_established_update addEstablished_inv)
  with assms(2) show ?thesis
    by (simp add: w_addEstablished_def ask_def established_entry_ok_def exists_backend_def)
qed

lemma inv_removeEstablished:
  assumes "server_inv w"
  shows "server_inv (snd (w_removeEstablished agentID connID w)) \<and>
     (\<forall>c. fst (w_removeEstablished agentID connID w) = Some c \<longrightarrow> pc_frontend c \<noteq> None)"
proof -
  have "server_inv (w\<lparr>w_established := snd (removeEstablished agentID connID (w_established w))\<rparr>)"
    using assms by (intro inv_established_update removeEstablished_inv)
      (auto simp: removeEstablished_spec est_of_world entry_of_established split: if_splits)
  then show ?thesis
    using entry_of_established [OF assms]
    by (auto simp: w_removeEstablished_def case_prod_unfold Let_def removeEstablished_spec
        established_entry_ok_def)
qed

lemma inv_getFrontend:
  "server_inv w \<Longrightarrow> fst (w_getFrontend agentID connID w) = Inr c \<Longrightarrow> pc_frontend c \<noteq> None"
  using entry_of_established [of w "(agentID, connID)" c]
  by (auto simp: w_getFrontend_def getFrontend_def est_lookup_Some established_entry_ok_def
      split: option.splits)

lemma inv_establishedForBackend:
  assumes "server_inv w"
  shows "server_inv (snd (w_establishedForBackend agentID b w)) \<and>
     (\<forall>cs. fst (w_establishedForBackend agentID b w) = Inr cs \<longrightarrow>
        (\<forall>c \<in> set cs. pc_frontend c \<noteq> None))"
proof -
  note spec = forBackend_spec [OF est_of_world [OF assms], of agentID b]
  have "server_inv (w\<lparr>w_established := snd (removeEstablishedForBackendConn agentID (Some b) (w_established w))\<rparr>)"
    using assms spec bulk_removal_sub(1) [OF est_of_world [OF assms]]
    by (intro inv_established_update) (blast intro: entry_of_established)+
  then show ?thesis
    using spec entry_of_established [OF assms]
    by (force simp: w_establishedForBackend_def case_prod_unfold Let_def established_entry_ok_def)
qed

lemma inv_establishedForStream:
  assumes "server_inv w"
  shows "server_inv (snd (w_establishedForStream uid w)) \<and>
     (\<forall>c \<in> set (fst (w_establishedForStream uid w)). pc_backend c \<noteq> None)"
proof (cases "uid = []")
  case True
  with assms show ?thesis by (simp add: w_establishedForStream_def removeEstablishedForStream_def)
next
  case False
  note spec = forStream_spec [OF est_of_world [OF assms] False]
  have "server_inv (w\<lparr>w_established := snd (removeEstablishedForStream uid (w_established w))\<rparr>)"
    using assms spec bulk_removal_sub(2) [OF est_of_world [OF assms] False]
    by (intro inv_established_update) (blast intro: entry_of_established)+
  then show ?thesis
    using spec entry_of_established [OF assms]
    by (force simp: w_establishedForStream_def case_prod_unfold Let_def established_entry_ok_def
        exists_backend_def)
qed

text \<open>Changing a backend without touching its identity and its dials in flight.\<close>

lemma inv_outside:
  assumes "server_inv w" and "outside (w_heap w) h"
  shows "server_inv (w\<lparr>w_heap := h\<rparr>)"
proof -
  have "pending_inv (h, w_pending w)"
    using assms pending_of_world [OF assms(1)] by (auto simp: pending_inv_def outside_def)
  then have "server_inv (w\<lparr>w_heap := h, w_pending := w_pending w\<rparr>)"
    using assms by (intro inv_pending_update) (auto simp: outside_def entry_of_pending)
  then show ?thesis by simp
qed

lemma inv_observeDial: "server_inv w \<Longrightarrow> server_inv (snd (w_observeDial d now b w))"
  by (auto simp: w_observeDial_def intro!: inv_outside)
    (simp add: outside_def same_identity_def observeDial_def IsDraining_def)

lemma inv_await: "server_inv w \<Longrightarrow> server_inv (snd (w_await b w))"
proof -
  assume inv: "server_inv w"
  have "server_inv (w\<lparr>w_heap := (w_heap w)(b := (w_heap w b)\<lparr>be_receivedEOF := True\<rparr>)\<rparr>)"
    using inv by (rule inv_outside) (simp add: outside_def same_identity_def IsDraining_def)
  with inv show ?thesis
    by (auto simp: w_await_def ask_def split: stop_reason.split)
qed

lemma inv_managers_update:
  assumes "server_inv w" and "managers_inv (w_strategies w, w_heap w, bms)"
    and "\<And>bm b. bm \<in> set bms \<Longrightarrow> bm_registered bm b \<Longrightarrow> b < w_nextBackend w"
  shows "server_inv (w\<lparr>w_managers := bms\<rparr>)"
  using assms by (simp add: server_inv_def tables_ok_def entries_sound_def pending_entry_ok_def
      established_entry_ok_def)

lemma managers_of_world:
  "server_inv w \<Longrightarrow> managers_inv (w_strategies w, w_heap w, w_managers w)"
  by (simp add: server_inv_def tables_ok_def)

lemma registered_exists:
  "server_inv w \<Longrightarrow> bm \<in> set (w_managers w) \<Longrightarrow> bm_registered bm b \<Longrightarrow> b < w_nextBackend w"
  by (simp add: server_inv_def entries_sound_def)

lemma inv_addBackend:
  assumes "server_inv w" and "b < w_nextBackend w"
  shows "server_inv (snd (w_addBackend b w))"
proof -
  have wf: "managers_wf (w_heap w) (w_managers w)"
    using managers_of_world [OF assms(1)] by (simp add: managers_inv_def)
  have "managers_inv (w_strategies w, w_heap w, addBackend (w_heap w) b (w_managers w))"
    using managers_inv_step [OF managers_of_world [OF assms(1)] managers_step.connected] .
  then show ?thesis
    using assms addBackend_registered [OF wf, of _ b] registered_exists [OF assms(1)]
    by (auto simp: w_addBackend_def intro!: inv_managers_update)
qed

lemma inv_removeBackend:
  assumes "server_inv w"
  shows "server_inv (snd (w_removeBackend b w)) \<and> fst (w_removeBackend b w) = Ret ()"
proof -
  have wf: "managers_wf (w_heap w) (w_managers w)"
    using managers_of_world [OF assms] by (simp add: managers_inv_def)
  then obtain bms where bms: "removeBackend (w_heap w) b (w_managers w) = Ret bms"
    using removeBackend_spec [of "w_heap w" "w_managers w" b] by blast
  then have "managers_inv (w_strategies w, w_heap w, bms)"
    using managers_inv_step [OF managers_of_world [OF assms] managers_step.left] by blast
  with bms show ?thesis
    using assms removeBackend_registered [OF wf bms] registered_exists [OF assms]
    by (auto simp: w_removeBackend_def intro!: inv_managers_update)
qed

lemma inv_markDraining:
  assumes "server_inv w"
  shows "server_inv (snd (w_markBackendDraining b w))"
proof -
  let ?h = "(w_heap w)(b := SetDraining (w_heap w b))"
  let ?w = "w\<lparr>w_heap := ?h\<rparr>"
  have w: "server_inv ?w"
    using assms by (rule inv_outside) (simp add: outside_def SetDraining_identity, simp add: SetDraining_def)
  then have wf: "managers_wf ?h (w_managers w)"
    using managers_of_world [OF w] by (simp add: managers_inv_def)
  note spec = notifyDraining_spec [OF wf, of b]
  have "managers_inv (w_strategies w, ?h, notifyDraining ?h b (w_managers w))"
    using managers_of_world [OF w] spec arg_cong [of "map bm_strategy _" _ set]
    by (simp add: managers_inv_def) (metis list.set_map)
  moreover have "bm \<in> set (notifyDraining ?h b (w_managers w)) \<Longrightarrow> bm_registered bm b' \<Longrightarrow>
      b' < w_nextBackend w" for bm b'
    using spec registered_exists [OF assms] by (metis imageE imageI list.set_map)
  ultimately have "server_inv (?w\<lparr>w_managers := notifyDraining ?h b (w_managers w)\<rparr>)"
    using w by (intro inv_managers_update) auto
  then show ?thesis by (simp add: w_markBackendDraining_def markBackendDraining_def Let_def)
qed

lemma pending_of_fresh:
  assumes "server_inv w" shows "pending_of (w_nextBackend w) (pd_map (w_pending w)) = 0"
proof -
  have "pc_backend c \<noteq> Some (w_nextBackend w)" if "(k, c) \<in> set (pd_map (w_pending w))" for k c
    using that entry_of_pending [OF assms, of k c] gm_get_wf_iff [OF pending_wf [OF assms], of k c]
    by (auto simp: pending_entry_ok_def exists_backend_def)
  then show ?thesis by (auto simp: pending_of_def filter_empty_conv)
qed

lemma inv_newBackend:
  assumes inv: "server_inv w" and be: "be_dialsInFlight be = 0"
  shows "server_inv (snd (w_newBackend be w)) \<and>
     fst (w_newBackend be w) < w_nextBackend (snd (w_newBackend be w))"
proof -
  let ?b = "w_nextBackend w" and ?w = "snd (w_newBackend be w)"
  have "managers_inv (w_strategies w, (w_heap w)(?b := be), w_managers w)"
    using managers_of_world [OF inv] registered_exists [OF inv]
    by (auto simp: managers_inv_def intro!: managers_wf_unregistered)
  moreover have "pending_inv ((w_heap w)(?b := be), w_pending w)"
    using pending_of_world [OF inv] pending_of_fresh [OF inv] be by (simp add: pending_inv_def)
  moreover have "exists_backend w c \<Longrightarrow> exists_backend ?w c" for c
    by (auto simp: exists_backend_def w_newBackend_def)
  then have "pending_entry_ok w k c \<Longrightarrow> pending_entry_ok ?w k c"
    "established_entry_ok w k' c \<Longrightarrow> established_entry_ok ?w k' c" for k k' c
    by (auto simp: pending_entry_ok_def established_entry_ok_def)
  then have "entries_sound ?w"
    using registered_exists [OF inv] entry_of_pending [OF inv] entry_of_established [OF inv]
    unfolding entries_sound_def by (simp add: w_newBackend_def less_SucI del: split_paired_All)
  ultimately show ?thesis using inv by (simp add: w_newBackend_def server_inv_def tables_ok_def)
qed

subsection \<open>Every goroutine keeps the invariant\<close>

text \<open>\<open>good n t\<close>: \<open>t\<close> keeps the invariant once at least \<open>n\<close> backends exist.\<close>

definition good :: "nat \<Rightarrow> thread \<Rightarrow> bool" where
  "good n t \<longleftrightarrow> (\<forall>w. n \<le> w_nextBackend w \<longrightarrow> keeps server_inv w t)"

lemma good_mono: "good n t \<Longrightarrow> n \<le> m \<Longrightarrow> good m t"
  by (simp add: good_def)

lemma good_Stop [simp]: "good n Stop"
  by (simp add: good_def keeps_Stop)

lemma good_Go: "good n t \<Longrightarrow> good n k \<Longrightarrow> good n (Go t k)"
  by (simp add: good_def keeps_Go)

lemma good_atomically:
  assumes "\<And>w. server_inv w \<Longrightarrow> n \<le> w_nextBackend w \<Longrightarrow>
     server_inv (snd (f w)) \<and> w_nextBackend w \<le> w_nextBackend (snd (f w)) \<and>
     good (w_nextBackend (snd (f w))) (k (fst (f w)))"
  shows "good n (atomically f k)"
  unfolding good_def
proof (intro allI impI keeps_atomically)
  fix w0 w assume "n \<le> w_nextBackend w0" "server_inv w" "grown w0 w"
  with assms [of w] show "server_inv (snd (f w)) \<and> grown w (snd (f w)) \<and>
      keeps server_inv (snd (f w)) (k (fst (f w)))"
    by (auto simp: grown_def good_def)
qed

lemma nextBackend_actions [simp]:
  "w_nextBackend (snd (ask w)) = w_nextBackend w"
  "w_nextBackend (snd (Frontend_Send f p w)) = w_nextBackend w"
  "w_nextBackend (snd (w_Send b p w)) = w_nextBackend w"
  "w_nextBackend (snd (observe e w)) = w_nextBackend w"
  "w_nextBackend (snd (time_Now w)) = w_nextBackend w"
  "w_nextBackend (snd (sendDialRequestToBackend c d b p w)) = w_nextBackend w"
  "w_nextBackend (snd (w_getBackend host w)) = w_nextBackend w"
  "w_nextBackend (snd (w_pendingAdd random cc w)) = w_nextBackend w"
  "w_nextBackend (snd (w_pendingRemove random w)) = w_nextBackend w"
  "w_nextBackend (snd (w_pendingForBackend b w)) = w_nextBackend w"
  "w_nextBackend (snd (w_pendingForStream uid w)) = w_nextBackend w"
  "w_nextBackend (snd (w_addEstablished a i cc w)) = w_nextBackend w"
  "w_nextBackend (snd (w_removeEstablished a i w)) = w_nextBackend w"
  "w_nextBackend (snd (w_getFrontend a i w)) = w_nextBackend w"
  "w_nextBackend (snd (w_establishedForBackend a b w)) = w_nextBackend w"
  "w_nextBackend (snd (w_establishedForStream uid w)) = w_nextBackend w"
  "w_nextBackend (snd (w_markBackendDraining b w)) = w_nextBackend w"
  "w_nextBackend (snd (w_observeDial dur now b w)) = w_nextBackend w"
  "w_nextBackend (snd (w_addBackend b w)) = w_nextBackend w"
  "w_nextBackend (snd (w_removeBackend b w)) = w_nextBackend w"
  "w_nextBackend (snd (w_await b w)) = w_nextBackend w"
  by (simp_all add: world_actions sendDialRequestToBackend_def w_await_def Let_def case_prod_unfold
      split: outcome.split stop_reason.split)

lemma good_plain:
  assumes "\<And>w. server_inv w \<Longrightarrow> server_inv (snd (f w))"
    and "\<And>w. w_nextBackend (snd (f w)) = w_nextBackend w" and "\<And>x. good n (k x)"
  shows "good n (atomically f k)"
  by (rule good_atomically) (auto simp: assms intro: good_mono [OF assms(3)])

lemmas good_actions =
  good_plain [OF inv_Frontend_Send nextBackend_actions(2)]
  good_plain [OF inv_w_Send nextBackend_actions(3)]
  good_plain [OF inv_observe nextBackend_actions(4)]
  good_plain [OF inv_time_Now nextBackend_actions(5)]
  good_plain [OF inv_dial nextBackend_actions(6)]
  good_plain [OF inv_markDraining nextBackend_actions(17)]
  good_plain [OF inv_observeDial nextBackend_actions(18)]
  good_plain [OF inv_await nextBackend_actions(21)]

lemma good_read: "(\<And>x. good n (k x)) \<Longrightarrow> good n (atomically (\<lambda>w. (g w, w)) k)"
  by (rule good_plain) auto

lemma good_ask: "(\<And>x. good n (k x)) \<Longrightarrow> good n (atomically (\<lambda>w. case ask w of (a, w1) \<Rightarrow> (g a, w1)) k)"
  by (rule good_plain) (auto simp: case_prod_unfold inv_ask)

lemma good_client_send: "pc_frontend c \<noteq> None \<Longrightarrow> (\<And>e. good n (k e)) \<Longrightarrow> good n (client_send c p k)"
  by (auto simp: client_send_def intro!: good_actions)

lemma good_sendBackendClose: "b \<noteq> None \<Longrightarrow> good n k \<Longrightarrow> good n (sendBackendClose b i k)"
  by (auto simp: sendBackendClose_def intro!: good_actions)

lemma good_sendBackendDialClose: "b \<noteq> None \<Longrightarrow> good n k \<Longrightarrow> good n (sendBackendDialClose b i k)"
  by (auto simp: sendBackendDialClose_def intro!: good_actions)

lemma good_sendFrontendClose: "good n k \<Longrightarrow> good n (sendFrontendClose f i r k)"
  by (auto simp: sendFrontendClose_def intro!: good_actions)

lemma good_pendingRemove:
  assumes "good n (k None)"
    and "\<And>c m. n \<le> m \<Longrightarrow> pc_frontend c \<noteq> None \<Longrightarrow> (\<exists>b. pc_backend c = Some b \<and> b < m) \<Longrightarrow> good m (k (Some c))"
  shows "good n (atomically (w_pendingRemove random) k)"
proof (rule good_atomically)
  fix w assume "server_inv w" and n: "n \<le> w_nextBackend w"
  note r = inv_pendingRemove [OF this(1), of random]
  from r n assms good_mono [OF assms(1)] show "server_inv (snd (w_pendingRemove random w)) \<and>
      w_nextBackend w \<le> w_nextBackend (snd (w_pendingRemove random w)) \<and>
      good (w_nextBackend (snd (w_pendingRemove random w))) (k (fst (w_pendingRemove random w)))"
    by (cases "fst (w_pendingRemove random w)") (auto simp: pending_entry_ok_def exists_backend_def)
qed

lemma good_getBackend:
  assumes "\<And>err. good n (k (Ret (Inl err)))"
    and "\<And>b m. n \<le> m \<Longrightarrow> b < m \<Longrightarrow> good m (k (Ret (Inr b)))"
  shows "good n (atomically (w_getBackend host) k)"
proof (rule good_atomically)
  fix w assume "server_inv w" and n: "n \<le> w_nextBackend w"
  then obtain res where r: "server_inv (snd (w_getBackend host w))" "fst (w_getBackend host w) = Ret res"
      "\<forall>b. res = Inr b \<longrightarrow> b < w_nextBackend w"
    using inv_getBackend [OF \<open>server_inv w\<close>, of host] by auto
  with n assms good_mono [OF assms(1)] show "server_inv (snd (w_getBackend host w)) \<and>
      w_nextBackend w \<le> w_nextBackend (snd (w_getBackend host w)) \<and>
      good (w_nextBackend (snd (w_getBackend host w))) (k (fst (w_getBackend host w)))"
    by (cases res) auto
qed

lemma good_pendingAdd:
  assumes "pc_frontend c \<noteq> None" and "case pc_backend c of Some b \<Rightarrow> b < n | None \<Rightarrow> False"
    and "pc_dialID c = random" and "good n (k ())"
  shows "good n (atomically (w_pendingAdd random c) k)"
proof (rule good_atomically)
  fix w assume "server_inv w" and n: "n \<le> w_nextBackend w"
  then have "pending_entry_ok w random c"
    using assms(1-3) by (auto simp: pending_entry_ok_def exists_backend_def split: option.splits)
  with \<open>server_inv w\<close> n good_mono [OF assms(4)] show "server_inv (snd (w_pendingAdd random c w)) \<and>
      w_nextBackend w \<le> w_nextBackend (snd (w_pendingAdd random c w)) \<and>
      good (w_nextBackend (snd (w_pendingAdd random c w))) (k (fst (w_pendingAdd random c w)))"
    by (auto simp: inv_pendingAdd)
qed

lemma good_timer: "good n (pendingDialTimer random f)"
  unfolding pendingDialTimer_def Let_def
  by (rule good_ask) (auto intro!: good_pendingRemove good_actions)

lemma good_startTimeout: "good n k \<Longrightarrow> good n (startPendingDialTimeout random f k)"
  unfolding startPendingDialTimeout_def
  by (auto intro!: good_read good_Go good_timer)

lemma deref_fits:
  "payload_fits p \<Longrightarrow> ptype p = DIAL_REQ \<Longrightarrow> \<exists>x. deref (GetDialRequest p) = Ret x"
  "payload_fits p \<Longrightarrow> ptype p = DIAL_RSP \<Longrightarrow> \<exists>x. deref (GetDialResponse p) = Ret x"
  "payload_fits p \<Longrightarrow> ptype p = CLOSE_REQ \<Longrightarrow> \<exists>x. deref (GetCloseRequest p) = Ret x"
  "payload_fits p \<Longrightarrow> ptype p = CLOSE_RSP \<Longrightarrow> \<exists>x. deref (GetCloseResponse p) = Ret x"
  "payload_fits p \<Longrightarrow> ptype p = DATA \<Longrightarrow> \<exists>x. deref (GetData p) = Ret x"
  "payload_fits p \<Longrightarrow> ptype p = DIAL_CLS \<Longrightarrow> \<exists>x. deref (GetCloseDial p) = Ret x"
  by (auto simp: payload_fits_def deref_def)

lemmas good_intros = good_getBackend good_actions good_pendingAdd good_pendingRemove
  good_startTimeout good_client_send good_sendBackendClose good_sendBackendDialClose
  good_sendFrontendClose

lemma good_frontend_DIAL_REQ:
  assumes "\<exists>x. deref (GetDialRequest pkt) = Ret x"
    and "\<And>be fc. good n (next be fc)" and "good n ret"
  shows "good n (frontend_DIAL_REQ f pkt fc next ret)"
  using assms(1) unfolding frontend_DIAL_REQ_def
  by (auto simp: Let_def split: option.splits intro!: good_intros assms(2,3)
      good_mono [OF assms(2)] good_mono [OF assms(3)])

lemma good_frontend_CLOSE_REQ:
  assumes "\<exists>x. deref (GetCloseRequest pkt) = Ret x"
    and "\<And>be fc. good n (next be fc)" and "good n ret"
  shows "good n (frontend_CLOSE_REQ f pkt be fc next ret)"
  using assms unfolding frontend_CLOSE_REQ_def
  by (auto simp: Let_def split: option.splits intro!: good_intros)

lemma good_frontend_DIAL_CLS:
  assumes "\<exists>x. deref (GetCloseDial pkt) = Ret x" and "\<And>be fc. good n (next be fc)"
  shows "good n (frontend_DIAL_CLS pkt be fc next)"
  using assms unfolding frontend_DIAL_CLS_def
  by (auto simp: Let_def split: option.splits intro!: good_intros good_mono [OF assms(2)])

lemma good_frontend_DATA:
  assumes "\<exists>x. deref (GetData pkt) = Ret x"
    and "\<And>be fc. good n (next be fc)" and "good n ret"
  shows "good n (frontend_DATA f pkt be fc next ret)"
  using assms unfolding frontend_DATA_def
  by (auto simp: Let_def split: option.splits intro!: good_intros)

lemma good_serveRecvFrontend:
  "list_all payload_fits pkts \<Longrightarrow> good n ret \<Longrightarrow> good n (serveRecvFrontend f pkts be fc ret)"
  by (induction f pkts be fc ret rule: serveRecvFrontend.induct)
    (auto simp: Let_def deref_fits split: packet_type.split
      intro!: good_frontend_DIAL_REQ good_frontend_CLOSE_REQ good_frontend_DIAL_CLS good_frontend_DATA)

lemma good_close_dials:
  "\<forall>c \<in> set cs. pc_backend c \<noteq> None \<Longrightarrow> good n k \<Longrightarrow> good n (close_dials cs k)"
  by (induction cs) (auto intro!: good_intros)

lemma good_close_conns:
  "\<forall>c \<in> set cs. pc_backend c \<noteq> None \<Longrightarrow> good n k \<Longrightarrow> good n (close_conns cs k)"
  by (induction cs) (auto intro!: good_intros)

lemma good_fail_dials:
  "\<forall>c \<in> set cs. pc_frontend c \<noteq> None \<Longrightarrow> good n k \<Longrightarrow> good n (fail_dials cs k)"
  by (induction cs) (auto intro!: good_intros)

lemma good_close_frontends:
  "\<forall>c \<in> set cs. pc_frontend c \<noteq> None \<Longrightarrow> good n k \<Longrightarrow> good n (close_frontends cs k)"
  by (induction cs) (auto intro!: good_intros)

text \<open>Table operations whose result is known to have frontends or backends.\<close>

lemma good_result:
  assumes "\<And>w. server_inv w \<Longrightarrow> server_inv (snd (f w)) \<and> P (fst (f w))"
    and "\<And>w. w_nextBackend (snd (f w)) = w_nextBackend w" and "\<And>x. P x \<Longrightarrow> good n (k x)"
  shows "good n (atomically f k)"
  by (rule good_atomically) (use assms in \<open>auto intro: good_mono\<close>)

lemmas good_tables =
  good_result [OF inv_pendingForBackend nextBackend_actions(10)]
  good_result [OF inv_pendingForStream nextBackend_actions(11)]
  good_result [OF inv_removeEstablished nextBackend_actions(13)]
  good_result [OF inv_establishedForBackend nextBackend_actions(15)]
  good_result [OF inv_establishedForStream nextBackend_actions(16)]
  good_result [OF inv_removeBackend nextBackend_actions(20)]

lemma good_getFrontend:
  assumes "\<And>e. good n (k (Inl e))" and "\<And>c. pc_frontend c \<noteq> None \<Longrightarrow> good n (k (Inr c))"
  shows "good n (atomically (w_getFrontend a i) k)"
proof (rule good_result [where P = "\<lambda>r. \<forall>c. r = Inr c \<longrightarrow> pc_frontend c \<noteq> None"])
  show "server_inv (snd (w_getFrontend a i w)) \<and>
      (\<forall>c. fst (w_getFrontend a i w) = Inr c \<longrightarrow> pc_frontend c \<noteq> None)" if "server_inv w" for w
    using that inv_getFrontend [OF that] by (simp add: w_getFrontend_def)
  show "good n (k r)" if "\<forall>c. r = Inr c \<longrightarrow> pc_frontend c \<noteq> None" for r
    using that assms by (cases r) auto
qed simp

lemma good_addEstablished:
  assumes "pc_frontend c \<noteq> None" and "\<exists>b. pc_backend c = Some b \<and> b < n"
    and "pc_agentID c = a" and "pc_connectID c = i"
    and "\<And>c'. pc_frontend c' \<noteq> None \<Longrightarrow> good n (k c')"
  shows "good n (atomically (w_addEstablished a i c) k)"
proof (rule good_atomically)
  fix w assume inv: "server_inv w" and n: "n \<le> w_nextBackend w"
  have "established_entry_ok w (a, i) c"
    using assms(1-4) n by (auto simp: established_entry_ok_def exists_backend_def)
  from inv_addEstablished [OF inv this] assms(5) n
  show "server_inv (snd (w_addEstablished a i c w)) \<and>
      w_nextBackend w \<le> w_nextBackend (snd (w_addEstablished a i c w)) \<and>
      good (w_nextBackend (snd (w_addEstablished a i c w))) (k (fst (w_addEstablished a i c w)))"
    by (auto simp: established_entry_ok_def intro: good_mono)
qed

lemma good_frontend_shutdown: "good n k \<Longrightarrow> good n (frontend_shutdown f k)"
  unfolding frontend_shutdown_def
  by (intro good_tables good_close_dials good_close_conns) auto

lemma good_backend_shutdown: "good n k \<Longrightarrow> good n (backend_shutdown b a k)"
  unfolding backend_shutdown_def
  by (intro good_tables good_fail_dials)
    (auto split: sum.splits intro!: good_actions good_close_frontends)

lemma good_proxy: "list_all payload_fits pkts \<Longrightarrow> good n (proxy md f pkts)"
  by (simp add: proxy_def good_serveRecvFrontend good_frontend_shutdown)

lemma good_backend_DIAL_RSP:
  assumes "\<exists>x. deref (GetDialResponse pkt) = Ret x" and "good n next"
  shows "good n (backend_DIAL_RSP b a pkt next)"
proof -
  obtain resp where r: "deref (GetDialResponse pkt) = Ret resp" using assms(1) by blast
  have k: "good m next" if "n \<le> m" for m using assms(2) that by (rule good_mono)
  show ?thesis
    unfolding backend_DIAL_RSP_def r unwrap.simps
    by (rule good_pendingRemove)
      (auto split: option.split intro!: good_intros good_tables good_addEstablished assms(2) k)
qed

lemma good_backend_DIAL_CLS:
  assumes "\<exists>x. deref (GetCloseDial pkt) = Ret x" and "good n next"
  shows "good n (backend_DIAL_CLS pkt next)"
  using assms unfolding backend_DIAL_CLS_def
  by (auto split: option.splits intro!: good_intros good_mono [OF assms(2)])

lemma good_backend_DATA:
  assumes "\<exists>x. deref (GetData pkt) = Ret x" and "good n next"
  shows "good n (backend_DATA b a pkt next)"
  using assms unfolding backend_DATA_def
  by (auto intro!: good_getFrontend good_intros)

lemma good_backend_CLOSE_RSP:
  assumes "\<exists>x. deref (GetCloseResponse pkt) = Ret x" and "good n next"
  shows "good n (backend_CLOSE_RSP a pkt next)"
  using assms unfolding backend_CLOSE_RSP_def
  by (auto split: option.split intro!: good_tables good_intros)

lemma good_serveRecvBackend:
  "list_all payload_fits pkts \<Longrightarrow> good n k \<Longrightarrow> good n (serveRecvBackend b a pkts k)"
  by (induction b a pkts k rule: serveRecvBackend.induct)
    (auto simp: Let_def deref_fits good_backend_shutdown split: packet_type.split
      intro!: good_backend_DIAL_RSP good_backend_DIAL_CLS good_backend_DATA good_backend_CLOSE_RSP
        good_actions)

lemma NewBackend_Ret:
  "\<exists>r. NewBackend md = Ret r \<and>
     (\<forall>be. r = Inr be \<longrightarrow> be_dialsInFlight be = 0 \<and> \<not> IsDraining be \<and> getAgentID md = Inr (be_id be))"
proof -
  have gen: "\<exists>r. GenAgentIdentifiers q = Ret r" for q
    using ParseQuery_nonempty [of q]
    by (auto simp: GenAgentIdentifiers_def gen_idents_loop_eq case_prod_unfold Let_def split: option.split)
  have "\<exists>r. getAgentIdentifiers md = Ret r"
    using gen by (auto simp: getAgentIdentifiers_def Let_def split: option.split list.split)
  then show ?thesis
    by (auto simp: NewBackend_def IsDraining_def split: sum.split)
qed

lemma good_newBackend:
  assumes "be_dialsInFlight be = 0" and "\<And>b m. n \<le> m \<Longrightarrow> b < m \<Longrightarrow> good m (k b)"
  shows "good n (atomically (w_newBackend be) k)"
proof (rule good_atomically)
  fix w assume "server_inv w" and n: "n \<le> w_nextBackend w"
  from inv_newBackend [OF this(1) assms(1)] n assms(2)
  show "server_inv (snd (w_newBackend be w)) \<and> w_nextBackend w \<le> w_nextBackend (snd (w_newBackend be w)) \<and>
      good (w_nextBackend (snd (w_newBackend be w))) (k (fst (w_newBackend be w)))"
    by (auto simp: w_newBackend_def)
qed

lemma good_addBackend:
  assumes "b < n" and "good n (k ())"
  shows "good n (atomically (w_addBackend b) k)"
  by (rule good_atomically) (use assms in \<open>auto simp: inv_addBackend intro: good_mono\<close>)

lemma good_connect:
  assumes "list_all payload_fits pkts"
  shows "good n (connect review md k pkts)"
proof -
  obtain r where r: "NewBackend md = Ret r" "\<forall>be. r = Inr be \<longrightarrow> be_dialsInFlight be = 0"
    using NewBackend_Ret [of md] by blast
  then show ?thesis using assms unfolding connect_def r unwrap.simps
    by (auto split: sum.split intro!: good_read good_ask good_newBackend good_addBackend good_Go
        good_serveRecvBackend good_actions good_tables)
qed

subsection \<open>The whole server\<close>

text \<open>
  The goroutines the server starts for its peers, with the packets they send; \<open>fits\<close> says
  which packets.
\<close>

definition peer_goroutine :: "(packet \<Rightarrow> bool) \<Rightarrow> thread \<Rightarrow> bool" where
  "peer_goroutine fits t \<longleftrightarrow>
     (\<exists>md f pkts. t = proxy md f pkts \<and> list_all fits pkts) \<or>
     (\<exists>review md n pkts. t = connect review md n pkts \<and> list_all fits pkts)"

interpretation server: interleaved server_inv "peer_goroutine payload_fits"
proof
  show "keeps server_inv w t" if "peer_goroutine payload_fits t" for t w
  proof -
    from that have "good 0 t"
      by (auto simp: peer_goroutine_def good_proxy good_connect)
    then show ?thesis by (simp add: good_def)
  qed
qed (rule inv_outside)

lemma new_server_inv:
  assumes "NewProxyServer ps auth r oracle h = Ret w" and "\<forall>b. be_dialsInFlight (h b) = 0"
  shows "server_inv w"
  using assms new_managers_wf [of h ps] new_managers_strategies [of ps]
proof -
  have w: "w_strategies w = ps" "w_managers w = new_managers ps" "w_established w = no_established"
      "w_pending w = NewPendingDialManager" "w_heap w = h" "w_nextBackend w = 0"
    using assms(1) by (auto simp: NewProxyServer_def Let_def split: if_splits)
  have "\<not> bm_registered bm b" if "bm \<in> set (new_managers ps)" for bm b
    using that by (induction ps rule: new_managers.induct)
      (auto simp: bm_registered_def registered_def backends_of_def NewDefaultBackendStorage_def
        NewDefaultBackendManager_def NewDestHostBackendManager_def NewDefaultRouteBackendManager_def
        split: proxy_strategy.splits)
  then show ?thesis
    using assms(2) new_managers_wf [of h ps] new_managers_strategies [of ps] est_inv_init
    by (simp add: server_inv_def tables_ok_def entries_sound_def w managers_inv_def pending_inv_def
        NewPendingDialManager_def pending_of_def est_lookup_def no_established_def)
qed

definition server_init :: "process \<Rightarrow> bool" where
  "server_init p \<longleftrightarrow>
     (\<exists>ps auth r oracle h w timeout. NewProxyServer ps auth r oracle h = Ret w \<and>
        (\<forall>b. be_dialsInFlight (h b) = 0) \<and> p = Running (SetBackendDialTimeout timeout w) [])"

lemma server_inv_timeout [simp]: "server_inv (SetBackendDialTimeout t w) = server_inv w"
  by (simp add: SetBackendDialTimeout_def server_inv_def tables_ok_def entries_sound_def
      pending_entry_ok_def established_entry_ok_def exists_backend_def)

lemma reach_server:
  assumes "reach server_init (process_step (peer_goroutine payload_fits)) p"
  shows "server.process_inv p"
proof -
  have "reach server.process_init (process_step (peer_goroutine payload_fits)) p"
    using assms
  proof (induction rule: reach.induct)
    case (reach_init p)
    then show ?case
      by (intro reach.reach_init) (auto simp: server_init_def server.process_init_def new_server_inv)
  qed (rule reach.reach_step)
  then show ?thesis by (rule server.processes.reach_inv)
qed

subsection \<open>What a run writes\<close>

text \<open>\<open>w'\<close> is \<open>w\<close> after some answers and with the effects \<open>es\<close> added.\<close>

definition wrote :: "world \<Rightarrow> effect list \<Rightarrow> world \<Rightarrow> bool" where
  "wrote w es w' \<longleftrightarrow> (\<exists>n. w' = w\<lparr>w_tick := n, w_log := w_log w @ es\<rparr>)"

lemma wrote_trans: "wrote w es w' \<Longrightarrow> wrote w' es' w'' \<Longrightarrow> wrote w (es @ es') w''"
  by (auto simp: wrote_def intro: exI)

lemma wrote_Nil: "wrote w [] w"
  unfolding wrote_def by (rule exI [of _ "w_tick w"]) simp

lemma wrote_observe: "wrote w [e] (snd (observe e w))"
  unfolding wrote_def by (rule exI [of _ "w_tick w"]) (simp add: observe_def log_effects_def)

lemma wrote_Frontend_Send:
  "\<exists>es. wrote w es (snd (Frontend_Send f p w)) \<and> ToFrontend (fr_id f) p (an_front (fst (ask w))) \<in> set es"
  by (auto simp: wrote_def Frontend_Send_def ask_def log_effects_def Let_def intro!: exI [of _ "Suc (w_tick w)"])

lemma run_client_send:
  assumes "pc_frontend c = Some f"
  shows "\<exists>es w'. run (client_send c p (\<lambda>e. k)) w = run k w' \<and> wrote w es w' \<and>
     (\<exists>e. ToFrontend (fr_id f) p e \<in> set es)"
  using assms wrote_Frontend_Send [of w f p] by (auto simp: client_send_def)

end
