(* ===== verification/KNP_ServerProps.thy ===== *)
theory KNP_ServerProps
  imports KNP_Server
begin

section \<open>What the packet handlers achieve\<close>

text \<open>
  The properties of the goroutines of \<open>KNP_Server\<close>: in every interleaving the server does not
  crash on well-formed packets and its tables stay sound; a malformed packet crashes it; and the
  effects of the handlers and cleanups that open and close connections, run on their own, with
  whatever the streams answer.
\<close>

subsection \<open>Helpers\<close>

text \<open>A send the agent's stream accepts.\<close>

definition accepts :: "answer \<Rightarrow> bool" where
  "accepts a \<longleftrightarrow>
     an_send a = \<lparr>env_ctxBefore = None, env_lock = None, env_ctxAfter = None, env_conn = None\<rparr>"

lemma wrote_w_Send:
  "\<exists>es. wrote w es (snd (w_Send b p w)) \<and>
     (accepts (fst (ask w)) \<longrightarrow> fst (w_Send b p w) = None \<and> ToAgent b p None \<in> set es)"
  by (auto simp: wrote_def w_Send_def ask_def log_effects_def Let_def case_prod_unfold accepts_def
      Backend_Send_def SendContext_def lockSend_def intro!: exI [of _ "Suc (w_tick w)"])

lemma w_Send_accepts:
  "accepts (w_oracle w (w_tick w)) \<Longrightarrow> w_Send b p w =
     (None, w\<lparr>w_tick := Suc (w_tick w), w_log := w_log w @ [ObservePacket SegmentToAgent (ptype p), ToAgent b p None]\<rparr>)"
  by (simp add: w_Send_def ask_def log_effects_def Let_def case_prod_unfold accepts_def
      Backend_Send_def SendContext_def lockSend_def)

lemma Frontend_Send_log:
  "Frontend_Send f p w = (an_front (w_oracle w (w_tick w)),
     w\<lparr>w_tick := Suc (w_tick w), w_log := w_log w @
       [ObservePacket SegmentToClient (ptype p), ToFrontend (fr_id f) p (an_front (w_oracle w (w_tick w)))] @
       (if an_front (w_oracle w (w_tick w)) \<noteq> None then [ObserveStreamError SegmentToClient (ptype p)] else [])\<rparr>)"
  by (simp add: Frontend_Send_def ask_def log_effects_def Let_def)

lemma wrote_world: "wrote w es w' \<Longrightarrow> w_oracle w' = w_oracle w \<and> w_log w' = w_log w @ es \<and>
     w_pending w' = w_pending w \<and> w_established w' = w_established w \<and> w_managers w' = w_managers w \<and>
     w_heap w' = w_heap w \<and> w_nextBackend w' = w_nextBackend w"
  by (auto simp: wrote_def)

text \<open>The loops of the cleanups: the same body for each connection.\<close>

fun each :: "(client_conn \<Rightarrow> thread \<Rightarrow> thread) \<Rightarrow> client_conn list \<Rightarrow> thread \<Rightarrow> thread" where
  "each body [] k = k"
| "each body (c # cs) k = body c (each body cs k)"

lemma run_each:
  assumes "\<And>c w k. c \<in> set cs \<Longrightarrow> w_oracle w = orc \<Longrightarrow>
     \<exists>es w'. run (body c k) w = run k w' \<and> wrote w es w' \<and> Q c (set es)"
    and "\<And>c A B. Q c A \<Longrightarrow> A \<subseteq> B \<Longrightarrow> Q c B" and "w_oracle w = orc"
  shows "\<exists>es w'. run (each body cs k) w = run k w' \<and> wrote w es w' \<and> (\<forall>c \<in> set cs. Q c (set es))"
  using assms(1,3)
proof (induction cs arbitrary: w)
  case Nil
  then show ?case using wrote_Nil by auto
next
  case (Cons c cs)
  obtain es1 w1 where 1: "run (body c (each body cs k)) w = run (each body cs k) w1" "wrote w es1 w1"
      "Q c (set es1)"
    using Cons.prems(1) [of c w "each body cs k"] Cons.prems(2) by auto
  have o: "w_oracle w1 = orc" using wrote_world [OF 1(2)] Cons.prems(2) by simp
  have body: "\<exists>es w'. run (body c k) w = run k w' \<and> wrote w es w' \<and> Q c (set es)"
    if "c \<in> set cs" "w_oracle w = orc" for c w k
    by (rule Cons.prems(1)) (use that in auto)
  obtain es2 w2 where 2: "run (each body cs k) w1 = run k w2" "wrote w1 es2 w2"
      "\<forall>c \<in> set cs. Q c (set es2)"
    using Cons.IH [OF body o] by blast
  have "Q c (set (es1 @ es2))" if "c \<in> set cs" for c
    by (rule assms(2) [of c "set es2"]) (use 2(3) that in auto)
  moreover have "Q c (set (es1 @ es2))" by (rule assms(2) [OF 1(3)]) simp
  ultimately show ?case using 1(1) 2(1) wrote_trans [OF 1(2) 2(2)]
    by (intro exI [of _ "es1 @ es2"] exI [of _ w2]) auto
qed

definition told_frontend :: "(client_conn \<Rightarrow> packet) \<Rightarrow> client_conn \<Rightarrow> effect set \<Rightarrow> bool" where
  "told_frontend p c es \<longleftrightarrow> (\<exists>f e. pc_frontend c = Some f \<and> ToFrontend (fr_id f) (p c) e \<in> es)"

definition told_agent :: "(client_conn \<Rightarrow> packet) \<Rightarrow> client_conn \<Rightarrow> effect set \<Rightarrow> bool" where
  "told_agent p c es \<longleftrightarrow> (\<exists>b. pc_backend c = Some b \<and> ToAgent b (p c) None \<in> es)"

abbreviation dial_lost :: "client_conn \<Rightarrow> packet" where
  "dial_lost c \<equiv> newDialResponsePacket (pc_dialID c) 0 (error_string ErrBackendClosedWhileDialing)"

lemma run_fail_dials:
  assumes "\<forall>c \<in> set cs. pc_frontend c \<noteq> None"
  shows "\<exists>es w'. run (fail_dials cs k) w = run k w' \<and> wrote w es w' \<and>
     (\<forall>c \<in> set cs. told_frontend dial_lost c (set es))"
proof -
  let ?body = "\<lambda>c k. atomically (observe (ObserveDialFailure DialFailureBackendClose)) (\<lambda>_.
       client_send c (dial_lost c) (\<lambda>err. k))"
  have "fail_dials cs k = each ?body cs k" by (induction cs) auto
  moreover have "\<exists>es w'. run (each ?body cs k) w = run k w' \<and> wrote w es w' \<and>
     (\<forall>c \<in> set cs. told_frontend dial_lost c (set es))"
  proof (rule run_each)
    fix c :: client_conn and w :: world and k
    assume "c \<in> set cs"
    then obtain f where f: "pc_frontend c = Some f" using assms by auto
    let ?w1 = "snd (observe (ObserveDialFailure DialFailureBackendClose) w)"
    obtain es w' e where "run (client_send c (dial_lost c) (\<lambda>e. k)) ?w1 = run k w'" "wrote ?w1 es w'"
        "ToFrontend (fr_id f) (dial_lost c) e \<in> set es"
      using run_client_send [OF f] by blast
    with f wrote_trans [OF wrote_observe this(2)]
    show "\<exists>es w'. run (?body c k) w = run k w' \<and> wrote w es w' \<and> told_frontend dial_lost c (set es)"
      by (fastforce simp: told_frontend_def)
  qed (auto simp: told_frontend_def)
  ultimately show ?thesis by simp
qed

lemma run_close_frontends:
  assumes "\<forall>c \<in> set cs. pc_frontend c \<noteq> None"
  shows "\<exists>es w'. run (close_frontends cs k) w = run k w' \<and> wrote w es w' \<and>
     (\<forall>c \<in> set cs. told_frontend (\<lambda>c. newCloseResponsePacket (pc_connectID c) []) c (set es))"
proof -
  let ?p = "\<lambda>c. newCloseResponsePacket (pc_connectID c) []"
  let ?body = "\<lambda>c k. client_send c (?p c) (\<lambda>err. k)"
  have "close_frontends cs k = each ?body cs k" by (induction cs) auto
  moreover have "\<exists>es w'. run (each ?body cs k) w = run k w' \<and> wrote w es w' \<and>
     (\<forall>c \<in> set cs. told_frontend ?p c (set es))"
  proof (rule run_each)
    fix c :: client_conn and w :: world and k
    assume "c \<in> set cs"
    then obtain f where f: "pc_frontend c = Some f" using assms by auto
    from run_client_send [OF f, of "?p c" k w] f
    show "\<exists>es w'. run (?body c k) w = run k w' \<and> wrote w es w' \<and> told_frontend ?p c (set es)"
      by (auto simp: told_frontend_def)
  qed (auto simp: told_frontend_def)
  ultimately show ?thesis by simp
qed

lemma run_close_dials:
  assumes "\<forall>c \<in> set cs. pc_backend c \<noteq> None" and "\<forall>n. accepts (w_oracle w n)"
  shows "\<exists>es w'. run (close_dials cs k) w = run k w' \<and> wrote w es w' \<and>
     (\<forall>c \<in> set cs. told_agent (\<lambda>c. newDialClosePacket (pc_dialID c)) c (set es))"
proof -
  let ?p = "\<lambda>c. newDialClosePacket (pc_dialID c)"
  let ?body = "\<lambda>c k. sendBackendDialClose (pc_backend c) (pc_dialID c) k"
  have "close_dials cs k = each ?body cs k" by (induction cs) auto
  moreover have "\<exists>es w'. run (each ?body cs k) w = run k w' \<and> wrote w es w' \<and>
     (\<forall>c \<in> set cs. told_agent ?p c (set es))"
  proof (rule run_each [where orc = "w_oracle w"])
    fix c :: client_conn and w' :: world and k
    assume "c \<in> set cs" and o: "w_oracle w' = w_oracle w"
    then obtain b where b: "pc_backend c = Some b" using assms(1) by auto
    have "accepts (fst (ask w'))" using assms(2) o by (simp add: ask_def)
    with b wrote_w_Send [of w' b "?p c"]
    show "\<exists>es w''. run (?body c k) w' = run k w'' \<and> wrote w' es w'' \<and> told_agent ?p c (set es)"
      by (auto simp: told_agent_def sendBackendDialClose_def)
  qed (auto simp: told_agent_def)
  ultimately show ?thesis by simp
qed

lemma run_close_conns:
  assumes "\<forall>c \<in> set cs. pc_backend c \<noteq> None" and "\<forall>n. accepts (w_oracle w n)"
  shows "\<exists>es w'. run (close_conns cs k) w = run k w' \<and> wrote w es w' \<and>
     (\<forall>c \<in> set cs. told_agent (\<lambda>c. newCloseRequestPacket (pc_connectID c)) c (set es))"
proof -
  let ?p = "\<lambda>c. newCloseRequestPacket (pc_connectID c)"
  let ?o = "ObserveConnectionsClosed ConnectionClosedFrontendClose 1"
  let ?body = "\<lambda>c k. atomically (observe ?o) (\<lambda>_. sendBackendClose (pc_backend c) (pc_connectID c) k)"
  have "close_conns cs k = each ?body cs k" by (induction cs) auto
  moreover have "\<exists>es w'. run (each ?body cs k) w = run k w' \<and> wrote w es w' \<and>
     (\<forall>c \<in> set cs. told_agent ?p c (set es))"
  proof (rule run_each [where orc = "w_oracle w"])
    fix c :: client_conn and w' :: world and k
    assume "c \<in> set cs" and o: "w_oracle w' = w_oracle w"
    then obtain b where b: "pc_backend c = Some b" using assms(1) by auto
    let ?w1 = "snd (observe ?o w')"
    have "accepts (fst (ask ?w1))"
      using assms(2) o by (simp add: ask_def observe_def log_effects_def)
    then obtain es where "wrote ?w1 es (snd (w_Send b (?p c) ?w1))" "ToAgent b (?p c) None \<in> set es"
      using wrote_w_Send [of ?w1 b "?p c"] by auto
    with b wrote_trans [OF wrote_observe this(1)]
    show "\<exists>es w''. run (?body c k) w' = run k w'' \<and> wrote w' es w'' \<and> told_agent ?p c (set es)"
      by (fastforce simp: told_agent_def sendBackendClose_def)
  qed (auto simp: told_agent_def)
  ultimately show ?thesis by simp
qed

subsection \<open>Properties of the whole server\<close>

text \<open>
  C1. Whatever frontends and agents connect, in whatever interleaving of their goroutines and
  timers and whatever the streams answer, a server whose peers send well-formed packets never
  crashes, and at every moment: each pending dial is filed under its dial ID and has a frontend
  and a backend, each established connection is filed under its agent and connection ID, every
  backend's dials in flight are its pending dials, the gauges are exact, and every manager's
  index is sound.
\<close>

theorem server_safe:
  assumes "reach server_init (process_step (peer_goroutine payload_fits)) p"
  shows "\<exists>w ts. p = Running w ts \<and>
     (\<forall>random c. gm_get (pd_map (w_pending w)) random = Some c \<longrightarrow>
        pc_dialID c = random \<and> pc_frontend c \<noteq> None \<and> pc_backend c \<noteq> None) \<and>
     (\<forall>a i c. est_lookup (w_established w) (a, i) = Some c \<longrightarrow>
        pc_agentID c = a \<and> pc_connectID c = i \<and> pc_frontend c \<noteq> None \<and> pc_backend c \<noteq> None) \<and>
     (\<forall>b. be_dialsInFlight (w_heap w b) = wrap64 (int (pending_of b (pd_map (w_pending w))))) \<and>
     pd_gauge (w_pending w) = length (pd_map (w_pending w)) \<and>
     es_gauge (w_established w) = getCount (es_conns (w_established w)) \<and>
     managers_wf (w_heap w) (w_managers w)"
proof -
  have inv: "server.process_inv p" by (rule reach_server [OF assms])
  then obtain w ts where p: "p = Running w ts" and w: "server_inv w"
    by (cases p) (auto simp: server.process_inv_def)
  have "pc_dialID c = random \<and> pc_frontend c \<noteq> None \<and> pc_backend c \<noteq> None"
    if "gm_get (pd_map (w_pending w)) random = Some c" for random c
    using entry_of_pending [OF w that] by (auto simp: pending_entry_ok_def exists_backend_def)
  moreover have "pc_agentID c = a \<and> pc_connectID c = i \<and> pc_frontend c \<noteq> None \<and> pc_backend c \<noteq> None"
    if "est_lookup (w_established w) (a, i) = Some c" for a i c
    using entry_of_established [OF w that] by (auto simp: established_entry_ok_def exists_backend_def)
  ultimately show ?thesis using p w
    by (auto simp: server_inv_def tables_ok_def pending_inv_def est_inv_def managers_inv_def
        simp del: not_None_eq)
qed

definition sample_answer :: answer where
  "sample_answer = \<lparr>an_now = 0,
     an_send = \<lparr>env_ctxBefore = None, env_lock = None, env_ctxAfter = None, env_conn = None\<rparr>,
     an_front = None, an_select = SendFinished, an_timerFires = False, an_sendHeader = None,
     an_stop = StopEOF\<rparr>"

definition sample_world :: world where
  "sample_world = \<lparr>w_strategies = [ProxyStrategyDefault], w_managers = [DefaultBM NewDefaultBackendManager],
     w_established = no_established, w_pending = NewPendingDialManager, w_heap = quiet_heap,
     w_nextBackend = 0, w_dialTimeout = 0, w_auth = sample_auth, w_rng = (\<lambda>_. 0),
     w_oracle = (\<lambda>_. sample_answer), w_tick = 0, w_log = []\<rparr>"

lemma sample_world_new:
  "NewProxyServer [ProxyStrategyDefault] sample_auth (\<lambda>_. 0) (\<lambda>_. sample_answer) quiet_heap = Ret sample_world"
  by (simp add: NewProxyServer_def sample_world_def)

lemma sample_world_init: "server_init (Running sample_world [])"
  unfolding server_init_def
  by (rule exI [of _ "[ProxyStrategyDefault]"], rule exI [of _ sample_auth], rule exI [of _ "\<lambda>_. 0"],
      rule exI [of _ "\<lambda>_. sample_answer"], rule exI [of _ quiet_heap], rule exI [of _ sample_world],
      rule exI [of _ 0])
    (simp add: sample_world_new quiet_heap_def SetBackendDialTimeout_def, simp add: sample_world_def)

lemma sample_world_reach: "reach server_init step (Running sample_world [])"
  by (rule reach_init) (rule sample_world_init)

lemma proxy_peer: "list_all fits pkts \<Longrightarrow> peer_goroutine fits (proxy md f pkts)"
  unfolding peer_goroutine_def by blast

definition sample_frontend :: frontend where
  "sample_frontend = \<lparr>fr_id = 0, fr_streamUID = ''s''\<rparr>"

theorem server_safe_witness:
  "\<exists>w ts. Running sample_world [proxy True sample_frontend [newDialRequestPacket ''tcp'' ''h:1'' 7]] = Running w ts \<and>
     managers_wf (w_heap w) (w_managers w)"
proof -
  let ?t = "proxy True sample_frontend [newDialRequestPacket ''tcp'' ''h:1'' 7]"
  have "reach server_init (process_step (peer_goroutine payload_fits)) (Running sample_world [?t])"
    by (rule reach_step [OF sample_world_reach]) (rule process_step.arrives, simp add: proxy_peer)
  from server_safe [OF this] show ?thesis by blast
qed

text \<open>
  C37. A peer can crash the server process: among the goroutines of peers that send arbitrary
  packets, one that sends a dial request without its payload makes the handler read a field of
  a nil message.
\<close>

theorem malformed_packet_crashes:
  "reach server_init (process_step (peer_goroutine (\<lambda>p. True))) Crashed"
proof -
  let ?bad = "\<lparr>ptype = DIAL_REQ, payload = None\<rparr>" and ?step = "process_step (peer_goroutine (\<lambda>p. True))"
  have t: "proxy True sample_frontend [?bad] = Crash nil_deref"
    by (simp add: proxy_def frontend_DIAL_REQ_def GetDialRequest_def Let_def)
  have "reach server_init ?step (Running sample_world [Crash nil_deref])"
    by (rule reach_step [OF sample_world_reach])
      (rule process_step.arrives, unfold t [symmetric], simp add: proxy_peer)
  from reach_step [OF this process_step.crashes [of _ _ "[]" _ "[]", simplified]] show ?thesis .
qed

text \<open>
  C2. A successful dial response for a pending dial takes it out of the pending table and
  passes the response to the frontend. When the frontend accepts it, the connection is
  established under the answering agent and the reported connection ID; when it does not,
  nothing is left established under them and the agent is told to close the connection.
\<close>

theorem DIAL_RSP_establishes:
  assumes "server_inv w" and "gm_get (pd_map (w_pending w)) random = Some c"
    and "pc_frontend c = Some f" and "\<forall>n. accepts (w_oracle w n)"
  shows "\<exists>w' ts t. run (backend_DIAL_RSP b agentID (newDialResponsePacket random i []) Stop) w = (Ret (), w', ts) \<and>
     gm_get (pd_map (w_pending w')) random = None \<and>
     (let err = an_front (w_oracle w (Suc (w_tick w))) in
      ToFrontend (fr_id f) (newDialResponsePacket random i []) err \<in> set (w_log w') \<and>
      (if err = None
       then est_lookup (w_established w') = (est_lookup (w_established w))
              ((agentID, i) \<mapsto> c\<lparr>pc_connectID := i, pc_agentID := agentID, pc_establishedAt := Some t\<rparr>)
       else est_lookup (w_established w') = (est_lookup (w_established w))((agentID, i) := None) \<and>
            ToAgent b (newCloseRequestPacket i) None \<in> set (w_log w')))"
proof -
  obtain x where bk: "pc_backend c = Some x"
    using entry_of_pending [OF assms(1,2)] by (auto simp: pending_entry_ok_def exists_backend_def)
  have acc: "an_send (w_oracle w n) = \<lparr>env_ctxBefore = None, env_lock = None, env_ctxAfter = None, env_conn = None\<rparr>" for n
    using assms(4) by (simp add: accepts_def)
  show ?thesis
    using assms(2,3) bk acc
    by (simp add: backend_DIAL_RSP_def client_send_def sendBackendClose_def world_actions Let_def
        PendingDial_Remove_def set_pending_def case_prod_unfold Backend_Send_def SendContext_def
        lockSend_def removeEstablished_spec addEstablished_lookup fun_eq_iff del: split_paired_All) blast
qed

text \<open>A server with one pending dial over its one backend.\<close>

definition dialling_world :: world where
  "dialling_world = sample_world\<lparr>w_nextBackend := 1, w_heap := fst (PendingDial_Add 7
       (sample_conn\<lparr>pc_backend := Some 0\<rparr>) (quiet_heap, NewPendingDialManager)),
     w_pending := snd (PendingDial_Add 7 (sample_conn\<lparr>pc_backend := Some 0\<rparr>)
       (quiet_heap, NewPendingDialManager))\<rparr>"

lemma dialling_world_pending:
  "pd_map (w_pending dialling_world) = [(7, sample_conn\<lparr>pc_backend := Some 0\<rparr>)]"
  by (simp add: dialling_world_def PendingDial_Add_def NewPendingDialManager_def set_pending_def gm_put_def)

lemma dialling_world_inv: "server_inv dialling_world"
proof -
  let ?w = "sample_world\<lparr>w_nextBackend := 1\<rparr>"
  have "server_inv sample_world"
    by (rule new_server_inv [OF sample_world_new]) (simp add: quiet_heap_def)
  then have w: "server_inv ?w"
    by (auto simp: server_inv_def tables_ok_def entries_sound_def sample_world_def NewPendingDialManager_def
        no_established_def est_lookup_def pending_entry_ok_def established_entry_ok_def exists_backend_def)
  have "pending_entry_ok ?w 7 (sample_conn\<lparr>pc_backend := Some 0\<rparr>)"
    by (simp add: pending_entry_ok_def exists_backend_def sample_conn_def)
  from inv_pendingAdd [OF w this] show ?thesis
    by (simp add: w_pendingAdd_def dialling_world_def case_prod_unfold Let_def sample_world_def)
qed

lemma dialling_world_accepts: "\<forall>n. accepts (w_oracle dialling_world n)"
  by (simp add: accepts_def dialling_world_def sample_world_def sample_answer_def)

theorem DIAL_RSP_establishes_witness:
  "\<exists>w' ts. run (backend_DIAL_RSP 0 ''agent'' (newDialResponsePacket 7 4 []) Stop) dialling_world = (Ret (), w', ts) \<and>
     gm_get (pd_map (w_pending w')) 7 = None \<and> est_lookup (w_established w') (''agent'', 4) \<noteq> None"
proof -
  have g: "gm_get (pd_map (w_pending dialling_world)) 7 = Some (sample_conn\<lparr>pc_backend := Some 0\<rparr>)"
    by (simp add: dialling_world_pending gm_get_def)
  have f: "pc_frontend (sample_conn\<lparr>pc_backend := Some 0\<rparr>) = Some \<lparr>fr_id = 0, fr_streamUID = ''s''\<rparr>"
    by (simp add: sample_conn_def)
  have "an_front (w_oracle dialling_world (Suc (w_tick dialling_world))) = None"
    by (simp add: dialling_world_def sample_world_def sample_answer_def)
  with DIAL_RSP_establishes [OF dialling_world_inv g f dialling_world_accepts, of 0 "''agent''" 4]
  show ?thesis by (auto simp: Let_def)
qed

text \<open>The second half of the agent cleanup: closing the established connections.\<close>

lemma run_close_established:
  assumes "server_inv w"
  shows "\<exists>es w'. run (atomically (w_establishedForBackend agentID b) (\<lambda>r. case r of Inl err \<Rightarrow> Stop | Inr cs \<Rightarrow>
        if length cs > 0 then
          atomically (observe (ObserveConnectionsClosed ConnectionClosedBackendClose (length cs)))
            (\<lambda>_. close_frontends cs Stop)
        else close_frontends cs Stop)) w = (Ret (), w', []) \<and>
     w_log w' = w_log w @ es \<and> w_pending w' = w_pending w \<and>
     (\<forall>i c. est_lookup (w_established w) (agentID, i) = Some c \<and> pc_backend c = Some b \<longrightarrow>
        est_lookup (w_established w') (agentID, i) = None \<and>
        told_frontend (\<lambda>c. newCloseResponsePacket (pc_connectID c) []) c (set es))"
proof -
  note spec = forBackend_spec [OF est_of_world [OF assms], of agentID b]
  define w1 where "w1 = snd (w_establishedForBackend agentID b w)"
  have w1: "w_log w1 = w_log w" "w_pending w1 = w_pending w"
      "w_established w1 = snd (removeEstablishedForBackendConn agentID (Some b) (w_established w))"
    by (simp_all add: w1_def w_establishedForBackend_def case_prod_unfold Let_def)
  have gone: "est_lookup (w_established w1) (agentID, i) = None"
    if "est_lookup (w_established w) (agentID, i) = Some c" "pc_backend c = Some b" for i c
    using that spec by (simp add: w1(3))
  show ?thesis
  proof (cases "fst (w_establishedForBackend agentID b w)")
    case (Inl e)
    then have none: "\<forall>c. est_lookup (w_established w) (agentID, c) = None"
      using spec by (simp add: w_establishedForBackend_def case_prod_unfold Let_def)
    show ?thesis
      by (rule exI [of _ "[]"], rule exI [of _ w1]) (simp add: Inl w1_def [symmetric] w1(1,2) none)
  next
    case (Inr cs)
    then have cs: "set cs = {p. \<exists>c. est_lookup (w_established w) (agentID, c) = Some p \<and> pc_backend p = Some b}"
      using spec by (simp add: w_establishedForBackend_def case_prod_unfold Let_def)
    have fr: "\<forall>c \<in> set cs. pc_frontend c \<noteq> None"
      using inv_establishedForBackend [OF assms, of agentID b] Inr by blast
    let ?o = "ObserveConnectionsClosed ConnectionClosedBackendClose (length cs)"
    define w2 where "w2 = (if length cs > 0 then snd (observe ?o w1) else w1)"
    obtain es2 where es2: "wrote w1 es2 w2"
      using wrote_observe [of w1 ?o] wrote_Nil [of w1] by (cases "length cs > 0") (auto simp: w2_def)
    obtain es3 w3 where 3: "run (close_frontends cs Stop) w2 = run Stop w3" "wrote w2 es3 w3"
        "\<forall>c \<in> set cs. told_frontend (\<lambda>c. newCloseResponsePacket (pc_connectID c) []) c (set es3)"
      using run_close_frontends [OF fr, of Stop w2] by blast
    have "told_frontend p c (set es3) \<Longrightarrow> told_frontend p c (set (es2 @ es3))" for p c
      by (auto simp: told_frontend_def)
    with 3 es2 cs gone wrote_world [OF wrote_trans [OF es2 3(2)]] w1 show ?thesis
      by (intro exI [of _ "es2 @ es3"] exI [of _ w3])
        (auto simp: Inr w1_def [symmetric] w2_def split: if_splits)
  qed
qed

text \<open>
  C3. When an agent connection ends, every dial still pending over it is failed towards its
  frontend and every connection established over it is closed towards its frontend, and the
  tables hold none of them afterwards; the cleanup does not crash.
\<close>

theorem backend_shutdown_complete:
  assumes "server_inv w"
  shows "\<exists>w' es. run (serveRecvBackend b agentID [] Stop) w = (Ret (), w', []) \<and> w_log w' = w_log w @ es \<and>
     (\<forall>random c. gm_get (pd_map (w_pending w)) random = Some c \<and> pc_backend c = Some b \<longrightarrow>
        gm_get (pd_map (w_pending w')) random = None \<and>
        (\<exists>f e. pc_frontend c = Some f \<and> ToFrontend (fr_id f)
           (newDialResponsePacket random 0 ''backend connection closed while dialing'') e \<in> set es)) \<and>
     (\<forall>i c. est_lookup (w_established w) (agentID, i) = Some c \<and> pc_backend c = Some b \<longrightarrow>
        est_lookup (w_established w') (agentID, i) = None \<and>
        (\<exists>f e. pc_frontend c = Some f \<and> ToFrontend (fr_id f) (newCloseResponsePacket i []) e \<in> set es))"
proof -
  define ps where "ps = fst (w_pendingForBackend b w)"
  define w1 where "w1 = snd (w_pendingForBackend b w)"
  have inv1: "server_inv w1" and fr: "\<forall>c \<in> set ps. pc_frontend c \<noteq> None"
    using inv_pendingForBackend [OF assms, of b] by (auto simp: ps_def w1_def)
  note sw = sweep_spec [OF pending_wf [OF assms], of "\<lambda>c. pc_backend c = Some b"]
  have ps: "set ps = {c. \<exists>k. gm_get (pd_map (w_pending w)) k = Some c \<and> pc_backend c = Some b}"
    and w1: "w_log w1 = w_log w" "w_established w1 = w_established w"
    using sw by (simp_all add: ps_def w1_def w_pendingForBackend_def removeForBackend_def
        case_prod_unfold Let_def set_pending_def)
  have gone: "gm_get (pd_map (w_pending w1)) k = None"
    if "gm_get (pd_map (w_pending w)) k = Some c" "pc_backend c = Some b" for k c
    using sw that by (simp add: w1_def w_pendingForBackend_def removeForBackend_def
        case_prod_unfold Let_def set_pending_def)
  let ?rest = "atomically (w_establishedForBackend agentID b) (\<lambda>r. case r of Inl err \<Rightarrow> Stop | Inr cs \<Rightarrow>
        if length cs > 0 then
          atomically (observe (ObserveConnectionsClosed ConnectionClosedBackendClose (length cs)))
            (\<lambda>_. close_frontends cs Stop)
        else close_frontends cs Stop)"
  obtain es2 w2 where 2: "run (fail_dials ps ?rest) w1 = run ?rest w2" "wrote w1 es2 w2"
      "\<forall>c \<in> set ps. told_frontend dial_lost c (set es2)"
    using run_fail_dials [OF fr, of ?rest w1] by blast
  have inv2: "server_inv w2" using inv1 2(2) by (auto simp: wrote_def)
  obtain es3 w3 where 3: "run ?rest w2 = (Ret (), w3, [])" "w_log w3 = w_log w2 @ es3"
      "w_pending w3 = w_pending w2"
      "\<forall>i c. est_lookup (w_established w2) (agentID, i) = Some c \<and> pc_backend c = Some b \<longrightarrow>
        est_lookup (w_established w3) (agentID, i) = None \<and>
        told_frontend (\<lambda>c. newCloseResponsePacket (pc_connectID c) []) c (set es3)"
    using run_close_established [OF inv2, of agentID b] by blast
  have run: "run (serveRecvBackend b agentID [] Stop) w = (Ret (), w3, [])"
    by (simp only: serveRecvBackend.simps backend_shutdown_def run_atomically [of "w_pendingForBackend b"]
        ps_def [symmetric] w1_def [symmetric] 2(1) 3(1))
  note ww = wrote_world [OF 2(2)]
  have pend: "gm_get (pd_map (w_pending w3)) random = None \<and>
        (\<exists>f e. pc_frontend c = Some f \<and> ToFrontend (fr_id f)
           (newDialResponsePacket random 0 ''backend connection closed while dialing'') e \<in> set (es2 @ es3))"
    if "gm_get (pd_map (w_pending w)) random = Some c" "pc_backend c = Some b" for random c
  proof -
    have "pc_dialID c = random" using entry_of_pending [OF assms that(1)] by (simp add: pending_entry_ok_def)
    moreover have "c \<in> set ps" using ps that by blast
    moreover have "told_frontend dial_lost c (set es2)" using 2(3) calculation(2) by blast
    ultimately show ?thesis using gone [OF that] 3(3) ww unfolding told_frontend_def by auto
  qed
  have est: "est_lookup (w_established w3) (agentID, i) = None \<and>
        (\<exists>f e. pc_frontend c = Some f \<and> ToFrontend (fr_id f) (newCloseResponsePacket i []) e \<in> set (es2 @ es3))"
    if "est_lookup (w_established w) (agentID, i) = Some c" "pc_backend c = Some b" for i c
  proof -
    have "pc_connectID c = i" using entry_of_established [OF assms that(1)] by (simp add: established_entry_ok_def)
    moreover have "est_lookup (w_established w3) (agentID, i) = None"
        "told_frontend (\<lambda>c. newCloseResponsePacket (pc_connectID c) []) c (set es3)"
      using 3(4) that ww w1(2) by auto
    ultimately show ?thesis unfolding told_frontend_def by auto
  qed
  show ?thesis
    using run 3(2) ww w1(1) pend est by (intro exI [of _ w3] exI [of _ "es2 @ es3"]) auto
qed

theorem backend_shutdown_complete_witness:
  "\<exists>w' es. run (serveRecvBackend 0 ''agent'' [] Stop) dialling_world = (Ret (), w', []) \<and>
     w_log w' = w_log dialling_world @ es \<and> gm_get (pd_map (w_pending w')) 7 = None \<and>
     (\<exists>e. ToFrontend 0 (newDialResponsePacket 7 0 ''backend connection closed while dialing'') e \<in> set es)"
proof -
  have g: "gm_get (pd_map (w_pending dialling_world)) 7 = Some (sample_conn\<lparr>pc_backend := Some 0\<rparr>)"
    by (simp add: dialling_world_pending gm_get_def)
  with backend_shutdown_complete [OF dialling_world_inv, of 0 "''agent''"] show ?thesis
    by (fastforce simp: sample_conn_def)
qed

text \<open>
  C4. When a frontend stream ends, every dial it still has pending is cancelled at the backend
  it was sent to and every connection it has established is closed at its backend (each backend
  accepting the packets), and the tables hold nothing of the stream afterwards; the cleanup does
  not crash.
\<close>

theorem frontend_shutdown_complete:
  assumes "server_inv w" and "fr_streamUID f \<noteq> []" and "\<forall>n. accepts (w_oracle w n)"
  shows "\<exists>w' es. run (proxy True f []) w = (Ret (), w', []) \<and> w_log w' = w_log w @ es \<and>
     (\<forall>random c. gm_get (pd_map (w_pending w)) random = Some c \<and> on_stream (fr_streamUID f) c \<longrightarrow>
        gm_get (pd_map (w_pending w')) random = None \<and>
        (\<exists>b. pc_backend c = Some b \<and> ToAgent b (newDialClosePacket random) None \<in> set es)) \<and>
     (\<forall>a i c. est_lookup (w_established w) (a, i) = Some c \<and> on_stream (fr_streamUID f) c \<longrightarrow>
        est_lookup (w_established w') (a, i) = None \<and>
        (\<exists>b. pc_backend c = Some b \<and> ToAgent b (newCloseRequestPacket i) None \<in> set es))"
proof -
  let ?uid = "fr_streamUID f"
  define ps where "ps = fst (w_pendingForStream ?uid w)"
  define w1 where "w1 = snd (w_pendingForStream ?uid w)"
  have inv1: "server_inv w1" and bk: "\<forall>c \<in> set ps. pc_backend c \<noteq> None"
    using inv_pendingForStream [OF assms(1), of ?uid] by (auto simp: ps_def w1_def)
  note sw = sweep_spec [OF pending_wf [OF assms(1)], of "on_stream ?uid"]
  have ps: "set ps = {c. \<exists>k. gm_get (pd_map (w_pending w)) k = Some c \<and> on_stream ?uid c}"
    and w1: "w_log w1 = w_log w" "w_established w1 = w_established w" "w_oracle w1 = w_oracle w"
    using sw assms(2) by (simp_all add: ps_def w1_def w_pendingForStream_def removeForStream_def
        case_prod_unfold Let_def set_pending_def)
  have gone: "gm_get (pd_map (w_pending w1)) k = None"
    if "gm_get (pd_map (w_pending w)) k = Some c" "on_stream ?uid c" for k c
    using sw that assms(2) by (simp add: w1_def w_pendingForStream_def removeForStream_def
        case_prod_unfold Let_def set_pending_def)
  let ?rest = "atomically (w_establishedForStream ?uid) (\<lambda>cs. close_conns cs Stop)"
  obtain es2 w2 where 2: "run (close_dials ps ?rest) w1 = run ?rest w2" "wrote w1 es2 w2"
      "\<forall>c \<in> set ps. told_agent (\<lambda>c. newDialClosePacket (pc_dialID c)) c (set es2)"
    using run_close_dials [OF bk, of w1 ?rest] assms(3) w1(3) by auto
  note w2 = wrote_world [OF 2(2)]
  have inv2: "server_inv w2" using inv1 2(2) by (auto simp: wrote_def)
  define cs where "cs = fst (w_establishedForStream ?uid w2)"
  define w3 where "w3 = snd (w_establishedForStream ?uid w2)"
  have bk3: "\<forall>c \<in> set cs. pc_backend c \<noteq> None"
    using inv_establishedForStream [OF inv2, of ?uid] by (simp add: cs_def)
  note spec = forStream_spec [OF est_of_world [OF inv2] assms(2)]
  have w3: "w_log w3 = w_log w2" "w_pending w3 = w_pending w2" "w_oracle w3 = w_oracle w2"
      "w_established w3 = snd (removeEstablishedForStream ?uid (w_established w2))"
      "cs = fst (removeEstablishedForStream ?uid (w_established w2))"
    by (simp_all add: cs_def w3_def w_establishedForStream_def case_prod_unfold Let_def)
  obtain es4 w4 where 4: "run (close_conns cs Stop) w3 = run Stop w4" "wrote w3 es4 w4"
      "\<forall>c \<in> set cs. told_agent (\<lambda>c. newCloseRequestPacket (pc_connectID c)) c (set es4)"
    using run_close_conns [OF bk3, of w3 Stop] assms(3) w1(3) w2 w3(3) by auto
  note w4 = wrote_world [OF 4(2)]
  have run: "run (proxy True f []) w = (Ret (), w4, [])"
    by (simp only: proxy_def serveRecvFrontend.simps frontend_shutdown_def if_False not_True_eq_False
        run_atomically [of "w_pendingForStream ?uid"] ps_def [symmetric] w1_def [symmetric] 2(1))
      (simp add: cs_def [symmetric] w3_def [symmetric] 4(1))
  have pend: "gm_get (pd_map (w_pending w4)) random = None \<and>
        (\<exists>b. pc_backend c = Some b \<and> ToAgent b (newDialClosePacket random) None \<in> set (es2 @ es4))"
    if "gm_get (pd_map (w_pending w)) random = Some c" "on_stream ?uid c" for random c
  proof -
    have "pc_dialID c = random" using entry_of_pending [OF assms(1) that(1)] by (simp add: pending_entry_ok_def)
    moreover have "told_agent (\<lambda>c. newDialClosePacket (pc_dialID c)) c (set es2)"
      using 2(3) ps that by blast
    ultimately show ?thesis using gone [OF that] w2 w3 w4 unfolding told_agent_def by auto
  qed
  have est: "est_lookup (w_established w4) (a, i) = None \<and>
        (\<exists>b. pc_backend c = Some b \<and> ToAgent b (newCloseRequestPacket i) None \<in> set (es2 @ es4))"
    if "est_lookup (w_established w) (a, i) = Some c" "on_stream ?uid c" for a i c
  proof -
    have e2: "est_lookup (w_established w2) (a, i) = Some c" using that(1) w1(2) w2 by simp
    have "pc_connectID c = i" using entry_of_established [OF assms(1) that(1)] by (simp add: established_entry_ok_def)
    moreover have "c \<in> set cs" using spec e2 that(2) w3(5) by blast
    then have "told_agent (\<lambda>c. newCloseRequestPacket (pc_connectID c)) c (set es4)" using 4(3) by blast
    ultimately show ?thesis using spec e2 that(2) w3(4) w4 unfolding told_agent_def by auto
  qed
  show ?thesis
    using run w1(1) w2 w3(1) w4 pend est by (intro exI [of _ w4] exI [of _ "es2 @ es4"]) auto
qed

theorem frontend_shutdown_complete_witness:
  "\<exists>w' es. run (proxy True sample_frontend []) dialling_world = (Ret (), w', []) \<and>
     w_log w' = w_log dialling_world @ es \<and> gm_get (pd_map (w_pending w')) 7 = None \<and>
     ToAgent 0 (newDialClosePacket 7) None \<in> set es"
proof -
  have g: "gm_get (pd_map (w_pending dialling_world)) 7 = Some (sample_conn\<lparr>pc_backend := Some 0\<rparr>)"
    by (simp add: dialling_world_pending gm_get_def)
  have "on_stream ''s'' (sample_conn\<lparr>pc_backend := Some 0\<rparr>)" by (simp add: on_stream_def sample_conn_def)
  with g frontend_shutdown_complete [OF dialling_world_inv _ dialling_world_accepts, of sample_frontend]
  show ?thesis by (fastforce simp: sample_frontend_def)
qed

text \<open>
  A frontend that sends data for a second connection ID on one stream has both connections
  closed at the backend and both closed towards itself, in that order, and its stream is no
  longer served; no data of the offending packet reaches the agent.
\<close>

theorem mismatched_ids_close_both:
  assumes "firstConnID \<noteq> 0" and "connID \<noteq> 0" and "firstConnID \<noteq> connID" and "\<forall>n. accepts (w_oracle w n)"
  shows "\<exists>w'. run (serveRecvFrontend f (newDataPacket connID bytes # pkts) (Some b) firstConnID ret) w = run ret w' \<and>
     filter (\<lambda>e. case e of ToAgent _ _ _ \<Rightarrow> True | ToFrontend _ _ _ \<Rightarrow> True | _ \<Rightarrow> False) (drop (length (w_log w)) (w_log w')) =
       [ToAgent b (newCloseRequestPacket connID) None,
        ToAgent b (newCloseRequestPacket firstConnID) None,
        ToFrontend (fr_id f) (newCloseResponsePacket connID ''mismatched connection IDs'')
          (an_front (w_oracle w (w_tick w + 2))),
        ToFrontend (fr_id f) (newCloseResponsePacket firstConnID ''mismatched connection IDs'')
          (an_front (w_oracle w (w_tick w + 3)))]"
proof -
  let ?m = "''mismatched connection IDs''"
  let ?w2 = "snd (w_Send b (newCloseRequestPacket firstConnID) (snd (w_Send b (newCloseRequestPacket connID) w)))"
  let ?w4 = "snd (Frontend_Send f (newCloseResponsePacket firstConnID ?m)
      (snd (Frontend_Send f (newCloseResponsePacket connID ?m) ?w2)))"
  have "run (serveRecvFrontend f (newDataPacket connID bytes # pkts) (Some b) firstConnID ret) w = run ret ?w4"
    using assms(1-3) by (simp add: frontend_DATA_def sendBackendClose_def sendFrontendClose_def Let_def)
  moreover have "\<exists>l. w_log ?w4 = w_log w @ l \<and>
      filter (\<lambda>e. case e of ToAgent _ _ _ \<Rightarrow> True | ToFrontend _ _ _ \<Rightarrow> True | _ \<Rightarrow> False) l =
       [ToAgent b (newCloseRequestPacket connID) None, ToAgent b (newCloseRequestPacket firstConnID) None,
        ToFrontend (fr_id f) (newCloseResponsePacket connID ?m) (an_front (w_oracle w (w_tick w + 2))),
        ToFrontend (fr_id f) (newCloseResponsePacket firstConnID ?m) (an_front (w_oracle w (w_tick w + 3)))]"
    using assms(4) by (simp add: w_Send_accepts Frontend_Send_log numeral_eq_Suc)
  then have "filter (\<lambda>e. case e of ToAgent _ _ _ \<Rightarrow> True | ToFrontend _ _ _ \<Rightarrow> True | _ \<Rightarrow> False)
      (drop (length (w_log w)) (w_log ?w4)) =
       [ToAgent b (newCloseRequestPacket connID) None, ToAgent b (newCloseRequestPacket firstConnID) None,
        ToFrontend (fr_id f) (newCloseResponsePacket connID ?m) (an_front (w_oracle w (w_tick w + 2))),
        ToFrontend (fr_id f) (newCloseResponsePacket firstConnID ?m) (an_front (w_oracle w (w_tick w + 3)))]"
    by (metis append_eq_conv_conj)
  ultimately show ?thesis by blast
qed

theorem mismatched_ids_close_both_witness:
  "\<exists>w'. run (serveRecvFrontend sample_frontend [newDataPacket 2 ''x''] (Some 0) 1 Stop) dialling_world = run Stop w'"
  using mismatched_ids_close_both [of 1 2 dialling_world sample_frontend "''x''" "[]" 0 Stop] dialling_world_accepts
  by auto

text \<open>
  C35. With token authentication enabled an agent that does not authenticate gets nowhere: its
  stream ends, no manager, table or backend changes, and no goroutine is started for it.
\<close>

theorem unauthenticated_agent_rejected:
  assumes "ao_enabled (w_auth w)" and "authenticateAgentViaToken review (w_auth w) md \<noteq> None"
  shows "run (connect review md size_limit pkts) w = (Ret (), w, [])"
proof -
  obtain r where r: "NewBackend md = Ret r" using NewBackend_Ret [of md] by blast
  show ?thesis using assms by (cases r) (simp_all add: connect_def r)
qed

theorem unauthenticated_agent_rejected_witness:
  "run (connect sample_review (Some (\<lambda>k. [''a''])) 10 []) sample_world = (Ret (), sample_world, [])"
  using unauthenticated_agent_rejected [of sample_world sample_review "Some (\<lambda>k. [''a''])" 10 "[]"]
  by (simp add: sample_world_def sample_auth_def authenticateAgentViaToken_def has_prefix_def
      AuthenticationTokenContextSchemePrefix_def)

end
