(* ===== verification/KNP_ServerConn.thy ===== *)
theory KNP_ServerConn
  imports KNP_Server
begin

section \<open>serverConn: a dialled connection as a net.Conn\<close>

text \<open>
  \<^verbatim>\<open>serverConn\<close> of \<^verbatim>\<open>pkg/server/conn.go\<close> and the dialling functions \<^verbatim>\<open>DialContext\<close> and
  \<^verbatim>\<open>dialBackend\<close> of \<^verbatim>\<open>server.go\<close>. Everything guarded by the connection's mutex is one record. A
  method that may wait on the condition variable returns \<open>Waits\<close> when it would; it is run again
  after another method has changed the state. What one \<^verbatim>\<open>writePacket\<close> meets after it has
  started its send is a \<open>write_select\<close>.
\<close>

subsection \<open>State\<close>

definition bufferSize :: nat where "bufferSize = 32768"
definition maxConnDataPacketSize :: nat where "maxConnDataPacketSize = bufferSize"

record server_conn =
  sc_backend :: bid
  sc_dialID :: int
  sc_agentID :: string
  sc_dialAddress :: string
  sc_cancelled :: bool
  sc_connID :: int
  sc_buffer :: "string list"
  sc_maxBuffered :: nat
  sc_rdata :: string
  sc_closed :: bool
  sc_localClosed :: bool
  sc_closeErr :: "go_error option"
  sc_readDeadline :: "time option"
  sc_writeDeadline :: "time option"
  sc_writeErr :: "go_error option"
  sc_readTimer :: bool
  sc_connected :: bool
  sc_dialErr :: "go_error option"
  sc_closeOnce :: bool

definition newServerConn :: "nat \<Rightarrow> bid \<Rightarrow> string \<Rightarrow> int \<Rightarrow> string \<Rightarrow> server_conn" where
  "newServerConn frontendWriteChannelSize b agentID dialID dialAddress =
     \<lparr>sc_backend = b, sc_dialID = dialID, sc_agentID = agentID, sc_dialAddress = dialAddress,
      sc_cancelled = False, sc_connID = 0, sc_buffer = [],
      sc_maxBuffered = max frontendWriteChannelSize 1, sc_rdata = [], sc_closed = False,
      sc_localClosed = False, sc_closeErr = None, sc_readDeadline = None, sc_writeDeadline = None,
      sc_writeErr = None, sc_readTimer = False, sc_connected = False, sc_dialErr = None,
      sc_closeOnce = False\<rparr>"

datatype ('a, 's) waiting = Waits 's | Returns 'a 's

subsection \<open>Packets from the agent\<close>

definition handleDialSuccess :: "int \<Rightarrow> server_conn \<Rightarrow> go_error option \<times> server_conn" where
  "handleDialSuccess connID sc =
     (if sc_closed sc then (Some ErrNetClosed, sc)
      else (None, sc\<lparr>sc_connID := connID, sc_connected := True\<rparr>))"

definition handleData :: "string \<Rightarrow> server_conn \<Rightarrow> (go_error option, server_conn) waiting" where
  "handleData bytes sc =
     (if \<not> sc_closed sc \<and> length (sc_buffer sc) \<ge> sc_maxBuffered sc then Waits sc
      else if sc_closed sc then Returns (Some ErrNetClosed) sc
      else Returns None (sc\<lparr>sc_buffer := sc_buffer sc @ [bytes]\<rparr>))"

definition handleClose :: "string \<Rightarrow> server_conn \<Rightarrow> server_conn" where
  "handleClose errMsg sc =
     (if sc_closed sc then sc
      else sc\<lparr>sc_closed := True,
              sc_closeErr := Some (if errMsg \<noteq> [] then ErrText errMsg else ErrEOF)\<rparr>)"

text \<open>\<^verbatim>\<open>dialErrCh\<close> holds one error; a second one is dropped.\<close>

definition handleDialError :: "go_error \<Rightarrow> server_conn \<Rightarrow> server_conn" where
  "handleDialError err sc =
     (if sc_dialErr sc = None then sc\<lparr>sc_dialErr := Some err\<rparr> else sc)"

definition dialResponseError :: "string \<Rightarrow> go_error" where
  "dialResponseError msg =
     (if msg = error_string ErrBackendClosedWhileDialing then ErrBackendClosedWhileDialing
      else if msg = error_string ErrBackendDialTimeout then ErrBackendDialTimeout
      else ErrText msg)"

definition sc_Send :: "packet \<Rightarrow> server_conn \<Rightarrow> (go_error option, server_conn) waiting outcome" where
  "sc_Send pkt sc =
     (case ptype pkt of
        CLOSE_RSP \<Rightarrow> bind_outcome (deref (GetCloseResponse pkt)) (\<lambda>r.
          Ret (Returns None (handleClose (cr_error r) sc)))
      | DIAL_CLS \<Rightarrow> Ret (Returns None (handleDialError ErrDialClosed sc))
      | DATA \<Rightarrow> bind_outcome (deref (GetData pkt)) (\<lambda>r. Ret (handleData (dm_data r) sc))
      | DIAL_RSP \<Rightarrow> bind_outcome (deref (GetDialResponse pkt)) (\<lambda>resp.
          if dr_error resp \<noteq> []
          then Ret (Returns None (handleDialError (dialResponseError (dr_error resp)) sc))
          else (let (err, sc') = handleDialSuccess (dr_connectID resp) sc in Ret (Returns err sc')))
      | _ \<Rightarrow> Ret (Returns (Some (ErrText ''attempt to send via unrecognized packet type'')) sc))"

subsection \<open>Reading\<close>

definition expired :: "time \<Rightarrow> time option \<Rightarrow> bool" where
  "expired now deadline \<longleftrightarrow> (case deadline of None \<Rightarrow> False | Some t \<Rightarrow> t \<le> now)"

text \<open>
  \<^verbatim>\<open>Read\<close> into a buffer of \<open>size\<close> bytes: the bytes read, or an error. The loop goes round
  once for every payload it takes out of the buffer.
\<close>

function sc_Read :: "time \<Rightarrow> nat \<Rightarrow> server_conn \<Rightarrow> (go_error + string, server_conn) waiting" where
  "sc_Read now room sc =
     (if sc_localClosed sc then Returns (Inl ErrNetClosed) sc
      else if expired now (sc_readDeadline sc) then Returns (Inl ErrOsDeadlineExceeded) sc
      else if sc_rdata sc \<noteq> [] then
        Returns (Inr (take room (sc_rdata sc))) (sc\<lparr>sc_rdata := drop room (sc_rdata sc)\<rparr>)
      else
        (case sc_buffer sc of
           p # ps \<Rightarrow> sc_Read now room (sc\<lparr>sc_rdata := p, sc_buffer := ps\<rparr>)
         | [] \<Rightarrow>
             if sc_closed sc then
               Returns (Inl (case sc_closeErr sc of Some e \<Rightarrow> e | None \<Rightarrow> ErrEOF)) sc
             else Waits sc))"
  by pat_completeness auto
termination
  by (relation "measure (\<lambda>(now, room, sc). length (sc_buffer sc))") auto

declare sc_Read.simps [simp del]

subsection \<open>Writing\<close>

datatype write_select = WriteSent send_env bool | WriteClosed | WriteExpired

record write_env =
  we_now :: time
  we_select :: write_select

definition writePacket ::
  "write_env \<Rightarrow> string \<Rightarrow> server_conn \<Rightarrow> go_error option \<times> effect list \<times> server_conn" where
  "writePacket env bytes sc =
     (if sc_closed sc then (Some ErrNetClosed, [], sc)
      else if sc_writeErr sc \<noteq> None then (sc_writeErr sc, [], sc)
      else if expired (we_now env) (sc_writeDeadline sc) then (Some ErrOsDeadlineExceeded, [], sc)
      else
        (let pkt = newDataPacket (sc_connID sc) bytes in
         case we_select env of
           WriteSent senv ctxDone \<Rightarrow>
             (let (err, es) = SendContext senv (sc_backend sc) pkt
              in (if err \<noteq> None \<and> ctxDone then Some ErrNetClosed else err, es, sc))
         | WriteClosed \<Rightarrow> (Some ErrNetClosed, [AbandonedToAgent (sc_backend sc) pkt], sc)
         | WriteExpired \<Rightarrow>
             (Some ErrOsDeadlineExceeded, [AbandonedToAgent (sc_backend sc) pkt],
              if sc_writeErr sc = None then sc\<lparr>sc_writeErr := Some ErrOsDeadlineExceeded\<rparr> else sc)))"

text \<open>
  The loop of \<^verbatim>\<open>Write\<close>: \<open>n\<close> bytes of \<open>bytes\<close> are written; the environment of packet number
  \<open>i\<close> is \<open>envs i\<close>.
\<close>

function sc_Write_loop ::
  "(nat \<Rightarrow> write_env) \<Rightarrow> string \<Rightarrow> nat \<Rightarrow> nat \<Rightarrow> server_conn \<Rightarrow> (nat \<times> go_error option) \<times> effect list \<times> server_conn" where
  "sc_Write_loop envs bytes n i sc =
     (if n < length bytes then
        (let chunk = take (min (length bytes) (n + maxConnDataPacketSize) - n) (drop n bytes);
             (err, es, sc') = writePacket (envs i) chunk sc in
         if err \<noteq> None then ((n, err), es, sc')
         else
           (let (r, es', sc'') = sc_Write_loop envs bytes (n + length chunk) (Suc i) sc'
            in (r, es @ es', sc'')))
      else ((n, None), [], sc))"
  by pat_completeness auto
termination
  by (relation "measure (\<lambda>(envs, bytes, n, i, sc). length bytes - n)")
    (auto simp: maxConnDataPacketSize_def bufferSize_def)

declare sc_Write_loop.simps [simp del]

definition sc_Write :: "(nat \<Rightarrow> write_env) \<Rightarrow> string \<Rightarrow> server_conn \<Rightarrow> (nat \<times> go_error option) \<times> effect list \<times> server_conn" where
  "sc_Write envs bytes sc = sc_Write_loop envs bytes 0 0 sc"

subsection \<open>Deadlines\<close>

definition SetReadDeadline :: "time \<Rightarrow> time option \<Rightarrow> server_conn \<Rightarrow> server_conn" where
  "SetReadDeadline now t sc =
     sc\<lparr>sc_readDeadline := t,
        sc_readTimer := (case t of None \<Rightarrow> False | Some d \<Rightarrow> time_sub d now > 0)\<rparr>"

definition SetWriteDeadline :: "time option \<Rightarrow> server_conn \<Rightarrow> server_conn" where
  "SetWriteDeadline t sc = sc\<lparr>sc_writeDeadline := t\<rparr>"

definition SetDeadline :: "time \<Rightarrow> time option \<Rightarrow> server_conn \<Rightarrow> server_conn" where
  "SetDeadline now t sc = SetWriteDeadline t (SetReadDeadline now t sc)"

subsection \<open>Closing\<close>

text \<open>\<^verbatim>\<open>backend.queueSend\<close> on the shared state.\<close>

definition w_queueSend :: "bid \<Rightarrow> packet \<Rightarrow> world \<Rightarrow> world" where
  "w_queueSend b p w =
     log_effects [QueuedToAgent b p]
       (w\<lparr>w_heap := (w_heap w)(b := (w_heap w b)\<lparr>be_queue := queueSend p (be_queue (w_heap w b))\<rparr>)\<rparr>)"

definition sc_close_state :: "server_conn \<Rightarrow> server_conn" where
  "sc_close_state sc =
     sc\<lparr>sc_closed := True, sc_localClosed := True,
        sc_closeErr := (if sc_closeErr sc = None then Some ErrNetClosed else sc_closeErr sc),
        sc_readTimer := False, sc_cancelled := True, sc_closeOnce := True\<rparr>"

definition sc_Close :: "server_conn \<Rightarrow> world \<Rightarrow> server_conn \<times> world" where
  "sc_Close sc w =
     (if sc_closeOnce sc then (sc, w)
      else
        (let sc' = sc_close_state sc in
         if sc_connID sc = 0 then (sc', snd (w_pendingRemove (sc_dialID sc) w))
         else
           (let (removed, w1) = w_removeEstablished (sc_agentID sc) (sc_connID sc) w in
            if removed = None then (sc', w1)
            else
              (let (u, w2) = observe (ObserveConnectionsClosed ConnectionClosedFrontendClose 1) w1
               in (sc', w_queueSend (sc_backend sc) (newCloseRequestPacket (sc_connID sc)) w2)))))"

subsection \<open>Dialling\<close>

definition failDial :: "int \<Rightarrow> bid \<Rightarrow> dial_failure \<Rightarrow> bool \<Rightarrow> world \<Rightarrow> world" where
  "failDial random b reason tellAgent w =
     (let (pd, w1) = w_pendingRemove random w in
      if pd = None then w1
      else
        (let (u, w2) = observe (ObserveDialFailure reason) w1 in
         if tellAgent then w_queueSend b (newDialClosePacket random) w2 else w2))"

text \<open>
  \<^verbatim>\<open>dialBackend\<close> up to its \<^verbatim>\<open>select\<close>. \<open>ctxErr\<close> is \<^verbatim>\<open>ctx.Err()\<close> when it starts, \<open>ctxErr'\<close> when
  the send has ended, \<open>cancellable\<close> whether \<^verbatim>\<open>ctx.Done()\<close> is non-nil; \<open>f\<close> is the frontend
  whose stream is the new connection. \<open>None\<close> means that the dial now waits.
\<close>

definition dialBackend_send ::
  "nat \<Rightarrow> go_error option \<Rightarrow> go_error option \<Rightarrow> bool \<Rightarrow> bid \<Rightarrow> int \<Rightarrow> frontend \<Rightarrow> string \<Rightarrow> string \<Rightarrow> world
     \<Rightarrow> go_error option \<times> server_conn option \<times> world" where
  "dialBackend_send size_limit ctxErr ctxErr' cancellable b random f network address w =
     (if ctxErr \<noteq> None then (ctxErr, None, w)
      else
        (let sc = newServerConn size_limit b (GetAgentID (w_heap w b)) random address;
             (now, w1) = time_Now w;
             (u, w2) = w_pendingAdd random
               \<lparr>pc_frontend = Some f, pc_dialID = random, pc_connectID = 0, pc_agentID = [],
                pc_start = now, pc_establishedAt = None, pc_backend = Some b,
                pc_dialAddress = address\<rparr> w1;
             dialProtocol = (if network \<noteq> [] then network else ''tcp'');
             (err, w3) = sendDialRequestToBackend cancellable ctxErr' b
               (newDialRequestPacket dialProtocol address random) w2 in
         case err of
           Some e \<Rightarrow>
             (let reason =
                (if ctxErr' \<noteq> None then DialFailureFrontendClose
                 else if errors_is e ErrBackendDialTimeout then DialFailureBackendDialTimeout
                 else DialFailureBackendClose);
                (sc', w4) = sc_Close sc (failDial random b reason False w3)
              in (Some e, Some sc', w4))
         | None \<Rightarrow> (None, Some sc, w3)))"

datatype dial_event =
    DialConnected | DialErrored go_error | DialBackendDone go_error | DialTimedOut | DialCallerDone go_error

text \<open>What the \<^verbatim>\<open>select\<close> of \<^verbatim>\<open>dialBackend\<close> chooses; \<open>None\<close> is the established connection.\<close>

definition dialBackend_await ::
  "dial_event \<Rightarrow> server_conn \<Rightarrow> world \<Rightarrow> go_error option \<times> server_conn \<times> world" where
  "dialBackend_await ev sc w =
     (let fail = (\<lambda>err w'. let (sc', w'') = sc_Close sc w' in (Some err, sc', w'')) in
      case ev of
        DialConnected \<Rightarrow> (None, sc, w)
      | DialErrored err \<Rightarrow> fail err w
      | DialBackendDone err \<Rightarrow>
          fail (ErrWrap ErrBackendClosedWhileDialing err)
            (failDial (sc_dialID sc) (sc_backend sc) DialFailureBackendClose False w)
      | DialTimedOut \<Rightarrow>
          fail ErrBackendDialTimeout
            (failDial (sc_dialID sc) (sc_backend sc) DialFailureBackendDialTimeout True w)
      | DialCallerDone err \<Rightarrow>
          fail err (failDial (sc_dialID sc) (sc_backend sc) DialFailureFrontendClose True w))"

definition DialContext_backend :: "go_error option \<Rightarrow> string \<Rightarrow> world \<Rightarrow> (go_error + bid) outcome \<times> world" where
  "DialContext_backend ctxErr address w =
     (case ctxErr of
        Some e \<Rightarrow> (Ret (Inl e), w)
      | None \<Rightarrow>
          (let (r, w1) = w_getBackend address w in
           case r of
             Ret (Inl e) \<Rightarrow> (r, snd (observe (ObserveDialFailure DialFailureNoAgent) w1))
           | _ \<Rightarrow> (r, w1)))"

subsection \<open>The byte stream from the agent\<close>

text \<open>
  A connection with what its agent delivered and what its reader has read. Any method may run at
  any moment.
\<close>

record conn_run =
  rn_conn :: server_conn
  rn_got :: "string list"
  rn_read :: string

inductive conn_step :: "conn_run \<Rightarrow> conn_run \<Rightarrow> bool" where
  conn_data: "handleData bytes (rn_conn r) = Returns None sc \<Longrightarrow>
     conn_step r (r\<lparr>rn_conn := sc, rn_got := rn_got r @ [bytes]\<rparr>)"
| conn_read: "sc_Read now room (rn_conn r) = Returns (Inr bytes) sc \<Longrightarrow>
     conn_step r (r\<lparr>rn_conn := sc, rn_read := rn_read r @ bytes\<rparr>)"
| conn_read_error: "sc_Read now room (rn_conn r) = Returns (Inl e) sc \<Longrightarrow> conn_step r (r\<lparr>rn_conn := sc\<rparr>)"
| conn_read_waits: "sc_Read now room (rn_conn r) = Waits sc \<Longrightarrow> conn_step r (r\<lparr>rn_conn := sc\<rparr>)"
| conn_dialled: "conn_step r (r\<lparr>rn_conn := snd (handleDialSuccess i (rn_conn r))\<rparr>)"
| conn_dial_error: "conn_step r (r\<lparr>rn_conn := handleDialError e (rn_conn r)\<rparr>)"
| conn_closed_by_agent: "conn_step r (r\<lparr>rn_conn := handleClose m (rn_conn r)\<rparr>)"
| conn_closed: "conn_step r (r\<lparr>rn_conn := fst (sc_Close (rn_conn r) w)\<rparr>)"
| conn_written: "conn_step r (r\<lparr>rn_conn := snd (snd (sc_Write envs bytes (rn_conn r)))\<rparr>)"
| conn_read_deadline: "conn_step r (r\<lparr>rn_conn := SetReadDeadline now t (rn_conn r)\<rparr>)"
| conn_write_deadline: "conn_step r (r\<lparr>rn_conn := SetWriteDeadline t (rn_conn r)\<rparr>)"

definition conn_init :: "conn_run \<Rightarrow> bool" where
  "conn_init r \<longleftrightarrow>
     (\<exists>n b a d addr. r = \<lparr>rn_conn = newServerConn n b a d addr, rn_got = [], rn_read = []\<rparr>)"

definition same_stream :: "server_conn \<Rightarrow> server_conn \<Rightarrow> bool" where
  "same_stream sc sc' \<longleftrightarrow>
     sc_buffer sc' = sc_buffer sc \<and> sc_rdata sc' = sc_rdata sc \<and> sc_maxBuffered sc' = sc_maxBuffered sc"

definition conn_inv :: "conn_run \<Rightarrow> bool" where
  "conn_inv r \<longleftrightarrow>
     concat (rn_got r) = rn_read r @ sc_rdata (rn_conn r) @ concat (sc_buffer (rn_conn r)) \<and>
     length (sc_buffer (rn_conn r)) \<le> sc_maxBuffered (rn_conn r) \<and> 0 < sc_maxBuffered (rn_conn r)"

lemma read_spec:
  "case sc_Read now room sc of
     Waits sc' \<Rightarrow> sc_rdata sc' @ concat (sc_buffer sc') = sc_rdata sc @ concat (sc_buffer sc) \<and>
       length (sc_buffer sc') \<le> length (sc_buffer sc) \<and> sc_maxBuffered sc' = sc_maxBuffered sc
   | Returns (Inl e) sc' \<Rightarrow> sc_rdata sc' @ concat (sc_buffer sc') = sc_rdata sc @ concat (sc_buffer sc) \<and>
       length (sc_buffer sc') \<le> length (sc_buffer sc) \<and> sc_maxBuffered sc' = sc_maxBuffered sc \<and>
       (sc_localClosed sc \<or> expired now (sc_readDeadline sc) \<or>
        sc_closed sc \<and> sc_rdata sc @ concat (sc_buffer sc) = [])
   | Returns (Inr bytes) sc' \<Rightarrow>
       bytes @ sc_rdata sc' @ concat (sc_buffer sc') = sc_rdata sc @ concat (sc_buffer sc) \<and>
       length (sc_buffer sc') \<le> length (sc_buffer sc) \<and> sc_maxBuffered sc' = sc_maxBuffered sc \<and>
       length bytes \<le> room"
proof (induction now room sc rule: sc_Read.induct)
  case (1 now room sc)
  show ?case
    using 1 by (subst sc_Read.simps) (auto split: list.splits waiting.splits sum.splits if_splits)
qed

lemma read_bytes:
  assumes "sc_Read now room sc = Returns (Inr bytes) sc'"
  shows "bytes @ sc_rdata sc' @ concat (sc_buffer sc') = sc_rdata sc @ concat (sc_buffer sc) \<and>
       length (sc_buffer sc') \<le> length (sc_buffer sc) \<and> sc_maxBuffered sc' = sc_maxBuffered sc \<and>
       length bytes \<le> room"
  using read_spec [where now = now and room = room and sc = sc] assms by simp

lemma read_error:
  assumes "sc_Read now room sc = Returns (Inl e) sc'"
  shows "sc_rdata sc' @ concat (sc_buffer sc') = sc_rdata sc @ concat (sc_buffer sc) \<and>
       length (sc_buffer sc') \<le> length (sc_buffer sc) \<and> sc_maxBuffered sc' = sc_maxBuffered sc \<and>
       (sc_localClosed sc \<or> expired now (sc_readDeadline sc) \<or>
        sc_closed sc \<and> sc_rdata sc @ concat (sc_buffer sc) = [])"
  using read_spec [where now = now and room = room and sc = sc] assms by simp

lemma read_wait:
  assumes "sc_Read now room sc = Waits sc'"
  shows "sc_rdata sc' @ concat (sc_buffer sc') = sc_rdata sc @ concat (sc_buffer sc) \<and>
       length (sc_buffer sc') \<le> length (sc_buffer sc) \<and> sc_maxBuffered sc' = sc_maxBuffered sc"
  using read_spec [where now = now and room = room and sc = sc] assms by simp

lemma writePacket_stream: "same_stream sc (snd (snd (writePacket env bytes sc)))"
  by (auto simp: writePacket_def same_stream_def Let_def split: write_select.split prod.split)

lemma same_stream_trans: "same_stream a b \<Longrightarrow> same_stream b c \<Longrightarrow> same_stream a c"
  by (simp add: same_stream_def)

text \<open>One iteration of the write loop.\<close>

definition write_chunk :: "string \<Rightarrow> nat \<Rightarrow> string" where
  "write_chunk bytes n = take maxConnDataPacketSize (drop n bytes)"

lemma write_loop_step:
  assumes "n < length bytes" and "writePacket (envs i) (write_chunk bytes n) sc = (err, es, sc')"
  shows "sc_Write_loop envs bytes n i sc =
     (if err \<noteq> None then ((n, err), es, sc')
      else let (r, es', sc'') = sc_Write_loop envs bytes (n + length (write_chunk bytes n)) (Suc i) sc'
           in (r, es @ es', sc''))"
proof -
  have "take (min (length bytes) (n + maxConnDataPacketSize) - n) (drop n bytes) = write_chunk bytes n"
    by (simp add: write_chunk_def min_def)
  with assms show ?thesis by (subst sc_Write_loop.simps) (simp add: Let_def)
qed

lemma write_loop_done: "length bytes \<le> n \<Longrightarrow> sc_Write_loop envs bytes n i sc = ((n, None), [], sc)"
  by (subst sc_Write_loop.simps) simp

lemma write_chunk_bounds:
  "n < length bytes \<Longrightarrow> write_chunk bytes n \<noteq> [] \<and> length (write_chunk bytes n) \<le> maxConnDataPacketSize \<and>
     n + length (write_chunk bytes n) \<le> length bytes"
  by (auto simp: write_chunk_def maxConnDataPacketSize_def bufferSize_def)

lemma write_loop_stream: "same_stream sc (snd (snd (sc_Write_loop envs bytes n i sc)))"
proof (induction "length bytes - n" arbitrary: n i sc rule: less_induct)
  case less
  show ?case
  proof (cases "n < length bytes")
    case True
    obtain err es sc' where wp: "writePacket (envs i) (write_chunk bytes n) sc = (err, es, sc')"
      by (metis prod_cases3)
    have "same_stream sc sc'" using writePacket_stream [of sc "envs i" "write_chunk bytes n"] wp by simp
    moreover have "same_stream sc' (snd (snd (sc_Write_loop envs bytes (n + length (write_chunk bytes n)) (Suc i) sc')))"
      using write_chunk_bounds [OF True] True by (intro less) (simp add: diff_less_mono2)
    ultimately show ?thesis
      by (simp add: write_loop_step [of n bytes envs i sc err es sc', OF True wp] case_prod_unfold Let_def same_stream_trans)
  qed (simp add: write_loop_done same_stream_def)
qed

lemma conn_inv_stream:
  "conn_inv r \<Longrightarrow> same_stream (rn_conn r) sc \<Longrightarrow> conn_inv (r\<lparr>rn_conn := sc\<rparr>)"
  by (simp add: conn_inv_def same_stream_def)

lemma stream_ops:
  "same_stream sc (snd (handleDialSuccess i sc))" "same_stream sc (handleDialError e sc)"
  "same_stream sc (handleClose m sc)" "same_stream sc (fst (sc_Close sc w))"
  "same_stream sc (snd (snd (sc_Write envs bytes sc)))"
  "same_stream sc (SetReadDeadline now t sc)" "same_stream sc (SetWriteDeadline t sc)"
  by (auto simp: sc_Write_def write_loop_stream)
    (auto simp: same_stream_def handleDialSuccess_def handleDialError_def handleClose_def sc_Close_def
      sc_close_state_def SetReadDeadline_def SetWriteDeadline_def Let_def split: prod.split)

lemma conn_inv_step:
  assumes inv: "conn_inv r" and step: "conn_step r r'"
  shows "conn_inv r'"
  using step inv
proof (cases rule: conn_step.cases)
  case conn_data
  with inv show ?thesis by (auto simp: conn_inv_def handleData_def split: if_splits)
next
  case conn_read
  with inv read_bytes [OF conn_read(2)] show ?thesis by (simp add: conn_inv_def)
next
  case conn_read_error
  with inv read_error [OF conn_read_error(2)] show ?thesis by (simp add: conn_inv_def)
next
  case conn_read_waits
  with inv read_wait [OF conn_read_waits(2)] show ?thesis by (simp add: conn_inv_def)
qed (simp_all add: conn_inv_stream stream_ops inv)

interpretation conn_stream: invariant_system conn_init conn_step conn_inv
proof
  show "conn_inv r" if "conn_init r" for r
    using that by (auto simp: conn_init_def conn_inv_def newServerConn_def)
qed (rule conn_inv_step)

subsection \<open>Properties\<close>

text \<open>
  C20. The reader of a dialled connection sees exactly the bytes its agent delivered, in order
  and without loss: at every moment what was read is a prefix of what was delivered, at most
  the configured number of payloads is buffered, and a read that fails on a connection its owner
  has not closed, without its deadline having passed, has returned every delivered byte.
\<close>

theorem conn_stream_exact:
  assumes "reach conn_init conn_step r"
  shows "prefix (rn_read r) (concat (rn_got r)) \<and>
     length (sc_buffer (rn_conn r)) \<le> sc_maxBuffered (rn_conn r) \<and>
     (\<forall>now room e sc. sc_Read now room (rn_conn r) = Returns (Inl e) sc \<and>
        \<not> sc_localClosed (rn_conn r) \<and> \<not> expired now (sc_readDeadline (rn_conn r)) \<longrightarrow>
        rn_read r = concat (rn_got r))"
  using conn_stream.reach_inv [OF assms] read_error by (fastforce simp: conn_inv_def)

definition sample_run :: conn_run where
  "sample_run = \<lparr>rn_conn = (newServerConn 10 0 ''a'' 7 ''h:1'')\<lparr>sc_buffer := [''xy'']\<rparr>,
     rn_got = [''xy''], rn_read = []\<rparr>"

lemma sample_run_reach: "reach conn_init conn_step sample_run"
proof -
  let ?r = "\<lparr>rn_conn = newServerConn 10 0 ''a'' 7 ''h:1'', rn_got = [], rn_read = []\<rparr>"
  have "reach conn_init conn_step ?r" by (rule reach_init) (unfold conn_init_def, blast)
  moreover have "conn_step ?r sample_run"
    using conn_data [of "''xy''" ?r "(newServerConn 10 0 ''a'' 7 ''h:1'')\<lparr>sc_buffer := [''xy'']\<rparr>"]
    by (simp add: sample_run_def handleData_def newServerConn_def)
  ultimately show ?thesis by (rule reach_step)
qed

theorem conn_stream_exact_witness:
  "prefix (rn_read sample_run) (concat (rn_got sample_run)) \<and>
   length (sc_buffer (rn_conn sample_run)) \<le> sc_maxBuffered (rn_conn sample_run)"
  using conn_stream_exact [OF sample_run_reach] by blast

definition sent_bytes :: "effect list \<Rightarrow> string list" where
  "sent_bytes es = concat (map (\<lambda>e. case e of
     ToAgent b p None \<Rightarrow> (case GetData p of Some d \<Rightarrow> [dm_data d] | None \<Rightarrow> []) | _ \<Rightarrow> []) es)"

lemma sent_bytes_append: "sent_bytes (xs @ ys) = sent_bytes xs @ sent_bytes ys"
  by (simp add: sent_bytes_def)

lemma writePacket_sent:
  assumes "writePacket env bytes sc = (err, es, sc')"
  shows "sent_bytes es = (if err = None then [bytes] else []) \<and> (err = None \<longrightarrow> sc' = sc)"
  using assms
  by (auto simp: writePacket_def sent_bytes_def SendContext_def lockSend_def Let_def
      split: if_splits write_select.splits option.splits) metis+

lemma write_loop_spec:
  "case sc_Write_loop envs bytes n i sc of ((m, err), es, sc') \<Rightarrow> n \<le> length bytes \<longrightarrow>
     n \<le> m \<and> m \<le> length bytes \<and> concat (sent_bytes es) = take (m - n) (drop n bytes) \<and>
     (\<forall>c \<in> set (sent_bytes es). 0 < length c \<and> length c \<le> maxConnDataPacketSize) \<and>
     (err = None \<longrightarrow> m = length bytes)"
proof (induction "length bytes - n" arbitrary: n i sc rule: less_induct)
  case less
  show ?case
  proof (cases "n < length bytes")
    case True
    let ?c = "write_chunk bytes n"
    obtain err es sc' where wp: "writePacket (envs i) ?c sc = (err, es, sc')" by (metis prod_cases3)
    note step = write_loop_step [of n bytes envs i sc err es sc', OF True wp]
    note bounds = write_chunk_bounds [OF True]
    obtain m err' es' sc'' where rest: "sc_Write_loop envs bytes (n + length ?c) (Suc i) sc' = ((m, err'), es', sc'')"
      by (metis prod.exhaust)
    have IH: "n + length ?c \<le> m \<and> m \<le> length bytes \<and>
        concat (sent_bytes es') = take (m - (n + length ?c)) (drop (n + length ?c) bytes) \<and>
        (\<forall>c \<in> set (sent_bytes es'). 0 < length c \<and> length c \<le> maxConnDataPacketSize) \<and>
        (err' = None \<longrightarrow> m = length bytes)"
      using less.hyps [of "n + length ?c" "Suc i" sc'] rest bounds True by (simp add: diff_less_mono2)
    have "?c @ take (m - (n + length ?c)) (drop (n + length ?c) bytes) = take (m - n) (drop n bytes)"
    proof -
      have "?c = take (length ?c) (drop n bytes)" by (simp add: write_chunk_def min_def)
      moreover have "m - n = length ?c + (m - (n + length ?c))" using IH by linarith
      ultimately show ?thesis by (metis add.commute drop_drop take_add)
    qed
    note pre = this
    note sent = writePacket_sent [OF wp]
    show ?thesis
    proof (cases err)
      case None
      have run: "sc_Write_loop envs bytes n i sc = ((m, err'), es @ es', sc'')"
        using step rest None by simp
      have "sent_bytes (es @ es') = ?c # sent_bytes es'" using sent None by (simp add: sent_bytes_append)
      with IH pre bounds run show ?thesis by simp
    next
      case (Some e)
      then have "sc_Write_loop envs bytes n i sc = ((n, Some e), es, sc')" using step by simp
      with sent Some True show ?thesis by simp
    qed
  qed (simp add: write_loop_done sent_bytes_def)
qed

text \<open>
  A write reports exactly what it did: the DATA packets the agent's stream accepted carry,
  concatenated, the first \<open>n\<close> bytes of the buffer, where \<open>n\<close> is the count returned; each packet
  has at least one and at most 32768 bytes; and without an error all bytes were sent.
\<close>

theorem sc_Write_exact:
  "case sc_Write envs bytes sc of ((n, err), es, sc') \<Rightarrow>
     n \<le> length bytes \<and> concat (sent_bytes es) = take n bytes \<and>
     (\<forall>c \<in> set (sent_bytes es). 0 < length c \<and> length c \<le> 32768) \<and> (err = None \<longrightarrow> n = length bytes)"
  using write_loop_spec [where envs = envs and bytes = bytes and n = 0 and i = 0 and sc = sc]
  by (auto simp: sc_Write_def maxConnDataPacketSize_def bufferSize_def split: prod.splits)

definition sample_write_env :: write_env where
  "sample_write_env = \<lparr>we_now = 0, we_select = WriteSent
     \<lparr>env_ctxBefore = None, env_lock = None, env_ctxAfter = None, env_conn = None\<rparr> False\<rparr>"

theorem sc_Write_exact_witness:
  "case sc_Write (\<lambda>i. sample_write_env) ''ab'' (newServerConn 10 0 ''a'' 7 ''h:1'') of ((n, err), es, sc') \<Rightarrow>
     concat (sent_bytes es) = take n ''ab''"
  using sc_Write_exact [where envs = "\<lambda>i. sample_write_env" and bytes = "''ab''"
      and sc = "newServerConn 10 0 ''a'' 7 ''h:1''"] by auto

lemma failDial_removes: "gm_get (pd_map (w_pending (failDial random b reason tell w))) random = None"
  by (simp add: failDial_def w_pendingRemove_def PendingDial_Remove_def set_pending_def observe_def
      log_effects_def w_queueSend_def Let_def case_prod_unfold)

lemma w_pending_Close:
  "gm_get (pd_map (w_pending w)) k = None \<Longrightarrow> gm_get (pd_map (w_pending (snd (sc_Close sc w)))) k = None"
  by (auto simp: sc_Close_def w_pendingRemove_def PendingDial_Remove_def set_pending_def
      w_removeEstablished_def observe_def log_effects_def w_queueSend_def Let_def case_prod_unfold)

lemma Close_closes: "\<not> sc_closeOnce sc \<Longrightarrow> sc_closed (fst (sc_Close sc w)) \<and> sc_localClosed (fst (sc_Close sc w))"
  by (simp add: sc_Close_def sc_close_state_def Let_def case_prod_unfold)

lemma Close_established:
  "\<not> sc_closeOnce sc \<Longrightarrow> sc_connID sc \<noteq> 0 \<Longrightarrow>
     est_lookup (w_established (snd (sc_Close sc w))) (sc_agentID sc, sc_connID sc) = None"
  by (simp add: sc_Close_def w_removeEstablished_def removeEstablished_spec observe_def
      log_effects_def w_queueSend_def Let_def case_prod_unfold)

lemma await_failed:
  assumes "ev \<noteq> DialConnected"
    and "\<forall>e. ev = DialErrored e \<longrightarrow> gm_get (pd_map (w_pending w)) (sc_dialID sc) = None"
  shows "\<exists>err w0. (Some err, sc_Close sc w0) = dialBackend_await ev sc w \<and>
      gm_get (pd_map (w_pending w0)) (sc_dialID sc) = None"
proof -
  let ?w0 = "case ev of DialErrored e \<Rightarrow> w
     | DialBackendDone e \<Rightarrow> failDial (sc_dialID sc) (sc_backend sc) DialFailureBackendClose False w
     | DialTimedOut \<Rightarrow> failDial (sc_dialID sc) (sc_backend sc) DialFailureBackendDialTimeout True w
     | DialCallerDone e \<Rightarrow> failDial (sc_dialID sc) (sc_backend sc) DialFailureFrontendClose True w"
  have "gm_get (pd_map (w_pending ?w0)) (sc_dialID sc) = None"
    using assms by (cases ev) (simp_all add: failDial_removes)
  moreover have "\<exists>err. (Some err, sc_Close sc ?w0) = dialBackend_await ev sc w"
    using assms(1) by (cases ev) (simp_all add: dialBackend_await_def case_prod_unfold Let_def)
  ultimately show ?thesis by blast
qed

text \<open>
  A dial that does not succeed leaves nothing behind, whichever event ended it: the
  connection is closed, its dial is no longer pending, and if the agent's answer arrived just
  before, the connection it established is out of the table as well. Closing a connection again
  changes nothing.
\<close>

theorem failed_dial_cleans_up:
  assumes "ev \<noteq> DialConnected" and "\<not> sc_closeOnce sc"
    and "\<forall>e. ev = DialErrored e \<longrightarrow> gm_get (pd_map (w_pending w)) (sc_dialID sc) = None"
    and "dialBackend_await ev sc w = (res, sc', w')"
  shows "res \<noteq> None \<and> sc_closed sc' \<and> sc_localClosed sc' \<and>
     gm_get (pd_map (w_pending w')) (sc_dialID sc) = None \<and>
     (sc_connID sc \<noteq> 0 \<longrightarrow> est_lookup (w_established w') (sc_agentID sc, sc_connID sc) = None) \<and>
     sc_Close sc' w' = (sc', w')"
proof -
  have once: "sc_closeOnce (fst (sc_Close sc w0))" for w0
    using assms(2) by (simp add: sc_Close_def sc_close_state_def Let_def case_prod_unfold)
  have "\<exists>err w0. (Some err, sc_Close sc w0) = dialBackend_await ev sc w \<and>
      gm_get (pd_map (w_pending w0)) (sc_dialID sc) = None"
    by (rule await_failed [OF assms(1,3)])
  then obtain err w0 where r: "res = Some err" "sc' = fst (sc_Close sc w0)" "w' = snd (sc_Close sc w0)"
    and g: "gm_get (pd_map (w_pending w0)) (sc_dialID sc) = None"
    using assms(4) by (metis Pair_inject surjective_pairing)
  have "sc_Close sc' w' = (sc', w')" using once [of w0] r(2) by (simp add: sc_Close_def)
  with r g assms(2) Close_closes [OF assms(2), of w0] Close_established [OF assms(2), of w0]
    w_pending_Close [OF g] show ?thesis by simp
qed

definition open_conn :: server_conn where
  "open_conn = newServerConn 10 0 ''a'' 7 ''x:1''"

definition pending_world :: world where
  "pending_world = \<lparr>w_strategies = [], w_managers = [], w_established = no_established,
     w_pending = set_pending [(7, sample_conn)], w_heap = quiet_heap, w_nextBackend = 4,
     w_dialTimeout = 0, w_auth = sample_auth, w_rng = (\<lambda>_. 0), w_oracle = (\<lambda>_. undefined),
     w_tick = 0, w_log = []\<rparr>"

theorem failed_dial_cleans_up_witness:
  "gm_get (pd_map (w_pending (snd (snd (dialBackend_await DialTimedOut open_conn pending_world))))) 7 = None \<and>
   sc_closed (fst (snd (dialBackend_await DialTimedOut open_conn pending_world)))"
  using failed_dial_cleans_up [of DialTimedOut open_conn pending_world
      "fst (dialBackend_await DialTimedOut open_conn pending_world)"
      "fst (snd (dialBackend_await DialTimedOut open_conn pending_world))"
      "snd (snd (dialBackend_await DialTimedOut open_conn pending_world))"]
  by (simp add: open_conn_def newServerConn_def)

end
