(* ===== verification/KNP_Tunnel.thy ===== *)
theory KNP_Tunnel
  imports KNP_ServerConn
begin

section \<open>HTTP-CONNECT frontends and the forward proxy\<close>

text \<open>
  \<^verbatim>\<open>pkg/server/tunnel.go\<close> and \<^verbatim>\<open>pkg/server/http_connect_frontend_writer.go\<close>. A hijacked
  connection is presented to \<^verbatim>\<open>proxy\<close> as a frontend stream. Its state is one record: the channels
  \<^verbatim>\<open>connected\<close> and \<^verbatim>\<open>closed\<close> are flags, \<^verbatim>\<open>writeCh\<close> is a list with its capacity (\<open>None\<close> for the
  nil channel), and the two goroutines that meet there, the sender (\<^verbatim>\<open>Frontend.Send\<close> admits one
  at a time) and the socket writer, have a program counter each. \<open>hs_conn\<close> is what was written to
  the socket. A result \<open>wr\<close> of a socket write is an argument, \<open>None\<close> for success; so is the
  choice \<open>pick\<close> of a \<^verbatim>\<open>select\<close> with two ready cases.
\<close>

subsection \<open>Dial errors as HTTP statuses\<close>

definition mapDialErrorToHTTPStatus :: "string \<Rightarrow> nat" where
  "mapDialErrorToHTTPStatus errStr =
     (let errLower = to_lower errStr in
      if contains_str errLower ''i/o timeout'' \<or> contains_str errLower ''deadline exceeded'' \<or>
         contains_str errLower ''context deadline exceeded'' \<or> contains_str errLower ''timeout'' \<or>
         contains_str errLower ''timed out''
      then 504
      else if contains_str errLower ''no agent available'' \<or>
         contains_str errLower ''too many open files'' \<or>
         contains_str errLower ''socket: too many open files''
      then 503
      else if contains_str errLower ''connection refused'' \<or>
         contains_str errLower ''connection reset by peer'' \<or> contains_str errLower ''broken pipe'' \<or>
         contains_str errLower ''network is unreachable'' \<or> contains_str errLower ''no route to host'' \<or>
         contains_str errLower ''host is unreachable'' \<or> contains_str errLower ''network is down''
      then 502
      else if contains_str errLower ''no such host'' \<or> contains_str errLower ''name resolution'' \<or>
         contains_str errLower ''lookup'' \<and> contains_str errLower ''no such host''
      then 502
      else if contains_str errLower ''tls'' \<or> contains_str errLower ''ssl'' \<or>
         contains_str errLower ''certificate''
      then 502
      else 502)"

text \<open>The status the error handler of the forward proxy answers with.\<close>

definition forwardErrorStatus :: "go_error \<Rightarrow> nat" where
  "forwardErrorStatus err =
     (if errors_is err ErrDeadlineExceeded \<or> errors_is err ErrBackendDialTimeout then 504
      else mapDialErrorToHTTPStatus (error_string err))"

subsection \<open>The stream\<close>

datatype socket_write = WroteBytes string | WroteResponse nat string

datatype sender_pc = SendIdle | SendChecked packet | SendBlocked packet | SendAccepted bool

datatype writer_pc =
    WriterNotStarted | WriterTop | WriterSelect | WriterTook packet | WriterWrites packet
  | WriterCloses | WriterDone

record http_stream =
  hs_host :: string
  hs_dialID :: int
  hs_dialRequested :: bool
  hs_connected :: bool
  hs_connectID :: int
  hs_closeOnce :: bool
  hs_closed :: bool
  hs_cap :: "nat option"
  hs_writeCh :: "packet list"
  hs_sender :: sender_pc
  hs_writer :: writer_pc
  hs_full :: bool
  hs_stopped :: bool
  hs_fullGauge :: int
  hs_blockedGauge :: int
  hs_streamErrors :: nat
  hs_conn :: "socket_write list"

definition connectEstablished :: string where
  "connectEstablished =
     ''HTTP/1.1 200 Connection Established'' @ [CHR 0x0D, CHR 0x0A, CHR 0x0D, CHR 0x0A]"

definition defaultFrontendWriteChannelSize :: int where
  "defaultFrontendWriteChannelSize = 10"

definition newHTTPConnectStream :: "string \<Rightarrow> int \<Rightarrow> int \<Rightarrow> http_stream" where
  "newHTTPConnectStream host dialID queueSize =
     (let queueSize' = (if queueSize < 0 then defaultFrontendWriteChannelSize else queueSize) in
      \<lparr>hs_host = host, hs_dialID = dialID, hs_dialRequested = False, hs_connected = False,
       hs_connectID = 0, hs_closeOnce = False, hs_closed = False,
       hs_cap = (if queueSize' > 0 then Some (nat queueSize') else None), hs_writeCh = [],
       hs_sender = SendIdle, hs_writer = WriterNotStarted, hs_full = False, hs_stopped = False,
       hs_fullGauge = 0, hs_blockedGauge = 0, hs_streamErrors = 0, hs_conn = []\<rparr>)"

definition chan_cap :: "http_stream \<Rightarrow> nat" where
  "chan_cap h = (case hs_cap h of Some n \<Rightarrow> n | None \<Rightarrow> 0)"

text \<open>The state a call leaves behind, returned or still waiting.\<close>

primrec left_in :: "('a, 's) waiting \<Rightarrow> 's" where
  "left_in (Waits s) = s"
| "left_in (Returns x s) = s"

subsection \<open>The full-queue gauge\<close>

definition updateFrontendWriteQueueMetric :: "http_stream \<Rightarrow> http_stream" where
  "updateFrontendWriteQueueMetric h =
     (if hs_stopped h then h
      else
        (let full = (length (hs_writeCh h) = chan_cap h) in
         if hs_full h = full then h
         else h\<lparr>hs_full := full, hs_fullGauge := hs_fullGauge h + (if full then 1 else - 1)\<rparr>))"

definition stopFrontendWriteQueueMetric :: "http_stream \<Rightarrow> http_stream" where
  "stopFrontendWriteQueueMetric h =
     (if hs_stopped h then h
      else if hs_full h then
        h\<lparr>hs_stopped := True, hs_full := False, hs_fullGauge := hs_fullGauge h - 1\<rparr>
      else h\<lparr>hs_stopped := True\<rparr>)"

subsection \<open>Closing\<close>

text \<open>
  \<^verbatim>\<open>close\<close> runs its body once. Other goroutines may act between the two parts of it, but a second
  caller of \<^verbatim>\<open>closeOnce.Do\<close> waits for the end of the first.
\<close>

definition close_begin :: "http_stream \<Rightarrow> http_stream" where
  "close_begin h =
     (if hs_closeOnce h then h else (stopFrontendWriteQueueMetric h)\<lparr>hs_closeOnce := True\<rparr>)"

definition close_end :: "http_stream \<Rightarrow> http_stream" where
  "close_end h = (if hs_closeOnce h then h\<lparr>hs_closed := True\<rparr> else h)"

definition hs_close :: "http_stream \<Rightarrow> http_stream" where
  "hs_close h = close_end (close_begin h)"

subsection \<open>Queueing a write\<close>

definition enqueueWrite :: "packet \<Rightarrow> http_stream \<Rightarrow> (go_error option, http_stream) waiting" where
  "enqueueWrite pkt h =
     (if hs_closed h then Returns (Some ErrNetClosed) h
      else Waits (h\<lparr>hs_sender := SendChecked pkt\<rparr>))"

text \<open>What \<^verbatim>\<open>enqueueWrite\<close> does after its first check, one \<^verbatim>\<open>select\<close> or update at a time.\<close>

definition enqueueWrite_step :: "bool \<Rightarrow> http_stream \<Rightarrow> (go_error option, http_stream) waiting" where
  "enqueueWrite_step pick h =
     (let room = length (hs_writeCh h) < chan_cap h \<and> (\<not> hs_closed h \<or> pick) in
      case hs_sender h of
        SendIdle \<Rightarrow> Waits h
      | SendChecked pkt \<Rightarrow>
          if room then Waits (h\<lparr>hs_writeCh := hs_writeCh h @ [pkt], hs_sender := SendAccepted False\<rparr>)
          else if hs_closed h then Returns (Some ErrNetClosed) (h\<lparr>hs_sender := SendIdle\<rparr>)
          else Waits (h\<lparr>hs_blockedGauge := hs_blockedGauge h + 1, hs_sender := SendBlocked pkt\<rparr>)
      | SendBlocked pkt \<Rightarrow>
          if room then Waits (h\<lparr>hs_writeCh := hs_writeCh h @ [pkt], hs_sender := SendAccepted True\<rparr>)
          else if hs_closed h then
            Returns (Some ErrNetClosed)
              (h\<lparr>hs_blockedGauge := hs_blockedGauge h - 1, hs_sender := SendIdle\<rparr>)
          else Waits h
      | SendAccepted blocked \<Rightarrow>
          (let h' = updateFrontendWriteQueueMetric h in
           Returns None (h'\<lparr>hs_blockedGauge := hs_blockedGauge h' - (if blocked then 1 else 0),
                            hs_sender := SendIdle\<rparr>)))"

subsection \<open>The socket writer\<close>

definition serveFrontendWrites_step ::
  "bool \<Rightarrow> go_error option \<Rightarrow> http_stream \<Rightarrow> http_stream outcome" where
  "serveFrontendWrites_step pick wr h =
     (case hs_writer h of
        WriterTop \<Rightarrow> Ret (h\<lparr>hs_writer := (if hs_closed h then WriterCloses else WriterSelect)\<rparr>)
      | WriterSelect \<Rightarrow>
          (case hs_writeCh h of
             pkt # rest \<Rightarrow>
               if \<not> hs_closed h \<or> pick
               then Ret (h\<lparr>hs_writeCh := rest, hs_writer := WriterTook pkt\<rparr>)
               else Ret (h\<lparr>hs_writer := WriterCloses\<rparr>)
           | [] \<Rightarrow> if hs_closed h then Ret (h\<lparr>hs_writer := WriterCloses\<rparr>) else Ret h)
      | WriterTook pkt \<Rightarrow>
          (let h' = updateFrontendWriteQueueMetric h in
           if ptype pkt = CLOSE_RSP then Ret (h'\<lparr>hs_writer := WriterCloses\<rparr>)
           else Ret (h'\<lparr>hs_writer := WriterWrites pkt\<rparr>))
      | WriterWrites pkt \<Rightarrow>
          bind_outcome (deref (GetData pkt)) (\<lambda>d.
            case wr of
              None \<Rightarrow> Ret (h\<lparr>hs_conn := hs_conn h @ [WroteBytes (dm_data d)], hs_writer := WriterTop\<rparr>)
            | Some e \<Rightarrow> Ret (h\<lparr>hs_streamErrors := hs_streamErrors h + (if hs_closed h then 0 else 1),
                              hs_writer := WriterCloses\<rparr>))
      | WriterCloses \<Rightarrow> Ret ((hs_close h)\<lparr>hs_writer := WriterDone\<rparr>)
      | _ \<Rightarrow> Ret h)"

subsection \<open>Send\<close>

definition writeDialError :: "go_error option \<Rightarrow> string \<Rightarrow> http_stream \<Rightarrow> http_stream" where
  "writeDialError wr dialErr h =
     (case wr of
        None \<Rightarrow> h\<lparr>hs_conn := hs_conn h @ [WroteResponse (mapDialErrorToHTTPStatus dialErr) dialErr]\<rparr>
      | Some _ \<Rightarrow> h)"

text \<open>Closing the channel \<^verbatim>\<open>connected\<close> a second time panics.\<close>

definition sendDialResponse ::
  "go_error option \<Rightarrow> dial_response \<Rightarrow> http_stream \<Rightarrow> (go_error option, http_stream) waiting outcome" where
  "sendDialResponse wr resp h =
     (if dr_error resp \<noteq> [] then Ret (Returns None (hs_close (writeDialError wr (dr_error resp) h)))
      else
        (let h1 = h\<lparr>hs_connectID := dr_connectID resp\<rparr> in
         case wr of
           Some err \<Rightarrow> Ret (Returns (Some err) (hs_close h1))
         | None \<Rightarrow>
             (let h2 = h1\<lparr>hs_conn := hs_conn h1 @ [WroteBytes connectEstablished]\<rparr>;
                  h3 = (if hs_cap h2 \<noteq> None then h2\<lparr>hs_writer := WriterTop\<rparr> else h2)
              in if hs_connected h3 then Panic ''close of closed channel''
                 else Ret (Returns None (h3\<lparr>hs_connected := True\<rparr>)))))"

definition hs_Send ::
  "go_error option \<Rightarrow> packet \<Rightarrow> http_stream \<Rightarrow> (go_error option, http_stream) waiting outcome" where
  "hs_Send wr pkt h =
     (case ptype pkt of
        DIAL_RSP \<Rightarrow> bind_outcome (deref (GetDialResponse pkt)) (\<lambda>resp. sendDialResponse wr resp h)
      | DATA \<Rightarrow>
          if hs_cap h = None then
            bind_outcome (deref (GetData pkt)) (\<lambda>d.
              Ret (Returns wr (if wr = None then h\<lparr>hs_conn := hs_conn h @ [WroteBytes (dm_data d)]\<rparr> else h)))
          else Ret (enqueueWrite pkt h)
      | CLOSE_RSP \<Rightarrow>
          if hs_cap h \<noteq> None \<and> hs_connected h then Ret (enqueueWrite pkt h)
          else Ret (Returns None (hs_close h))
      | DIAL_CLS \<Rightarrow> Ret (Returns None (hs_close h))
      | _ \<Rightarrow> Ret (Returns (Some (ErrText
               ''attempt to send unsupported packet type to an HTTP-CONNECT frontend'')) h))"

subsection \<open>Recv\<close>

text \<open>
  \<open>reads\<close> lists what the successive reads of the hijacked connection return, each with whether
  the stream is closed by then; \<open>Waits\<close> when the last of them has not returned yet.
\<close>

fun recv_loop ::
  "(string \<times> go_error option \<times> bool) list \<Rightarrow> http_stream \<Rightarrow> (go_error + packet, http_stream) waiting" where
  "recv_loop [] h = Waits h"
| "recv_loop ((bytes, err, isClosed) # reads) h =
     (if bytes \<noteq> [] then Returns (Inr (newDataPacket (hs_connectID h) bytes)) h
      else
        (case err of
           None \<Rightarrow> recv_loop reads h
         | Some e \<Rightarrow> if e = ErrEOF \<or> isClosed then Returns (Inl ErrEOF) h else Returns (Inl e) h))"

definition hs_Recv ::
  "bool \<Rightarrow> (string \<times> go_error option \<times> bool) list \<Rightarrow> http_stream
     \<Rightarrow> (go_error + packet, http_stream) waiting" where
  "hs_Recv pick reads h =
     (if \<not> hs_dialRequested h then
        Returns (Inr (newDialRequestPacket ''tcp'' (hs_host h) (hs_dialID h)))
          (h\<lparr>hs_dialRequested := True\<rparr>)
      else if hs_connected h \<and> (\<not> hs_closed h \<or> pick) then recv_loop reads h
      else if hs_closed h then Returns (Inl ErrEOF) h
      else Waits h)"

subsection \<open>The forward proxy\<close>

record url =
  u_scheme :: string
  u_host :: string

text \<open>\<^verbatim>\<open>url.Hostname\<close> and \<^verbatim>\<open>url.Port\<close>.\<close>

definition validOptionalPort :: "string \<Rightarrow> bool" where
  "validOptionalPort port \<longleftrightarrow>
     (case port of
        [] \<Rightarrow> True
      | c # ds \<Rightarrow> c = CHR '':'' \<and> (\<forall>d \<in> set ds. 48 \<le> (of_char d :: nat) \<and> (of_char d :: nat) \<le> 57))"

definition splitHostPort :: "string \<Rightarrow> string \<times> string" where
  "splitHostPort hostPort =
     (let (host, port) =
        (case last_index_byte hostPort CHR '':'' of
           Some colon \<Rightarrow>
             if validOptionalPort (drop colon hostPort)
             then (take colon hostPort, drop (Suc colon) hostPort) else (hostPort, [])
         | None \<Rightarrow> (hostPort, []))
      in (if has_prefix host ''['' \<and> last (CHR ''x'' # host) = CHR '']''
          then butlast (tl host) else host, port))"

definition canonicalHTTPAddr :: "url \<Rightarrow> string" where
  "canonicalHTTPAddr u =
     (let port = snd (splitHostPort (u_host u));
          port' = (if port = [] then ''80'' else port)
      in JoinHostPort (fst (splitHostPort (u_host u))) port')"

datatype http_answer = HTTPError nat | ForwardProxied | Tunnelled http_stream

definition serveForwardProxy :: "url \<Rightarrow> http_answer" where
  "serveForwardProxy u =
     (if u_host u = [] \<or> u_scheme u = [] then HTTPError 400
      else if to_lower (u_scheme u) \<noteq> ''http'' then HTTPError 400
      else ForwardProxied)"

text \<open>
  \<open>hijack\<close> is \<open>None\<close> when the response writer cannot be hijacked, otherwise the result of
  \<^verbatim>\<open>Hijack\<close>. A tunnelled request goes on in \<^verbatim>\<open>proxy\<close> with the new stream.
\<close>

definition ServeHTTP ::
  "string \<Rightarrow> url \<Rightarrow> string \<Rightarrow> go_error option option \<Rightarrow> int \<Rightarrow> int \<Rightarrow> http_answer" where
  "ServeHTTP httpMethod u host hijack dialID queueSize =
     (if httpMethod \<noteq> ''CONNECT'' then serveForwardProxy u
      else
        (case hijack of
           None \<Rightarrow> HTTPError 500
         | Some (Some err) \<Rightarrow> HTTPError 500
         | Some None \<Rightarrow> Tunnelled (newHTTPConnectStream host dialID queueSize)))"

text \<open>The connection pools of the forward proxy, one per agent connection.\<close>

record transport =
  tp_backend :: bid
  tp_dialTimeout :: duration
  tp_maxIdleConns :: nat
  tp_idleConnTimeout :: duration

definition defaultForwardDialTimeout :: duration where
  "defaultForwardDialTimeout = 30 * Second"

definition newTransport :: "duration \<Rightarrow> bid \<Rightarrow> transport" where
  "newTransport backendDialTimeout b =
     \<lparr>tp_backend = b,
      tp_dialTimeout = (if backendDialTimeout > 0 then 0 else defaultForwardDialTimeout),
      tp_maxIdleConns = 100, tp_idleConnTimeout = 90 * Second\<rparr>"

definition transportFor ::
  "duration \<Rightarrow> bid \<Rightarrow> (bid, transport) gomap \<Rightarrow> transport \<times> (bid, transport) gomap" where
  "transportFor backendDialTimeout b transports =
     (case gm_get transports b of
        Some tp \<Rightarrow> (tp, transports)
      | None \<Rightarrow>
          (let tp = newTransport backendDialTimeout b in (tp, gm_put b tp transports)))"

definition transport_backend_done :: "bid \<Rightarrow> (bid, transport) gomap \<Rightarrow> (bid, transport) gomap" where
  "transport_backend_done b transports = gm_delete b transports"

definition roundTrip ::
  "url \<Rightarrow> (bid, transport) gomap \<Rightarrow> world
     \<Rightarrow> (go_error + transport) outcome \<times> (bid, transport) gomap \<times> world" where
  "roundTrip u transports w =
     (case w_getBackend (canonicalHTTPAddr u) w of
        (Panic m, w1) \<Rightarrow> (Panic m, transports, w1)
      | (Ret (Inl err), w1) \<Rightarrow>
          (Ret (Inl err), transports, snd (observe (ObserveDialFailure DialFailureNoAgent) w1))
      | (Ret (Inr b), w1) \<Rightarrow>
          (let (tp, transports') = transportFor (w_dialTimeout w1) b transports
           in (Ret (Inr tp), transports', w1)))"

subsection \<open>One stream in all interleavings\<close>

text \<open>
  A stream with the packets its queue accepted and the packets the writer took from it, and
  whether its dial has been answered: the server claims a pending dial once, so a stream sees one
  DIAL_RSP. A socket write succeeds only while the connection is open.
\<close>

record http_run =
  hr_stream :: http_stream
  hr_accepted :: "packet list"
  hr_taken :: "packet list"
  hr_answered :: bool

inductive http_step :: "http_run \<Rightarrow> http_run \<Rightarrow> bool" where
  http_dial_response: "\<not> hr_answered r \<Longrightarrow> ptype pkt = DIAL_RSP \<Longrightarrow> hs_sender (hr_stream r) = SendIdle \<Longrightarrow>
     (wr = None \<longrightarrow> \<not> hs_closed (hr_stream r)) \<Longrightarrow>
     hs_Send wr pkt (hr_stream r) = Ret res \<Longrightarrow>
     http_step r (r\<lparr>hr_stream := left_in res, hr_answered := True\<rparr>)"
| http_send: "ptype pkt \<noteq> DIAL_RSP \<Longrightarrow> payload_fits pkt \<Longrightarrow> hs_sender (hr_stream r) = SendIdle \<Longrightarrow>
     hs_Send wr pkt (hr_stream r) = Ret res \<Longrightarrow> http_step r (r\<lparr>hr_stream := left_in res\<rparr>)"
| http_enqueue: "h = left_in (enqueueWrite_step pick (hr_stream r)) \<Longrightarrow>
     http_step r (r\<lparr>hr_stream := h,
       hr_accepted := hr_accepted r @ drop (length (hs_writeCh (hr_stream r))) (hs_writeCh h)\<rparr>)"
| http_write: "(wr = None \<longrightarrow> \<not> hs_closed (hr_stream r)) \<Longrightarrow>
     serveFrontendWrites_step pick wr (hr_stream r) = Ret h \<Longrightarrow>
     http_step r (r\<lparr>hr_stream := h, hr_taken := hr_taken r @
       take (length (hs_writeCh (hr_stream r)) - length (hs_writeCh h)) (hs_writeCh (hr_stream r))\<rparr>)"
| http_close_begin: "http_step r (r\<lparr>hr_stream := close_begin (hr_stream r)\<rparr>)"
| http_close_end: "http_step r (r\<lparr>hr_stream := close_end (hr_stream r)\<rparr>)"
| http_recv: "http_step r (r\<lparr>hr_stream := left_in (hs_Recv pick reads (hr_stream r))\<rparr>)"

inductive_cases http_stepE: "http_step r r'"

definition http_init :: "http_run \<Rightarrow> bool" where
  "http_init r \<longleftrightarrow>
     (\<exists>host dialID queueSize. queueSize \<noteq> 0 \<and>
        r = \<lparr>hr_stream = newHTTPConnectStream host dialID queueSize, hr_accepted = [], hr_taken = [],
             hr_answered = False\<rparr>)"

definition packet_bytes :: "packet \<Rightarrow> string" where
  "packet_bytes p = (case GetData p of Some d \<Rightarrow> dm_data d | None \<Rightarrow> [])"

fun writer_holds :: "writer_pc \<Rightarrow> packet list" where
  "writer_holds (WriterTook p) = [p]"
| "writer_holds (WriterWrites p) = [p]"
| "writer_holds _ = []"

fun sender_holds :: "sender_pc \<Rightarrow> packet list" where
  "sender_holds (SendChecked p) = [p]"
| "sender_holds (SendBlocked p) = [p]"
| "sender_holds _ = []"

fun writer_at_end :: "writer_pc \<Rightarrow> bool" where
  "writer_at_end WriterCloses = True"
| "writer_at_end WriterDone = True"
| "writer_at_end _ = False"

subsection \<open>The gauges\<close>

text \<open>An update of the full-queue gauge is due after a channel operation of either goroutine.\<close>

fun sender_due :: "sender_pc \<Rightarrow> bool" where
  "sender_due (SendAccepted b) = True"
| "sender_due _ = False"

fun writer_due :: "writer_pc \<Rightarrow> bool" where
  "writer_due (WriterTook p) = True"
| "writer_due _ = False"

definition update_due :: "http_stream \<Rightarrow> bool" where
  "update_due h \<longleftrightarrow> sender_due (hs_sender h) \<or> writer_due (hs_writer h)"

fun counts_blocked :: "sender_pc \<Rightarrow> int" where
  "counts_blocked (SendBlocked p) = 1"
| "counts_blocked (SendAccepted b) = (if b then 1 else 0)"
| "counts_blocked _ = 0"

definition gauge_ok :: "http_stream \<Rightarrow> bool" where
  "gauge_ok h \<longleftrightarrow>
     hs_cap h \<noteq> None \<and> hs_fullGauge h = (if hs_full h then 1 else 0) \<and>
     hs_stopped h = hs_closeOnce h \<and> (hs_stopped h \<longrightarrow> \<not> hs_full h) \<and>
     hs_blockedGauge h = counts_blocked (hs_sender h)"

definition settled :: "http_stream \<Rightarrow> bool" where
  "settled h \<longleftrightarrow> hs_stopped h \<or> hs_full h = (length (hs_writeCh h) = chan_cap h)"

definition gauge_inv :: "http_stream \<Rightarrow> bool" where
  "gauge_inv h \<longleftrightarrow> gauge_ok h \<and> (update_due h \<or> settled h)"

lemma chan_cap_updates [simp]:
  "chan_cap (h\<lparr>hs_writeCh := q\<rparr>) = chan_cap h" "chan_cap (h\<lparr>hs_sender := s\<rparr>) = chan_cap h"
  "chan_cap (h\<lparr>hs_writer := wp\<rparr>) = chan_cap h" "chan_cap (h\<lparr>hs_conn := c\<rparr>) = chan_cap h"
  "chan_cap (h\<lparr>hs_connectID := i\<rparr>) = chan_cap h" "chan_cap (h\<lparr>hs_connected := b\<rparr>) = chan_cap h"
  "chan_cap (h\<lparr>hs_closed := b\<rparr>) = chan_cap h" "chan_cap (h\<lparr>hs_closeOnce := b\<rparr>) = chan_cap h"
  "chan_cap (h\<lparr>hs_stopped := b\<rparr>) = chan_cap h" "chan_cap (h\<lparr>hs_full := b\<rparr>) = chan_cap h"
  "chan_cap (h\<lparr>hs_fullGauge := g\<rparr>) = chan_cap h" "chan_cap (h\<lparr>hs_blockedGauge := g\<rparr>) = chan_cap h"
  "chan_cap (h\<lparr>hs_streamErrors := n\<rparr>) = chan_cap h" "chan_cap (h\<lparr>hs_dialRequested := b\<rparr>) = chan_cap h"
  by (simp_all add: chan_cap_def)

lemmas stream_defs =
  updateFrontendWriteQueueMetric_def stopFrontendWriteQueueMetric_def close_begin_def close_end_def
  hs_close_def enqueueWrite_def

lemma update_metric_fields [simp]:
  "hs_cap (updateFrontendWriteQueueMetric h) = hs_cap h"
  "hs_writeCh (updateFrontendWriteQueueMetric h) = hs_writeCh h"
  "hs_sender (updateFrontendWriteQueueMetric h) = hs_sender h"
  "hs_writer (updateFrontendWriteQueueMetric h) = hs_writer h"
  "hs_closeOnce (updateFrontendWriteQueueMetric h) = hs_closeOnce h"
  "hs_closed (updateFrontendWriteQueueMetric h) = hs_closed h"
  "hs_connected (updateFrontendWriteQueueMetric h) = hs_connected h"
  "hs_conn (updateFrontendWriteQueueMetric h) = hs_conn h"
  "hs_stopped (updateFrontendWriteQueueMetric h) = hs_stopped h"
  "hs_blockedGauge (updateFrontendWriteQueueMetric h) = hs_blockedGauge h"
  "chan_cap (updateFrontendWriteQueueMetric h) = chan_cap h"
  by (simp_all add: updateFrontendWriteQueueMetric_def chan_cap_def Let_def)

lemma update_metric_settles:
  "gauge_ok h \<Longrightarrow> settled (updateFrontendWriteQueueMetric h)"
  "gauge_ok h \<Longrightarrow> hs_fullGauge (updateFrontendWriteQueueMetric h) =
     (if hs_full (updateFrontendWriteQueueMetric h) then 1 else 0)"
  "gauge_ok h \<Longrightarrow> hs_stopped h \<Longrightarrow> \<not> hs_full (updateFrontendWriteQueueMetric h)"
  by (auto simp: gauge_ok_def settled_def updateFrontendWriteQueueMetric_def Let_def)

lemma gauge_ok_cases:
  "gauge_ok (h\<lparr>hs_writer := wp\<rparr>) = gauge_ok h" "gauge_ok (h\<lparr>hs_writeCh := q\<rparr>) = gauge_ok h"
  "gauge_ok (h\<lparr>hs_conn := c\<rparr>) = gauge_ok h" "gauge_ok (h\<lparr>hs_connectID := i\<rparr>) = gauge_ok h"
  "gauge_ok (h\<lparr>hs_connected := b\<rparr>) = gauge_ok h" "gauge_ok (h\<lparr>hs_streamErrors := n\<rparr>) = gauge_ok h"
  "gauge_ok (h\<lparr>hs_dialRequested := b\<rparr>) = gauge_ok h"
  "settled (h\<lparr>hs_writer := wp\<rparr>) = settled h" "settled (h\<lparr>hs_sender := sp\<rparr>) = settled h"
  "settled (h\<lparr>hs_conn := c\<rparr>) = settled h" "settled (h\<lparr>hs_connectID := i\<rparr>) = settled h"
  "settled (h\<lparr>hs_connected := b\<rparr>) = settled h" "settled (h\<lparr>hs_streamErrors := n\<rparr>) = settled h"
  "settled (h\<lparr>hs_dialRequested := b\<rparr>) = settled h" "settled (h\<lparr>hs_blockedGauge := g\<rparr>) = settled h"
  by (simp_all add: gauge_ok_def settled_def)

lemma close_fields [simp]:
  "hs_cap (close_begin h) = hs_cap h" "hs_cap (close_end h) = hs_cap h"
  "hs_writeCh (close_begin h) = hs_writeCh h" "hs_writeCh (close_end h) = hs_writeCh h"
  "hs_sender (close_begin h) = hs_sender h" "hs_sender (close_end h) = hs_sender h"
  "hs_writer (close_begin h) = hs_writer h" "hs_writer (close_end h) = hs_writer h"
  "hs_connected (close_begin h) = hs_connected h" "hs_connected (close_end h) = hs_connected h"
  "hs_conn (close_begin h) = hs_conn h" "hs_conn (close_end h) = hs_conn h"
  "chan_cap (close_begin h) = chan_cap h" "chan_cap (close_end h) = chan_cap h"
  by (simp_all add: close_begin_def close_end_def stopFrontendWriteQueueMetric_def chan_cap_def)

lemma gauge_close:
  assumes "gauge_inv h"
  shows "gauge_inv (close_begin h)" and "gauge_inv (close_end h)" and "gauge_inv (hs_close h)"
  using assms
  by (auto simp: gauge_inv_def gauge_ok_def settled_def update_due_def stream_defs)

lemma gauge_enqueue:
  assumes "gauge_inv h"
  shows "gauge_inv (left_in (enqueueWrite_step pick h))"
proof (cases "hs_sender h")
  case (SendAccepted b)
  then show ?thesis
    using assms update_metric_settles [of h]
    by (auto simp: gauge_inv_def enqueueWrite_step_def Let_def gauge_ok_def gauge_ok_cases)
qed (use assms in \<open>auto simp: gauge_inv_def update_due_def enqueueWrite_step_def Let_def gauge_ok_def
      gauge_ok_cases\<close>)

lemma gauge_inv_updates [simp]:
  "gauge_inv (h\<lparr>hs_conn := c\<rparr>) = gauge_inv h" "gauge_inv (h\<lparr>hs_connectID := i\<rparr>) = gauge_inv h"
  "gauge_inv (h\<lparr>hs_connected := b\<rparr>) = gauge_inv h" "gauge_inv (h\<lparr>hs_streamErrors := n\<rparr>) = gauge_inv h"
  "gauge_inv (h\<lparr>hs_dialRequested := b\<rparr>) = gauge_inv h"
  by (simp_all add: gauge_inv_def update_due_def gauge_ok_cases)

lemma gauge_writer:
  assumes "gauge_inv h"
  shows "\<not> writer_due (hs_writer h) \<Longrightarrow> gauge_inv (h\<lparr>hs_writer := wp\<rparr>)"
    and "gauge_inv (h\<lparr>hs_writeCh := q, hs_writer := WriterTook p\<rparr>)"
    and "gauge_inv ((updateFrontendWriteQueueMetric h)\<lparr>hs_writer := wp\<rparr>)"
proof -
  show "gauge_inv (h\<lparr>hs_writer := wp\<rparr>)" if "\<not> writer_due (hs_writer h)"
    using assms that by (auto simp: gauge_inv_def update_due_def gauge_ok_cases)
  show "gauge_inv (h\<lparr>hs_writeCh := q, hs_writer := WriterTook p\<rparr>)"
    using assms by (simp add: gauge_inv_def update_due_def gauge_ok_cases)
  have "gauge_ok (updateFrontendWriteQueueMetric h)"
    using assms update_metric_settles [of h] by (simp add: gauge_inv_def gauge_ok_def)
  then show "gauge_inv ((updateFrontendWriteQueueMetric h)\<lparr>hs_writer := wp\<rparr>)"
    using assms update_metric_settles(1) [of h] by (simp add: gauge_inv_def gauge_ok_cases)
qed

lemma gauge_write:
  assumes "gauge_inv h" and "serveFrontendWrites_step pick wr h = Ret h'"
  shows "gauge_inv h'"
proof (cases "hs_writer h")
  case WriterSelect
  with assms gauge_writer [of h] show ?thesis
    by (cases "hs_writeCh h") (auto simp: serveFrontendWrites_step_def split: if_splits)
next
  case (WriterTook p)
  then have "\<exists>wp. h' = (updateFrontendWriteQueueMetric h)\<lparr>hs_writer := wp\<rparr>"
    using assms(2) by (auto simp: serveFrontendWrites_step_def Let_def split: if_splits)
  with gauge_writer(3) [OF assms(1)] show ?thesis by auto
next
  case (WriterWrites p)
  then have "\<exists>wp c n. h' = h\<lparr>hs_conn := c, hs_writer := wp\<rparr> \<or> h' = h\<lparr>hs_streamErrors := n, hs_writer := wp\<rparr>"
    using assms(2)
    by (auto simp: serveFrontendWrites_step_def bind_outcome_Ret_iff split: option.splits)
  moreover have "gauge_inv (h\<lparr>hs_conn := c, hs_writer := wp\<rparr>)" for c wp
    by (rule gauge_writer(1)) (use assms(1) WriterWrites in simp_all)
  moreover have "gauge_inv (h\<lparr>hs_streamErrors := n, hs_writer := wp\<rparr>)" for n wp
    by (rule gauge_writer(1)) (use assms(1) WriterWrites in simp_all)
  ultimately show ?thesis by auto
next
  case WriterCloses
  then have "gauge_inv ((hs_close h)\<lparr>hs_writer := WriterDone\<rparr>)"
    by (intro gauge_writer(1) gauge_close(3) assms(1)) (simp add: hs_close_def)
  with assms(2) WriterCloses show ?thesis by (simp add: serveFrontendWrites_step_def)
next
  case WriterTop
  with assms(2) gauge_writer(1) [OF assms(1)] show ?thesis by (auto simp: serveFrontendWrites_step_def)
qed (use assms in \<open>auto simp: serveFrontendWrites_step_def\<close>)

text \<open>What a \<^verbatim>\<open>Send\<close> that returns did to the stream.\<close>

lemma Send_cases:
  assumes "hs_Send wr pkt h = Ret res"
  obtains (closed) i c where "left_in res = hs_close (h\<lparr>hs_connectID := i, hs_conn := c\<rparr>)"
      "c \<noteq> hs_conn h \<or> i \<noteq> hs_connectID h \<Longrightarrow> ptype pkt = DIAL_RSP"
  | (queued) "left_in res = h\<lparr>hs_sender := SendChecked pkt\<rparr>" "ptype pkt = DATA \<or> ptype pkt = CLOSE_RSP"
  | (written) c where "left_in res = h\<lparr>hs_conn := c\<rparr>" "hs_cap h = None"
  | (established) i where "left_in res = h\<lparr>hs_connectID := i, hs_conn := hs_conn h @ [WroteBytes connectEstablished],
       hs_writer := (if hs_cap h = None then hs_writer h else WriterTop), hs_connected := True\<rparr>"
       "ptype pkt = DIAL_RSP" "\<not> hs_connected h"
  | (unchanged) "left_in res = h"
proof -
  have other: "left_in res = h" if "ptype pkt \<notin> {DIAL_RSP, DATA, CLOSE_RSP, DIAL_CLS}"
    using assms that by (cases "ptype pkt") (auto simp: hs_Send_def)
  show thesis
  proof (cases "ptype pkt")
    case DIAL_RSP
    then obtain resp where resp: "sendDialResponse wr resp h = Ret res"
      using assms by (auto simp: hs_Send_def bind_outcome_Ret_iff)
    show thesis
    proof (cases "dr_error resp = [] \<and> wr = None")
      case True
      with resp DIAL_RSP show thesis
        by (intro established) (auto simp: sendDialResponse_def Let_def split: if_splits)
    next
      case False
      with resp DIAL_RSP show thesis
        by (intro closed [where i = "if dr_error resp = [] then dr_connectID resp else hs_connectID h"
              and c = "if dr_error resp = [] \<or> wr \<noteq> None then hs_conn h
               else hs_conn h @ [WroteResponse (mapDialErrorToHTTPStatus (dr_error resp)) (dr_error resp)]"])
          (auto simp: sendDialResponse_def writeDialError_def Let_def split: if_splits option.splits)
    qed
  next
    case DATA
    show thesis
    proof (cases "hs_cap h = None")
      case True
      with assms DATA have "left_in res =
          h\<lparr>hs_conn := (if wr = None then hs_conn h @ [WroteBytes (packet_bytes pkt)] else hs_conn h)\<rparr>"
        by (auto simp: hs_Send_def bind_outcome_Ret_iff packet_bytes_def deref_def split: option.splits)
      from written [OF this True] show thesis .
    next
      case False
      with assms DATA have "left_in res = h \<or> left_in res = h\<lparr>hs_sender := SendChecked pkt\<rparr>"
        by (auto simp: hs_Send_def enqueueWrite_def split: if_splits)
      with DATA show thesis using queued unchanged by blast
    qed
  next
    case CLOSE_RSP
    with assms have "left_in res = h \<or> left_in res = h\<lparr>hs_sender := SendChecked pkt\<rparr> \<or> left_in res = hs_close h"
      by (auto simp: hs_Send_def enqueueWrite_def split: if_splits)
    with CLOSE_RSP show thesis
      using queued unchanged closed [where i = "hs_connectID h" and c = "hs_conn h"] by fastforce
  next
    case DIAL_CLS
    with assms show thesis
      using closed [where i = "hs_connectID h" and c = "hs_conn h"] by (auto simp: hs_Send_def)
  qed (rule unchanged, rule other, simp)+
qed

lemma gauge_Send:
  assumes "gauge_inv h" and "hs_sender h = SendIdle" and "hs_connected h \<or> hs_writer h = WriterNotStarted"
    and "hs_Send wr pkt h = Ret res"
  shows "gauge_inv (left_in res)"
  using assms(4)
proof (cases rule: Send_cases)
  case (closed i c)
  then show ?thesis using assms(1) by (simp add: gauge_close(3))
next
  case queued
  then show ?thesis
    using assms(1,2) by (auto simp: gauge_inv_def update_due_def gauge_ok_cases gauge_ok_def)
next
  case (established i)
  then have "\<not> writer_due (hs_writer h)" using assms(3) by auto
  with established(1) assms(1) show ?thesis
    using gauge_writer(1) [of "h\<lparr>hs_connectID := i, hs_conn := hs_conn h @ [WroteBytes connectEstablished]\<rparr>"]
    by auto
qed (use assms(1) in simp_all)

subsection \<open>The order on the socket\<close>

definition queueable :: "packet \<Rightarrow> bool" where
  "queueable p \<longleftrightarrow> (ptype p = DATA \<or> ptype p = CLOSE_RSP) \<and> payload_fits p"

definition on_socket :: "packet list \<Rightarrow> socket_write list" where
  "on_socket ps = WroteBytes connectEstablished # map (WroteBytes \<circ> packet_bytes) ps"

text \<open>\<open>ws\<close> are the packets written so far.\<close>

definition order_inv :: "http_run \<Rightarrow> packet list \<Rightarrow> bool" where
  "order_inv r ws \<longleftrightarrow>
     (let h = hr_stream r in
      hr_accepted r = hr_taken r @ hs_writeCh h \<and> length (hs_writeCh h) \<le> chan_cap h \<and>
      (\<forall>p \<in> set (sender_holds (hs_sender h)) \<union> set (hr_accepted r). queueable p) \<and>
      (\<forall>p \<in> set ws. ptype p = DATA) \<and> (\<forall>p. hs_writer h = WriterWrites p \<longrightarrow> ptype p = DATA) \<and>
      (if writer_at_end (hs_writer h) then hr_taken r = ws \<or> (\<exists>p. hr_taken r = ws @ [p])
       else hr_taken r = ws @ writer_holds (hs_writer h)) \<and>
      (if hs_connected h then hr_answered r \<and> hs_writer h \<noteq> WriterNotStarted \<and> hs_conn h = on_socket ws
       else hs_writer h = WriterNotStarted \<and> hr_taken r = []) \<and>
      (\<not> hr_answered r \<longrightarrow> hs_conn h = []))"

definition http_inv :: "http_run \<Rightarrow> bool" where
  "http_inv r \<longleftrightarrow> gauge_inv (hr_stream r) \<and> (\<exists>ws. order_inv r ws)"

lemma http_inv_init: "http_init r \<Longrightarrow> http_inv r"
  by (auto simp: http_init_def http_inv_def gauge_inv_def gauge_ok_def settled_def order_inv_def
      newHTTPConnectStream_def update_due_def chan_cap_def defaultFrontendWriteChannelSize_def Let_def
      split: if_splits)

lemma order_close:
  assumes "order_inv r ws"
  shows "order_inv (r\<lparr>hr_stream := close_begin (hr_stream r)\<rparr>) ws"
    and "order_inv (r\<lparr>hr_stream := close_end (hr_stream r)\<rparr>) ws"
    and "order_inv (r\<lparr>hr_stream := hs_close (hr_stream r)\<rparr>) ws"
  using assms by (auto simp: order_inv_def hs_close_def Let_def split: if_splits)

lemma order_enqueue:
  assumes "order_inv r ws" and "h = left_in (enqueueWrite_step pick (hr_stream r))"
  shows "order_inv (r\<lparr>hr_stream := h,
       hr_accepted := hr_accepted r @ drop (length (hs_writeCh (hr_stream r))) (hs_writeCh h)\<rparr>) ws"
  using assms
  by (cases "hs_sender (hr_stream r)") (auto simp: order_inv_def enqueueWrite_step_def Let_def)

lemma order_write:
  assumes inv: "order_inv r ws" and step: "serveFrontendWrites_step pick wr (hr_stream r) = Ret h"
    and r': "r' = r\<lparr>hr_stream := h, hr_taken := hr_taken r @
       take (length (hs_writeCh (hr_stream r)) - length (hs_writeCh h)) (hs_writeCh (hr_stream r))\<rparr>"
  shows "\<exists>ws. order_inv r' ws"
proof (cases "hs_writer (hr_stream r)")
  case (WriterTook p)
  with inv step r' have "order_inv r' ws"
    by (auto simp: order_inv_def serveFrontendWrites_step_def Let_def queueable_def split: if_splits)
  then show ?thesis ..
next
  case (WriterWrites p)
  then obtain d where d: "GetData p = Some d" "ptype p = DATA"
    using inv step by (auto simp: order_inv_def queueable_def payload_fits_def Let_def)
  show ?thesis
  proof (cases wr)
    case None
    with WriterWrites d inv step r' have "order_inv r' (ws @ [p])"
      by (auto simp: order_inv_def serveFrontendWrites_step_def on_socket_def packet_bytes_def Let_def
          split: if_splits)
    then show ?thesis ..
  next
    case (Some e)
    with WriterWrites d inv step r' have "order_inv r' ws"
      by (auto simp: order_inv_def serveFrontendWrites_step_def Let_def split: if_splits)
    then show ?thesis ..
  qed
next
  case WriterSelect
  with inv step r' have "order_inv r' ws"
    by (cases "hs_writeCh (hr_stream r)")
      (auto simp: order_inv_def serveFrontendWrites_step_def Let_def split: if_splits)
  then show ?thesis ..
next
  case WriterCloses
  then have h: "h = (hs_close (hr_stream r))\<lparr>hs_writer := WriterDone\<rparr>"
    using step by (simp add: serveFrontendWrites_step_def)
  have "order_inv r' ws"
    using inv WriterCloses by (simp add: order_inv_def h r' hs_close_def Let_def split: if_splits)
  then show ?thesis ..
next
  case WriterTop
  with inv step r' have "order_inv r' ws"
    by (auto simp: order_inv_def serveFrontendWrites_step_def Let_def split: if_splits)
  then show ?thesis ..
qed (use inv step r' in \<open>auto simp: serveFrontendWrites_step_def intro: exI [of _ ws]\<close>)

lemma order_Send:
  assumes inv: "order_inv r ws" and cap: "hs_cap (hr_stream r) \<noteq> None"
    and send: "hs_Send wr pkt (hr_stream r) = Ret res"
    and fits: "ptype pkt \<noteq> DIAL_RSP \<Longrightarrow> payload_fits pkt"
    and once: "ptype pkt = DIAL_RSP \<Longrightarrow> \<not> hr_answered r \<and> answered"
    and ans: "hr_answered r \<longrightarrow> answered"
  shows "order_inv (r\<lparr>hr_stream := left_in res, hr_answered := answered\<rparr>) ws"
  using send
proof (cases rule: Send_cases)
  case (closed i c)
  show ?thesis
  proof (cases "ptype pkt = DIAL_RSP")
    case True
    with once inv have "\<not> hs_connected (hr_stream r)" and answered
      by (auto simp: order_inv_def Let_def split: if_splits)
    with closed(1) inv show ?thesis by (auto simp: order_inv_def hs_close_def Let_def)
  next
    case False
    with closed(2) have "c = hs_conn (hr_stream r)" by blast
    with closed(1) inv ans show ?thesis by (auto simp: order_inv_def hs_close_def Let_def)
  qed
next
  case queued
  with fits have "queueable pkt" by (auto simp: queueable_def)
  with queued(1) inv ans show ?thesis by (auto simp: order_inv_def Let_def)
next
  case (established i)
  then have "ws = []" and "hs_conn (hr_stream r) = []" and answered
    using inv once by (auto simp: order_inv_def Let_def split: if_splits)
  with established(1,3) cap inv show ?thesis by (auto simp: order_inv_def on_socket_def Let_def)
qed (use inv ans cap in \<open>auto simp: order_inv_def Let_def\<close>)

lemma hs_Recv_leaves:
  "left_in (hs_Recv pick reads h) = h \<or> left_in (hs_Recv pick reads h) = h\<lparr>hs_dialRequested := True\<rparr>"
proof -
  have "left_in (recv_loop reads h) = h" by (induction reads h rule: recv_loop.induct) (auto split: option.split)
  then show ?thesis by (auto simp: hs_Recv_def)
qed

lemma http_inv_step: "http_inv r \<Longrightarrow> http_step r r' \<Longrightarrow> http_inv r'"
proof -
  assume "http_inv r" and step: "http_step r r'"
  then obtain ws where g: "gauge_inv (hr_stream r)" and o: "order_inv r ws" by (auto simp: http_inv_def)
  have cap: "hs_cap (hr_stream r) \<noteq> None" using g by (simp add: gauge_inv_def gauge_ok_def)
  have start: "hs_connected (hr_stream r) \<or> hs_writer (hr_stream r) = WriterNotStarted"
    using o by (auto simp: order_inv_def Let_def split: if_splits)
  show "http_inv r'"
    using step
  proof (cases rule: http_step.cases)
    case (http_dial_response pkt wr res)
    with order_Send [OF o cap, of wr pkt res True] gauge_Send [OF g _ start] show ?thesis
      by (auto simp: http_inv_def)
  next
    case (http_send pkt wr res)
    then have "order_inv (r\<lparr>hr_stream := left_in res, hr_answered := hr_answered r\<rparr>) ws"
      by (intro order_Send [OF o cap]) auto
    with http_send gauge_Send [OF g _ start] show ?thesis by (auto simp: http_inv_def)
  next
    case (http_enqueue h pick)
    with order_enqueue [OF o http_enqueue(2)] gauge_enqueue [OF g] show ?thesis by (auto simp: http_inv_def)
  next
    case (http_write wr pick h)
    with order_write [OF o http_write(3,1)] gauge_write [OF g http_write(3)] show ?thesis
      by (simp add: http_inv_def)
  next
    case http_close_begin
    with order_close(1) [OF o] gauge_close(1) [OF g] show ?thesis by (auto simp: http_inv_def)
  next
    case http_close_end
    with order_close(2) [OF o] gauge_close(2) [OF g] show ?thesis by (auto simp: http_inv_def)
  next
    case (http_recv pick reads)
    then show ?thesis
      using hs_Recv_leaves [of pick reads "hr_stream r"] g o
      by (auto simp: http_inv_def order_inv_def Let_def)
  qed
qed

interpretation http_frontend: invariant_system http_init http_step http_inv
  by unfold_locales (fact http_inv_init, fact http_inv_step)

lemma take_before_close:
  assumes "\<forall>p \<in> set ws. ptype p = DATA" and "xs = ws @ p # rest" and "ptype p = CLOSE_RSP"
  shows "takeWhile (\<lambda>p. ptype p \<noteq> CLOSE_RSP) xs = ws"
  using assms by (simp add: takeWhile_append2 takeWhile_append)


definition established_run :: http_run where
  "established_run =
     \<lparr>hr_stream = (newHTTPConnectStream ''h:1'' 7 2)
        \<lparr>hs_connectID := 5, hs_conn := [WroteBytes connectEstablished], hs_writer := WriterTop,
         hs_connected := True\<rparr>,
      hr_accepted = [], hr_taken = [], hr_answered = True\<rparr>"

lemma established_run_reach: "reach http_init http_step established_run"
proof -
  let ?r = "\<lparr>hr_stream = newHTTPConnectStream ''h:1'' 7 2, hr_accepted = [], hr_taken = [], hr_answered = False\<rparr>"
  have "reach http_init http_step ?r" 
    by (rule reach_init, unfold http_init_def) (intro exI [of _ "''h:1''"] exI [of _ 7] exI [of _ 2], simp)
  moreover have "http_step ?r established_run"
    using http_dial_response [of ?r "newDialResponsePacket 7 5 []" None "Returns None (hr_stream established_run)"]
    by (simp add: established_run_def newHTTPConnectStream_def hs_Send_def sendDialResponse_def)
  ultimately show ?thesis by (rule reach_step)
qed


text \<open>
  C19. The write-queue gauges are exact: a stream counts once in the full-queue gauge while it is
  marked full and not at all once it has been closed; whenever no update is due the mark says
  whether the queue is full; and it counts in the blocked gauge exactly while a send waits for
  room.
\<close>

theorem http_gauges_exact:
  assumes "reach http_init http_step r"
  shows "hs_fullGauge (hr_stream r) = (if hs_full (hr_stream r) then 1 else 0) \<and>
     (hs_closeOnce (hr_stream r) \<longrightarrow> hs_fullGauge (hr_stream r) = 0) \<and>
     (\<not> hs_closeOnce (hr_stream r) \<and> \<not> update_due (hr_stream r) \<longrightarrow>
        hs_full (hr_stream r) = (length (hs_writeCh (hr_stream r)) = chan_cap (hr_stream r))) \<and>
     hs_blockedGauge (hr_stream r) = counts_blocked (hs_sender (hr_stream r))"
  using http_frontend.reach_inv [OF assms]
  by (auto simp: http_inv_def gauge_inv_def gauge_ok_def settled_def)

theorem http_gauges_exact_witness: "hs_fullGauge (hr_stream established_run) = 0"
  using http_gauges_exact [OF established_run_reach]
  by (simp add: established_run_def newHTTPConnectStream_def)

subsection \<open>Statuses\<close>

definition contains_any :: "string list \<Rightarrow> string \<Rightarrow> bool" where
  "contains_any ps s \<longleftrightarrow> (\<exists>p \<in> set ps. contains_str s p)"

lemma contains_str_trans: "contains_str s p \<Longrightarrow> contains_str p q \<Longrightarrow> contains_str s q"
  using sublist_order.order_trans by (auto simp: contains_str_iff)

lemma timeout_patterns:
  "contains_str s ''i/o timeout'' \<Longrightarrow> contains_str s ''timeout''"
  "contains_str s ''context deadline exceeded'' \<Longrightarrow> contains_str s ''deadline exceeded''"
  "contains_str s ''socket: too many open files'' \<Longrightarrow> contains_str s ''too many open files''"
  by (erule contains_str_trans, simp add: has_prefix_def)+

text \<open>
  The table of dial errors amounts to five patterns: whatever else it lists, an error that
  mentions a timeout or an exceeded deadline in any letter case becomes 504, one that mentions a
  missing agent or exhausted files becomes 503 and every other one 502. So the server's own dial
  errors come out as 504 for a dial that timed out, 503 when no agent is available and 502 when
  the agent's connection closed.
\<close>

theorem mapDialErrorToHTTPStatus_patterns:
  "mapDialErrorToHTTPStatus e =
     (if contains_any [''timeout'', ''timed out'', ''deadline exceeded''] (to_lower e) then 504
      else if contains_any [''no agent available'', ''too many open files''] (to_lower e) then 503
      else 502) \<and>
   mapDialErrorToHTTPStatus (error_string ErrBackendDialTimeout) = 504 \<and>
   mapDialErrorToHTTPStatus (error_string ErrNotFound) = 503 \<and>
   mapDialErrorToHTTPStatus (error_string ErrBackendClosedWhileDialing) = 502"
proof (intro conjI)
  show "mapDialErrorToHTTPStatus e =
     (if contains_any [''timeout'', ''timed out'', ''deadline exceeded''] (to_lower e) then 504
      else if contains_any [''no agent available'', ''too many open files''] (to_lower e) then 503
      else 502)"
    using timeout_patterns [of "to_lower e"]
    by (auto simp: mapDialErrorToHTTPStatus_def contains_any_def Let_def)
qed code_simp+

end
