(* ===== verification/KNP_Readers.thy ===== *)
theory KNP_Readers
  imports KNP_Backend
begin

section \<open>The goroutines that receive packets\<close>

text \<open>
  Every stream of the server has two goroutines: \<^verbatim>\<open>readFrontendToChannel\<close> or
  \<^verbatim>\<open>readBackendToChannel\<close> of \<^verbatim>\<open>pkg/server/server.go\<close> pushes what the stream delivers into the
  bounded \<^verbatim>\<open>recvCh\<close>, and \<^verbatim>\<open>serveRecvFrontend\<close> or \<^verbatim>\<open>serveRecvBackend\<close> takes it out, handles it and
  drains what is left; \<^verbatim>\<open>proxy\<close> and \<^verbatim>\<open>connect\<close> return what arrives on \<^verbatim>\<open>stopCh\<close>. The handlers
  themselves, which read a list of packets, are in the theory of the server; here is the delivery
  of that list. \<open>recv_run\<close> has the two channels, where each goroutine stands, and what was
  received, handled and discarded so far.
\<close>

subsection \<open>State\<close>

datatype peer = FromFrontend | FromAgent

datatype reader_pc =
    AtRecv
  | AtSelect packet
  | AtFull packet
  | AtGaugeDec
  | AtStoreEOF
  | AtStopSend go_error
  | AtCloseRecv
  | AtCloseStop
  | ReaderDone

datatype handler_pc = InLoop | Draining | HandlerDone

datatype recv_effect = ObserveReceived segment packet_type | ObserveStreamErrorNoPacket segment

record recv_run =
  rc_cap :: nat
  rc_ch :: "packet list"
  rc_closed :: bool
  rc_stop :: "go_error list"
  rc_stopClosed :: bool
  rc_receivedEOF :: bool
  rc_retired :: bool
  rc_fullGauge :: int
  rc_reader :: reader_pc
  rc_handler :: handler_pc
  rc_returned :: "go_error option option"
  rc_crashed :: bool
  rc_log :: "recv_effect list"
  rc_received :: "packet list"
  rc_handled :: "packet list"
  rc_discarded :: "packet list"
  rc_early :: bool
  rc_end :: "go_error option"

definition new_recv :: "nat \<Rightarrow> recv_run" where
  "new_recv cap =
     \<lparr>rc_cap = cap, rc_ch = [], rc_closed = False, rc_stop = [], rc_stopClosed = False,
      rc_receivedEOF = False, rc_retired = False, rc_fullGauge = 0, rc_reader = AtRecv,
      rc_handler = InLoop, rc_returned = None, rc_crashed = False, rc_log = [], rc_received = [],
      rc_handled = [], rc_discarded = [], rc_early = False, rc_end = None\<rparr>"

text \<open>Sending on a closed channel and closing one twice panic.\<close>

definition push_recvCh :: "packet \<Rightarrow> recv_run \<Rightarrow> recv_run" where
  "push_recvCh p s = (if rc_closed s then s\<lparr>rc_crashed := True\<rparr> else s\<lparr>rc_ch := rc_ch s @ [p]\<rparr>)"

definition close_recvCh :: "recv_run \<Rightarrow> recv_run" where
  "close_recvCh s = (if rc_closed s then s\<lparr>rc_crashed := True\<rparr> else s\<lparr>rc_closed := True\<rparr>)"

definition close_stopCh :: "recv_run \<Rightarrow> recv_run" where
  "close_stopCh s = (if rc_stopClosed s then s\<lparr>rc_crashed := True\<rparr> else s\<lparr>rc_stopClosed := True\<rparr>)"

subsection \<open>Reading\<close>

text \<open>What the stream's \<^verbatim>\<open>Recv\<close> returns, and what is observed.\<close>

definition Frontend_Recv :: "go_error + packet \<Rightarrow> (go_error + packet) \<times> recv_effect list" where
  "Frontend_Recv a =
     (case a of
        Inl err \<Rightarrow> (Inl err, if err \<noteq> ErrEOF then [ObserveStreamErrorNoPacket SegmentFromClient] else [])
      | Inr pkt \<Rightarrow> (Inr pkt, [ObserveReceived SegmentFromClient (ptype pkt)]))"

definition Backend_Recv :: "go_error + packet \<Rightarrow> (go_error + packet) \<times> recv_effect list" where
  "Backend_Recv a =
     (case a of
        Inl err \<Rightarrow> (Inl err, if err \<noteq> ErrEOF then [ObserveStreamErrorNoPacket SegmentFromAgent] else [])
      | Inr pkt \<Rightarrow> (Inr pkt, [ObserveReceived SegmentFromAgent (ptype pkt)]))"

definition received :: "packet \<Rightarrow> recv_effect list \<Rightarrow> recv_run \<Rightarrow> recv_run" where
  "received pkt es s =
     s\<lparr>rc_reader := AtSelect pkt, rc_received := rc_received s @ [pkt], rc_log := rc_log s @ es\<rparr>"

definition ended :: "go_error \<Rightarrow> reader_pc \<Rightarrow> recv_effect list \<Rightarrow> recv_run \<Rightarrow> recv_run" where
  "ended err pc es s = s\<lparr>rc_reader := pc, rc_end := Some err, rc_log := rc_log s @ es\<rparr>"

text \<open>
  The \<^verbatim>\<open>select\<close> with a default branch, and the blocking send of that branch, between the
  increment and the decrement of the gauge of full channels.
\<close>

definition try_push :: "packet \<Rightarrow> recv_run \<Rightarrow> recv_run" where
  "try_push p s =
     (if length (rc_ch s) < rc_cap s then (push_recvCh p s)\<lparr>rc_reader := AtRecv\<rparr>
      else s\<lparr>rc_fullGauge := rc_fullGauge s + 1, rc_reader := AtFull p\<rparr>)"

definition blocked_push :: "packet \<Rightarrow> recv_run \<Rightarrow> recv_run option" where
  "blocked_push p s =
     (if length (rc_ch s) < rc_cap s then Some ((push_recvCh p s)\<lparr>rc_reader := AtGaugeDec\<rparr>) else None)"

definition send_stopCh :: "go_error \<Rightarrow> reader_pc \<Rightarrow> recv_run \<Rightarrow> recv_run option" where
  "send_stopCh err pc s =
     (if length (rc_stop s) < 1 then Some (s\<lparr>rc_stop := rc_stop s @ [err], rc_reader := pc\<rparr>) else None)"

text \<open>One step of each reader; \<open>None\<close>: it blocks or has returned. The frontend's closes are deferred.\<close>

definition readFrontendToChannel :: "go_error + packet \<Rightarrow> recv_run \<Rightarrow> recv_run option" where
  "readFrontendToChannel a s =
     (case rc_reader s of
        AtRecv \<Rightarrow>
          (case Frontend_Recv a of
             (Inr pkt, es) \<Rightarrow> Some (received pkt es s)
           | (Inl err, es) \<Rightarrow>
               if err = ErrEOF then Some (ended err AtCloseRecv es s)
               else Some (ended err (AtStopSend err) es s))
      | AtSelect p \<Rightarrow> Some (try_push p s)
      | AtFull p \<Rightarrow> blocked_push p s
      | AtGaugeDec \<Rightarrow> Some (s\<lparr>rc_fullGauge := rc_fullGauge s - 1, rc_reader := AtRecv\<rparr>)
      | AtStoreEOF \<Rightarrow> None
      | AtStopSend err \<Rightarrow> send_stopCh err AtCloseRecv s
      | AtCloseRecv \<Rightarrow> Some ((close_recvCh s)\<lparr>rc_reader := AtCloseStop\<rparr>)
      | AtCloseStop \<Rightarrow> Some ((close_stopCh s)\<lparr>rc_reader := ReaderDone\<rparr>)
      | ReaderDone \<Rightarrow> None)"

definition readBackendToChannel :: "go_error + packet \<Rightarrow> recv_run \<Rightarrow> recv_run option" where
  "readBackendToChannel a s =
     (case rc_reader s of
        AtRecv \<Rightarrow>
          (case Backend_Recv a of
             (Inr pkt, es) \<Rightarrow> Some (received pkt es s)
           | (Inl err, es) \<Rightarrow>
               if err = ErrEOF then Some (ended err AtStoreEOF es s)
               else Some (ended err (AtStopSend err) es s))
      | AtSelect p \<Rightarrow> Some (try_push p s)
      | AtFull p \<Rightarrow> blocked_push p s
      | AtGaugeDec \<Rightarrow> Some (s\<lparr>rc_fullGauge := rc_fullGauge s - 1, rc_reader := AtRecv\<rparr>)
      | AtStoreEOF \<Rightarrow> Some (s\<lparr>rc_receivedEOF := True, rc_reader := AtCloseStop\<rparr>)
      | AtStopSend err \<Rightarrow> send_stopCh err AtCloseStop s
      | AtCloseStop \<Rightarrow> Some ((close_stopCh s)\<lparr>rc_reader := AtCloseRecv\<rparr>)
      | AtCloseRecv \<Rightarrow> Some ((close_recvCh s)\<lparr>rc_reader := ReaderDone\<rparr>)
      | ReaderDone \<Rightarrow> None)"

subsection \<open>Handling and returning\<close>

text \<open>
  The loop over \<^verbatim>\<open>recvCh\<close>, which ends when the channel is closed and empty, or with a \<^verbatim>\<open>return\<close>
  after the packet in hand (\<open>early\<close>), and the deferred loop that discards the rest.
\<close>

definition handler_step :: "bool \<Rightarrow> recv_run \<Rightarrow> recv_run option" where
  "handler_step early s =
     (case (rc_handler s, rc_ch s) of
        (InLoop, p # ps) \<Rightarrow>
          Some (s\<lparr>rc_ch := ps, rc_handled := rc_handled s @ [p],
                  rc_handler := if early then Draining else InLoop, rc_early := early\<rparr>)
      | (InLoop, []) \<Rightarrow> if rc_closed s then Some (s\<lparr>rc_handler := Draining\<rparr>) else None
      | (Draining, p # ps) \<Rightarrow> Some (s\<lparr>rc_ch := ps, rc_discarded := rc_discarded s @ [p]\<rparr>)
      | (Draining, []) \<Rightarrow> if rc_closed s then Some (s\<lparr>rc_handler := HandlerDone\<rparr>) else None
      | (HandlerDone, _) \<Rightarrow> None)"

text \<open>\<^verbatim>\<open>return <-stopCh\<close>: the error in the channel, or nil from the closed channel.\<close>

definition recv_stopCh :: "recv_run \<Rightarrow> recv_run option" where
  "recv_stopCh s =
     (case rc_stop s of
        err # es \<Rightarrow> Some (s\<lparr>rc_stop := es, rc_returned := Some (Some err)\<rparr>)
      | [] \<Rightarrow> if rc_stopClosed s then Some (s\<lparr>rc_returned := Some None\<rparr>) else None)"

definition proxy_return :: "recv_run \<Rightarrow> recv_run option" where
  "proxy_return s = (if rc_handler s = HandlerDone \<and> rc_returned s = None then recv_stopCh s else None)"

text \<open>The \<^verbatim>\<open>select\<close> of \<^verbatim>\<open>connect\<close>; \<open>viaDone\<close> chooses the branch of \<^verbatim>\<open>backend.Done()\<close>.\<close>

definition connect_return :: "bool \<Rightarrow> recv_run \<Rightarrow> recv_run option" where
  "connect_return viaDone s =
     (if rc_returned s \<noteq> None then None
      else if viaDone then (if rc_retired s then Some (s\<lparr>rc_returned := Some None\<rparr>) else None)
      else recv_stopCh s)"

text \<open>
  \<^verbatim>\<open>closeWithBackend\<close> registers a function that runs when the context of the agent's stream ends:
  whether it closes the frontend's transport. \<open>closer\<close>: the frontend's stream is an \<^verbatim>\<open>io.Closer\<close>.
\<close>

definition closeWithBackend :: "bool \<Rightarrow> recv_run \<Rightarrow> bool" where
  "closeWithBackend closer s \<longleftrightarrow> closer \<and> \<not> rc_receivedEOF s"

fun read_step :: "peer \<Rightarrow> go_error + packet \<Rightarrow> recv_run \<Rightarrow> recv_run option" where
  "read_step FromFrontend = readFrontendToChannel"
| "read_step FromAgent = readBackendToChannel"

fun return_step :: "peer \<Rightarrow> bool \<Rightarrow> recv_run \<Rightarrow> recv_run option" where
  "return_step FromFrontend _ = proxy_return"
| "return_step FromAgent viaDone = connect_return viaDone"

text \<open>
  The goroutines of one stream, interleaved. Only the handler of a frontend returns from within
  its loop, and only an agent's connection is retired.
\<close>

inductive recv_step :: "peer \<Rightarrow> recv_run \<Rightarrow> recv_run \<Rightarrow> bool" for peer :: peer where
  reads: "read_step peer a s = Some t \<Longrightarrow> recv_step peer s t"
| handles: "handler_step early s = Some t \<Longrightarrow> early \<longrightarrow> peer = FromFrontend \<Longrightarrow> recv_step peer s t"
| returns_stop: "return_step peer viaDone s = Some t \<Longrightarrow> recv_step peer s t"
| retires: "peer = FromAgent \<Longrightarrow> \<not> rc_retired s \<Longrightarrow> recv_step peer s (s\<lparr>rc_retired := True\<rparr>)"

definition recv_init :: "recv_run \<Rightarrow> bool" where
  "recv_init s \<longleftrightarrow> (\<exists>cap. 0 < cap \<and> s = new_recv cap)"

subsection \<open>The invariant\<close>

fun in_reader :: "reader_pc \<Rightarrow> packet list" where
  "in_reader (AtSelect p) = [p]"
| "in_reader (AtFull p) = [p]"
| "in_reader _ = []"

fun counted :: "reader_pc \<Rightarrow> bool" where
  "counted (AtFull p) = True"
| "counted AtGaugeDec = True"
| "counted _ = False"

fun reading :: "reader_pc \<Rightarrow> bool" where
  "reading AtRecv = True"
| "reading (AtSelect p) = True"
| "reading (AtFull p) = True"
| "reading AtGaugeDec = True"
| "reading _ = False"

text \<open>The closes have happened, in the order of each reader.\<close>

fun recvCh_closed :: "peer \<Rightarrow> reader_pc \<Rightarrow> bool" where
  "recvCh_closed FromFrontend pc \<longleftrightarrow> pc = AtCloseStop \<or> pc = ReaderDone"
| "recvCh_closed FromAgent pc \<longleftrightarrow> pc = ReaderDone"

fun stopCh_closed :: "peer \<Rightarrow> reader_pc \<Rightarrow> bool" where
  "stopCh_closed FromFrontend pc \<longleftrightarrow> pc = ReaderDone"
| "stopCh_closed FromAgent pc \<longleftrightarrow> pc = AtCloseRecv \<or> pc = ReaderDone"

text \<open>The error that the reader has put into \<^verbatim>\<open>stopCh\<close>.\<close>

definition reported :: "recv_run \<Rightarrow> go_error list" where
  "reported s =
     (case rc_end s of
        Some err \<Rightarrow> if err \<noteq> ErrEOF \<and> rc_reader s \<in> {AtCloseRecv, AtCloseStop, ReaderDone} then [err] else []
      | None \<Rightarrow> [])"

definition data_inv :: "recv_run \<Rightarrow> bool" where
  "data_inv s \<longleftrightarrow>
     rc_received s = rc_handled s @ rc_discarded s @ rc_ch s @ in_reader (rc_reader s) \<and>
     0 < rc_cap s \<and> length (rc_ch s) \<le> rc_cap s \<and>
     rc_fullGauge s = (if counted (rc_reader s) then 1 else 0)"

definition chan_inv :: "peer \<Rightarrow> recv_run \<Rightarrow> bool" where
  "chan_inv peer s \<longleftrightarrow> \<not> rc_crashed s \<and> rc_closed s = recvCh_closed peer (rc_reader s) \<and>
     rc_stopClosed s = stopCh_closed peer (rc_reader s)"

definition end_inv :: "peer \<Rightarrow> recv_run \<Rightarrow> bool" where
  "end_inv peer s \<longleftrightarrow> (rc_end s = None \<longleftrightarrow> reading (rc_reader s)) \<and>
     (\<forall>err. rc_reader s = AtStopSend err \<longrightarrow> rc_end s = Some err \<and> err \<noteq> ErrEOF) \<and>
     (rc_reader s = AtStoreEOF \<longrightarrow> peer = FromAgent \<and> rc_end s = Some ErrEOF) \<and>
     rc_receivedEOF s = (peer = FromAgent \<and> rc_end s = Some ErrEOF \<and> rc_reader s \<noteq> AtStoreEOF)"

definition handler_inv :: "peer \<Rightarrow> recv_run \<Rightarrow> bool" where
  "handler_inv peer s \<longleftrightarrow> (rc_early s \<longrightarrow> peer = FromFrontend \<and> rc_handler s \<noteq> InLoop) \<and>
     (\<not> rc_early s \<longrightarrow> rc_discarded s = []) \<and>
     (rc_handler s = Draining \<longrightarrow> rc_early s \<or> rc_closed s \<and> rc_ch s = []) \<and>
     (rc_handler s = HandlerDone \<longrightarrow> rc_closed s \<and> rc_ch s = [])"

definition return_inv :: "peer \<Rightarrow> recv_run \<Rightarrow> bool" where
  "return_inv peer s \<longleftrightarrow>
     (case rc_returned s of
        None \<Rightarrow> rc_stop s = reported s
      | Some None \<Rightarrow> rc_stop s = reported s \<and> (rc_retired s \<or> stopCh_closed peer (rc_reader s) \<and> rc_end s = Some ErrEOF)
      | Some (Some err) \<Rightarrow> rc_stop s = [] \<and> reported s = [err]) \<and>
     (peer = FromFrontend \<longrightarrow> \<not> rc_retired s \<and> (rc_returned s \<noteq> None \<longrightarrow> rc_handler s = HandlerDone))"

definition recv_inv :: "peer \<Rightarrow> recv_run \<Rightarrow> bool" where
  "recv_inv peer s \<longleftrightarrow> data_inv s \<and> chan_inv peer s \<and> end_inv peer s \<and> handler_inv peer s \<and> return_inv peer s"

lemmas recv_inv_defs = data_inv_def chan_inv_def end_inv_def handler_inv_def return_inv_def

lemmas recv_ops = received_def ended_def try_push_def blocked_push_def send_stopCh_def
  push_recvCh_def close_recvCh_def close_stopCh_def

lemma recv_inv_init: "recv_init s \<Longrightarrow> recv_inv peer s"
  by (cases peer) (auto simp: recv_init_def new_recv_def recv_inv_def recv_inv_defs reported_def)

lemmas reader_defs = readFrontendToChannel_def readBackendToChannel_def Frontend_Recv_def Backend_Recv_def
  blocked_push_def send_stopCh_def

text \<open>The readers differ only after the stream has ended.\<close>

lemma read_shared:
  assumes "read_step peer a s = Some t"
  obtains (packet) pkt es where "rc_reader s = AtRecv" "t = received pkt es s"
  | (ends) err es where "rc_reader s = AtRecv"
      "t = ended err (if err \<noteq> ErrEOF then AtStopSend err
                      else case peer of FromFrontend \<Rightarrow> AtCloseRecv | FromAgent \<Rightarrow> AtStoreEOF) es s"
  | (select) p where "rc_reader s = AtSelect p" "t = try_push p s"
  | (full) p where "rc_reader s = AtFull p" "length (rc_ch s) < rc_cap s"
      "t = (push_recvCh p s)\<lparr>rc_reader := AtGaugeDec\<rparr>"
  | (dec) "rc_reader s = AtGaugeDec" "t = s\<lparr>rc_fullGauge := rc_fullGauge s - 1, rc_reader := AtRecv\<rparr>"
  | (stop) err where "rc_reader s = AtStopSend err"
      "t = s\<lparr>rc_stop := rc_stop s @ [err], rc_reader := case peer of FromFrontend \<Rightarrow> AtCloseRecv | FromAgent \<Rightarrow> AtCloseStop\<rparr>"
  | (storeEOF) "rc_reader s = AtStoreEOF" "peer = FromAgent" "t = s\<lparr>rc_receivedEOF := True, rc_reader := AtCloseStop\<rparr>"
  | (closeRecv) "rc_reader s = AtCloseRecv"
      "t = (close_recvCh s)\<lparr>rc_reader := case peer of FromFrontend \<Rightarrow> AtCloseStop | FromAgent \<Rightarrow> ReaderDone\<rparr>"
  | (closeStop) "rc_reader s = AtCloseStop"
      "t = (close_stopCh s)\<lparr>rc_reader := case peer of FromFrontend \<Rightarrow> ReaderDone | FromAgent \<Rightarrow> AtCloseRecv\<rparr>"
proof (cases "rc_reader s")
  case AtRecv
  show thesis
  proof (cases a)
    case (Inl err)
    with AtRecv assms show thesis
      by (cases peer) (auto simp: reader_defs intro: that(2) split: if_splits)
  next
    case (Inr pkt)
    with AtRecv assms show thesis by (cases peer) (auto simp: reader_defs intro: that(1))
  qed
next
  case (AtSelect p)
  with assms show thesis by (cases peer) (simp_all add: reader_defs that(3))
next
  case (AtFull p)
  with assms show thesis by (cases peer) (simp_all add: reader_defs that(4) split: if_splits)
next
  case AtGaugeDec
  with assms show thesis by (cases peer) (simp_all add: reader_defs that(5))
next
  case AtStoreEOF
  with assms show thesis by (cases peer) (simp_all add: reader_defs that(7))
next
  case (AtStopSend err)
  with assms show thesis by (cases peer) (simp_all add: reader_defs that(6) split: if_splits)
next
  case AtCloseRecv
  with assms show thesis by (cases peer) (simp_all add: reader_defs that(8))
next
  case AtCloseStop
  with assms show thesis by (cases peer) (simp_all add: reader_defs that(9))
next
  case ReaderDone
  with assms show thesis by (cases peer) (simp_all add: reader_defs)
qed

lemma recv_inv_read:
  assumes "recv_inv peer s" and "read_step peer a s = Some t"
  shows "recv_inv peer t"
  using assms(2)
  by (cases rule: read_shared; insert assms(1); cases peer)
    (auto simp: recv_inv_def recv_inv_defs recv_ops reported_def split: option.splits)

lemma reported_cong: "rc_end t = rc_end s \<Longrightarrow> rc_reader t = rc_reader s \<Longrightarrow> reported t = reported s"
  by (cases "rc_end s") (simp_all add: reported_def)

lemma handler_cases:
  assumes "handler_step early s = Some t"
  obtains (takes) p ps where "rc_handler s = InLoop" "rc_ch s = p # ps"
      "t = s\<lparr>rc_ch := ps, rc_handled := rc_handled s @ [p],
             rc_handler := if early then Draining else InLoop, rc_early := early\<rparr>"
  | (leaves) "rc_handler s = InLoop" "rc_ch s = []" "rc_closed s" "t = s\<lparr>rc_handler := Draining\<rparr>"
  | (discards) p ps where "rc_handler s = Draining" "rc_ch s = p # ps"
      "t = s\<lparr>rc_ch := ps, rc_discarded := rc_discarded s @ [p]\<rparr>"
  | (finishes) "rc_handler s = Draining" "rc_ch s = []" "rc_closed s" "t = s\<lparr>rc_handler := HandlerDone\<rparr>"
proof (cases "rc_handler s")
  case InLoop
  with assms that(1,2) show thesis by (cases "rc_ch s") (simp_all add: handler_step_def split: if_splits)
next
  case Draining
  with assms that(3,4) show thesis by (cases "rc_ch s") (simp_all add: handler_step_def split: if_splits)
next
  case HandlerDone
  with assms show thesis by (simp add: handler_step_def)
qed

lemma recv_inv_handle:
  assumes inv: "recv_inv peer s" and "handler_step early s = Some t" and early: "early \<longrightarrow> peer = FromFrontend"
  shows "recv_inv peer t"
proof -
  note parts = inv [unfolded recv_inv_def]
  have same: "rc_reader t = rc_reader s \<and> rc_end t = rc_end s \<and> rc_closed t = rc_closed s \<and>
      rc_stopClosed t = rc_stopClosed s \<and> rc_stop t = rc_stop s \<and> rc_returned t = rc_returned s \<and>
      rc_retired t = rc_retired s \<and> rc_receivedEOF t = rc_receivedEOF s \<and> rc_crashed t = rc_crashed s \<and>
      rc_handler s \<noteq> HandlerDone"
    using assms(2) by (cases rule: handler_cases) simp_all
  have "data_inv t" using assms(2)
    by (cases rule: handler_cases) (use parts in \<open>simp_all add: data_inv_def handler_inv_def\<close>)
  moreover have "handler_inv peer t" using assms(2)
    by (cases rule: handler_cases) (use parts early in \<open>simp_all add: handler_inv_def\<close>)
  moreover have "chan_inv peer t" "end_inv peer t" using parts same by (simp_all add: chan_inv_def end_inv_def)
  moreover have "return_inv peer t"
    using parts same reported_cong [of t s] by (simp add: return_inv_def split: option.splits)
  ultimately show ?thesis by (simp add: recv_inv_def)
qed

text \<open>Returning changes only the result and \<^verbatim>\<open>stopCh\<close>.\<close>

definition only_returns :: "recv_run \<Rightarrow> recv_run \<Rightarrow> bool" where
  "only_returns s t \<longleftrightarrow> t = s\<lparr>rc_stop := rc_stop t, rc_returned := rc_returned t\<rparr>"

lemma recv_inv_only_returns:
  assumes "recv_inv peer s" and "only_returns s t" and "return_inv peer t"
  shows "recv_inv peer t"
proof -
  from assms(2) obtain st ret where t: "t = s\<lparr>rc_stop := st, rc_returned := ret\<rparr>"
    unfolding only_returns_def by blast
  from assms(1,3) show ?thesis
    unfolding recv_inv_def by (auto simp: t data_inv_def chan_inv_def end_inv_def handler_inv_def)
qed

lemma closed_without_error:
  assumes "recv_inv peer s" and "reported s = []" and "stopCh_closed peer (rc_reader s)"
  shows "rc_end s = Some ErrEOF"
proof -
  have pc: "rc_reader s \<in> {AtCloseRecv, AtCloseStop, ReaderDone}" using assms(3) by (cases peer) auto
  then have "rc_end s \<noteq> None" using assms(1) by (auto simp: recv_inv_def end_inv_def)
  with pc assms(2) show ?thesis by (auto simp: reported_def split: if_splits)
qed

lemma recv_inv_stopCh:
  assumes "recv_inv peer s" and "recv_stopCh s = Some t" and "rc_returned s = None"
    and "peer = FromFrontend \<longrightarrow> rc_handler s = HandlerDone"
  shows "recv_inv peer t"
proof -
  have stop: "rc_stop s = reported s" and retired: "peer = FromFrontend \<longrightarrow> \<not> rc_retired s"
    and closed: "rc_stopClosed s = stopCh_closed peer (rc_reader s)"
    using assms(1,3) by (simp_all add: recv_inv_def return_inv_def chan_inv_def)
  have "only_returns s t \<and> return_inv peer t"
  proof (cases "rc_stop s")
    case Nil
    with assms(2) closed have t: "t = s\<lparr>rc_returned := Some None\<rparr>" and sc: "stopCh_closed peer (rc_reader s)"
      by (simp_all add: recv_stopCh_def split: if_splits)
    have rt: "reported t = reported s" by (rule reported_cong) (simp_all add: t)
    from closed_without_error [OF assms(1) _ sc] Nil stop have "rc_end s = Some ErrEOF" by simp
    with t sc retired assms(4) Nil stop rt show ?thesis by (simp add: only_returns_def return_inv_def)
  next
    case (Cons err es)
    with assms(2) have t: "t = s\<lparr>rc_stop := es, rc_returned := Some (Some err)\<rparr>" by (simp add: recv_stopCh_def)
    have rt: "reported t = reported s" by (rule reported_cong) (simp_all add: t)
    from Cons stop have "es = []" by (auto simp: reported_def split: option.splits if_splits)
    with t retired assms(4) Cons stop rt show ?thesis by (simp add: only_returns_def return_inv_def)
  qed
  then show ?thesis by (blast intro: recv_inv_only_returns [OF assms(1)])
qed

lemma recv_inv_return:
  assumes "recv_inv peer s" and "return_step peer viaDone s = Some t"
  shows "recv_inv peer t"
proof (cases peer)
  case FromFrontend
  with assms show ?thesis by (auto simp: proxy_return_def split: if_splits intro: recv_inv_stopCh)
next
  case FromAgent
  show ?thesis
  proof (cases viaDone)
    case True
    with FromAgent assms(2) have t: "t = s\<lparr>rc_returned := Some None\<rparr>" "rc_retired s" "rc_returned s = None"
      by (simp_all add: connect_return_def split: if_splits)
    have "reported t = reported s" by (rule reported_cong) (simp_all add: t)
    with t assms(1) FromAgent have "return_inv peer t" by (simp add: recv_inv_def return_inv_def)
    with t show ?thesis by (auto intro: recv_inv_only_returns [OF assms(1)] simp: only_returns_def)
  next
    case False
    with FromAgent assms show ?thesis
      by (auto simp: connect_return_def split: if_splits intro: recv_inv_stopCh)
  qed
qed

lemma recv_inv_retire:
  assumes "recv_inv FromAgent s" shows "recv_inv FromAgent (s\<lparr>rc_retired := True\<rparr>)" (is "recv_inv _ ?t")
proof -
  have rt: "reported ?t = reported s" by (rule reported_cong) simp_all
  have "return_inv FromAgent ?t"
    using assms unfolding recv_inv_def return_inv_def rt by (simp split: option.splits)
  with assms show ?thesis
    by (auto simp: recv_inv_def data_inv_def chan_inv_def end_inv_def handler_inv_def)
qed

lemma recv_inv_step: "recv_inv peer s \<Longrightarrow> recv_step peer s t \<Longrightarrow> recv_inv peer t"
  by (erule recv_step.cases)
    (auto intro: recv_inv_read recv_inv_handle recv_inv_return recv_inv_retire)

interpretation frontend_reader: invariant_system recv_init "recv_step FromFrontend" "recv_inv FromFrontend"
  by unfold_locales (blast intro: recv_inv_init recv_inv_step)+

interpretation agent_reader: invariant_system recv_init "recv_step FromAgent" "recv_inv FromAgent"
  by unfold_locales (blast intro: recv_inv_init recv_inv_step)+

lemma recv_reach_inv: "reach recv_init (recv_step peer) s \<Longrightarrow> recv_inv peer s"
  by (cases peer) (auto intro: frontend_reader.reach_inv agent_reader.reach_inv)

subsection \<open>After the stream has ended\<close>

fun reader_rank :: "peer \<Rightarrow> reader_pc \<Rightarrow> nat" where
  "reader_rank peer ReaderDone = 0"
| "reader_rank peer AtCloseStop = (case peer of FromFrontend \<Rightarrow> 1 | FromAgent \<Rightarrow> 2)"
| "reader_rank peer AtCloseRecv = (case peer of FromFrontend \<Rightarrow> 2 | FromAgent \<Rightarrow> 1)"
| "reader_rank peer _ = 3"

fun handler_rank :: "handler_pc \<Rightarrow> nat" where
  "handler_rank InLoop = 2"
| "handler_rank Draining = 1"
| "handler_rank HandlerDone = 0"

definition recv_measure :: "peer \<Rightarrow> recv_run \<Rightarrow> nat" where
  "recv_measure peer s = reader_rank peer (rc_reader s) + length (rc_ch s) + handler_rank (rc_handler s) +
     (if rc_returned s = None then 1 else 0) + (if rc_retired s then 0 else 1)"

lemma recv_step_measure:
  assumes "recv_inv peer s" and "rc_end s \<noteq> None" and "recv_step peer s t"
  shows "recv_measure peer t < recv_measure peer s"
  using assms(3)
proof (cases rule: recv_step.cases)
  case (reads a)
  have "\<not> reading (rc_reader s)" "\<not> rc_closed s \<or> rc_reader s \<noteq> AtCloseRecv" 
    using assms(1,2) by (cases peer; auto simp: recv_inv_def end_inv_def chan_inv_def)+
  with reads show ?thesis
    by (cases rule: read_shared; cases peer) (simp_all add: recv_measure_def close_recvCh_def close_stopCh_def)
next
  case (handles early)
  from handles(1) show ?thesis by (cases rule: handler_cases) (simp_all add: recv_measure_def)
next
  case (returns_stop viaDone)
  then show ?thesis
    by (cases peer) (auto simp: recv_measure_def proxy_return_def connect_return_def recv_stopCh_def
        split: if_splits list.splits)
next
  case retires
  then show ?thesis by (simp add: recv_measure_def)
qed

definition recv_finished :: "recv_run \<Rightarrow> bool" where
  "recv_finished s \<longleftrightarrow> rc_reader s = ReaderDone \<and> rc_handler s = HandlerDone \<and> rc_returned s \<noteq> None"

lemma reader_moves:
  assumes "recv_inv peer s" and "\<And>t. \<not> recv_step peer s t"
  shows "rc_reader s = ReaderDone \<or> (\<exists>p. rc_reader s = AtFull p) \<and> rc_ch s \<noteq> []"
proof -
  have none: "read_step peer a s = None" for a
    using assms(2) recv_step.reads [of peer a s] by (cases "read_step peer a s") auto
  have stop: "rc_stop s = []" if "rc_reader s = AtStopSend err" for err
    using assms(1) that by (auto simp: recv_inv_def return_inv_def reported_def split: option.splits)
  have eof: "peer = FromAgent" if "rc_reader s = AtStoreEOF"
    using assms(1) that by (simp add: recv_inv_def end_inv_def)
  have cap: "0 < rc_cap s" using assms(1) by (simp add: recv_inv_def data_inv_def)
  show ?thesis
    using none [of "Inl ErrEOF"] stop eof cap
    by (cases peer; cases "rc_reader s") (auto simp: reader_defs split: if_splits)
qed

lemma handler_moves:
  assumes "\<And>t. \<not> recv_step peer s t"
  shows "rc_handler s = HandlerDone \<or> rc_ch s = [] \<and> \<not> rc_closed s"
proof -
  have "handler_step False s = None"
    using assms recv_step.handles [of False s] by (cases "handler_step False s") auto
  then show ?thesis
    by (cases "rc_handler s"; cases "rc_ch s") (simp_all add: handler_step_def split: if_splits)
qed

lemma recv_stuck_finished:
  assumes inv: "recv_inv peer s" and stuck: "\<And>t. \<not> recv_step peer s t"
  shows "recv_finished s"
proof -
  from inv have closed: "rc_closed s = recvCh_closed peer (rc_reader s)"
    and stopClosed: "rc_stopClosed s = stopCh_closed peer (rc_reader s)"
    and at_end: "rc_handler s = HandlerDone \<longrightarrow> rc_closed s \<and> rc_ch s = []"
    by (auto simp: recv_inv_def chan_inv_def handler_inv_def)
  have reader: "rc_reader s = ReaderDone"
    using reader_moves [OF inv stuck] handler_moves [OF stuck] at_end by auto
  then have both: "rc_closed s" "rc_stopClosed s" using closed stopClosed by (cases peer; simp)+
  then have handler: "rc_handler s = HandlerDone" using handler_moves [OF stuck] by simp
  have "return_step peer False s = None"
    using stuck recv_step.returns_stop [of peer False s] by (cases "return_step peer False s") auto
  with both handler have "rc_returned s \<noteq> None"
    by (cases peer) (auto simp: proxy_return_def connect_return_def recv_stopCh_def split: list.splits if_splits)
  with reader handler show ?thesis by (simp add: recv_finished_def)
qed

subsection \<open>Runs\<close>

text \<open>A schedule of the goroutines, and the state it leads to when every step is possible.\<close>

datatype recv_event = Reads "go_error + packet" | Handles bool | Returns bool

fun recv_exec :: "peer \<Rightarrow> recv_event list \<Rightarrow> recv_run \<Rightarrow> recv_run option" where
  "recv_exec peer [] s = Some s"
| "recv_exec peer (e # es) s =
     (case (case e of
              Reads a \<Rightarrow> read_step peer a s
            | Handles early \<Rightarrow> if early \<longrightarrow> peer = FromFrontend then handler_step early s else None
            | Returns viaDone \<Rightarrow> return_step peer viaDone s) of
        Some t \<Rightarrow> recv_exec peer es t
      | None \<Rightarrow> None)"

lemma recv_exec_reach:
  "recv_exec peer es s = Some t \<Longrightarrow> reach recv_init (recv_step peer) s \<Longrightarrow> reach recv_init (recv_step peer) t"
proof (induction peer es s rule: recv_exec.induct)
  case (1 peer s)
  then show ?case by simp
next
  case (2 peer e es s)
  then show ?case
    by (auto split: recv_event.splits option.splits if_splits
        intro: reach_step recv_step.reads recv_step.handles recv_step.returns_stop)
qed

lemma new_recv_reach: "0 < cap \<Longrightarrow> reach recv_init (recv_step peer) (new_recv cap)"
  by (rule reach_init) (auto simp: recv_init_def)

lemma finished_no_step: "recv_finished s \<Longrightarrow> \<not> recv_step FromFrontend s t"
  by (auto simp: recv_finished_def readFrontendToChannel_def handler_step_def proxy_return_def
      elim!: recv_step.cases)

text \<open>
  An agent sends two packets through a channel for one and ends its stream; a frontend's handler
  gives up after the first of two packets.
\<close>

definition sample_data :: "string \<Rightarrow> packet" where
  "sample_data bytes = newDataPacket 1 bytes"

definition agent_schedule :: "recv_event list" where
  "agent_schedule =
     (let go = Reads (Inl ErrEOF) in
      [Reads (Inr (sample_data ''a'')), go, Reads (Inr (sample_data ''b'')), go, Handles False, go, go,
       Reads (Inl ErrEOF), go, go, Returns False])"

definition frontend_schedule :: "recv_event list" where
  "frontend_schedule =
     (let go = Reads (Inl ErrEOF) in
      [Reads (Inr (sample_data ''a'')), go, Handles True, Reads (Inr (sample_data ''b'')), go, Handles False,
       Reads (Inl ErrCanceled), go, go, go, Handles False, Returns False])"

definition run_of :: "peer \<Rightarrow> recv_event list \<Rightarrow> recv_run" where
  "run_of peer es = the (recv_exec peer es (new_recv 1))"

lemma sample_runs:
  "reach recv_init (recv_step FromAgent) (run_of FromAgent agent_schedule)"
  "reach recv_init (recv_step FromFrontend) (run_of FromFrontend frontend_schedule)"
proof -
  have "recv_exec FromAgent agent_schedule (new_recv 1) = Some (run_of FromAgent agent_schedule)"
    "recv_exec FromFrontend frontend_schedule (new_recv 1) = Some (run_of FromFrontend frontend_schedule)"
    by code_simp+
  then show "reach recv_init (recv_step FromAgent) (run_of FromAgent agent_schedule)"
    "reach recv_init (recv_step FromFrontend) (run_of FromFrontend frontend_schedule)"
    by (auto intro: recv_exec_reach new_recv_reach)
qed

subsection \<open>Properties\<close>

text \<open>
  C5. Packets reach the handler of a stream in the order in which the stream delivered them, in
  every interleaving of the reader, the handler and the caller: what was handled, then what was
  discarded, then the channel, then the packet in the reader's hand is exactly what was received.
  The channel never exceeds its capacity, the gauge of full channels counts exactly the reader
  that waits, and nothing is closed twice or sent on a closed channel. Packets are discarded only
  when the handler of a frontend has given up, never from an agent; \<^verbatim>\<open>proxy\<close> returns after every
  packet has been handled or discarded. The result is the error that ended the stream, nil at a
  clean end or when the agent's connection was retired. At a clean end the flag that lets the
  frontends drain is set before \<^verbatim>\<open>connect\<close> can return, so no frontend is cut off; otherwise they are.
\<close>

theorem packets_delivered:
  assumes "reach recv_init (recv_step peer) s"
  shows "rc_received s = rc_handled s @ rc_discarded s @ rc_ch s @ in_reader (rc_reader s) \<and>
    length (rc_ch s) \<le> rc_cap s \<and> rc_fullGauge s = (if counted (rc_reader s) then 1 else 0) \<and> \<not> rc_crashed s \<and>
    (rc_discarded s \<noteq> [] \<longrightarrow> peer = FromFrontend \<and> rc_early s) \<and>
    (\<forall>r. rc_returned s = Some r \<longrightarrow>
       (peer = FromFrontend \<longrightarrow> rc_received s = rc_handled s @ rc_discarded s) \<and>
       (case r of
          Some err \<Rightarrow> err \<noteq> ErrEOF \<and> rc_end s = Some err \<and> (closeWithBackend closer s \<longleftrightarrow> closer)
        | None \<Rightarrow> rc_retired s \<or> rc_end s = Some ErrEOF \<and> (peer = FromAgent \<longrightarrow> \<not> closeWithBackend closer s)))"
proof -
  have inv: "data_inv s" "chan_inv peer s" "end_inv peer s" "handler_inv peer s" "return_inv peer s"
    using recv_reach_inv [OF assms] by (simp_all add: recv_inv_def)
  have "rc_received s = rc_handled s @ rc_discarded s" if "rc_returned s = Some r" "peer = FromFrontend" for r
  proof -
    have "rc_handler s = HandlerDone" using inv(5) that by (simp add: return_inv_def)
    then have "rc_closed s" "rc_ch s = []" using inv(4) by (simp_all add: handler_inv_def)
    moreover from this(1) have "in_reader (rc_reader s) = []" using inv(2) that(2) by (auto simp: chan_inv_def)
    ultimately show ?thesis using inv(1) by (simp add: data_inv_def)
  qed
  moreover have "err \<noteq> ErrEOF \<and> rc_end s = Some err \<and> (closeWithBackend closer s \<longleftrightarrow> closer)"
    if "rc_returned s = Some (Some err)" for err
    using inv(3,5) that
    by (auto simp: return_inv_def reported_def end_inv_def closeWithBackend_def split: option.splits if_splits)
  moreover have "rc_retired s \<or> rc_end s = Some ErrEOF \<and> (peer = FromAgent \<longrightarrow> \<not> closeWithBackend closer s)"
    if "rc_returned s = Some None"
  proof (cases "rc_retired s")
    case False
    with inv(5) that have "rc_end s = Some ErrEOF" "stopCh_closed peer (rc_reader s)"
      by (simp_all add: return_inv_def)
    with inv(3) show ?thesis by (auto simp: end_inv_def closeWithBackend_def)
  qed simp
  ultimately show ?thesis
    using inv(1,2,4) by (simp add: data_inv_def chan_inv_def handler_inv_def split: option.split) blast
qed

theorem packets_delivered_witness:
  "rc_received (run_of FromAgent agent_schedule) = [sample_data ''a'', sample_data ''b''] \<and>
   rc_handled (run_of FromAgent agent_schedule) = [sample_data ''a''] \<and>
   rc_ch (run_of FromAgent agent_schedule) = [sample_data ''b''] \<and>
   \<not> closeWithBackend True (run_of FromAgent agent_schedule)"
proof -
  have run: "rc_returned (run_of FromAgent agent_schedule) = Some None"
    "\<not> rc_retired (run_of FromAgent agent_schedule)" "rc_handled (run_of FromAgent agent_schedule) = [sample_data ''a'']"
    "rc_ch (run_of FromAgent agent_schedule) = [sample_data ''b'']" "rc_discarded (run_of FromAgent agent_schedule) = []"
    "in_reader (rc_reader (run_of FromAgent agent_schedule)) = []"
    by code_simp+
  with packets_delivered [OF sample_runs(1), of True] show ?thesis by simp
qed



end
