(* ===== verification/KNP_Checks.thy ===== *)
theory KNP_Checks
  imports KNP_Prelude
begin

section \<open>Sequences of checks\<close>

text \<open>
  The validations of the commands' options are sequences of tests with early returns: the first
  that fails is the result. The checks both commands share are here: a private key comes with a
  certificate, and named files exist. \<open>verb\<close> is how a message quotes a path.
\<close>

fun first_failure :: "go_error option list \<Rightarrow> go_error option" where
  "first_failure [] = None"
| "first_failure (None # rs) = first_failure rs"
| "first_failure (Some err # rs) = Some err"

definition fails :: "bool \<Rightarrow> string \<Rightarrow> go_error option" where
  "fails bad msg = (if bad then Some (ErrText msg) else None)"

lemma first_failure_None: "first_failure rs = None \<longleftrightarrow> (\<forall>r \<in> set rs. r = None)"
  by (induction rs rule: first_failure.induct) auto

lemma first_failure_Cons: "first_failure (r # rs) = None \<longleftrightarrow> r = None \<and> first_failure rs = None"
  by (cases r) simp_all

lemma first_failure_append: "first_failure (xs @ ys) = None \<longleftrightarrow> first_failure xs = None \<and> first_failure ys = None"
  by (auto simp: first_failure_None)

lemmas first_failure_simps = first_failure_Cons first_failure_append

lemma fails_None [simp]: "fails bad msg = None \<longleftrightarrow> \<not> bad"
  by (simp add: fails_def)

definition key_pair_checks :: "(string \<Rightarrow> bool) \<Rightarrow> string \<Rightarrow> string \<Rightarrow> string \<Rightarrow> string \<Rightarrow> go_error option list" where
  "key_pair_checks exists verb who key cert =
     [fails (key \<noteq> [] \<and> \<not> exists key) (''error checking '' @ who @ '' key %s, got %v''),
      fails (key \<noteq> [] \<and> cert = []) (''cannot have '' @ who @ '' cert empty when '' @ who @ '' key is set to '' @ verb),
      fails (cert \<noteq> [] \<and> \<not> exists cert) (''error checking '' @ who @ '' cert %s, got %v''),
      fails (cert \<noteq> [] \<and> key = []) (''cannot have '' @ who @ '' key empty when '' @ who @ '' cert is set to '' @ verb)]"

definition file_ok :: "(string \<Rightarrow> bool) \<Rightarrow> string \<Rightarrow> bool" where
  "file_ok exists path \<longleftrightarrow> path = [] \<or> exists path"

lemma fails_file: "fails (path \<noteq> [] \<and> \<not> exists path) msg = None \<longleftrightarrow> file_ok exists path"
  by (auto simp: file_ok_def)

lemma fails_le: "fails (x \<le> y) msg = None \<longleftrightarrow> y < x" for x y :: int
  by auto

lemma fails_less: "fails (x < y) msg = None \<longleftrightarrow> y \<le> x" for x y :: int
  by auto

lemma key_pair_checked:
  "first_failure (key_pair_checks exists verb who key cert) = None \<longleftrightarrow>
   file_ok exists key \<and> file_ok exists cert \<and> (key = [] \<longleftrightarrow> cert = [])"
  by (auto simp: key_pair_checks_def first_failure_simps file_ok_def)

end
