(* ===== verification/KNP_ServerApp.thy ===== *)
theory KNP_ServerApp
  imports KNP_Server KNP_Checks
begin

section \<open>The server process: options, start and shutdown\<close>

text \<open>
  \<^verbatim>\<open>ProxyRunOptions\<close> of \<^verbatim>\<open>cmd/server/app/options/options.go\<close> with its defaults and its validation,
  and \<^verbatim>\<open>Proxy.Run\<close> of \<^verbatim>\<open>cmd/server/app/server.go\<close>: which servers it starts from the options, with
  which authentication and which strategies, and which it stops. \<open>exists\<close> says which files
  \<^verbatim>\<open>os.Stat\<close> finds, \<open>accepted\<close> is the table of cipher suites of \<^verbatim>\<open>crypto/tls\<close>; what listening, loading
  certificates and building the Kubernetes client return are fields of \<open>run_env\<close>. An error built
  with \<^verbatim>\<open>fmt.Errorf\<close> has the text of its format. The client's QPS, burst and content type are
  passed on to the Kubernetes client only; a \<^verbatim>\<open>float32\<close> is its IEEE 754 bits.
\<close>

subsection \<open>Options\<close>

type_synonym float32 = nat

record server_options =
  so_ServerCert :: string
  so_ServerKey :: string
  so_ServerCaCert :: string
  so_ClusterCert :: string
  so_ClusterKey :: string
  so_ClusterCaCert :: string
  so_Mode :: string
  so_UdsName :: string
  so_DeleteUDSFile :: bool
  so_ServerPort :: int
  so_ServerBindAddress :: string
  so_AgentPort :: int
  so_AgentBindAddress :: string
  so_AdminPort :: int
  so_AdminBindAddress :: string
  so_HealthPort :: int
  so_HealthBindAddress :: string
  so_KeepaliveTime :: duration
  so_KeepaliveTimeout :: duration
  so_FrontendKeepaliveTime :: duration
  so_EnableProfiling :: bool
  so_EnableContentionProfiling :: bool
  so_ServerID :: string
  so_ServerCount :: int
  so_AgentNamespace :: string
  so_AgentServiceAccount :: string
  so_AuthenticationAudience :: string
  so_KubeconfigPath :: string
  so_ProxyStrategies :: string
  so_CipherSuites :: "string list"
  so_TLSMinVersion :: string
  so_XfrChannelSize :: int
  so_FrontendWriteChannelSize :: int
  so_EnableLeaseController :: bool
  so_LeaseNamespace :: string
  so_LeaseLabel :: string
  so_NeedsKubernetesClient :: bool
  so_GracefulShutdownTimeout :: duration
  so_BackendDialTimeout :: duration
  so_KubeconfigQPS :: float32
  so_KubeconfigBurst :: int
  so_APIContentType :: string

definition ModeGRPC :: string where "ModeGRPC = ''grpc''"
definition ModeHTTPConnect :: string where "ModeHTTPConnect = ''http-connect''"

text \<open>\<open>env\<close> is the value of \<^verbatim>\<open>PROXY_SERVER_ID\<close>, \<open>uuid\<close> a fresh UUID.\<close>

definition defaultServerID :: "string \<Rightarrow> string \<Rightarrow> string" where
  "defaultServerID env uuid = (if env \<noteq> [] then env else uuid)"

definition NewProxyRunOptions :: "string \<Rightarrow> string \<Rightarrow> server_options" where
  "NewProxyRunOptions env uuid =
     \<lparr>so_ServerCert = [], so_ServerKey = [], so_ServerCaCert = [], so_ClusterCert = [],
      so_ClusterKey = [], so_ClusterCaCert = [], so_Mode = ModeGRPC, so_UdsName = [],
      so_DeleteUDSFile = True, so_ServerPort = 8090, so_ServerBindAddress = [], so_AgentPort = 8091,
      so_AgentBindAddress = [], so_AdminPort = 8095, so_AdminBindAddress = ''127.0.0.1'',
      so_HealthPort = 8092, so_HealthBindAddress = [], so_KeepaliveTime = 3600 * Second,
      so_KeepaliveTimeout = 20 * Second, so_FrontendKeepaliveTime = 3600 * Second,
      so_EnableProfiling = False, so_EnableContentionProfiling = False,
      so_ServerID = defaultServerID env uuid, so_ServerCount = 1, so_AgentNamespace = [],
      so_AgentServiceAccount = [], so_AuthenticationAudience = [], so_KubeconfigPath = [],
      so_ProxyStrategies = ''default'', so_CipherSuites = [], so_TLSMinVersion = [],
      so_XfrChannelSize = 10, so_FrontendWriteChannelSize = 10, so_EnableLeaseController = False,
      so_LeaseNamespace = ''kube-system'', so_LeaseLabel = ''k8s-app=konnectivity-server'',
      so_NeedsKubernetesClient = False, so_GracefulShutdownTimeout = 0, so_BackendDialTimeout = 0,
      so_KubeconfigQPS = 0, so_KubeconfigBurst = 0, so_APIContentType = ''application/vnd.kubernetes.protobuf''\<rparr>"

subsection \<open>Validation\<close>

definition usingServiceAccountAuth :: "server_options \<Rightarrow> bool" where
  "usingServiceAccountAuth opts \<longleftrightarrow>
     so_AgentNamespace opts \<noteq> [] \<or> so_AgentServiceAccount opts \<noteq> [] \<or> so_AuthenticationAudience opts \<noteq> []"

definition file_checks :: "(string \<Rightarrow> bool) \<Rightarrow> server_options \<Rightarrow> go_error option list" where
  "file_checks exists opts =
     key_pair_checks exists ''%q'' ''server'' (so_ServerKey opts) (so_ServerCert opts) @
     [fails (so_ServerCaCert opts \<noteq> [] \<and> \<not> exists (so_ServerCaCert opts))
        ''error checking server CA cert %s, got %v''] @
     key_pair_checks exists ''%q'' ''cluster'' (so_ClusterKey opts) (so_ClusterCert opts) @
     [fails (so_ClusterCaCert opts \<noteq> [] \<and> \<not> exists (so_ClusterCaCert opts))
        ''error checking cluster CA cert %s, got %v'']"

definition transport_checks :: "server_options \<Rightarrow> go_error option list" where
  "transport_checks opts =
     [fails (so_Mode opts \<noteq> ModeGRPC \<and> so_Mode opts \<noteq> ModeHTTPConnect)
        ''mode must be set to either 'grpc' or 'http-connect' not %q'',
      fails (so_UdsName opts \<noteq> [] \<and> so_ServerPort opts \<noteq> 0) ''server port should be set to 0 not %d for UDS'',
      fails (so_UdsName opts \<noteq> [] \<and> so_ServerKey opts \<noteq> []) ''server key should not be set for UDS'',
      fails (so_UdsName opts \<noteq> [] \<and> so_ServerCert opts \<noteq> []) ''server cert should not be set for UDS'',
      fails (so_UdsName opts \<noteq> [] \<and> so_ServerCaCert opts \<noteq> []) ''server ca cert should not be set for UDS'',
      fails (so_UdsName opts = [] \<and> so_ServerCaCert opts = [])
        ''server ca cert must be set when in TCP mode (uds-name is empty)'']"

definition port_checks :: "server_options \<Rightarrow> go_error option list" where
  "port_checks opts =
     [fails (so_ServerPort opts > 49151) ''please do not try to use ephemeral port %d for the server port'',
      fails (so_AgentPort opts > 49151) ''please do not try to use ephemeral port %d for the agent port'',
      fails (so_AdminPort opts > 49151) ''please do not try to use ephemeral port %d for the admin port'',
      fails (so_HealthPort opts > 49151) ''please do not try to use ephemeral port %d for the health port'',
      fails (so_ServerPort opts < 1024 \<and> so_UdsName opts = [])
        ''please do not try to use reserved port %d for the server port'',
      fails (so_AgentPort opts < 1024) ''please do not try to use reserved port %d for the agent port'',
      fails (so_AdminPort opts < 1024) ''please do not try to use reserved port %d for the admin port'',
      fails (so_HealthPort opts < 1024) ''please do not try to use reserved port %d for the health port'',
      fails (so_EnableContentionProfiling opts \<and> \<not> so_EnableProfiling opts)
        ''if --enable-contention-profiling is set, --enable-profiling must also be set'']"

definition auth_checks :: "(string \<Rightarrow> bool) \<Rightarrow> server_options \<Rightarrow> go_error option list" where
  "auth_checks exists opts =
     (let auth = usingServiceAccountAuth opts in
     [fails (auth \<and> so_ClusterCaCert opts \<noteq> [])
        ''--cluster-ca-cert can not be used when agent authentication is enabled'',
      fails (auth \<and> so_AgentNamespace opts = [])
        ''--agent-namespace cannot be empty when agent authentication is enabled'',
      fails (auth \<and> so_AgentServiceAccount opts = [])
        ''--agent-service-account cannot be empty when agent authentication is enabled'',
      fails (auth \<and> so_AuthenticationAudience opts = [])
        ''--authentication-audience cannot be empty when agent authentication is enabled'',
      fails (so_KubeconfigPath opts \<noteq> [] \<and> \<not> exists (so_KubeconfigPath opts))
        ''checking KubeconfigPath %q, got %v''])"

definition behaviour_checks :: "(string, nat) gomap \<Rightarrow> server_options \<Rightarrow> go_error option list" where
  "behaviour_checks accepted opts =
     [fails (length (so_ProxyStrategies opts) = 0) ''ProxyStrategies cannot be empty'',
      (case ParseProxyStrategies (so_ProxyStrategies opts) of
         Inl err \<Rightarrow> Some (ErrText (''invalid proxy strategies: '' @ error_string err)) | Inr ps \<Rightarrow> None),
      fails (so_XfrChannelSize opts \<le> 0) ''channel size %d must be greater than 0'',
      fails (so_FrontendWriteChannelSize opts < 0) ''frontend write channel size %d must be non-negative'',
      (if so_TLSMinVersion opts \<noteq> [] then
         (case GetTLSVersion (so_TLSMinVersion opts) of Inl err \<Rightarrow> Some err | Inr v \<Rightarrow> None)
       else None),
      fails (\<exists>cipher \<in> set (so_CipherSuites opts). gm_get accepted cipher = None)
        ''cipher suite %s not supported, doesn't exist or considered as insecure'',
      (if so_EnableLeaseController opts then
         (case ParseLabels (so_LeaseLabel opts) of Inl err \<Rightarrow> Some err | Inr ls \<Rightarrow> None)
       else None),
      fails (so_KeepaliveTimeout opts \<le> 0) ''keepalive-timeout must be > 0, got %v'',
      fails (so_GracefulShutdownTimeout opts < 0) ''graceful-shutdown-timeout must be >= 0, got %v'',
      fails (so_BackendDialTimeout opts < 0) ''backend-dial-timeout must be >= 0, got %v'']"

definition server_Validate ::
  "(string \<Rightarrow> bool) \<Rightarrow> (string, nat) gomap \<Rightarrow> server_options \<Rightarrow> go_error option \<times> server_options" where
  "server_Validate exists accepted opts =
     (case first_failure (file_checks exists opts @ transport_checks opts @ port_checks opts @
             auth_checks exists opts @ behaviour_checks accepted opts) of
        Some err \<Rightarrow> (Some err, opts)
      | None \<Rightarrow>
          (None, opts\<lparr>so_NeedsKubernetesClient :=
                    usingServiceAccountAuth opts \<or> so_EnableLeaseController opts\<rparr>))"


text \<open>What the options must satisfy, said without an order of tests.\<close>

definition port_ok :: "int \<Rightarrow> bool" where
  "port_ok port \<longleftrightarrow> 1024 \<le> port \<and> port \<le> 49151"

definition files_ok :: "(string \<Rightarrow> bool) \<Rightarrow> server_options \<Rightarrow> bool" where
  "files_ok exists opts \<longleftrightarrow>
     list_all (file_ok exists) [so_ServerKey opts, so_ServerCert opts, so_ServerCaCert opts,
       so_ClusterKey opts, so_ClusterCert opts, so_ClusterCaCert opts, so_KubeconfigPath opts] \<and>
     (so_ServerKey opts = [] \<longleftrightarrow> so_ServerCert opts = []) \<and>
     (so_ClusterKey opts = [] \<longleftrightarrow> so_ClusterCert opts = [])"

definition listeners_ok :: "server_options \<Rightarrow> bool" where
  "listeners_ok opts \<longleftrightarrow> so_Mode opts \<in> {ModeGRPC, ModeHTTPConnect} \<and>
     (if so_UdsName opts = [] then so_ServerCaCert opts \<noteq> [] \<and> port_ok (so_ServerPort opts)
      else so_ServerPort opts = 0 \<and> so_ServerKey opts = [] \<and> so_ServerCert opts = [] \<and> so_ServerCaCert opts = []) \<and>
     list_all port_ok [so_AgentPort opts, so_AdminPort opts, so_HealthPort opts]"

definition auth_ok :: "server_options \<Rightarrow> bool" where
  "auth_ok opts \<longleftrightarrow>
     so_AgentNamespace opts = [] \<and> so_AgentServiceAccount opts = [] \<and> so_AuthenticationAudience opts = [] \<or>
     so_AgentNamespace opts \<noteq> [] \<and> so_AgentServiceAccount opts \<noteq> [] \<and> so_AuthenticationAudience opts \<noteq> [] \<and>
     so_ClusterCaCert opts = []"

definition behaviour_ok :: "(string, nat) gomap \<Rightarrow> server_options \<Rightarrow> bool" where
  "behaviour_ok accepted opts \<longleftrightarrow>
     \<not> isl (ParseProxyStrategies (so_ProxyStrategies opts)) \<and>
     \<not> isl (GetTLSVersion (so_TLSMinVersion opts)) \<and>
     list_all (\<lambda>cipher. gm_get accepted cipher \<noteq> None) (so_CipherSuites opts) \<and>
     (so_EnableLeaseController opts \<longrightarrow> \<not> isl (ParseLabels (so_LeaseLabel opts))) \<and>
     (so_EnableContentionProfiling opts \<longrightarrow> so_EnableProfiling opts) \<and>
     0 < so_XfrChannelSize opts \<and> 0 \<le> so_FrontendWriteChannelSize opts \<and> 0 < so_KeepaliveTimeout opts \<and>
     0 \<le> so_GracefulShutdownTimeout opts \<and> 0 \<le> so_BackendDialTimeout opts"

lemma GetTLSVersion_Nil: "GetTLSVersion [] = Inr 771"
  by (simp add: GetTLSVersion_def)

lemma ParseProxyStrategies_Nil: "\<exists>err. ParseProxyStrategies [] = Inl err"
  by (simp add: ParseProxyStrategies_def)

lemma files_checked:
  "first_failure (file_checks exists opts) = None \<and>
     (so_KubeconfigPath opts = [] \<or> exists (so_KubeconfigPath opts)) \<longleftrightarrow> files_ok exists opts"
  by (auto simp: first_failure_simps file_checks_def key_pair_checked files_ok_def file_ok_def)

lemma auth_checked:
  "first_failure (auth_checks exists opts) = None \<longleftrightarrow>
   auth_ok opts \<and> (so_KubeconfigPath opts = [] \<or> exists (so_KubeconfigPath opts))"
  by (auto simp: first_failure_simps auth_checks_def Let_def usingServiceAccountAuth_def auth_ok_def)

lemma ports_checked:
  "first_failure (transport_checks opts @ port_checks opts) = None \<longleftrightarrow>
   listeners_ok opts \<and> (so_EnableContentionProfiling opts \<longrightarrow> so_EnableProfiling opts)"
  by (auto simp: first_failure_simps transport_checks_def port_checks_def listeners_ok_def port_ok_def)

lemma behaviour_checked:
  "first_failure (behaviour_checks accepted opts) = None \<and>
     (so_EnableContentionProfiling opts \<longrightarrow> so_EnableProfiling opts) \<longleftrightarrow> behaviour_ok accepted opts"
proof -
  have "so_ProxyStrategies opts \<noteq> []" if "ParseProxyStrategies (so_ProxyStrategies opts) = Inr ps" for ps
    using that ParseProxyStrategies_Nil by auto
  moreover have "so_TLSMinVersion opts \<noteq> []" if "GetTLSVersion (so_TLSMinVersion opts) = Inl err" for err
    using that GetTLSVersion_Nil by auto
  ultimately show ?thesis
    unfolding behaviour_checks_def behaviour_ok_def list_all_iff
    by (cases "ParseProxyStrategies (so_ProxyStrategies opts)"; cases "GetTLSVersion (so_TLSMinVersion opts)";
        cases "ParseLabels (so_LeaseLabel opts)"; cases "so_EnableLeaseController opts")
      (auto simp: first_failure_simps)
qed

definition server_options_ok :: "(string \<Rightarrow> bool) \<Rightarrow> (string, nat) gomap \<Rightarrow> server_options \<Rightarrow> bool" where
  "server_options_ok exists accepted opts \<longleftrightarrow>
     files_ok exists opts \<and> listeners_ok opts \<and> auth_ok opts \<and> behaviour_ok accepted opts"

lemma server_Validate_cases:
  shows "server_options_ok exists accepted opts \<Longrightarrow> server_Validate exists accepted opts =
      (None, opts\<lparr>so_NeedsKubernetesClient := usingServiceAccountAuth opts \<or> so_EnableLeaseController opts\<rparr>)"
    and "\<not> server_options_ok exists accepted opts \<Longrightarrow> \<exists>err. server_Validate exists accepted opts = (Some err, opts)"
proof -
  have "first_failure (file_checks exists opts @ transport_checks opts @ port_checks opts @
          auth_checks exists opts @ behaviour_checks accepted opts) = None \<longleftrightarrow>
      server_options_ok exists accepted opts"
    using files_checked [of exists opts] auth_checked [of exists opts] ports_checked [of opts]
      behaviour_checked [of accepted opts]
    by (auto simp: first_failure_append server_options_ok_def)
  then show "server_options_ok exists accepted opts \<Longrightarrow> server_Validate exists accepted opts =
      (None, opts\<lparr>so_NeedsKubernetesClient := usingServiceAccountAuth opts \<or> so_EnableLeaseController opts\<rparr>)"
    and "\<not> server_options_ok exists accepted opts \<Longrightarrow> \<exists>err. server_Validate exists accepted opts = (Some err, opts)"
    by (auto simp: server_Validate_def split: option.split)
qed

text \<open>
  C30. The validation of the server's options accepts exactly the options that satisfy the
  declarative rules, whatever the order of its tests: all named files exist and keys come with
  certificates; a listener is either a socket without port and certificates or a TCP port with a
  client CA; the ports are neither reserved nor ephemeral; token authentication of agents is
  configured completely or not at all, and then without a client CA for agents; and strategies,
  TLS version, ciphers, lease label, sizes and times are well formed. Only then the need for a
  Kubernetes client is recorded, and nothing else is changed.
\<close>

theorem server_Validate_exact:
  "(fst (server_Validate exists accepted opts) = None \<longleftrightarrow> server_options_ok exists accepted opts) \<and>
   snd (server_Validate exists accepted opts) =
     (if server_options_ok exists accepted opts
      then opts\<lparr>so_NeedsKubernetesClient := usingServiceAccountAuth opts \<or> so_EnableLeaseController opts\<rparr>
      else opts)"
proof (cases "server_options_ok exists accepted opts")
  case True
  then show ?thesis by (simp add: server_Validate_cases(1))
next
  case False
  then obtain err where "server_Validate exists accepted opts = (Some err, opts)"
    using server_Validate_cases(2) by blast
  with False show ?thesis by simp
qed

subsection \<open>Starting\<close>

text \<open>
  A TLS configuration, as far as the code chooses it: whether a client certificate is required
  and verified, the lowest version and the cipher suites (empty: the default ones).
\<close>

record tls_config =
  tc_requireClientCert :: bool
  tc_minVersion :: nat
  tc_cipherSuites :: "nat list"

definition tlsCipherSuites :: "(string, nat) gomap \<Rightarrow> string list \<Rightarrow> nat list" where
  "tlsCipherSuites accepted names =
     map (\<lambda>cipher. case gm_get accepted cipher of Some i \<Rightarrow> i | None \<Rightarrow> 0) names"

text \<open>\<open>pairErr\<close> and \<open>poolErr\<close>: what loading the key pair and the CA pool returns.\<close>

definition getTLSConfig ::
  "(string, nat) gomap \<Rightarrow> go_error option \<Rightarrow> go_error option \<Rightarrow> string \<Rightarrow> string list \<Rightarrow> string
     \<Rightarrow> go_error + tls_config" where
  "getTLSConfig accepted pairErr poolErr caFile cipherSuites tlsMinVersion =
     (if pairErr \<noteq> None then Inl (ErrText ''failed to load X509 key pair %s and %s: %v'')
      else
        case GetTLSVersion tlsMinVersion of
          Inl err \<Rightarrow> Inl (ErrText (''failed to parse TLS min version: '' @ error_string err))
        | Inr minVersion \<Rightarrow>
            if caFile = [] then
              Inr \<lparr>tc_requireClientCert = False, tc_minVersion = minVersion,
                   tc_cipherSuites = tlsCipherSuites accepted cipherSuites\<rparr>
            else if poolErr \<noteq> None then Inl (ErrText ''failed to load CA cert: %w'')
            else
              Inr \<lparr>tc_requireClientCert = True, tc_minVersion = minVersion,
                   tc_cipherSuites = tlsCipherSuites accepted cipherSuites\<rparr>)"

record run_env =
  re_kubeConfig :: "go_error option"
  re_kubeClient :: "go_error option"
  re_serverPair :: "go_error option"
  re_serverPool :: "go_error option"
  re_serverListen :: "go_error option"
  re_clusterPair :: "go_error option"
  re_clusterPool :: "go_error option"
  re_agentListen :: "go_error option"
  re_timedOut :: bool

datatype stop_func = GRPCGracefulStop | HTTPShutdown

datatype part = FrontendServer | AgentServer | LeaseController | AdminServer | HealthServer

datatype run_event = Starts part | Drains part | Stops part

text \<open>
  The frontend listens on a Unix socket, with no TLS, or on TCP; the last component is the end of
  the serving goroutine. In http-connect mode that goroutine opens the listener itself and only
  logs an error; on a Unix socket it then goes on with the nil listener.
\<close>

definition udsHttpFrontend :: "run_env \<Rightarrow> unit outcome" where
  "udsHttpFrontend env = (if re_serverListen env \<noteq> None then Panic nil_deref else Ret ())"

definition runUDSFrontendServer :: "run_env \<Rightarrow> server_options \<Rightarrow> go_error + stop_func \<times> tls_config option \<times> unit outcome" where
  "runUDSFrontendServer env opts =
     (if so_Mode opts = ModeGRPC then
        (if re_serverListen env \<noteq> None then Inl (ErrText ''failed to get uds listener: %v'')
         else Inr (GRPCGracefulStop, None, Ret ()))
      else Inr (HTTPShutdown, None, udsHttpFrontend env))"

definition runMTLSFrontendServer ::
  "(string, nat) gomap \<Rightarrow> run_env \<Rightarrow> server_options \<Rightarrow> go_error + stop_func \<times> tls_config option \<times> unit outcome" where
  "runMTLSFrontendServer accepted env opts =
     (case getTLSConfig accepted (re_serverPair env) (re_serverPool env) (so_ServerCaCert opts)
             (so_CipherSuites opts) (so_TLSMinVersion opts) of
        Inl err \<Rightarrow> Inl err
      | Inr tls \<Rightarrow>
          if so_Mode opts = ModeGRPC then
            (if re_serverListen env \<noteq> None then Inl (ErrText ''failed to listen on %s: %v'')
             else Inr (GRPCGracefulStop, Some tls, Ret ()))
          else Inr (HTTPShutdown, Some tls, Ret ()))"

definition runFrontendServer ::
  "(string, nat) gomap \<Rightarrow> run_env \<Rightarrow> server_options \<Rightarrow> go_error + stop_func \<times> tls_config option \<times> unit outcome" where
  "runFrontendServer accepted env opts =
     (if so_UdsName opts \<noteq> [] then runUDSFrontendServer env opts
      else runMTLSFrontendServer accepted env opts)"

definition runAgentServer :: "(string, nat) gomap \<Rightarrow> run_env \<Rightarrow> server_options \<Rightarrow> go_error + tls_config" where
  "runAgentServer accepted env opts =
     (case getTLSConfig accepted (re_clusterPair env) (re_clusterPool env) (so_ClusterCaCert opts)
             (so_CipherSuites opts) (so_TLSMinVersion opts) of
        Inl err \<Rightarrow> Inl err
      | Inr tls \<Rightarrow>
          if re_agentListen env \<noteq> None then Inl (ErrText ''failed to listen on %s: %v'') else Inr tls)"

definition authOpt :: "server_options \<Rightarrow> auth_options" where
  "authOpt opts =
     \<lparr>ao_enabled = so_AgentNamespace opts \<noteq> [], ao_namespace = so_AgentNamespace opts,
      ao_serviceAccount = so_AgentServiceAccount opts, ao_audience = so_AuthenticationAudience opts\<rparr>"

subsection \<open>Shutdown\<close>

text \<open>
  With a timeout the four servers drain concurrently; \<open>timedOut\<close>: the deadline came before they
  were done. Without one they are stopped at once, but for the frontend, whose stop function is
  called as in the other case.
\<close>

definition Run_shutdown :: "server_options \<Rightarrow> bool \<Rightarrow> bool \<Rightarrow> run_event list" where
  "Run_shutdown opts lease timedOut =
     (let stopLease = (if lease then [Stops LeaseController] else []) in
      if so_GracefulShutdownTimeout opts = 0 then
        [Stops HealthServer, Stops AdminServer] @ stopLease @ [Stops AgentServer, Drains FrontendServer]
      else
        [Drains FrontendServer, Drains AgentServer, Drains AdminServer, Drains HealthServer] @
        (if timedOut then [Stops AgentServer, Stops AdminServer, Stops HealthServer] else []) @ stopLease)"

record run_result =
  rr_error :: "go_error option"
  rr_server :: "world option"
  rr_frontendTLS :: "tls_config option"
  rr_agentTLS :: "tls_config option"
  rr_serving :: "unit outcome"
  rr_events :: "run_event list"

definition stopped_early :: "string \<Rightarrow> go_error \<Rightarrow> run_event list \<Rightarrow> run_result" where
  "stopped_early msg err evs =
     \<lparr>rr_error = Some (ErrText (msg @ error_string err)), rr_server = None, rr_frontendTLS = None,
      rr_agentTLS = None, rr_serving = Ret (), rr_events = evs\<rparr>"

text \<open>\<open>r\<close>, \<open>oracle\<close> and \<open>h\<close> are the new server's random numbers, environment and heap.\<close>

definition Run_servers ::
  "(string, nat) gomap \<Rightarrow> rng \<Rightarrow> (nat \<Rightarrow> answer) \<Rightarrow> bheap \<Rightarrow> run_env \<Rightarrow> server_options
     \<Rightarrow> run_result outcome" where
  "Run_servers accepted r oracle h env opts =
     (case ParseProxyStrategies (so_ProxyStrategies opts) of
        Inl err \<Rightarrow> Ret (stopped_early [] err [])
      | Inr ps \<Rightarrow>
      bind_outcome (NewProxyServer ps (authOpt opts) r oracle h) (\<lambda>w.
      case runFrontendServer accepted env opts of
        Inl err \<Rightarrow> Ret (stopped_early ''failed to run the frontend server: '' err [])
      | Inr (stop, frontTLS, serving) \<Rightarrow>
      case runAgentServer accepted env opts of
        Inl err \<Rightarrow> Ret ((stopped_early ''failed to run the agent server: '' err [Starts FrontendServer])
                         \<lparr>rr_serving := serving\<rparr>)
      | Inr agentTLS \<Rightarrow>
      case ParseLabels (so_LeaseLabel opts) of
        Inl err \<Rightarrow> Ret ((stopped_early [] err [Starts FrontendServer, Starts AgentServer])\<lparr>rr_serving := serving\<rparr>)
      | Inr labels \<Rightarrow>
          Ret \<lparr>rr_error = None,
               rr_server = Some (SetBackendDialTimeout (so_BackendDialTimeout opts) w),
               rr_frontendTLS = frontTLS, rr_agentTLS = Some agentTLS, rr_serving = serving,
               rr_events = ([Starts FrontendServer, Starts AgentServer] @
                 (if so_EnableLeaseController opts then [Starts LeaseController] else []) @
                 [Starts AdminServer, Starts HealthServer]) @
                 Run_shutdown opts (so_EnableLeaseController opts) (re_timedOut env)\<rparr>))"

definition Run ::
  "(string \<Rightarrow> bool) \<Rightarrow> (string, nat) gomap \<Rightarrow> rng \<Rightarrow> (nat \<Rightarrow> answer) \<Rightarrow> bheap \<Rightarrow> run_env
     \<Rightarrow> server_options \<Rightarrow> run_result outcome" where
  "Run exists accepted r oracle h env opts0 =
     (case server_Validate exists accepted opts0 of
        (Some err, opts) \<Rightarrow> Ret (stopped_early ''failed to validate server options with '' err [])
      | (None, opts) \<Rightarrow>
          case (if so_NeedsKubernetesClient opts then re_kubeConfig env else None) of
            Some err \<Rightarrow> Ret (stopped_early ''failed to load kubernetes client config: '' err [])
          | None \<Rightarrow>
          case (if so_NeedsKubernetesClient opts then re_kubeClient env else None) of
            Some err \<Rightarrow> Ret (stopped_early ''failed to create kubernetes clientset: '' err [])
          | None \<Rightarrow> Run_servers accepted r oracle h env opts)"

text \<open>The health server's answer on \<^verbatim>\<open>/readyz\<close>; the first manager's storage is the readiness manager.\<close>

definition readinessHandler :: "world \<Rightarrow> nat \<times> string" where
  "readinessHandler w =
     (let (ready, msg) = storage_Ready (bm_storage (hd (w_managers w))) in
      if ready then (200, ''ok'') else (500, msg))"

subsection \<open>What a started server has\<close>

lemma new_managers_parsed: "ParseProxyStrategies s = Inr ps \<Longrightarrow> new_managers ps \<noteq> []"
proof -
  assume parsed: "ParseProxyStrategies s = Inr ps"
  then have "ParseProxyStrategies_loop (split_on CHR '','' s) [] = Inr ps" and "ps \<noteq> []"
    by (auto simp: ParseProxyStrategies_def split: sum.splits if_splits)
  then have named: "\<forall>p \<in> set ps. returns (ProxyStrategy_String p)"
    using ParseProxyStrategies_loop_named by fastforce
  obtain p rest where ps: "ps = p # rest" using \<open>ps \<noteq> []\<close> by (cases ps) auto
  with named show "new_managers ps \<noteq> []" by (cases p) auto
qed

lemma NewProxyServer_parsed:
  assumes "ParseProxyStrategies s = Inr ps"
  obtains w where "NewProxyServer ps auth r oracle h = Ret w" "w_managers w = new_managers ps" "w_auth w = auth"
  using new_managers_parsed [OF assms] by (auto simp: NewProxyServer_def Let_def)

lemma getTLSConfig_client_cert:
  "getTLSConfig accepted e1 e2 caFile cs v = Inr tls \<Longrightarrow> tc_requireClientCert tls \<longleftrightarrow> caFile \<noteq> []"
  by (auto simp: getTLSConfig_def split: if_splits sum.splits)

definition started :: "run_event list \<Rightarrow> part set" where
  "started evs = {p. Starts p \<in> set evs}"

definition told_to_stop :: "run_event list \<Rightarrow> part set" where
  "told_to_stop evs = {p. Stops p \<in> set evs \<or> Drains p \<in> set evs}"

lemma all_told_to_stop:
  "started (pre @ Run_shutdown opts lease late) = told_to_stop (pre @ Run_shutdown opts lease late)"
  if "pre = [Starts FrontendServer, Starts AgentServer] @ (if lease then [Starts LeaseController] else []) @
        [Starts AdminServer, Starts HealthServer]"
  using that by (auto simp: started_def told_to_stop_def Run_shutdown_def Let_def)

text \<open>The part of \<^verbatim>\<open>Run\<close> after the validation, for valid options.\<close>

definition wired :: "run_env \<Rightarrow> server_options \<Rightarrow> run_result \<Rightarrow> bool" where
  "wired env opts res \<longleftrightarrow> (case rr_server res of
      None \<Rightarrow> rr_error res \<noteq> None \<and> told_to_stop (rr_events res) = {}
    | Some w \<Rightarrow> rr_error res = None \<and> w_managers w \<noteq> [] \<and>
        w_auth w = authOpt opts \<and> w_dialTimeout w = so_BackendDialTimeout opts \<and>
        (rr_frontendTLS res = None \<longleftrightarrow> so_UdsName opts \<noteq> []) \<and>
        list_all tc_requireClientCert (case rr_frontendTLS res of None \<Rightarrow> [] | Some tls \<Rightarrow> [tls]) \<and>
        (case rr_agentTLS res of None \<Rightarrow> False
         | Some tls \<Rightarrow> tc_requireClientCert tls \<longleftrightarrow> so_ClusterCaCert opts \<noteq> []) \<and>
        rr_serving res =
          (if so_Mode opts \<noteq> ModeGRPC \<and> so_UdsName opts \<noteq> [] then udsHttpFrontend env else Ret ()) \<and>
        started (rr_events res) = told_to_stop (rr_events res))"

lemma wired_early: "\<forall>p. Stops p \<notin> set evs \<and> Drains p \<notin> set evs \<Longrightarrow> wired env opts (stopped_early msg err evs)"
  by (auto simp: wired_def stopped_early_def told_to_stop_def)

lemma wired_serving:
  "rr_server res = None \<Longrightarrow> wired env opts (res\<lparr>rr_serving := serving\<rparr>) = wired env opts res"
  by (simp add: wired_def)

lemma early_server: "rr_server (stopped_early msg err evs) = None"
  by (simp add: stopped_early_def)

lemma runFrontendServer_wired:
  assumes "listeners_ok opts" and "runFrontendServer accepted env opts = Inr (stop, tls, serving)"
  shows "serving = (if so_Mode opts \<noteq> ModeGRPC \<and> so_UdsName opts \<noteq> [] then udsHttpFrontend env else Ret ()) \<and>
     (tls = None \<longleftrightarrow> so_UdsName opts \<noteq> []) \<and>
     list_all tc_requireClientCert (case tls of None \<Rightarrow> [] | Some c \<Rightarrow> [c])"
  using assms
  by (auto simp: runFrontendServer_def runUDSFrontendServer_def runMTLSFrontendServer_def listeners_ok_def
      dest: getTLSConfig_client_cert split: if_splits sum.splits)

lemma runAgentServer_wired:
  "runAgentServer accepted env opts = Inr tls \<Longrightarrow> tc_requireClientCert tls \<longleftrightarrow> so_ClusterCaCert opts \<noteq> []"
  by (auto simp: runAgentServer_def dest: getTLSConfig_client_cert split: sum.splits if_splits)

lemma wired_needs [simp]: "wired env (opts\<lparr>so_NeedsKubernetesClient := b\<rparr>) res = wired env opts res"
  by (simp add: wired_def authOpt_def split: option.split)

lemma Run_servers_wired:
  assumes "listeners_ok opts"
  shows "\<exists>res. Run_servers accepted r oracle h env opts = Ret res \<and> wired env opts res"
proof (cases "ParseProxyStrategies (so_ProxyStrategies opts)")
  case (Inl err)
  then show ?thesis by (simp add: Run_servers_def wired_early)
next
  case (Inr ps)
  then obtain w where w: "NewProxyServer ps (authOpt opts) r oracle h = Ret w"
    "w_managers w = new_managers ps" "w_auth w = authOpt opts" by (rule NewProxyServer_parsed)
  have front: "serving = (if so_Mode opts \<noteq> ModeGRPC \<and> so_UdsName opts \<noteq> [] then udsHttpFrontend env else Ret ()) \<and>
      (tls = None \<longleftrightarrow> so_UdsName opts \<noteq> []) \<and>
      list_all tc_requireClientCert (case tls of None \<Rightarrow> [] | Some c \<Rightarrow> [c])"
    if "runFrontendServer accepted env opts = Inr (stop, tls, serving)" for stop tls serving
    by (rule runFrontendServer_wired [OF assms that])
  show ?thesis
  proof (cases "runFrontendServer accepted env opts")
    case (Inl err)
    with Inr w(1) show ?thesis by (simp add: Run_servers_def wired_early)
  next
    case front_ok: (Inr st)
    obtain stop ftls serving where st: "st = (stop, ftls, serving)" by (cases st)
    show ?thesis
    proof (cases "runAgentServer accepted env opts")
      case (Inl err)
      with Inr w(1) front_ok st show ?thesis
        by (simp add: Run_servers_def wired_early wired_serving early_server)
    next
      case agent_ok: (Inr atls)
      show ?thesis
      proof (cases "ParseLabels (so_LeaseLabel opts)")
        case (Inl err)
        with Inr w(1) front_ok st agent_ok show ?thesis
          by (simp add: Run_servers_def wired_early wired_serving early_server)
      next
        case (Inr labels)
        with \<open>ParseProxyStrategies (so_ProxyStrategies opts) = Inr ps\<close> w front_ok st agent_ok
          front runAgentServer_wired new_managers_parsed all_told_to_stop [OF refl]
        show ?thesis
          unfolding Run_servers_def wired_def by (simp add: SetBackendDialTimeout_def)
      qed
    qed
  qed
qed

lemma Run_wired: "\<exists>res. Run exists accepted r oracle h env opts = Ret res \<and> wired env opts res"
proof (cases "server_options_ok exists accepted opts")
  case True
  let ?o = "opts\<lparr>so_NeedsKubernetesClient := usingServiceAccountAuth opts \<or> so_EnableLeaseController opts\<rparr>"
  have "listeners_ok ?o" using True by (simp add: server_options_ok_def listeners_ok_def)
  from Run_servers_wired [OF this, of accepted r "oracle" h env] show ?thesis
    unfolding Run_def server_Validate_cases(1)[OF True]
    by (auto simp: wired_early split: option.split)
next
  case False
  then obtain err where "server_Validate exists accepted opts = (Some err, opts)"
    using server_Validate_cases(2) by blast
  then show ?thesis by (simp add: Run_def wired_early)
qed


definition no_errors :: run_env where
  "no_errors = \<lparr>re_kubeConfig = None, re_kubeClient = None, re_serverPair = None, re_serverPool = None,
     re_serverListen = None, re_clusterPair = None, re_clusterPool = None, re_agentListen = None,
     re_timedOut = False\<rparr>"

text \<open>
  C38. A malformed lease label is validated only together with the lease controller, but read in
  any case: without the controller the validation accepts the options and \<^verbatim>\<open>Run\<close> fails with the
  label's error, after it has started the frontend and the agent server, which it does not stop.
\<close>

theorem lease_label_fails_late:
  assumes "server_options_ok exists accepted opts" and "\<not> so_EnableLeaseController opts"
    and "ParseLabels (so_LeaseLabel opts) = Inl err"
  shows "\<exists>res. Run exists accepted r oracle h no_errors opts = Ret res \<and>
     rr_error res = Some (ErrText (error_string err)) \<and>
     rr_events res = [Starts FrontendServer, Starts AgentServer]"
proof -
  obtain ps where ps: "ParseProxyStrategies (so_ProxyStrategies opts) = Inr ps"
    using assms(1) by (cases "ParseProxyStrategies (so_ProxyStrategies opts)")
      (auto simp: server_options_ok_def behaviour_ok_def)
  then obtain w where w: "NewProxyServer ps (authOpt opts) r oracle h = Ret w" by (rule NewProxyServer_parsed)
  obtain v where v: "GetTLSVersion (so_TLSMinVersion opts) = Inr v"
    using assms(1) by (cases "GetTLSVersion (so_TLSMinVersion opts)")
      (auto simp: server_options_ok_def behaviour_ok_def)
  have a: "authOpt (opts\<lparr>so_NeedsKubernetesClient := b\<rparr>) = authOpt opts" for b
    by (simp add: authOpt_def)
  show ?thesis
    unfolding Run_def server_Validate_cases(1)[OF assms(1)]
    using ps w v assms(3)
    by (simp add: Run_servers_def runFrontendServer_def runUDSFrontendServer_def runMTLSFrontendServer_def
        runAgentServer_def getTLSConfig_def no_errors_def stopped_early_def a)
qed

definition uds_options :: server_options where
  "uds_options = (NewProxyRunOptions [] ''id'')
     \<lparr>so_UdsName := ''/run/knp.sock'', so_ServerPort := 0, so_LeaseLabel := ''no label''\<rparr>"

theorem lease_label_fails_late_witness:
  "\<exists>res. Run (\<lambda>_. True) [] (\<lambda>_. 0) (\<lambda>_. undefined) (\<lambda>_. undefined) no_errors uds_options = Ret res \<and>
     rr_error res = Some (ErrText (''invalid label format: '' @ ''no label''))"
proof -
  have ok: "server_options_ok (\<lambda>_. True) [] uds_options"
    by code_simp
  have label: "ParseLabels (so_LeaseLabel uds_options) = Inl (ErrText (''invalid label format: '' @ ''no label''))"
    by code_simp
  from lease_label_fails_late [OF ok _ label] show ?thesis
    by (simp add: uds_options_def NewProxyRunOptions_def) blast
qed

end
