(* ===== verification/KNP_Agent.thy ===== *)
theory KNP_Agent
  imports KNP_Backend
begin

section \<open>The agent: connections to endpoints\<close>

text \<open>
  \<^verbatim>\<open>Client\<close> of \<^verbatim>\<open>pkg/agent/client.go\<close>. For every DIAL_REQ the agent creates an \<^verbatim>\<open>endpointConn\<close>
  and a goroutine that dials; when the dial succeeds three more carry the data: the reader
  (\<^verbatim>\<open>remoteToSendChannel\<close>), the sender (\<^verbatim>\<open>sendChannelToProxy\<close>) and the writer
  (\<^verbatim>\<open>dataChannelToRemote\<close>); the cleanup runs once in whichever goroutine asks for it first. An
  \<open>endpoint\<close> is the shared record of these goroutines with a program counter for each; a step
  function runs one of them to its next blocking point and leaves the state unchanged while it
  blocks. The results of sends, reads and writes and the choice of a \<^verbatim>\<open>select\<close> are arguments.
  Closing a closed channel is a panic.

  Channels are buffered: the agent's options refuse a channel size below one.
\<close>

subsection \<open>State\<close>

datatype dial_pc = Dialing | DialReply | DialEnded

datatype clean_pc =
    CleanIdle | CleanWaitDial | CleanWaitSend | CleanSendClose | CleanCloseData | CleanDelete
  | CleanCloseConn | CleanDone

datatype reader_pc = ReaderOff | ReaderReads | ReaderPushes string | ReaderCleans | ReaderDone

datatype proxy_pc = ProxyOff | ProxyTakes | ProxySends string | ProxyDrains | ProxyDone

datatype remote_pc = RemoteOff | RemoteTakes | RemoteWrites string | RemoteDrains | RemoteDone

text \<open>
  \<open>ec_log\<close> lists the packets the goroutines of the connection handed to the stream, with the
  result; \<open>ec_read\<close> what was read from the endpoint, \<open>ec_accepted\<close> what the data channel
  accepted and \<open>ec_written\<close> what was written to the endpoint.
\<close>

record endpoint =
  ec_connID :: int
  ec_random :: int
  ec_cap :: nat
  ec_hasConn :: bool
  ec_connClosed :: bool
  ec_dataCh :: "string list"
  ec_dataClosed :: bool
  ec_dialDone :: bool
  ec_sendCh :: "string list"
  ec_sendClosed :: bool
  ec_sendDone :: bool
  ec_added :: bool
  ec_deleted :: bool
  ec_dial :: dial_pc
  ec_clean :: clean_pc
  ec_reader :: reader_pc
  ec_proxy :: proxy_pc
  ec_remote :: remote_pc
  ec_log :: "(packet \<times> go_error option) list"
  ec_read :: "string list"
  ec_accepted :: "string list"
  ec_written :: string

definition newEndpointConn :: "nat \<Rightarrow> int \<Rightarrow> int \<Rightarrow> endpoint" where
  "newEndpointConn xfrChannelSize connID random =
     \<lparr>ec_connID = connID, ec_random = random, ec_cap = xfrChannelSize, ec_hasConn = False,
      ec_connClosed = False, ec_dataCh = [], ec_dataClosed = False, ec_dialDone = False,
      ec_sendCh = [], ec_sendClosed = False, ec_sendDone = False, ec_added = False,
      ec_deleted = False, ec_dial = Dialing, ec_clean = CleanIdle, ec_reader = ReaderOff,
      ec_proxy = ProxyOff, ec_remote = RemoteOff, ec_log = [], ec_read = [], ec_accepted = [],
      ec_written = []\<rparr>"

definition close_panic :: string where
  "close_panic = ''close of closed channel''"

subsection \<open>Dialling\<close>

text \<open>
  The goroutine of a DIAL_REQ up to its first blocking point: a failed dial is reported and ends
  the goroutine, a successful one registers the connection.
\<close>

definition endpoint_dial :: "go_error option \<Rightarrow> go_error option \<Rightarrow> endpoint \<Rightarrow> endpoint outcome" where
  "endpoint_dial dialErr sendErr e =
     (if ec_dial e \<noteq> Dialing then Ret e
      else
        (case dialErr of
           Some err \<Rightarrow>
             if ec_sendDone e \<or> ec_dialDone e then Panic close_panic
             else Ret (e\<lparr>ec_log := ec_log e @ [(newDialResponsePacket (ec_random e) 0 (error_string err), sendErr)],
                        ec_sendDone := True, ec_sendCh := [], ec_dialDone := True, ec_dial := DialEnded\<rparr>)
         | None \<Rightarrow> Ret (e\<lparr>ec_hasConn := True, ec_added := True, ec_dial := DialReply\<rparr>)))"

definition endpoint_reply :: "go_error option \<Rightarrow> endpoint \<Rightarrow> endpoint outcome" where
  "endpoint_reply sendErr e =
     (if ec_dial e \<noteq> DialReply then Ret e
      else
        (let e1 = e\<lparr>ec_log := ec_log e @ [(newDialResponsePacket (ec_random e) (ec_connID e) [], sendErr)],
                    ec_dial := DialEnded\<rparr> in
         if ec_dialDone e then Panic close_panic
         else if sendErr \<noteq> None then
           (if ec_sendDone e then Panic close_panic
            else Ret (e1\<lparr>ec_sendDone := True, ec_dialDone := True\<rparr>))
         else Ret (e1\<lparr>ec_reader := ReaderReads, ec_proxy := ProxyTakes, ec_remote := RemoteTakes,
                      ec_dialDone := True\<rparr>)))"

subsection \<open>Cleanup\<close>

definition cleanup_start :: "endpoint \<Rightarrow> endpoint" where
  "cleanup_start e = (if ec_clean e = CleanIdle then e\<lparr>ec_clean := CleanWaitDial\<rparr> else e)"

definition closePacket :: "endpoint \<Rightarrow> packet" where
  "closePacket e =
     (if ec_connID e = 0 then newDialClosePacket (ec_random e)
      else newCloseResponsePacket (ec_connID e) [])"

definition cleanup_step :: "go_error option \<Rightarrow> endpoint \<Rightarrow> endpoint outcome" where
  "cleanup_step sendErr e =
     (case ec_clean e of
        CleanWaitDial \<Rightarrow>
          if \<not> ec_dialDone e then Ret e
          else if \<not> ec_hasConn e then Ret (e\<lparr>ec_clean := CleanDone\<rparr>)
          else if ec_sendClosed e then Panic close_panic
          else Ret (e\<lparr>ec_sendClosed := True, ec_clean := CleanWaitSend\<rparr>)
      | CleanWaitSend \<Rightarrow> if ec_sendDone e then Ret (e\<lparr>ec_clean := CleanSendClose\<rparr>) else Ret e
      | CleanSendClose \<Rightarrow>
          Ret (e\<lparr>ec_log := ec_log e @ [(closePacket e, sendErr)], ec_clean := CleanCloseData\<rparr>)
      | CleanCloseData \<Rightarrow>
          if ec_dataClosed e then Panic close_panic
          else Ret (e\<lparr>ec_dataClosed := True, ec_clean := CleanDelete\<rparr>)
      | CleanDelete \<Rightarrow> Ret (e\<lparr>ec_deleted := True, ec_clean := CleanCloseConn\<rparr>)
      | CleanCloseConn \<Rightarrow> Ret (e\<lparr>ec_connClosed := True, ec_clean := CleanDone\<rparr>)
      | _ \<Rightarrow> Ret e)"

subsection \<open>From the server to the endpoint\<close>

text \<open>
  \<^verbatim>\<open>sendViaDataChannel\<close>: the panic of a send on the closed channel is recovered; \<open>None\<close> when
  the send blocks.
\<close>

definition sendViaDataChannel :: "string \<Rightarrow> endpoint \<Rightarrow> endpoint option" where
  "sendViaDataChannel msg e =
     (if ec_dataClosed e then Some e
      else if length (ec_dataCh e) < ec_cap e then
        Some (e\<lparr>ec_dataCh := ec_dataCh e @ [msg], ec_accepted := ec_accepted e @ [msg]\<rparr>)
      else None)"

text \<open>\<open>wr\<close> is the count and the error a write of the remaining bytes returns.\<close>

definition dataChannelToRemote_step :: "nat \<times> go_error option \<Rightarrow> endpoint \<Rightarrow> endpoint" where
  "dataChannelToRemote_step wr e =
     (case ec_remote e of
        RemoteTakes \<Rightarrow>
          (case ec_dataCh e of
             d # ds \<Rightarrow> e\<lparr>ec_dataCh := ds, ec_remote := RemoteWrites d\<rparr>
           | [] \<Rightarrow> if ec_dataClosed e then e\<lparr>ec_remote := RemoteDrains\<rparr> else e)
      | RemoteWrites d \<Rightarrow>
          (let e1 = e\<lparr>ec_written := ec_written e @ take (fst wr) d\<rparr> in
           if snd wr = None then e1\<lparr>ec_remote := RemoteTakes\<rparr>
           else if fst wr > 0 then e1\<lparr>ec_remote := RemoteWrites (drop (fst wr) d)\<rparr>
           else e1\<lparr>ec_remote := RemoteDrains\<rparr>)
      | RemoteDrains \<Rightarrow>
          (case ec_dataCh e of
             d # ds \<Rightarrow> e\<lparr>ec_dataCh := ds\<rparr>
           | [] \<Rightarrow> if ec_dataClosed e then e\<lparr>ec_remote := RemoteDone\<rparr> else e)
      | _ \<Rightarrow> e)"

subsection \<open>From the endpoint to the server\<close>

text \<open>
  \<open>stop\<close>: whether the client's \<^verbatim>\<open>stopCh\<close> is closed. A send on the closed \<^verbatim>\<open>sendCh\<close> panics, which
  the goroutine recovers after its deferred cleanup.
\<close>

definition remoteToSendChannel_step ::
  "bool \<Rightarrow> bool \<Rightarrow> go_error + string \<Rightarrow> endpoint \<Rightarrow> endpoint" where
  "remoteToSendChannel_step stop pick rd e =
     (case ec_reader e of
        ReaderReads \<Rightarrow>
          (case rd of
             Inl err \<Rightarrow> e\<lparr>ec_reader := ReaderCleans\<rparr>
           | Inr bytes \<Rightarrow> e\<lparr>ec_reader := ReaderPushes bytes, ec_read := ec_read e @ [bytes]\<rparr>)
      | ReaderPushes d \<Rightarrow>
          if ec_sendClosed e then e\<lparr>ec_reader := ReaderCleans\<rparr>
          else if length (ec_sendCh e) < ec_cap e \<and> (\<not> stop \<or> pick) then
            e\<lparr>ec_sendCh := ec_sendCh e @ [d], ec_reader := ReaderReads\<rparr>
          else if stop then e\<lparr>ec_reader := ReaderCleans\<rparr>
          else e
      | ReaderCleans \<Rightarrow>
          (let e1 = cleanup_start e in
           if ec_clean e1 = CleanDone then e1\<lparr>ec_reader := ReaderDone\<rparr> else e1)
      | _ \<Rightarrow> e)"

definition sendChannelToProxy_step :: "go_error option \<Rightarrow> endpoint \<Rightarrow> endpoint outcome" where
  "sendChannelToProxy_step sendErr e =
     (case ec_proxy e of
        ProxyTakes \<Rightarrow>
          (case ec_sendCh e of
             d # ds \<Rightarrow> Ret (e\<lparr>ec_sendCh := ds, ec_proxy := ProxySends d\<rparr>)
           | [] \<Rightarrow> if ec_sendClosed e then Ret (e\<lparr>ec_proxy := ProxyDrains\<rparr>) else Ret e)
      | ProxySends d \<Rightarrow>
          Ret (e\<lparr>ec_log := ec_log e @ [(newDataPacket (ec_connID e) d, sendErr)],
                 ec_proxy := (if sendErr = None then ProxyTakes else ProxyDrains)\<rparr>)
      | ProxyDrains \<Rightarrow>
          (case ec_sendCh e of
             d # ds \<Rightarrow> Ret (e\<lparr>ec_sendCh := ds\<rparr>)
           | [] \<Rightarrow>
               if \<not> ec_sendClosed e then Ret e
               else if ec_sendDone e then Panic close_panic
               else Ret (e\<lparr>ec_sendDone := True, ec_proxy := ProxyDone\<rparr>))
      | _ \<Rightarrow> Ret e)"

subsection \<open>One connection in all interleavings\<close>

text \<open>
  The steps of the goroutines of one connection. A write without an error has written everything,
  as \<^verbatim>\<open>io.Writer\<close> demands.
\<close>

inductive endpoint_step :: "endpoint \<Rightarrow> endpoint \<Rightarrow> bool" where
  ep_dial: "endpoint_dial dialErr sendErr e = Ret e' \<Longrightarrow> endpoint_step e e'"
| ep_reply: "endpoint_reply sendErr e = Ret e' \<Longrightarrow> endpoint_step e e'"
| ep_cleanup_start: "ec_added e \<Longrightarrow> endpoint_step e (cleanup_start e)"
| ep_cleanup: "cleanup_step sendErr e = Ret e' \<Longrightarrow> endpoint_step e e'"
| ep_data: "sendViaDataChannel msg e = Some e' \<Longrightarrow> endpoint_step e e'"
| ep_reader: "endpoint_step e (remoteToSendChannel_step stop pick rd e)"
| ep_proxy: "sendChannelToProxy_step sendErr e = Ret e' \<Longrightarrow> endpoint_step e e'"
| ep_remote: "(\<And>d. ec_remote e = RemoteWrites d \<Longrightarrow>
       fst wr \<le> length d \<and> (snd wr = None \<longrightarrow> fst wr = length d)) \<Longrightarrow>
     endpoint_step e (dataChannelToRemote_step wr e)"

inductive_cases endpoint_stepE: "endpoint_step e e'"

definition endpoint_init :: "endpoint \<Rightarrow> bool" where
  "endpoint_init e \<longleftrightarrow> (\<exists>n connID random. 0 < n \<and> e = newEndpointConn n connID random)"

subsection \<open>Control: who has closed what\<close>

fun clean_rank :: "clean_pc \<Rightarrow> nat" where
  "clean_rank CleanIdle = 0"
| "clean_rank CleanWaitDial = 1"
| "clean_rank CleanWaitSend = 2"
| "clean_rank CleanSendClose = 3"
| "clean_rank CleanCloseData = 4"
| "clean_rank CleanDelete = 5"
| "clean_rank CleanCloseConn = 6"
| "clean_rank CleanDone = 7"

fun proxy_phase :: "proxy_pc \<Rightarrow> nat" where
  "proxy_phase ProxyOff = 0"
| "proxy_phase ProxyDone = 2"
| "proxy_phase _ = 1"

fun reader_on :: "reader_pc \<Rightarrow> bool" where
  "reader_on ReaderOff = False"
| "reader_on _ = True"

fun remote_on :: "remote_pc \<Rightarrow> bool" where
  "remote_on RemoteOff = False"
| "remote_on _ = True"

text \<open>
  The dial, the cleanup and the sender agree on who closed which channel: \<open>started\<close> is whether
  the three data goroutines were started.
\<close>

definition flags_ok :: "nat \<Rightarrow> endpoint \<Rightarrow> bool" where
  "flags_ok k e \<longleftrightarrow>
     ec_sendClosed e = (2 \<le> k) \<and> ec_dataClosed e = (5 \<le> k) \<and> ec_deleted e = (6 \<le> k) \<and>
     ec_connClosed e = (7 \<le> k)"

definition dial_ok :: "endpoint \<Rightarrow> bool" where
  "dial_ok e \<longleftrightarrow>
     ec_added e = ec_hasConn e \<and> ec_dialDone e = (ec_dial e = DialEnded) \<and>
     (ec_dial e = Dialing \<longrightarrow> \<not> ec_hasConn e) \<and> (ec_dial e = DialReply \<longrightarrow> ec_hasConn e)"

definition clean_ok :: "nat \<Rightarrow> endpoint \<Rightarrow> bool" where
  "clean_ok k e \<longleftrightarrow>
     (0 < k \<longrightarrow> ec_hasConn e) \<and> (2 \<le> k \<longrightarrow> ec_dialDone e) \<and> (3 \<le> k \<longrightarrow> ec_sendDone e)"

definition started_ok :: "nat \<Rightarrow> nat \<Rightarrow> endpoint \<Rightarrow> bool" where
  "started_ok k ph e \<longleftrightarrow>
     reader_on (ec_reader e) = (0 < ph) \<and> remote_on (ec_remote e) = (0 < ph) \<and>
     (0 < ph \<longrightarrow> ec_dialDone e \<and> ec_hasConn e) \<and> ec_sendDone e = (ec_dialDone e \<and> ph \<noteq> 1) \<and>
     (ph = 2 \<longrightarrow> 2 \<le> k)"

definition control_inv :: "endpoint \<Rightarrow> bool" where
  "control_inv e \<longleftrightarrow>
     dial_ok e \<and> flags_ok (clean_rank (ec_clean e)) e \<and> clean_ok (clean_rank (ec_clean e)) e \<and>
     started_ok (clean_rank (ec_clean e)) (proxy_phase (ec_proxy e)) e"

lemmas control_defs = control_inv_def dial_ok_def flags_ok_def clean_ok_def started_ok_def

lemma control_init: "endpoint_init e \<Longrightarrow> control_inv e"
  by (auto simp: endpoint_init_def control_defs newEndpointConn_def)

text \<open>No step of a connection that keeps the discipline panics.\<close>

lemma control_returns:
  assumes "control_inv e"
  shows "returns (endpoint_dial dialErr sendErr e)" and "returns (endpoint_reply sendErr e)"
    and "returns (cleanup_step sendErr e)" and "returns (sendChannelToProxy_step sendErr e)"
proof -
  have d: "dial_ok e" and f: "flags_ok (clean_rank (ec_clean e)) e"
    and s: "started_ok (clean_rank (ec_clean e)) (proxy_phase (ec_proxy e)) e"
    using assms by (simp_all add: control_inv_def)
  show "returns (endpoint_dial dialErr sendErr e)"
    using d s by (simp add: dial_ok_def started_ok_def endpoint_dial_def split: option.split)
  show "returns (endpoint_reply sendErr e)"
    using d s by (simp add: dial_ok_def started_ok_def endpoint_reply_def Let_def)
  show "returns (cleanup_step sendErr e)"
    using f by (cases "ec_clean e") (simp_all add: flags_ok_def cleanup_step_def)
  show "returns (sendChannelToProxy_step sendErr e)"
    using s by (cases "ec_proxy e") (simp_all add: started_ok_def sendChannelToProxy_step_def split: list.split)
qed

text \<open>Steps that leave every part of the discipline alone.\<close>

definition ctl :: "endpoint \<Rightarrow> (bool \<times> bool \<times> dial_pc \<times> bool) \<times> (nat \<times> bool \<times> bool \<times> bool \<times> bool \<times> bool)
    \<times> (nat \<times> bool \<times> bool)" where
  "ctl e = ((ec_added e, ec_hasConn e, ec_dial e, ec_dialDone e),
     (clean_rank (ec_clean e), ec_sendDone e, ec_sendClosed e, ec_dataClosed e, ec_deleted e, ec_connClosed e),
     (proxy_phase (ec_proxy e), reader_on (ec_reader e), remote_on (ec_remote e)))"

lemma control_frame:
  assumes "ctl e' = ctl e" and "control_inv e"
  shows "control_inv e'"
proof -
  have eqs: "ec_added e' = ec_added e" "ec_hasConn e' = ec_hasConn e" "ec_dial e' = ec_dial e"
    "ec_dialDone e' = ec_dialDone e" "clean_rank (ec_clean e') = clean_rank (ec_clean e)"
    "ec_sendDone e' = ec_sendDone e" "ec_sendClosed e' = ec_sendClosed e"
    "ec_dataClosed e' = ec_dataClosed e" "ec_deleted e' = ec_deleted e"
    "ec_connClosed e' = ec_connClosed e" "proxy_phase (ec_proxy e') = proxy_phase (ec_proxy e)"
    "reader_on (ec_reader e') = reader_on (ec_reader e)" "remote_on (ec_remote e') = remote_on (ec_remote e)"
    using assms(1) by (simp_all add: ctl_def)
  show ?thesis using assms(2) unfolding control_defs eqs .
qed

lemma control_dial:
  assumes "control_inv e" and "endpoint_dial dialErr sendErr e = Ret e'"
  shows "control_inv e'"
proof (cases "ec_dial e = Dialing")
  case True
  then have k: "clean_rank (ec_clean e) = 0" and ph: "proxy_phase (ec_proxy e) = 0"
    using assms(1) by (auto simp: control_defs)
  with True assms show ?thesis
    by (cases dialErr) (auto simp: control_defs endpoint_dial_def split: if_splits)
qed (use assms in \<open>simp add: endpoint_dial_def\<close>)

lemma control_reply:
  assumes "control_inv e" and "endpoint_reply sendErr e = Ret e'"
  shows "control_inv e'"
proof (cases "ec_dial e = DialReply")
  case True
  then have k: "clean_rank (ec_clean e) \<le> 1" and ph: "proxy_phase (ec_proxy e) = 0"
    using assms(1) by (auto simp: control_defs not_le)
  with True assms show ?thesis
    by (cases sendErr) (auto simp: control_defs endpoint_reply_def Let_def split: if_splits)
qed (use assms in \<open>simp add: endpoint_reply_def\<close>)

lemma control_cleanup_start:
  assumes "control_inv e" and "ec_added e"
  shows "control_inv (cleanup_start e)"
proof (cases "ec_clean e = CleanIdle")
  case True
  then have "clean_rank (ec_clean e) = 0" by simp
  with True assms show ?thesis by (auto simp: control_defs cleanup_start_def)
qed (use assms in \<open>simp add: cleanup_start_def\<close>)

lemma control_cleanup:
  assumes "control_inv e" and "cleanup_step sendErr e = Ret e'"
  shows "control_inv e'"
proof -
  have d: "dial_ok e" and f: "flags_ok (clean_rank (ec_clean e)) e"
    and c: "clean_ok (clean_rank (ec_clean e)) e"
    and s: "started_ok (clean_rank (ec_clean e)) (proxy_phase (ec_proxy e)) e"
    using assms(1) by (simp_all add: control_inv_def)
  have "dial_ok e'"
    using d assms(2) by (cases "ec_clean e") (auto simp: dial_ok_def cleanup_step_def split: if_splits)
  moreover have "flags_ok (clean_rank (ec_clean e')) e' \<and> clean_ok (clean_rank (ec_clean e')) e'"
    using d f c assms(2)
    by (cases "ec_clean e") (auto simp: flags_ok_def clean_ok_def dial_ok_def cleanup_step_def split: if_splits)
  moreover have "started_ok (clean_rank (ec_clean e')) (proxy_phase (ec_proxy e')) e'"
    using s c assms(2)
    by (cases "ec_clean e") (auto simp: started_ok_def clean_ok_def cleanup_step_def split: if_splits)
  ultimately show ?thesis by (simp add: control_inv_def)
qed

lemma control_data: "control_inv e \<Longrightarrow> sendViaDataChannel msg e = Some e' \<Longrightarrow> control_inv e'"
  by (erule control_frame [rotated]) (auto simp: ctl_def sendViaDataChannel_def split: if_splits)

lemma control_remote: "control_inv e \<Longrightarrow> control_inv (dataChannelToRemote_step wr e)"
  by (erule control_frame [rotated])
    (cases "ec_remote e"; simp add: ctl_def dataChannelToRemote_step_def Let_def split: list.split)

lemma control_reader:
  assumes "control_inv e"
  shows "control_inv (remoteToSendChannel_step stop pick rd e)"
proof (cases "ec_reader e = ReaderCleans")
  case True
  then have "ec_added e" using assms by (auto simp: control_defs)
  with assms have "control_inv (cleanup_start e)" by (simp add: control_cleanup_start)
  moreover have "ctl (remoteToSendChannel_step stop pick rd e) = ctl (cleanup_start e)"
    using True by (simp add: ctl_def remoteToSendChannel_step_def Let_def cleanup_start_def)
  ultimately show ?thesis by (rule control_frame [rotated])
next
  case False
  then have "ctl (remoteToSendChannel_step stop pick rd e) = ctl e"
    by (cases "ec_reader e"; cases rd) (simp_all add: ctl_def remoteToSendChannel_step_def)
  with assms show ?thesis by (rule control_frame [rotated])
qed

lemma control_proxy:
  assumes "control_inv e" and "sendChannelToProxy_step sendErr e = Ret e'"
  shows "control_inv e'"
proof (cases "ec_proxy e = ProxyDrains \<and> ec_sendCh e = [] \<and> ec_sendClosed e")
  case True
  then have "e' = e\<lparr>ec_sendDone := True, ec_proxy := ProxyDone\<rparr>"
    using assms(2) by (simp add: sendChannelToProxy_step_def split: if_splits)
  moreover have "0 < proxy_phase (ec_proxy e)" using True by simp
  ultimately show ?thesis using assms(1) True by (auto simp: control_defs)
next
  case False
  then have "ctl e' = ctl e"
    using assms(2)
    by (cases "ec_proxy e") (auto simp: ctl_def sendChannelToProxy_step_def split: if_splits list.splits)
  with assms(1) show ?thesis by (rule control_frame [rotated])
qed

lemma control_step: "control_inv e \<Longrightarrow> endpoint_step e e' \<Longrightarrow> control_inv e'"
proof (erule endpoint_stepE)
  show "control_inv e'" if "control_inv e" and "e' = cleanup_start e" and "ec_added e"
    using that control_cleanup_start by simp
  show "control_inv e'" if "control_inv e" and "e' = remoteToSendChannel_step stop pick rd e" for stop pick rd
    using that control_reader by simp
  show "control_inv e'" if "control_inv e" and "e' = dataChannelToRemote_step wr e" for wr
    using that control_remote by simp
qed (fact control_dial control_reply control_cleanup control_data control_proxy)+

subsection \<open>Data: what is sent and written, and in which order\<close>

fun reader_tail :: "reader_pc \<Rightarrow> string list \<Rightarrow> bool" where
  "reader_tail (ReaderPushes d) xs = (xs = [d])"
| "reader_tail ReaderCleans xs = (length xs \<le> 1)"
| "reader_tail ReaderDone xs = (length xs \<le> 1)"
| "reader_tail _ xs = (xs = [])"

text \<open>\<open>ds\<close> are the chunks handed to the stream so far.\<close>

fun outgoing :: "proxy_pc \<Rightarrow> reader_pc \<Rightarrow> string list \<Rightarrow> string list \<Rightarrow> string list \<Rightarrow> bool" where
  "outgoing ProxyOff rd ds sendCh chunks = (ds = [] \<and> sendCh = [] \<and> chunks = [])"
| "outgoing ProxyTakes rd ds sendCh chunks = (\<exists>xs. reader_tail rd xs \<and> chunks = ds @ sendCh @ xs)"
| "outgoing (ProxySends d) rd ds sendCh chunks = (\<exists>xs. reader_tail rd xs \<and> chunks = ds @ d # sendCh @ xs)"
| "outgoing _ rd ds sendCh chunks = prefix ds chunks"

fun incoming :: "remote_pc \<Rightarrow> string \<Rightarrow> string list \<Rightarrow> string list \<Rightarrow> bool" where
  "incoming RemoteOff written dataCh accepted = (written = [] \<and> accepted = dataCh)"
| "incoming RemoteTakes written dataCh accepted = (concat accepted = written @ concat dataCh)"
| "incoming (RemoteWrites d) written dataCh accepted = (concat accepted = written @ d @ concat dataCh)"
| "incoming _ written dataCh accepted = prefix written (concat accepted)"

definition reply :: "string \<Rightarrow> endpoint \<Rightarrow> packet list" where
  "reply m e =
     (if ec_dial e \<noteq> DialEnded then []
      else if ec_hasConn e then [newDialResponsePacket (ec_random e) (ec_connID e) []]
      else [newDialResponsePacket (ec_random e) 0 m])"

definition farewell :: "endpoint \<Rightarrow> packet list" where
  "farewell e = (if 4 \<le> clean_rank (ec_clean e) then [closePacket e] else [])"

definition sent_inv :: "endpoint \<Rightarrow> string \<Rightarrow> string list \<Rightarrow> bool" where
  "sent_inv e m ds \<longleftrightarrow>
     map fst (ec_log e) = reply m e @ map (newDataPacket (ec_connID e)) ds @ farewell e \<and>
     outgoing (ec_proxy e) (ec_reader e) ds (ec_sendCh e) (ec_read e)"

definition written_inv :: "endpoint \<Rightarrow> bool" where
  "written_inv e \<longleftrightarrow> incoming (ec_remote e) (ec_written e) (ec_dataCh e) (ec_accepted e)"

definition endpoint_inv :: "endpoint \<Rightarrow> bool" where
  "endpoint_inv e \<longleftrightarrow> control_inv e \<and> written_inv e \<and> (\<exists>m ds. sent_inv e m ds)"

lemma outgoing_prefix: "outgoing px rd ds sendCh chunks \<Longrightarrow> prefix ds chunks"
  by (cases px) auto

lemma incoming_prefix: "incoming rm written dataCh accepted \<Longrightarrow> prefix written (concat accepted)"
  by (cases rm) auto

text \<open>What the discipline says at the points where a packet is sent.\<close>

lemma control_points:
  assumes "control_inv e"
  shows "ec_dial e \<noteq> DialEnded \<Longrightarrow> ec_proxy e = ProxyOff \<and> ec_remote e = RemoteOff \<and> farewell e = []"
    and "ec_proxy e = ProxySends d \<Longrightarrow> farewell e = [] \<and> ec_dial e = DialEnded"
    and "ec_clean e = CleanSendClose \<Longrightarrow> ec_dial e = DialEnded"
proof -
  have d: "dial_ok e" and c: "clean_ok (clean_rank (ec_clean e)) e"
    and s: "started_ok (clean_rank (ec_clean e)) (proxy_phase (ec_proxy e)) e"
    using assms by (simp_all add: control_inv_def)
  show "ec_proxy e = ProxyOff \<and> ec_remote e = RemoteOff \<and> farewell e = []" if "ec_dial e \<noteq> DialEnded"
    using d c s that
    by (cases "ec_proxy e"; cases "ec_remote e") (auto simp: dial_ok_def clean_ok_def started_ok_def farewell_def)
  show "farewell e = [] \<and> ec_dial e = DialEnded" if "ec_proxy e = ProxySends d"
    using d c s that by (auto simp: dial_ok_def clean_ok_def started_ok_def farewell_def)
  show "ec_dial e = DialEnded" if "ec_clean e = CleanSendClose"
    using d c that by (simp add: dial_ok_def clean_ok_def)
qed

lemma written_step:
  assumes "control_inv e"
  shows "written_inv e \<Longrightarrow> endpoint_step e e' \<Longrightarrow> written_inv e'"
proof (erule endpoint_stepE)
  fix dialErr sendErr
  assume "written_inv e" and "endpoint_dial dialErr sendErr e = Ret e'"
  then show "written_inv e'"
    by (auto simp: written_inv_def endpoint_dial_def split: if_splits option.splits)
next
  fix sendErr
  assume "written_inv e" and "endpoint_reply sendErr e = Ret e'"
  then show "written_inv e'"
    using control_points(1) [OF assms]
    by (cases "ec_dial e") (auto simp: written_inv_def endpoint_reply_def Let_def split: if_splits)
next
  assume "written_inv e" and "e' = cleanup_start e"
  then show "written_inv e'" by (simp add: written_inv_def cleanup_start_def)
next
  fix sendErr
  assume "written_inv e" and "cleanup_step sendErr e = Ret e'"
  then show "written_inv e'"
    by (cases "ec_clean e") (auto simp: written_inv_def cleanup_step_def split: if_splits)
next
  fix msg
  assume "written_inv e" and "sendViaDataChannel msg e = Some e'"
  then show "written_inv e'"
    by (cases "ec_remote e") (auto simp: written_inv_def sendViaDataChannel_def split: if_splits)
next
  fix stop pick rd
  assume "written_inv e" and "e' = remoteToSendChannel_step stop pick rd e"
  then show "written_inv e'"
    by (cases "ec_reader e"; cases rd)
      (simp_all add: written_inv_def remoteToSendChannel_step_def cleanup_start_def Let_def)
next
  fix sendErr
  assume "written_inv e" and "sendChannelToProxy_step sendErr e = Ret e'"
  then show "written_inv e'"
    by (cases "ec_proxy e") (auto simp: written_inv_def sendChannelToProxy_step_def split: if_splits list.splits)
next
  fix wr :: "nat \<times> go_error option"
  assume w: "written_inv e" and e': "e' = dataChannelToRemote_step wr e"
    and n: "\<And>d. ec_remote e = RemoteWrites d \<Longrightarrow> fst wr \<le> length d \<and> (snd wr = None \<longrightarrow> fst wr = length d)"
  show "written_inv e'"
    using w e' n by (cases "ec_remote e")
      (auto simp: written_inv_def dataChannelToRemote_step_def Let_def prefix_def split: list.split)
qed

lemma sent_irrelevant:
  assumes "sent_inv e m ds" and "ec_log e' = ec_log e" and "ec_dial e' = ec_dial e"
    and "ec_hasConn e' = ec_hasConn e" and "ec_random e' = ec_random e" and "ec_connID e' = ec_connID e"
    and "farewell e' = farewell e" and "outgoing (ec_proxy e') (ec_reader e') ds (ec_sendCh e') (ec_read e')"
  shows "sent_inv e' m ds"
  using assms by (simp add: sent_inv_def reply_def)

lemma sent_dial:
  assumes "control_inv e" and "sent_inv e m ds" and "endpoint_dial dialErr sendErr e = Ret e'"
  shows "\<exists>m ds. sent_inv e' m ds"
proof (cases "ec_dial e = Dialing")
  case True
  with assms control_points(1) [OF assms(1)] have "ds = []" "ec_log e = []" "farewell e = []" "ec_proxy e = ProxyOff"
    by (auto simp: sent_inv_def reply_def)
  moreover have "\<not> ec_hasConn e" using True assms(1) by (simp add: control_inv_def dial_ok_def)
  ultimately have "sent_inv e' (case dialErr of Some err \<Rightarrow> error_string err | None \<Rightarrow> []) []"
    using True assms(2,3)
    by (auto simp: sent_inv_def reply_def farewell_def closePacket_def endpoint_dial_def
        split: if_splits option.splits)
  then show ?thesis by blast
qed (use assms in \<open>auto simp: endpoint_dial_def\<close>)

lemma sent_reply:
  assumes "control_inv e" and "sent_inv e m ds" and "endpoint_reply sendErr e = Ret e'"
  shows "\<exists>m ds. sent_inv e' m ds"
proof (cases "ec_dial e = DialReply")
  case True
  with assms control_points(1) [OF assms(1)] have *: "ds = []" "ec_log e = []" "farewell e = []" "ec_proxy e = ProxyOff"
    by (auto simp: sent_inv_def reply_def)
  have "ec_hasConn e" using True assms(1) by (simp add: control_inv_def dial_ok_def)
  with * True assms(2,3) have "sent_inv e' [] []"
    by (auto simp: sent_inv_def reply_def farewell_def endpoint_reply_def Let_def split: if_splits)
  then show ?thesis by blast
qed (use assms in \<open>auto simp: endpoint_reply_def\<close>)

lemma sent_cleanup:
  assumes "control_inv e" and "sent_inv e m ds" and "cleanup_step sendErr e = Ret e'"
  shows "sent_inv e' m ds"
proof (cases "ec_clean e = CleanSendClose")
  case True
  then have "e' = e\<lparr>ec_log := ec_log e @ [(closePacket e, sendErr)], ec_clean := CleanCloseData\<rparr>"
    using assms(3) by (simp add: cleanup_step_def)
  with True assms(2) show ?thesis
    by (simp add: sent_inv_def reply_def farewell_def closePacket_def)
next
  case False
  then have "ec_log e' = ec_log e \<and> ec_dial e' = ec_dial e \<and> ec_hasConn e' = ec_hasConn e \<and>
      ec_random e' = ec_random e \<and> ec_connID e' = ec_connID e \<and> farewell e' = farewell e \<and>
      ec_proxy e' = ec_proxy e \<and> ec_reader e' = ec_reader e \<and> ec_sendCh e' = ec_sendCh e \<and> ec_read e' = ec_read e"
    using assms(3,1)
    by (cases "ec_clean e")
      (auto simp: cleanup_step_def farewell_def closePacket_def control_inv_def clean_ok_def split: if_splits)
  with assms(2) show ?thesis by (intro sent_irrelevant [OF assms(2)]) (simp_all add: sent_inv_def)
qed

lemma outgoing_reader:
  "px \<noteq> ProxyOff \<Longrightarrow> outgoing px ReaderReads ds ch cs \<Longrightarrow> outgoing px (ReaderPushes b) ds ch (cs @ [b])"
  "outgoing px (ReaderPushes d) ds ch cs \<Longrightarrow> px \<noteq> ProxyOff \<Longrightarrow> outgoing px ReaderReads ds (ch @ [d]) cs"
  "outgoing px (ReaderPushes d) ds ch cs \<Longrightarrow> outgoing px ReaderCleans ds ch cs"
  "outgoing px ReaderReads ds ch cs \<Longrightarrow> outgoing px ReaderCleans ds ch cs"
  "outgoing px ReaderCleans ds ch cs \<Longrightarrow> outgoing px ReaderDone ds ch cs"
  by (cases px; fastforce)+

lemma sent_reader:
  assumes "control_inv e" and "sent_inv e m ds"
  shows "sent_inv (remoteToSendChannel_step stop pick rd e) m ds"
proof -
  have o: "outgoing (ec_proxy e) (ec_reader e) ds (ec_sendCh e) (ec_read e)"
    using assms(2) by (simp add: sent_inv_def)
  have on: "reader_on (ec_reader e) \<longrightarrow> ec_proxy e \<noteq> ProxyOff"
    using assms(1) by (auto simp: control_inv_def started_ok_def)
  let ?e = "remoteToSendChannel_step stop pick rd e"
  have "outgoing (ec_proxy ?e) (ec_reader ?e) ds (ec_sendCh ?e) (ec_read ?e)"
    using o on
    by (cases "ec_reader e"; cases rd)
      (simp_all add: remoteToSendChannel_step_def cleanup_start_def outgoing_reader Let_def)
  then show ?thesis
    by (intro sent_irrelevant [OF assms(2)])
      (cases "ec_reader e"; cases rd;
        simp add: remoteToSendChannel_step_def cleanup_start_def farewell_def closePacket_def Let_def)+
qed

lemma sent_proxy:
  assumes "control_inv e" and "sent_inv e m ds" and "sendChannelToProxy_step sendErr e = Ret e'"
  shows "\<exists>ds. sent_inv e' m ds"
proof -
  have o: "outgoing (ec_proxy e) (ec_reader e) ds (ec_sendCh e) (ec_read e)"
    using assms(2) by (simp add: sent_inv_def)
  have same: "ec_log e' = ec_log e \<and> ec_dial e' = ec_dial e \<and> ec_hasConn e' = ec_hasConn e \<and>
      ec_random e' = ec_random e \<and> ec_connID e' = ec_connID e \<and> farewell e' = farewell e"
    if "\<forall>d. ec_proxy e \<noteq> ProxySends d"
    using that assms(3)
    by (cases "ec_proxy e") (auto simp: sendChannelToProxy_step_def farewell_def closePacket_def
        split: list.splits if_splits)
  show ?thesis
  proof (cases "ec_proxy e")
    case (ProxySends d)
    then have "e' = e\<lparr>ec_log := ec_log e @ [(newDataPacket (ec_connID e) d, sendErr)],
                   ec_proxy := (if sendErr = None then ProxyTakes else ProxyDrains)\<rparr>"
      using assms(3) by (simp add: sendChannelToProxy_step_def)
    with ProxySends assms(2) control_points(2) [OF assms(1) ProxySends] have "sent_inv e' m (ds @ [d])"
      by (auto simp: sent_inv_def reply_def farewell_def prefix_def)
    then show ?thesis ..
  next
    case ProxyTakes
    from o ProxyTakes assms(3) have
      "outgoing (ec_proxy e') (ec_reader e') ds (ec_sendCh e') (ec_read e')"
      using outgoing_prefix [OF o]
      by (cases "ec_sendCh e") (auto simp: sendChannelToProxy_step_def split: if_splits)
    with same ProxyTakes have "sent_inv e' m ds" by (intro sent_irrelevant [OF assms(2)]) simp_all
    then show ?thesis ..
  next
    case ProxyDrains
    from o ProxyDrains assms(3) have
      "outgoing (ec_proxy e') (ec_reader e') ds (ec_sendCh e') (ec_read e')"
      by (cases "ec_sendCh e") (auto simp: sendChannelToProxy_step_def split: if_splits)
    with same ProxyDrains have "sent_inv e' m ds" by (intro sent_irrelevant [OF assms(2)]) simp_all
    then show ?thesis ..
  qed (use assms in \<open>auto simp: sendChannelToProxy_step_def\<close>)
qed

lemma sent_step:
  assumes "control_inv e" and "sent_inv e m ds" and "endpoint_step e e'"
  shows "\<exists>m ds. sent_inv e' m ds"
  using assms(3)
proof (rule endpoint_stepE)
  assume "e' = cleanup_start e"
  then have "sent_inv e' m ds"
    using assms(2) by (simp add: sent_inv_def reply_def farewell_def closePacket_def cleanup_start_def)
  then show ?thesis by blast
next
  fix msg
  assume "sendViaDataChannel msg e = Some e'"
  then have "sent_inv e' m ds"
    using assms(2)
    by (auto simp: sent_inv_def reply_def farewell_def closePacket_def sendViaDataChannel_def split: if_splits)
  then show ?thesis by blast
next
  fix wr
  assume e': "e' = dataChannelToRemote_step wr e"
  have "sent_inv e' m ds"
    unfolding e' using assms(2)
    by (intro sent_irrelevant [OF assms(2)]; cases "ec_remote e")
      (simp_all add: dataChannelToRemote_step_def farewell_def closePacket_def sent_inv_def Let_def
        split: list.split)
  then show ?thesis by blast
qed (use sent_dial [OF assms(1,2)] sent_reply [OF assms(1,2)] sent_cleanup [OF assms(1,2)]
    sent_reader [OF assms(1,2)] sent_proxy [OF assms(1,2)] in blast)+

lemma endpoint_inv_init: "endpoint_init e \<Longrightarrow> endpoint_inv e"
proof -
  assume e: "endpoint_init e"
  then have "sent_inv e [] []" and "written_inv e"
    by (auto simp: endpoint_init_def newEndpointConn_def sent_inv_def reply_def farewell_def written_inv_def)
  with control_init [OF e] show "endpoint_inv e" by (auto simp: endpoint_inv_def)
qed

lemma endpoint_inv_step: "endpoint_inv e \<Longrightarrow> endpoint_step e e' \<Longrightarrow> endpoint_inv e'"
  unfolding endpoint_inv_def using control_step written_step sent_step by blast

interpretation endpoint_system: invariant_system endpoint_init endpoint_step endpoint_inv
  by unfold_locales (fact endpoint_inv_init, fact endpoint_inv_step)

subsection \<open>Cleanup ends\<close>

fun proxy_work :: "proxy_pc \<Rightarrow> nat" where
  "proxy_work (ProxySends d) = 3"
| "proxy_work ProxyTakes = 2"
| "proxy_work ProxyDrains = 1"
| "proxy_work _ = 0"

fun dial_work :: "dial_pc \<Rightarrow> nat" where
  "dial_work Dialing = 4"
| "dial_work DialReply = 3"
| "dial_work DialEnded = 0"

definition work :: "endpoint \<Rightarrow> nat" where
  "work e = dial_work (ec_dial e) + (7 - clean_rank (ec_clean e)) + 2 * length (ec_sendCh e) +
     proxy_work (ec_proxy e)"

lemma reply_works:
  assumes "control_inv e" and "ec_dial e = DialReply"
  shows "\<exists>e'. endpoint_reply sendErr e = Ret e' \<and> work e' < work e"
proof -
  have "\<not> ec_dialDone e" and "\<not> ec_sendDone e" and "ec_proxy e = ProxyOff"
    using assms control_points(1) [OF assms(1)] by (auto simp: control_inv_def dial_ok_def started_ok_def)
  with assms(2) show ?thesis by (simp add: endpoint_reply_def Let_def work_def)
qed

lemma proxy_works:
  assumes "ec_proxy e \<noteq> ProxyOff" and "\<not> ec_sendDone e" and "ec_sendClosed e" and "ec_proxy e \<noteq> ProxyDone"
  shows "\<exists>e'. sendChannelToProxy_step sendErr e = Ret e' \<and> work e' < work e"
  using assms
  by (cases "ec_proxy e"; cases "ec_sendCh e") (auto simp: sendChannelToProxy_step_def work_def)

lemma cleanup_works:
  assumes "control_inv e" and "ec_clean e \<noteq> CleanIdle" and "ec_clean e \<noteq> CleanDone"
    and "ec_clean e = CleanWaitDial \<longrightarrow> ec_dialDone e" and "ec_clean e = CleanWaitSend \<longrightarrow> ec_sendDone e"
  shows "\<exists>e'. cleanup_step sendErr e = Ret e' \<and> work e' < work e"
  using assms
  by (cases "ec_clean e") (auto simp: cleanup_step_def work_def control_inv_def flags_ok_def)

lemma closed_work_step:
  assumes "control_inv e" and "ec_sendClosed e" and "endpoint_step e e'"
  shows "work e' \<le> work e"
proof -
  have dial: "ec_dial e = DialEnded" and k: "2 \<le> clean_rank (ec_clean e)"
    using assms(1,2) by (auto simp: control_inv_def dial_ok_def flags_ok_def clean_ok_def)
  show ?thesis
    using assms(3)
  proof (rule endpoint_stepE)
    fix sendErr
    assume "cleanup_step sendErr e = Ret e'"
    then show ?thesis by (cases "ec_clean e") (auto simp: cleanup_step_def work_def split: if_splits)
  next
    fix stop pick rd
    assume "e' = remoteToSendChannel_step stop pick rd e"
    then show ?thesis
      using assms(2)
      by (cases "ec_reader e"; cases rd)
        (auto simp: remoteToSendChannel_step_def cleanup_start_def work_def Let_def)
  next
    fix sendErr
    assume "sendChannelToProxy_step sendErr e = Ret e'"
    then show ?thesis
      by (cases "ec_proxy e"; cases "ec_sendCh e")
        (auto simp: sendChannelToProxy_step_def work_def split: if_splits)
  next
    fix wr
    assume "e' = dataChannelToRemote_step wr e"
    then show ?thesis
      by (cases "ec_remote e") (auto simp: dataChannelToRemote_step_def work_def Let_def split: list.split)
  qed (use dial in \<open>auto simp: endpoint_dial_def endpoint_reply_def cleanup_start_def sendViaDataChannel_def
      work_def split: if_splits\<close>)
qed

text \<open>
  C21. The cleanup of an agent connection cannot deadlock: as long as it has started and not
  finished, the goroutine it waits for (the dial, the sender or the cleanup itself) can take a
  step whatever the stream answers, and that step brings the end nearer by a natural number; once
  the send channel is closed no step of any goroutine of the connection takes it further away.
\<close>

theorem agent_cleanup_progress:
  assumes "reach endpoint_init endpoint_step e" and "ec_clean e \<noteq> CleanIdle" and "ec_clean e \<noteq> CleanDone"
  shows "((\<exists>e'. cleanup_step sendErr e = Ret e' \<and> work e' < work e) \<or>
      (\<exists>e'. endpoint_reply sendErr e = Ret e' \<and> work e' < work e) \<or>
      (\<exists>e'. sendChannelToProxy_step sendErr e = Ret e' \<and> work e' < work e)) \<and>
     (ec_sendClosed e \<longrightarrow> (\<forall>e'. endpoint_step e e' \<longrightarrow> work e' \<le> work e))"
proof -
  have c: "control_inv e"
    using endpoint_system.reach_inv [OF assms(1)] by (simp add: endpoint_inv_def)
  then have d: "dial_ok e" and h: "ec_hasConn e"
    and s: "started_ok (clean_rank (ec_clean e)) (proxy_phase (ec_proxy e)) e"
    and f: "ec_sendClosed e = (2 \<le> clean_rank (ec_clean e))"
    using assms(2) by (cases "ec_clean e"; simp add: control_inv_def clean_ok_def flags_ok_def)+
  consider (dial) "ec_clean e = CleanWaitDial" "\<not> ec_dialDone e"
    | (send) "ec_clean e = CleanWaitSend" "\<not> ec_sendDone e"
    | (clean) "ec_clean e = CleanWaitDial \<longrightarrow> ec_dialDone e" "ec_clean e = CleanWaitSend \<longrightarrow> ec_sendDone e"
    by blast
  then have "(\<exists>e'. cleanup_step sendErr e = Ret e' \<and> work e' < work e) \<or>
      (\<exists>e'. endpoint_reply sendErr e = Ret e' \<and> work e' < work e) \<or>
      (\<exists>e'. sendChannelToProxy_step sendErr e = Ret e' \<and> work e' < work e)"
  proof cases
    case dial
    with d h have "ec_dial e = DialReply" by (cases "ec_dial e") (auto simp: dial_ok_def)
    then show ?thesis using reply_works [OF c] by blast
  next
    case send
    then have "ec_dialDone e" using c by (auto simp: control_inv_def clean_ok_def)
    with send s f have "ec_proxy e \<noteq> ProxyOff" "ec_proxy e \<noteq> ProxyDone" "ec_sendClosed e"
      by (auto simp: started_ok_def)
    then show ?thesis using proxy_works send(2) by blast
  next
    case clean
    then show ?thesis using cleanup_works [OF c assms(2,3)] by blast
  qed
  with closed_work_step [OF c] show ?thesis by blast
qed

definition closing_endpoint :: endpoint where
  "closing_endpoint = (newEndpointConn 1 1 7)\<lparr>ec_hasConn := True, ec_added := True, ec_dial := DialReply,
     ec_clean := CleanWaitDial\<rparr>"

lemma closing_endpoint_reach: "reach endpoint_init endpoint_step closing_endpoint"
proof -
  have "reach endpoint_init endpoint_step (newEndpointConn 1 1 7)"
    by (rule reach_init, unfold endpoint_init_def) (intro exI [of _ 1] exI [of _ 7], simp)
  moreover have "endpoint_step (newEndpointConn 1 1 7)
      ((newEndpointConn 1 1 7)\<lparr>ec_hasConn := True, ec_added := True, ec_dial := DialReply\<rparr>)"
    by (rule ep_dial [where dialErr = None and sendErr = None]) (simp add: endpoint_dial_def newEndpointConn_def)
  ultimately have "reach endpoint_init endpoint_step
      ((newEndpointConn 1 1 7)\<lparr>ec_hasConn := True, ec_added := True, ec_dial := DialReply\<rparr>)"
    by (rule reach_step)
  from reach_step [OF this ep_cleanup_start] show ?thesis
    by (simp add: closing_endpoint_def cleanup_start_def newEndpointConn_def)
qed

theorem agent_cleanup_progress_witness:
  "(\<exists>e'. cleanup_step None closing_endpoint = Ret e' \<and> work e' < work closing_endpoint) \<or>
   (\<exists>e'. endpoint_reply None closing_endpoint = Ret e' \<and> work e' < work closing_endpoint) \<or>
   (\<exists>e'. sendChannelToProxy_step None closing_endpoint = Ret e' \<and> work e' < work closing_endpoint)"
  using agent_cleanup_progress [OF closing_endpoint_reach, of None] by (simp add: closing_endpoint_def)

end
