(* ===== verification/KNP_AgentClient.thy ===== *)
theory KNP_AgentClient
  imports KNP_Agent
begin

section \<open>The agent: one client of a proxy server\<close>

text \<open>
  \<^verbatim>\<open>connectionManager\<close> and \<^verbatim>\<open>Client\<close> of \<^verbatim>\<open>pkg/agent/client.go\<close>: the receive loop \<^verbatim>\<open>Serve\<close>, the
  table of connections with its gauge, the handshake with the server, the probe and the drain.
  The endpoints are numbered in the order of their dials; the table maps connection IDs to these
  numbers, as the Go table maps them to pointers. \<^verbatim>\<open>Serve\<close> has a program counter for the two
  places where it waits: a full data channel and a cleanup.
\<close>

subsection \<open>State and the connection manager\<close>

datatype serve_pc = ServeLoop | ServePush nat string | ServeClean nat | ServeExit "nat list" | ServeDone

datatype lost_reason =
    ServerConnectionLostEOF | ServerConnectionLostCancelled | ServerConnectionLostRecvError
  | ServerConnectionLostSendError | ServerConnectionLostProbe

record agent_client =
  ag_nextConnID :: int
  ag_channelSize :: nat
  ag_endpoints :: "endpoint list"
  ag_connections :: "(int, nat) gomap"
  ag_gauge :: int
  ag_stopped :: bool
  ag_serve :: serve_pc
  ag_lost :: "lost_reason list"
  ag_log :: "(packet \<times> go_error option) list"

definition newConnectionManager :: "(int, nat) gomap" where
  "newConnectionManager = []"

definition cm_Add :: "int \<Rightarrow> nat \<Rightarrow> agent_client \<Rightarrow> agent_client" where
  "cm_Add connID i a =
     a\<lparr>ag_gauge := ag_gauge a + 1, ag_connections := gm_put connID i (ag_connections a)\<rparr>"

definition cm_Get :: "int \<Rightarrow> agent_client \<Rightarrow> nat option" where
  "cm_Get connID a = gm_get (ag_connections a) connID"

definition cm_Delete :: "int \<Rightarrow> agent_client \<Rightarrow> agent_client" where
  "cm_Delete connID a =
     a\<lparr>ag_gauge := ag_gauge a - 1, ag_connections := gm_delete connID (ag_connections a)\<rparr>"

definition cm_List :: "agent_client \<Rightarrow> nat list" where
  "cm_List a = gm_values (ag_connections a)"

text \<open>Store the endpoint a goroutine has changed, with the table entry it added or deleted.\<close>

definition put_endpoint :: "nat \<Rightarrow> endpoint \<Rightarrow> agent_client \<Rightarrow> agent_client" where
  "put_endpoint i e a =
     (let old = ag_endpoints a ! i;
          a1 = a\<lparr>ag_endpoints := (ag_endpoints a)[i := e]\<rparr>;
          a2 = (if ec_added e \<and> \<not> ec_added old then cm_Add (ec_connID e) i a1 else a1)
      in if ec_deleted e \<and> \<not> ec_deleted old then cm_Delete (ec_connID e) a2 else a2)"

subsection \<open>The receive loop\<close>

definition agent_DIAL_REQ :: "packet \<Rightarrow> agent_client \<Rightarrow> agent_client outcome" where
  "agent_DIAL_REQ pkt a =
     bind_outcome (deref (GetDialRequest pkt)) (\<lambda>dialReq.
       let connID = wrap64 (ag_nextConnID a + 1) in
       Ret (a\<lparr>ag_nextConnID := connID,
              ag_endpoints := ag_endpoints a @ [newEndpointConn (ag_channelSize a) connID (dq_random dialReq)]\<rparr>))"

definition agent_DATA :: "go_error option \<Rightarrow> packet \<Rightarrow> agent_client \<Rightarrow> agent_client outcome" where
  "agent_DATA sendErr pkt a =
     bind_outcome (deref (GetData pkt)) (\<lambda>d.
       if dm_connectID d = 0 then Ret a
       else
         (case cm_Get (dm_connectID d) a of
            Some i \<Rightarrow> Ret (a\<lparr>ag_serve := ServePush i (dm_data d)\<rparr>)
          | None \<Rightarrow>
              Ret (a\<lparr>ag_log := ag_log a @
                [(newCloseResponsePacket (dm_connectID d) ''unrecognized connectID'', sendErr)]\<rparr>)))"

definition agent_CLOSE_REQ :: "go_error option \<Rightarrow> packet \<Rightarrow> agent_client \<Rightarrow> agent_client outcome" where
  "agent_CLOSE_REQ sendErr pkt a =
     bind_outcome (deref (GetCloseRequest pkt)) (\<lambda>closeReq.
       case cm_Get (cq_connectID closeReq) a of
         Some i \<Rightarrow> Ret (a\<lparr>ag_serve := ServeClean i\<rparr>)
       | None \<Rightarrow>
           Ret (a\<lparr>ag_log := ag_log a @
             [(newCloseResponsePacket (cq_connectID closeReq) ''Unknown connectID'', sendErr)]\<rparr>))"

definition Serve_packet :: "go_error option \<Rightarrow> packet \<Rightarrow> agent_client \<Rightarrow> agent_client outcome" where
  "Serve_packet sendErr pkt a =
     (case ptype pkt of
        DIAL_REQ \<Rightarrow> agent_DIAL_REQ pkt a
      | DATA \<Rightarrow> agent_DATA sendErr pkt a
      | CLOSE_REQ \<Rightarrow> agent_CLOSE_REQ sendErr pkt a
      | _ \<Rightarrow> Ret a)"

definition lostReason :: "go_error \<Rightarrow> lost_reason" where
  "lostReason err =
     (if err = ErrEOF then ServerConnectionLostEOF
      else if err = ErrCanceled then ServerConnectionLostCancelled
      else ServerConnectionLostRecvError)"

text \<open>The endpoint of a cleanup \<^verbatim>\<open>Serve\<close> runs or waits for; \<open>pc\<close> is where it goes on.\<close>

definition Serve_cleanup :: "nat \<Rightarrow> serve_pc \<Rightarrow> agent_client \<Rightarrow> agent_client" where
  "Serve_cleanup i pc a =
     (let e = cleanup_start (ag_endpoints a ! i); a1 = put_endpoint i e a in
      if ec_clean e = CleanDone then a1\<lparr>ag_serve := pc\<rparr> else a1)"

text \<open>
  \<open>rd\<close> is what \<^verbatim>\<open>Recv\<close> returns: an error, no packet or a packet. \<open>registered\<close> is what
  \<^verbatim>\<open>removeClient\<close> would return: whether the client set still has this client, which it then
  closes.
\<close>

definition removed :: "bool \<Rightarrow> lost_reason \<Rightarrow> agent_client \<Rightarrow> agent_client" where
  "removed registered reason a =
     (if registered then a\<lparr>ag_stopped := True, ag_lost := ag_lost a @ [reason]\<rparr> else a)"

definition Serve_step ::
  "bool \<Rightarrow> go_error option \<Rightarrow> go_error + packet option \<Rightarrow> agent_client \<Rightarrow> agent_client outcome" where
  "Serve_step registered sendErr rd a =
     (case ag_serve a of
        ServeLoop \<Rightarrow>
          if ag_stopped a then Ret (a\<lparr>ag_serve := ServeExit (cm_List a)\<rparr>)
          else
            (case rd of
               Inl err \<Rightarrow>
                 Ret ((removed registered (lostReason err) a)\<lparr>ag_serve := ServeExit (cm_List a)\<rparr>)
             | Inr None \<Rightarrow> Ret a
             | Inr (Some pkt) \<Rightarrow> Serve_packet sendErr pkt a)
      | ServePush i msg \<Rightarrow>
          (case sendViaDataChannel msg (ag_endpoints a ! i) of
             Some e \<Rightarrow> Ret ((put_endpoint i e a)\<lparr>ag_serve := ServeLoop\<rparr>)
           | None \<Rightarrow> Ret a)
      | ServeClean i \<Rightarrow> Ret (Serve_cleanup i ServeLoop a)
      | ServeExit [] \<Rightarrow>
          Ret (a\<lparr>ag_stopped := (ag_stopped a \<or> registered), ag_serve := ServeDone\<rparr>)
      | ServeExit (i # is) \<Rightarrow> Ret (Serve_cleanup i (ServeExit is) a)
      | ServeDone \<Rightarrow> Ret a)"

subsection \<open>Handshake, probe, drain\<close>

text \<open>
  \<open>Send\<close>: whether a failed send removes the client. \<open>hdr\<close> is what \<^verbatim>\<open>stream.Header()\<close> returns.
  \<open>token\<close> is what reading the token file returns.
\<close>

definition agent_Send :: "go_error option \<Rightarrow> packet \<Rightarrow> bool \<times> effect list" where
  "agent_Send err pkt =
     (let lost = err \<noteq> None \<and> err \<noteq> Some ErrEOF in
      (lost, ObservePacket SegmentFromAgent (ptype pkt) #
         (if lost then [ObserveStreamError SegmentFromAgent (ptype pkt)] else [])))"

fun digits_of :: "string \<Rightarrow> nat option" where
  "digits_of [] = Some 0"
| "digits_of (c # cs) =
     (let n = of_char c :: nat in
      if 48 \<le> n \<and> n \<le> 57
      then (case digits_of cs of Some r \<Rightarrow> Some ((n - 48) * 10 ^ length cs + r) | None \<Rightarrow> None)
      else None)"

text \<open>\<^verbatim>\<open>strconv.Atoi\<close>: an optional sign, decimal digits, within 64 bits.\<close>

definition Atoi :: "string \<Rightarrow> go_error + int" where
  "Atoi s =
     (let (neg, ds) = (case s of
          c # cs \<Rightarrow> if c = CHR ''-'' then (True, cs) else if c = CHR ''+'' then (False, cs) else (False, s)
        | [] \<Rightarrow> (False, s))
      in case (if ds = [] then None else digits_of ds) of
           None \<Rightarrow> Inl (ErrText (''strconv.Atoi: parsing '' @ s @ '': invalid syntax''))
         | Some n \<Rightarrow>
             (let v = (if neg then - int n else int n) in
              if in_int64 v then Inr v
              else Inl (ErrText (''strconv.Atoi: parsing '' @ s @ '': value out of range''))))"

definition serverCount :: "go_error + (string \<Rightarrow> string list) \<Rightarrow> go_error + int" where
  "serverCount hdr =
     (case hdr of
        Inl err \<Rightarrow> Inl err
      | Inr md \<Rightarrow>
          (case md ''serverCount'' of
             [scount] \<Rightarrow> Atoi scount
           | _ \<Rightarrow> Inl (ErrText ''expected one server count'')))"

definition serverID :: "go_error + (string \<Rightarrow> string list) \<Rightarrow> go_error + string" where
  "serverID hdr =
     (case hdr of
        Inl err \<Rightarrow> Inl err
      | Inr md \<Rightarrow>
          (case md ''serverID'' of
             [sid] \<Rightarrow> Inr sid
           | _ \<Rightarrow> Inl (ErrText ''expected one server ID in the context'')))"

definition initializeAuthContext ::
  "go_error + string \<Rightarrow> (string \<times> string) list \<Rightarrow> go_error + (string \<times> string) list" where
  "initializeAuthContext token ctx =
     (case token of
        Inl err \<Rightarrow> Inl err
      | Inr b \<Rightarrow> Inr (ctx @ [(''Authorization'', ''Bearer '' @ b)]))"

text \<open>
  \<open>dialErr\<close> and \<open>streamErr\<close> are the errors of the gRPC dial and of opening the stream. A result
  has the outgoing metadata with the server's ID and count.
\<close>

definition Connect ::
  "string \<Rightarrow> string \<Rightarrow> (go_error + string) option \<Rightarrow> go_error option \<Rightarrow> go_error option
     \<Rightarrow> go_error + (string \<Rightarrow> string list) \<Rightarrow> go_error + (string \<times> string) list \<times> string \<times> int" where
  "Connect agentID agentIdentifiers token dialErr streamErr hdr =
     (case dialErr of
        Some err \<Rightarrow> Inl err
      | None \<Rightarrow>
          (let ctx = [(''agentID'', agentID), (''agentIdentifiers'', agentIdentifiers)] in
           case (case token of None \<Rightarrow> Inr ctx | Some t \<Rightarrow> initializeAuthContext t ctx) of
             Inl err \<Rightarrow> Inl err
           | Inr ctx' \<Rightarrow>
               (case streamErr of
                  Some err \<Rightarrow> Inl err
                | None \<Rightarrow>
                    (case serverID hdr of
                       Inl err \<Rightarrow> Inl err
                     | Inr sid \<Rightarrow>
                         (case serverCount hdr of
                            Inl err \<Rightarrow> Inl err
                          | Inr n \<Rightarrow> Inr (ctx', sid, n))))))"

definition sendDrainWhenRequested :: "bool \<Rightarrow> go_error option \<Rightarrow> agent_client \<Rightarrow> agent_client" where
  "sendDrainWhenRequested drained sendErr a =
     (if drained then a\<lparr>ag_log := ag_log a @ [(newDrainPacket, sendErr)]\<rparr> else a)"

text \<open>One round of the probe: go on, or remove the client.\<close>

definition probe :: "bool \<Rightarrow> bool \<Rightarrow> bool \<Rightarrow> agent_client \<Rightarrow> agent_client" where
  "probe registered hasConn ready a =
     (if ag_stopped a then a
      else if \<not> hasConn \<or> ready then a
      else removed registered ServerConnectionLostProbe a)"

subsection \<open>The client in all interleavings\<close>

definition newAgentClient :: "nat \<Rightarrow> agent_client" where
  "newAgentClient xfrChannelSize =
     \<lparr>ag_nextConnID = 0, ag_channelSize = xfrChannelSize, ag_endpoints = [],
      ag_connections = newConnectionManager, ag_gauge = 0, ag_stopped = False, ag_serve = ServeLoop,
      ag_lost = [], ag_log = []\<rparr>"

inductive agent_step :: "agent_client \<Rightarrow> agent_client \<Rightarrow> bool" where
  ag_serves: "Serve_step registered sendErr rd a = Ret a' \<Longrightarrow> agent_step a a'"
| ag_endpoint: "i < length (ag_endpoints a) \<Longrightarrow> endpoint_step (ag_endpoints a ! i) e \<Longrightarrow>
     agent_step a (put_endpoint i e a)"
| ag_probes: "agent_step a (probe registered hasConn ready a)"
| ag_drains: "agent_step a (sendDrainWhenRequested drained sendErr a)"
| ag_stops: "agent_step a (a\<lparr>ag_stopped := True\<rparr>)"

inductive_cases agent_stepE: "agent_step a a'"

definition agent_init :: "agent_client \<Rightarrow> bool" where
  "agent_init a \<longleftrightarrow> (\<exists>n. 0 < n \<and> a = newAgentClient n)"

text \<open>Connection IDs stay unique for the first 2^63 - 1 dials of a client.\<close>

definition ids_left :: "agent_client \<Rightarrow> bool" where
  "ids_left a \<longleftrightarrow> length (ag_endpoints a) < 2 ^ 63"

definition entry_ok :: "agent_client \<Rightarrow> nat \<Rightarrow> bool" where
  "entry_ok a i \<longleftrightarrow> i < length (ag_endpoints a) \<and> ec_added (ag_endpoints a ! i)"

fun serve_ok :: "agent_client \<Rightarrow> serve_pc \<Rightarrow> bool" where
  "serve_ok a (ServePush i msg) = entry_ok a i"
| "serve_ok a (ServeClean i) = entry_ok a i"
| "serve_ok a (ServeExit is) = (\<forall>i \<in> set is. entry_ok a i)"
| "serve_ok a _ = True"

definition table_ok :: "agent_client \<Rightarrow> bool" where
  "table_ok a \<longleftrightarrow>
     gm_wf (ag_connections a) \<and> ag_gauge a = int (length (ag_connections a)) \<and>
     (\<forall>c i. gm_get (ag_connections a) c = Some i \<longleftrightarrow>
        entry_ok a i \<and> c = int i + 1 \<and> \<not> ec_deleted (ag_endpoints a ! i))"

definition endpoints_ok :: "agent_client \<Rightarrow> bool" where
  "endpoints_ok a \<longleftrightarrow>
     (\<forall>i < length (ag_endpoints a). endpoint_inv (ag_endpoints a ! i) \<and>
        ec_connID (ag_endpoints a ! i) = int i + 1)"

definition agent_ok :: "agent_client \<Rightarrow> bool" where
  "agent_ok a \<longleftrightarrow>
     ag_nextConnID a = int (length (ag_endpoints a)) \<and> 0 < ag_channelSize a \<and> endpoints_ok a \<and>
     table_ok a \<and> serve_ok a (ag_serve a)"

definition agent_inv :: "agent_client \<Rightarrow> bool" where
  "agent_inv a \<longleftrightarrow> (ids_left a \<longrightarrow> agent_ok a)"

lemma endpoint_step_const:
  assumes "endpoint_step e e'"
  shows "ec_connID e' = ec_connID e" and "ec_added e \<Longrightarrow> ec_added e'" and "ec_deleted e \<Longrightarrow> ec_deleted e'"
proof -
  have "ec_connID e' = ec_connID e \<and> (ec_added e \<longrightarrow> ec_added e') \<and> (ec_deleted e \<longrightarrow> ec_deleted e')"
    using assms
  proof (rule endpoint_stepE)
    fix sendErr
    assume "cleanup_step sendErr e = Ret e'"
    then show ?thesis by (cases "ec_clean e") (auto simp: cleanup_step_def split: if_splits)
  next
    fix stop pick rd
    assume "e' = remoteToSendChannel_step stop pick rd e"
    then show ?thesis
      by (cases "ec_reader e"; cases rd) (simp_all add: remoteToSendChannel_step_def cleanup_start_def Let_def)
  next
    fix sendErr
    assume "sendChannelToProxy_step sendErr e = Ret e'"
    then show ?thesis
      by (cases "ec_proxy e") (auto simp: sendChannelToProxy_step_def split: if_splits list.splits)
  next
    fix wr
    assume "e' = dataChannelToRemote_step wr e"
    then show ?thesis by (cases "ec_remote e") (simp_all add: dataChannelToRemote_step_def Let_def split: list.split)
  qed (auto simp: endpoint_dial_def endpoint_reply_def cleanup_start_def sendViaDataChannel_def Let_def
      split: if_splits option.splits)
  then show "ec_connID e' = ec_connID e" and "ec_added e \<Longrightarrow> ec_added e'" and "ec_deleted e \<Longrightarrow> ec_deleted e'"
    by simp_all
qed

lemma length_gm_delete:
  assumes "gm_wf m" and "gm_get m k = Some v"
  shows "length m = Suc (length (gm_delete k m))"
  using arg_cong [OF gm_delete_mset [OF assms], of size] by simp

lemma put_endpoint_fields [simp]:
  "ag_endpoints (put_endpoint i e a) = (ag_endpoints a)[i := e]"
  "ag_serve (put_endpoint i e a) = ag_serve a" "ag_nextConnID (put_endpoint i e a) = ag_nextConnID a"
  "ag_channelSize (put_endpoint i e a) = ag_channelSize a" "ag_stopped (put_endpoint i e a) = ag_stopped a"
  by (simp_all add: put_endpoint_def cm_Add_def cm_Delete_def Let_def)

lemma deleted_added: "endpoint_inv e \<Longrightarrow> ec_deleted e \<Longrightarrow> ec_added e"
  by (auto simp: endpoint_inv_def control_inv_def dial_ok_def flags_ok_def clean_ok_def)

lemma entry_ok_put:
  assumes "i < length (ag_endpoints a)" and "endpoint_step (ag_endpoints a ! i) e"
  shows "entry_ok a j \<Longrightarrow> entry_ok (put_endpoint i e a) j"
  using endpoint_step_const(2) [OF assms(2)] by (cases "j = i") (auto simp: entry_ok_def)

lemma serve_ok_mono:
  "(\<And>i. entry_ok a i \<Longrightarrow> entry_ok a' i) \<Longrightarrow> serve_ok a pc \<Longrightarrow> serve_ok a' pc"
  by (cases pc) auto

text \<open>The table after one endpoint has moved.\<close>

lemma table_ok_put:
  assumes t: "table_ok a" and i: "i < length (ag_endpoints a)"
    and id: "ec_connID e = int i + 1"
    and mono: "ec_added (ag_endpoints a ! i) \<Longrightarrow> ec_added e" "ec_deleted (ag_endpoints a ! i) \<Longrightarrow> ec_deleted e"
    and da: "ec_deleted (ag_endpoints a ! i) \<Longrightarrow> ec_added (ag_endpoints a ! i)" "ec_deleted e \<Longrightarrow> ec_added e"
  shows "table_ok (put_endpoint i e a)"
proof -
  let ?old = "ag_endpoints a ! i" and ?c = "int i + 1"
  have wf: "gm_wf (ag_connections a)" and g: "ag_gauge a = int (length (ag_connections a))"
    and get: "gm_get (ag_connections a) c = Some j \<longleftrightarrow>
      entry_ok a j \<and> c = int j + 1 \<and> \<not> ec_deleted (ag_endpoints a ! j)" for c j
    using t by (simp_all add: table_ok_def)
  have old: "gm_get (ag_connections a) ?c = (if ec_added ?old \<and> \<not> ec_deleted ?old then Some i else None)"
  proof (cases "gm_get (ag_connections a) ?c")
    case None
    then show ?thesis using get [of ?c i] i by (auto simp: entry_ok_def)
  next
    case (Some j)
    then show ?thesis using get [of ?c j] by (auto simp: entry_ok_def)
  qed
  let ?add = "ec_added e \<and> \<not> ec_added ?old" and ?del = "ec_deleted e \<and> \<not> ec_deleted ?old"
  define m where "m = (if ?add then gm_put ?c i (ag_connections a) else ag_connections a)"
  have m1: "gm_wf m" using wf by (simp add: m_def)
  have m2: "gm_get m ?c = (if ec_added e \<and> \<not> ec_deleted ?old then Some i else None)"
  proof (cases "ec_added ?old")
    case True
    with mono(1) show ?thesis by (simp add: m_def old)
  next
    case False
    with da(1) have "\<not> ec_deleted ?old" by blast
    with False show ?thesis by (simp add: m_def old)
  qed
  have m3: "gm_get m c = gm_get (ag_connections a) c" if "c \<noteq> ?c" for c
    using that by (simp add: m_def)
  have m4: "int (length m) = ag_gauge a + (if ?add then 1 else 0)"
    using old gm_put_new [of "ag_connections a" ?c i] by (simp add: m_def g)
  note m = m1 m2 m3 m4
  have conns: "ag_connections (put_endpoint i e a) = (if ?del then gm_delete ?c m else m)"
    by (simp add: put_endpoint_def cm_Add_def cm_Delete_def Let_def id m_def)
  have gauge: "ag_gauge (put_endpoint i e a) = ag_gauge a + (if ?add then 1 else 0) - (if ?del then 1 else 0)"
    by (simp add: put_endpoint_def cm_Add_def cm_Delete_def Let_def)
  have "gm_get (ag_connections (put_endpoint i e a)) c = Some j \<longleftrightarrow>
      entry_ok (put_endpoint i e a) j \<and> c = int j + 1 \<and> \<not> ec_deleted (ag_endpoints (put_endpoint i e a) ! j)" for c j
  proof (cases "c = ?c")
    case True
    then show ?thesis
      using m(2) i mono(2) da(2) by (auto simp: conns entry_ok_def)
  next
    case False
    then have "gm_get (ag_connections (put_endpoint i e a)) c = gm_get (ag_connections a) c"
      using m(3) by (simp add: conns)
    then show ?thesis using get [of c j] False by (auto simp: entry_ok_def nth_list_update)
  qed
  moreover have "ag_gauge (put_endpoint i e a) = int (length (ag_connections (put_endpoint i e a)))"
    using m(4) m(2) da(2) length_gm_delete [OF m(1), of ?c i] by (auto simp: conns gauge)
  ultimately show ?thesis using m(1) by (simp add: table_ok_def conns)
qed

lemma agent_ok_put:
  assumes ok: "agent_ok a" and i: "i < length (ag_endpoints a)" and step: "endpoint_step (ag_endpoints a ! i) e"
  shows "agent_ok (put_endpoint i e a)"
proof -
  have inv: "endpoint_inv (ag_endpoints a ! i)" and id: "ec_connID (ag_endpoints a ! i) = int i + 1"
    using ok i by (simp_all add: agent_ok_def endpoints_ok_def)
  have inv': "endpoint_inv e" using endpoint_inv_step [OF inv step] .
  have t: "table_ok (put_endpoint i e a)"
    using ok i id endpoint_step_const [OF step] deleted_added [OF inv] deleted_added [OF inv']
    by (intro table_ok_put) (simp_all add: agent_ok_def)
  have "serve_ok (put_endpoint i e a) (ag_serve a)"
    using ok serve_ok_mono [OF entry_ok_put [OF i step]] unfolding agent_ok_def by blast
  with t ok i inv' id endpoint_step_const(1) [OF step] show ?thesis
    by (auto simp: agent_ok_def endpoints_ok_def nth_list_update)
qed

lemma entry_ok_frame [simp]:
  "entry_ok (a\<lparr>ag_log := l\<rparr>) = entry_ok a" "entry_ok (a\<lparr>ag_lost := ls\<rparr>) = entry_ok a"
  "entry_ok (a\<lparr>ag_stopped := b\<rparr>) = entry_ok a" "entry_ok (a\<lparr>ag_serve := pc\<rparr>) = entry_ok a"
  by (simp_all add: entry_ok_def fun_eq_iff)

lemma table_ok_frame [simp]:
  "table_ok (a\<lparr>ag_log := l\<rparr>) = table_ok a" "table_ok (a\<lparr>ag_lost := ls\<rparr>) = table_ok a"
  "table_ok (a\<lparr>ag_stopped := b\<rparr>) = table_ok a" "table_ok (a\<lparr>ag_serve := pc\<rparr>) = table_ok a"
  by (simp_all add: table_ok_def)

lemma serve_ok_frame [simp]:
  "serve_ok (a\<lparr>ag_log := l\<rparr>) pc = serve_ok a pc" "serve_ok (a\<lparr>ag_lost := ls\<rparr>) pc = serve_ok a pc"
  "serve_ok (a\<lparr>ag_stopped := b\<rparr>) pc = serve_ok a pc" "serve_ok (a\<lparr>ag_serve := pc'\<rparr>) pc = serve_ok a pc"
  by (cases pc; simp)+

lemma agent_ok_frame [simp]:
  "agent_ok (a\<lparr>ag_log := l\<rparr>) = agent_ok a" "agent_ok (a\<lparr>ag_lost := ls\<rparr>) = agent_ok a"
  "agent_ok (a\<lparr>ag_stopped := b\<rparr>) = agent_ok a"
  by (simp_all add: agent_ok_def endpoints_ok_def)

lemma agent_ok_serve: "agent_ok a \<Longrightarrow> serve_ok a pc \<Longrightarrow> agent_ok (a\<lparr>ag_serve := pc\<rparr>)"
  by (simp add: agent_ok_def endpoints_ok_def)

lemma agent_ok_removed: "agent_ok a \<Longrightarrow> agent_ok (removed registered reason a)"
  by (simp add: removed_def)

lemma Get_entry: "agent_ok a \<Longrightarrow> cm_Get c a = Some i \<Longrightarrow> entry_ok a i"
  by (simp add: agent_ok_def table_ok_def cm_Get_def)

lemma List_entries: "agent_ok a \<Longrightarrow> i \<in> set (cm_List a) \<Longrightarrow> entry_ok a i"
  using gm_get_wf_iff [of "ag_connections a"]
  by (fastforce simp: agent_ok_def table_ok_def cm_List_def gm_values_def)

lemma agent_ok_DIAL_REQ:
  assumes ok: "agent_ok a" and step: "agent_DIAL_REQ pkt a = Ret a'" and left: "ids_left a'"
  shows "agent_ok a'"
proof -
  let ?n = "length (ag_endpoints a)"
  obtain dialReq :: dial_request where "a\<lparr>ag_nextConnID := wrap64 (ag_nextConnID a + 1),
      ag_endpoints := ag_endpoints a @ [newEndpointConn (ag_channelSize a) (wrap64 (ag_nextConnID a + 1)) (dq_random dialReq)]\<rparr> = a'"
    using step unfolding agent_DIAL_REQ_def bind_outcome_Ret_iff Let_def outcome.inject by blast
  note a' = this [symmetric]
  have w: "wrap64 (ag_nextConnID a + 1) = int ?n + 1"
    using ok left by (simp add: agent_ok_def a' ids_left_def in_int64_def)
  let ?e = "newEndpointConn (ag_channelSize a) (int ?n + 1) (dq_random dialReq)"
  have a'': "a' = a\<lparr>ag_nextConnID := int ?n + 1, ag_endpoints := ag_endpoints a @ [?e]\<rparr>"
    by (simp only: a' w)
  have new: "endpoint_inv ?e" "ec_connID ?e = int ?n + 1" "\<not> ec_added ?e"
    using ok by (auto intro!: endpoint_inv_init simp: endpoint_init_def agent_ok_def newEndpointConn_def)
  have entry: "entry_ok a' i = entry_ok a i" for i
    using new(3) by (auto simp: entry_ok_def a'' nth_append)
  have "endpoints_ok a'"
    using ok new by (auto simp: agent_ok_def endpoints_ok_def a'' nth_append less_Suc_eq)
  moreover have "table_ok a'"
    using ok by (auto simp: agent_ok_def table_ok_def entry) (auto simp: a'' entry_ok_def nth_append)
  moreover have "serve_ok a' (ag_serve a')"
    using ok serve_ok_mono [of a a' "ag_serve a"] entry by (simp add: agent_ok_def a'')
  ultimately show ?thesis using ok by (simp add: agent_ok_def a'')
qed

lemma agent_ok_cleanup:
  assumes ok: "agent_ok a" and entry: "entry_ok a i" and pc: "serve_ok a pc"
  shows "agent_ok (Serve_cleanup i pc a)"
proof -
  let ?e = "cleanup_start (ag_endpoints a ! i)"
  have step: "endpoint_step (ag_endpoints a ! i) ?e" and i: "i < length (ag_endpoints a)"
    using entry by (auto simp: entry_ok_def intro: ep_cleanup_start)
  have "agent_ok (put_endpoint i ?e a)" using agent_ok_put [OF ok i step] .
  moreover have "serve_ok (put_endpoint i ?e a) pc" using serve_ok_mono [OF entry_ok_put [OF i step] pc] .
  ultimately show ?thesis by (simp add: Serve_cleanup_def Let_def agent_ok_serve)
qed

lemma agent_ok_push:
  assumes ok: "agent_ok a" and entry: "entry_ok a i"
    and step: "sendViaDataChannel msg (ag_endpoints a ! i) = Some e"
  shows "agent_ok ((put_endpoint i e a)\<lparr>ag_serve := ServeLoop\<rparr>)"
  using agent_ok_put [OF ok _ ep_data [OF step]] entry by (simp add: entry_ok_def agent_ok_serve)

lemma agent_ok_packet:
  assumes ok: "agent_ok a" and step: "Serve_packet sendErr pkt a = Ret a'" and left: "ids_left a'"
  shows "agent_ok a'"
proof (cases "ptype pkt")
  case DIAL_REQ
  with step left show ?thesis using agent_ok_DIAL_REQ [OF ok] by (simp add: Serve_packet_def)
next
  case DATA
  with step ok show ?thesis
    by (auto simp: Serve_packet_def agent_DATA_def bind_outcome_Ret_iff Get_entry
        intro!: agent_ok_serve split: if_splits option.splits)
next
  case CLOSE_REQ
  with step ok show ?thesis
    by (auto simp: Serve_packet_def agent_CLOSE_REQ_def bind_outcome_Ret_iff Get_entry
        intro!: agent_ok_serve split: option.splits)
qed (use step ok in \<open>simp_all add: Serve_packet_def\<close>)

lemma agent_ok_Serve:
  assumes ok: "agent_ok a" and step: "Serve_step registered sendErr rd a = Ret a'" and left: "ids_left a'"
  shows "agent_ok a'"
proof (cases "ag_serve a")
  case ServeLoop
  have l: "serve_ok a (ServeExit (cm_List a))" using List_entries [OF ok] by simp
  have "serve_ok (removed registered reason a) (ServeExit (cm_List a))" for reason
    using l by (simp add: removed_def)
  with ServeLoop step left l show ?thesis
    using agent_ok_packet [OF ok] agent_ok_serve [OF ok l] agent_ok_serve [OF agent_ok_removed [OF ok]] ok
    by (cases rd) (auto simp: Serve_step_def split: if_splits option.splits)
next
  case (ServePush i msg)
  then have "entry_ok a i" using ok by (simp add: agent_ok_def)
  with ServePush step ok show ?thesis
    using agent_ok_push [OF ok] by (auto simp: Serve_step_def split: option.splits)
next
  case (ServeClean i)
  then have "entry_ok a i" using ok by (simp add: agent_ok_def)
  with ServeClean step show ?thesis using agent_ok_cleanup [OF ok, of i ServeLoop] by (simp add: Serve_step_def)
next
  case (ServeExit js)
  then have js: "\<forall>i \<in> set js. entry_ok a i" using ok by (simp add: agent_ok_def)
  show ?thesis
  proof (cases js)
    case Nil
    with ServeExit step ok show ?thesis
      using agent_ok_serve [of "a\<lparr>ag_stopped := ag_stopped a \<or> registered\<rparr>" ServeDone] by (simp add: Serve_step_def)
  next
    case (Cons i js1)
    with ServeExit js step show ?thesis
      using agent_ok_cleanup [OF ok, of i "ServeExit js1"] by (simp add: Serve_step_def)
  qed
qed (use step ok in \<open>simp add: Serve_step_def\<close>)

lemma endpoints_grow:
  assumes "Serve_step registered sendErr rd a = Ret a'"
  shows "length (ag_endpoints a) \<le> length (ag_endpoints a')"
proof -
  have pkt: "length (ag_endpoints a) \<le> length (ag_endpoints a')" if "Serve_packet sendErr pkt a = Ret a'" for pkt
    using that
    by (cases "ptype pkt")
      (auto simp: Serve_packet_def agent_DIAL_REQ_def agent_DATA_def agent_CLOSE_REQ_def bind_outcome_Ret_iff Let_def
        split: if_splits option.splits)
  show ?thesis
  proof (cases "ag_serve a")
    case ServeLoop
    with assms pkt show ?thesis
      by (cases rd) (auto simp: Serve_step_def removed_def split: if_splits option.splits)
  next
    case (ServeExit js)
    with assms show ?thesis by (cases js) (auto simp: Serve_step_def Serve_cleanup_def Let_def)
  qed (use assms in \<open>auto simp: Serve_step_def Serve_cleanup_def Let_def split: option.splits\<close>)
qed

lemma agent_inv_init: "agent_init a \<Longrightarrow> agent_inv a"
  by (auto simp: agent_init_def agent_inv_def agent_ok_def newAgentClient_def endpoints_ok_def table_ok_def
      entry_ok_def newConnectionManager_def)

lemma agent_inv_step: "agent_inv a \<Longrightarrow> agent_step a a' \<Longrightarrow> agent_inv a'"
proof (erule agent_stepE)
  fix registered sendErr rd
  assume inv: "agent_inv a" and step: "Serve_step registered sendErr rd a = Ret a'"
  show "agent_inv a'"
    using inv agent_ok_Serve [OF _ step] endpoints_grow [OF step]
    by (auto simp: agent_inv_def ids_left_def)
next
  fix i e
  assume "agent_inv a" and "a' = put_endpoint i e a" and "i < length (ag_endpoints a)"
    and "endpoint_step (ag_endpoints a ! i) e"
  then show "agent_inv a'" using agent_ok_put by (simp add: agent_inv_def ids_left_def)
qed (auto simp: agent_inv_def ids_left_def probe_def removed_def sendDrainWhenRequested_def)

interpretation agent_system: invariant_system agent_init agent_step agent_inv
  by unfold_locales (fact agent_inv_init, fact agent_inv_step)

lemma agent_reach_ok: "reach agent_init agent_step a \<Longrightarrow> ids_left a \<Longrightarrow> agent_ok a"
  using agent_system.reach_inv by (simp add: agent_inv_def)

text \<open>
  C9. Until a client has dialled 2^63 times, its table holds exactly the endpoint connections
  that are established and not yet cleaned up, each under its own positive connection ID, no two
  dials share an ID, and the endpoint gauge is the size of the table, in every interleaving of the
  receive loop, the dials, the data goroutines and the cleanups.
\<close>

theorem agent_connections_exact:
  assumes "reach agent_init agent_step a" and "ids_left a"
  shows "(\<forall>c i. cm_Get c a = Some i \<longleftrightarrow>
       i < length (ag_endpoints a) \<and> c = ec_connID (ag_endpoints a ! i) \<and> ec_added (ag_endpoints a ! i) \<and>
       \<not> ec_deleted (ag_endpoints a ! i)) \<and>
     ag_gauge a = int (length (ag_connections a)) \<and> distinct (map ec_connID (ag_endpoints a)) \<and>
     (\<forall>e \<in> set (ag_endpoints a). 0 < ec_connID e)"
proof -
  have ok: "agent_ok a" by (rule agent_reach_ok [OF assms])
  then have id: "ec_connID (ag_endpoints a ! i) = int i + 1" if "i < length (ag_endpoints a)" for i
    using that by (simp add: agent_ok_def endpoints_ok_def)
  then have "distinct (map ec_connID (ag_endpoints a))" and "\<forall>e \<in> set (ag_endpoints a). 0 < ec_connID e"
    by (auto simp: distinct_conv_nth in_set_conv_nth)
  moreover have "cm_Get c a = Some i \<longleftrightarrow>
       i < length (ag_endpoints a) \<and> c = ec_connID (ag_endpoints a ! i) \<and> ec_added (ag_endpoints a ! i) \<and>
       \<not> ec_deleted (ag_endpoints a ! i)" for c i
    using ok id [of i] by (auto simp: agent_ok_def table_ok_def entry_ok_def cm_Get_def)
  ultimately show ?thesis using ok by (simp add: agent_ok_def table_ok_def)
qed

definition dialling_agent :: agent_client where
  "dialling_agent = (newAgentClient 1)\<lparr>ag_nextConnID := 1, ag_endpoints := [newEndpointConn 1 1 7]\<rparr>"

lemma dialling_agent_reach: "reach agent_init agent_step dialling_agent" "ids_left dialling_agent"
proof -
  have "reach agent_init agent_step (newAgentClient 1)"
    by (rule reach_init) (auto simp: agent_init_def)
  moreover have "agent_step (newAgentClient 1) dialling_agent"
    by (rule ag_serves [where registered = True and sendErr = None
          and rd = "Inr (Some (newDialRequestPacket ''tcp'' ''h:1'' 7))"])
      (simp add: Serve_step_def newAgentClient_def Serve_packet_def agent_DIAL_REQ_def dialling_agent_def
        in_int64_def)
  ultimately show "reach agent_init agent_step dialling_agent" by (rule reach_step)
qed (simp add: ids_left_def dialling_agent_def)

theorem agent_connections_exact_witness:
  "ag_gauge dialling_agent = int (length (ag_connections dialling_agent)) \<and>
   distinct (map ec_connID (ag_endpoints dialling_agent))"
  using agent_connections_exact [OF dialling_agent_reach] by blast

text \<open>
  C10. Every connection of an agent follows the protocol: what it hands to the stream is one
  DIAL_RSP, then DATA packets, then at most one CLOSE_RSP; the DATA packets carry the chunks read
  from the endpoint, in order and without gaps; what is written to the endpoint is a prefix of the
  bytes accepted from the server, partial writes included; and no goroutine closes a channel
  twice.
\<close>

theorem agent_connection_protocol:
  assumes "reach agent_init agent_step a" and "ids_left a" and "e \<in> set (ag_endpoints a)"
  shows "(\<exists>m ds. map fst (ec_log e) = reply m e @ map (newDataPacket (ec_connID e)) ds @ farewell e \<and>
        prefix ds (ec_read e)) \<and>
     prefix (ec_written e) (concat (ec_accepted e)) \<and>
     returns (endpoint_dial dialErr sendErr e) \<and> returns (endpoint_reply sendErr e) \<and>
     returns (cleanup_step sendErr e) \<and> returns (sendChannelToProxy_step sendErr e)"
proof -
  have "endpoint_inv e"
    using agent_reach_ok [OF assms(1,2)] assms(3) by (auto simp: agent_ok_def endpoints_ok_def in_set_conv_nth)
  then obtain m ds where inv: "control_inv e" "written_inv e" "sent_inv e m ds"
    by (auto simp: endpoint_inv_def)
  then have "map fst (ec_log e) = reply m e @ map (newDataPacket (ec_connID e)) ds @ farewell e"
    and "prefix ds (ec_read e)" and "prefix (ec_written e) (concat (ec_accepted e))"
    by (auto simp: sent_inv_def written_inv_def dest: outgoing_prefix incoming_prefix)
  with control_returns [OF inv(1)] show ?thesis by blast
qed

theorem agent_connection_protocol_witness:
  "\<exists>m ds. map fst (ec_log (newEndpointConn 1 1 7)) =
     reply m (newEndpointConn 1 1 7) @ map (newDataPacket 1) ds @ farewell (newEndpointConn 1 1 7)"
  using agent_connection_protocol [OF dialling_agent_reach, of "newEndpointConn 1 1 7"]
  by (auto simp: dialling_agent_def newEndpointConn_def)

end
