(* ===== verification/KNP_ClientSet.thy ===== *)
theory KNP_ClientSet
  imports KNP_AgentClient
begin

section \<open>The agent's set of clients, server counting and leases\<close>

text \<open>
  \<^verbatim>\<open>ClientSet\<close> (\<^verbatim>\<open>pkg/agent/clientset.go\<close>) keeps one client per proxy server. How many servers
  there are comes from the counters of \<^verbatim>\<open>server_counter.go\<close> and \<^verbatim>\<open>lease_counter.go\<close>; the leases
  they count expire by \<^verbatim>\<open>pkg/util/leases.go\<close> and are collected by the server's
  \<^verbatim>\<open>pkg/server/leases/gc_controller.go\<close>. A client is a number; \<open>cs_servers\<close> holds the server ID of
  each client ever created and \<open>cs_closed\<close> the clients whose \<^verbatim>\<open>stopCh\<close> is closed, which panics
  when it is done twice. What the API server lists and what a connection attempt returns are
  arguments.
\<close>

subsection \<open>Leases\<close>

record lease =
  ls_name :: string
  ls_renewTime :: "time option"
  ls_acquireTime :: "time option"
  ls_durationSeconds :: "int option"
  ls_resourceVersion :: nat

text \<open>
  \<^verbatim>\<open>LeaseDurationSeconds\<close> is dereferenced without a test. The product of an int32 and a second is
  within 64 bits.
\<close>

definition IsLeaseValid :: "time \<Rightarrow> lease \<Rightarrow> bool outcome" where
  "IsLeaseValid now l =
     (case (case ls_renewTime l of Some t \<Rightarrow> Some t | None \<Rightarrow> ls_acquireTime l) of
        None \<Rightarrow> Ret False
      | Some lastRenewTime \<Rightarrow>
          bind_outcome (deref (ls_durationSeconds l)) (\<lambda>secs.
            Ret (now < lastRenewTime + wrap64 (secs * Second))))"

fun count_valid :: "(lease \<times> time) list \<Rightarrow> int outcome" where
  "count_valid [] = Ret 0"
| "count_valid ((l, now) # ls) =
     bind_outcome (IsLeaseValid now l) (\<lambda>valid.
     bind_outcome (count_valid ls) (\<lambda>n. Ret (if valid then n + 1 else n)))"

text \<open>
  \<^verbatim>\<open>ServerLeaseCounter\<close> is its fallback count. Each listed lease comes with the time its
  validity is checked at.
\<close>

definition NewServerLeaseCounter :: int where
  "NewServerLeaseCounter = 1"

definition LeaseCounter_Count :: "go_error + (lease \<times> time) list \<Rightarrow> int \<Rightarrow> (int \<times> int) outcome" where
  "LeaseCounter_Count listed fallbackCount =
     (case listed of
        Inl err \<Rightarrow> Ret (fallbackCount, fallbackCount)
      | Inr leases \<Rightarrow>
          bind_outcome (count_valid leases) (\<lambda>n.
            let count = (if n = 0 then 1 else n) in
            Ret (count, if count \<noteq> fallbackCount then count else fallbackCount)))"

text \<open>
  One round of the garbage collector: the deletions it requests, each for the version it listed.
\<close>

fun gc_deletes :: "(lease \<times> time) list \<Rightarrow> (string \<times> nat) list outcome" where
  "gc_deletes [] = Ret []"
| "gc_deletes ((l, now) # ls) =
     bind_outcome (IsLeaseValid now l) (\<lambda>valid.
     bind_outcome (gc_deletes ls) (\<lambda>ds.
       Ret (if valid then ds else (ls_name l, ls_resourceVersion l) # ds)))"

definition gc :: "go_error + (lease \<times> time) list \<Rightarrow> (string \<times> nat) list outcome" where
  "gc listed = (case listed of Inl err \<Rightarrow> Ret [] | Inr leases \<Rightarrow> gc_deletes leases)"

subsection \<open>Counting servers\<close>

definition responseBased_Count :: "int \<Rightarrow> int" where
  "responseBased_Count lastReceivedServerCount =
     (if lastReceivedServerCount = 0 then 1 else lastReceivedServerCount)"

text \<open>\<open>fromLeases\<close> is \<open>None\<close> when there is no lease counter.\<close>

definition aggregate_Count :: "string \<Rightarrow> int option \<Rightarrow> int \<Rightarrow> int" where
  "aggregate_Count source fromLeases countFromResponses =
     (case fromLeases of
        None \<Rightarrow> countFromResponses
      | Some countFromLeases \<Rightarrow>
          (let serverCount =
             (if source = ''max'' \<and> countFromResponses > countFromLeases then countFromResponses
              else countFromLeases)
           in if serverCount = 0 then 1 else serverCount))"

subsection \<open>The client set\<close>

record client_set =
  cs_clients :: "(string, nat) gomap"
  cs_servers :: "string list"
  cs_closed :: "nat list"
  cs_gauge :: nat
  cs_lastReceivedServerCount :: int
  cs_leaseFallback :: "int option"
  cs_syncForever :: bool
  cs_countServerLeases :: bool
  cs_serverCountSource :: string
  cs_isShutdown :: bool

definition NewAgentClientSet :: "bool \<Rightarrow> bool \<Rightarrow> string \<Rightarrow> client_set" where
  "NewAgentClientSet syncForever countServerLeases source =
     \<lparr>cs_clients = [], cs_servers = [], cs_closed = [], cs_gauge = 0, cs_lastReceivedServerCount = 0,
      cs_leaseFallback = (if countServerLeases then Some NewServerLeaseCounter else None),
      cs_syncForever = syncForever, cs_countServerLeases = countServerLeases,
      cs_serverCountSource = source, cs_isShutdown = False\<rparr>"

definition ClientsCount :: "client_set \<Rightarrow> nat" where
  "ClientsCount cs = length (cs_clients cs)"

definition HealthyClientsCount :: "(nat \<Rightarrow> bool) \<Rightarrow> client_set \<Rightarrow> nat" where
  "HealthyClientsCount connReady cs = length (filter (\<lambda>e. connReady (snd e)) (cs_clients cs))"

definition ClientSet_Ready :: "(nat \<Rightarrow> bool) \<Rightarrow> client_set \<Rightarrow> bool" where
  "ClientSet_Ready connReady cs \<longleftrightarrow> HealthyClientsCount connReady cs > 0"

definition HasID :: "string \<Rightarrow> client_set \<Rightarrow> bool" where
  "HasID sid cs \<longleftrightarrow> gm_get (cs_clients cs) sid \<noteq> None"

definition Client_Close :: "nat \<Rightarrow> client_set \<Rightarrow> client_set outcome" where
  "Client_Close c cs =
     (if c \<in> set (cs_closed cs) then Panic close_panic else Ret (cs\<lparr>cs_closed := c # cs_closed cs\<rparr>))"

datatype set_error = DuplicateServerError string | ConnectError go_error

definition AddClient :: "string \<Rightarrow> nat \<Rightarrow> client_set \<Rightarrow> set_error option \<times> client_set" where
  "AddClient sid c cs =
     (if gm_get (cs_clients cs) sid \<noteq> None then (Some (DuplicateServerError sid), cs)
      else
        (let clients = gm_put sid c (cs_clients cs)
         in (None, cs\<lparr>cs_clients := clients, cs_gauge := length clients\<rparr>)))"

definition delete_client :: "string \<Rightarrow> client_set \<Rightarrow> client_set" where
  "delete_client sid cs =
     (let clients = gm_delete sid (cs_clients cs)
      in cs\<lparr>cs_clients := clients, cs_gauge := length clients\<rparr>)"

definition RemoveClient :: "string \<Rightarrow> client_set \<Rightarrow> client_set outcome" where
  "RemoveClient sid cs =
     (case gm_get (cs_clients cs) sid of
        None \<Rightarrow> Ret cs
      | Some c \<Rightarrow> bind_outcome (Client_Close c cs) (\<lambda>cs1. Ret (delete_client sid cs1)))"

definition removeClient :: "nat \<Rightarrow> client_set \<Rightarrow> (bool \<times> client_set) outcome" where
  "removeClient c cs =
     (let sid = cs_servers cs ! c in
      if gm_get (cs_clients cs) sid \<noteq> Some c then Ret (False, cs)
      else bind_outcome (Client_Close c cs) (\<lambda>cs1. Ret (True, delete_client sid cs1)))"

text \<open>The gauge is left as it is.\<close>

fun shutdown_loop :: "(string, nat) gomap \<Rightarrow> client_set \<Rightarrow> client_set outcome" where
  "shutdown_loop [] cs = Ret cs"
| "shutdown_loop ((sid, c) # es) cs =
     bind_outcome (Client_Close c cs) (\<lambda>cs1.
       shutdown_loop es (cs1\<lparr>cs_clients := gm_delete sid (cs_clients cs1)\<rparr>))"

definition shutdown :: "client_set \<Rightarrow> client_set outcome" where
  "shutdown cs = shutdown_loop (cs_clients cs) (cs\<lparr>cs_isShutdown := True\<rparr>)"

definition determineServerCount ::
  "go_error + (lease \<times> time) list \<Rightarrow> client_set \<Rightarrow> (int \<times> client_set) outcome" where
  "determineServerCount listed cs =
     (let responses = responseBased_Count (cs_lastReceivedServerCount cs) in
      case cs_leaseFallback cs of
        None \<Rightarrow> Ret (aggregate_Count (cs_serverCountSource cs) None responses, cs)
      | Some fallback \<Rightarrow>
          bind_outcome (LeaseCounter_Count listed fallback) (\<lambda>(n, fallback').
            Ret (aggregate_Count (cs_serverCountSource cs) (Some n) responses,
                 cs\<lparr>cs_leaseFallback := Some fallback'\<rparr>)))"

text \<open>\<open>attempt\<close> is the result of connecting a new client: its server's ID and count.\<close>

definition connectOnce ::
  "bool \<Rightarrow> go_error + (lease \<times> time) list \<Rightarrow> go_error + string \<times> int \<Rightarrow> client_set
     \<Rightarrow> (set_error option \<times> client_set) outcome" where
  "connectOnce draining listed attempt cs =
     (if draining then Ret (None, cs)
      else
        bind_outcome (determineServerCount listed cs) (\<lambda>(count, cs1).
          if int (ClientsCount cs1) \<ge> count \<and> count > 0 \<and> (\<not> cs_syncForever cs1 \<or> cs_countServerLeases cs1)
          then Ret (None, cs1)
          else
            (case attempt of
               Inl err \<Rightarrow> Ret (Some (ConnectError err), cs1)
             | Inr (sid, received) \<Rightarrow>
                 (let c = length (cs_servers cs1);
                      cs2 = cs1\<lparr>cs_servers := cs_servers cs1 @ [sid]\<rparr>
                  in case AddClient sid c cs2 of
                       (Some err, cs3) \<Rightarrow> bind_outcome (Client_Close c cs3) (\<lambda>cs4. Ret (Some err, cs4))
                     | (None, cs3) \<Rightarrow> Ret (None, cs3\<lparr>cs_lastReceivedServerCount := received\<rparr>)))))"

text \<open>
  The waiting of the \<^verbatim>\<open>sync\<close> loop. \<open>jitter\<close> and \<open>backoff_step\<close> are those of the wait package.
\<close>

record backoff =
  bo_duration :: duration
  bo_factor_percent :: nat
  bo_jitter_percent :: nat
  bo_steps :: int
  bo_cap :: duration

definition resetBackoff :: "duration \<Rightarrow> duration \<Rightarrow> backoff" where
  "resetBackoff syncInterval syncIntervalCap =
     \<lparr>bo_duration = syncInterval, bo_factor_percent = 150, bo_jitter_percent = 10,
      bo_steps = 2147483647, bo_cap = syncIntervalCap\<rparr>"

definition sync_wait ::
  "(duration \<Rightarrow> nat \<Rightarrow> duration) \<Rightarrow> (backoff \<Rightarrow> duration \<times> backoff) \<Rightarrow> duration \<Rightarrow> duration
     \<Rightarrow> set_error option \<Rightarrow> backoff \<Rightarrow> duration \<times> backoff" where
  "sync_wait jitter backoff_step syncInterval syncIntervalCap result b =
     (let fresh = resetBackoff syncInterval syncIntervalCap;
          reset = (jitter (bo_duration fresh) (bo_jitter_percent fresh), fresh)
      in case result of
           None \<Rightarrow> reset
         | Some (DuplicateServerError sid) \<Rightarrow> reset
         | Some (ConnectError err) \<Rightarrow> backoff_step b)"

subsection \<open>The set in all interleavings\<close>

inductive set_step :: "client_set \<Rightarrow> client_set \<Rightarrow> bool" where
  set_connects: "connectOnce draining listed attempt cs = Ret (err, cs') \<Longrightarrow> set_step cs cs'"
| set_removes: "c < length (cs_servers cs) \<Longrightarrow> removeClient c cs = Ret (b, cs') \<Longrightarrow> set_step cs cs'"
| set_removes_id: "RemoveClient sid cs = Ret cs' \<Longrightarrow> set_step cs cs'"
| set_shuts_down: "shutdown cs = Ret cs' \<Longrightarrow> set_step cs cs'"

inductive_cases set_stepE: "set_step cs cs'"

definition set_init :: "client_set \<Rightarrow> bool" where
  "set_init cs \<longleftrightarrow> (\<exists>sf cl src. cs = NewAgentClientSet sf cl src)"

definition clients_ok :: "client_set \<Rightarrow> bool" where
  "clients_ok cs \<longleftrightarrow>
     gm_wf (cs_clients cs) \<and> distinct (cs_closed cs) \<and>
     (\<forall>sid c. gm_get (cs_clients cs) sid = Some c \<longleftrightarrow>
        c < length (cs_servers cs) \<and> cs_servers cs ! c = sid \<and> c \<notin> set (cs_closed cs))"

definition set_inv :: "client_set \<Rightarrow> bool" where
  "set_inv cs \<longleftrightarrow> clients_ok cs \<and> set (cs_closed cs) \<subseteq> {..< length (cs_servers cs)} \<and>
     (cs_gauge cs = length (cs_clients cs) \<or> cs_isShutdown cs)"

lemma clients_ok_frame [simp]:
  "clients_ok (cs\<lparr>cs_gauge := n\<rparr>) = clients_ok cs" "clients_ok (cs\<lparr>cs_isShutdown := b\<rparr>) = clients_ok cs"
  "clients_ok (cs\<lparr>cs_lastReceivedServerCount := i\<rparr>) = clients_ok cs"
  "clients_ok (cs\<lparr>cs_leaseFallback := f\<rparr>) = clients_ok cs"
  by (simp_all add: clients_ok_def)

lemma open_unique:
  assumes "clients_ok cs" and "c < length (cs_servers cs)" and "c \<notin> set (cs_closed cs)"
    and "d < length (cs_servers cs)" and "d \<notin> set (cs_closed cs)" and "cs_servers cs ! d = cs_servers cs ! c"
  shows "d = c"
proof -
  have "gm_get (cs_clients cs) (cs_servers cs ! c) = Some c" "gm_get (cs_clients cs) (cs_servers cs ! c) = Some d"
    using assms by (simp_all add: clients_ok_def)
  then show ?thesis by simp
qed

lemma Close_delete_ok:
  assumes ok: "clients_ok cs" and get: "gm_get (cs_clients cs) sid = Some c"
    and cl: "set (cs_closed cs) \<subseteq> {..< length (cs_servers cs)}"
  defines "cs1 \<equiv> cs\<lparr>cs_closed := c # cs_closed cs\<rparr>"
  shows "Client_Close c cs = Ret cs1"
    and "clients_ok (cs1\<lparr>cs_clients := gm_delete sid (cs_clients cs1)\<rparr>)"
    and "set (cs_closed cs1) \<subseteq> {..< length (cs_servers cs1)}"
proof -
  have c: "c < length (cs_servers cs)" "cs_servers cs ! c = sid" "c \<notin> set (cs_closed cs)"
    using ok get by (auto simp: clients_ok_def)
  show "Client_Close c cs = Ret cs1" using c(3) by (simp add: Client_Close_def cs1_def)
  show "set (cs_closed cs1) \<subseteq> {..< length (cs_servers cs1)}" using c cl by (simp add: cs1_def)
  show "clients_ok (cs1\<lparr>cs_clients := gm_delete sid (cs_clients cs1)\<rparr>)"
  proof -
    have "gm_get (gm_delete sid (cs_clients cs)) s = Some d \<longleftrightarrow>
        d < length (cs_servers cs) \<and> cs_servers cs ! d = s \<and> d \<notin> set (c # cs_closed cs)" for s d
    proof (cases "s = sid")
      case True
      then show ?thesis using open_unique [OF ok c(1,3), of d] c(2) by auto
    next
      case False
      then have "gm_get (gm_delete sid (cs_clients cs)) s = gm_get (cs_clients cs) s" by simp
      with False ok c(2) show ?thesis by (auto simp: clients_ok_def)
    qed
    with ok c(3) show ?thesis by (simp add: clients_ok_def cs1_def)
  qed
qed

lemma set_inv_remove:
  assumes "set_inv cs" and "gm_get (cs_clients cs) sid = Some c"
  shows "\<exists>cs1. Client_Close c cs = Ret cs1 \<and> set_inv (delete_client sid cs1)"
proof -
  let ?cs1 = "cs\<lparr>cs_closed := c # cs_closed cs\<rparr>"
  note step = Close_delete_ok [OF _ assms(2)]
  have "clients_ok (?cs1\<lparr>cs_clients := gm_delete sid (cs_clients ?cs1)\<rparr>)"
    "set (cs_closed ?cs1) \<subseteq> {..< length (cs_servers ?cs1)}" "Client_Close c cs = Ret ?cs1"
    using assms(1) step unfolding set_inv_def by blast+
  then show ?thesis by (simp add: set_inv_def delete_client_def Let_def)
qed

lemma set_inv_removeClient:
  assumes "set_inv cs" and "c < length (cs_servers cs)"
  shows "\<exists>cs'. removeClient c cs = Ret (c \<notin> set (cs_closed cs), cs') \<and> set_inv cs' \<and> c \<in> set (cs_closed cs')"
proof (cases "gm_get (cs_clients cs) (cs_servers cs ! c) = Some c")
  case True
  then have c: "c \<notin> set (cs_closed cs)" using assms(1) by (auto simp: set_inv_def clients_ok_def)
  then have "Client_Close c cs = Ret (cs\<lparr>cs_closed := c # cs_closed cs\<rparr>)" by (simp add: Client_Close_def)
  with True c set_inv_remove [OF assms(1) True] show ?thesis
    by (auto simp: removeClient_def delete_client_def Let_def)
next
  case False
  then have "c \<in> set (cs_closed cs)" using assms by (auto simp: set_inv_def clients_ok_def)
  with False assms(1) show ?thesis by (simp add: removeClient_def Let_def)
qed

lemma set_inv_RemoveClient:
  assumes "set_inv cs"
  shows "\<exists>cs'. RemoveClient sid cs = Ret cs' \<and> set_inv cs'"
  using assms set_inv_remove [OF assms, of sid] by (auto simp: RemoveClient_def split: option.split)

lemma shutdown_loop_ok:
  assumes "clients_ok cs" and "set (cs_closed cs) \<subseteq> {..< length (cs_servers cs)}" and "gm_wf es"
    and "\<forall>(sid, c) \<in> set es. gm_get (cs_clients cs) sid = Some c"
  shows "\<exists>cs'. shutdown_loop es cs = Ret cs' \<and> clients_ok cs' \<and>
     set (cs_closed cs') \<subseteq> {..< length (cs_servers cs')} \<and> cs_isShutdown cs' = cs_isShutdown cs \<and>
     cs_servers cs' = cs_servers cs \<and>
     (\<forall>sid. gm_get (cs_clients cs') sid = (if sid \<in> set (gm_keys es) then None else gm_get (cs_clients cs) sid))"
  using assms
proof (induction es cs rule: shutdown_loop.induct)
  case (2 sid c es cs)
  let ?cs1 = "cs\<lparr>cs_closed := c # cs_closed cs\<rparr>"
  let ?cs2 = "?cs1\<lparr>cs_clients := gm_delete sid (cs_clients ?cs1)\<rparr>"
  have get: "gm_get (cs_clients cs) sid = Some c" using "2.prems"(4) by simp
  note step = Close_delete_ok [OF "2.prems"(1) get "2.prems"(2)]
  have wf: "gm_wf es" "sid \<notin> set (gm_keys es)" using "2.prems"(3) by (auto simp: gm_wf_def gm_keys_def)
  have "s \<noteq> sid \<and> gm_get (cs_clients cs) s = Some d" if "(s, d) \<in> set es" for s d
    using "2.prems"(4) wf(2) that by (force simp: gm_keys_def)
  then have "\<forall>(s, d) \<in> set es. gm_get (cs_clients ?cs2) s = Some d" by auto
  with "2.IH" [OF step(1)] step wf obtain cs' where
    "shutdown_loop es ?cs2 = Ret cs'" "clients_ok cs'" "set (cs_closed cs') \<subseteq> {..< length (cs_servers cs')}"
    "cs_isShutdown cs' = cs_isShutdown ?cs2" "cs_servers cs' = cs_servers ?cs2"
    "\<forall>s. gm_get (cs_clients cs') s = (if s \<in> set (gm_keys es) then None else gm_get (cs_clients ?cs2) s)"
    by auto
  then show ?case using step(1) by (auto simp: gm_keys_def)
qed (simp add: gm_keys_def)

lemma set_inv_shutdown:
  assumes "set_inv cs"
  shows "\<exists>cs'. shutdown cs = Ret cs' \<and> set_inv cs' \<and> cs_clients cs' = []"
proof -
  have ok: "clients_ok (cs\<lparr>cs_isShutdown := True\<rparr>)" and wf: "gm_wf (cs_clients cs)"
    using assms by (simp_all add: set_inv_def clients_ok_def)
  have all: "\<forall>(sid, c) \<in> set (cs_clients cs). gm_get (cs_clients (cs\<lparr>cs_isShutdown := True\<rparr>)) sid = Some c"
    using gm_get_wf_iff [OF wf] by auto
  obtain cs' where cs': "shutdown_loop (cs_clients cs) (cs\<lparr>cs_isShutdown := True\<rparr>) = Ret cs'" "clients_ok cs'"
    "set (cs_closed cs') \<subseteq> {..< length (cs_servers cs')}" "cs_isShutdown cs'"
    "\<forall>sid. gm_get (cs_clients cs') sid = (if sid \<in> set (gm_keys (cs_clients cs)) then None else gm_get (cs_clients cs) sid)"
    using shutdown_loop_ok [OF ok _ wf all] assms by (auto simp: set_inv_def)
  then have none: "gm_get (cs_clients cs') sid = None" for sid
    using gm_get_None_iff [of "cs_clients cs" sid] by auto
  have "cs_clients cs' = []"
  proof (cases "cs_clients cs'")
    case (Cons e es)
    with none [of "fst e"] show ?thesis by (simp add: gm_get_None_iff gm_keys_def)
  qed
  with cs' show ?thesis by (auto simp: shutdown_def set_inv_def)
qed

lemma determineServerCount_frame:
  assumes "determineServerCount listed cs = Ret (n, cs1)"
  shows "\<exists>f. cs1 = cs\<lparr>cs_leaseFallback := f\<rparr>"
proof (cases "cs_leaseFallback cs")
  case None
  with assms have "cs1 = cs\<lparr>cs_leaseFallback := cs_leaseFallback cs\<rparr>" by (simp add: determineServerCount_def Let_def)
  then show ?thesis ..
next
  case (Some f)
  with assms show ?thesis
    by (auto simp: determineServerCount_def Let_def bind_outcome_Ret_iff case_prod_unfold)
qed

lemma set_inv_new:
  assumes inv: "set_inv cs" and cs2: "cs2 = cs\<lparr>cs_servers := cs_servers cs @ [sid]\<rparr>"
    and c: "c = length (cs_servers cs)"
  shows "gm_get (cs_clients cs) sid = None \<Longrightarrow> set_inv (snd (AddClient sid c cs2))"
    and "gm_get (cs_clients cs) sid \<noteq> None \<Longrightarrow>
      \<exists>cs4. Client_Close c cs2 = Ret cs4 \<and> set_inv cs4"
proof -
  have ok: "clients_ok cs" and cl: "set (cs_closed cs) \<subseteq> {..< length (cs_servers cs)}"
    and g: "cs_gauge cs = length (cs_clients cs) \<or> cs_isShutdown cs"
    using inv by (simp_all add: set_inv_def)
  have get: "gm_get (cs_clients cs) s = Some d \<longleftrightarrow>
      d < length (cs_servers cs) \<and> cs_servers cs ! d = s \<and> d \<notin> set (cs_closed cs)" for s d
    using ok by (simp add: clients_ok_def)
  have new: "c \<notin> set (cs_closed cs)" using cl c by auto
  show "set_inv (snd (AddClient sid c cs2))" if none: "gm_get (cs_clients cs) sid = None"
  proof -
    have "gm_get (gm_put sid c (cs_clients cs)) s = Some d \<longleftrightarrow>
        d < length (cs_servers cs @ [sid]) \<and> (cs_servers cs @ [sid]) ! d = s \<and> d \<notin> set (cs_closed cs)" for s d
    proof (cases "d = c")
      case True
      then show ?thesis using get [of s c] new by (auto simp: c)
    next
      case False
      then show ?thesis using get [of s d] get [of sid d] none by (auto simp: c nth_append less_Suc_eq)
    qed
    with ok none cl show ?thesis
      by (auto simp: set_inv_def clients_ok_def AddClient_def cs2 Let_def)
  qed
  show "\<exists>cs4. Client_Close c cs2 = Ret cs4 \<and> set_inv cs4" if "gm_get (cs_clients cs) sid \<noteq> None"
  proof -
    have "Client_Close c cs2 = Ret (cs2\<lparr>cs_closed := c # cs_closed cs2\<rparr>)"
      using new by (simp add: Client_Close_def cs2)
    moreover have "gm_get (cs_clients cs) s = Some d \<longleftrightarrow> d < length (cs_servers cs @ [sid]) \<and>
        (cs_servers cs @ [sid]) ! d = s \<and> d \<notin> set (c # cs_closed cs)" for s d
      using get [of s d] by (auto simp: c nth_append less_Suc_eq)
    ultimately show ?thesis using ok cl g new by (auto simp: set_inv_def clients_ok_def cs2 c)
  qed
qed

lemma set_inv_connectOnce:
  assumes inv: "set_inv cs" and step: "connectOnce draining listed attempt cs = Ret (err, cs')"
  shows "set_inv cs'"
proof (cases draining)
  case False
  then obtain n cs1 where n: "determineServerCount listed cs = Ret (n, cs1)"
    using step by (auto simp: connectOnce_def bind_outcome_Ret_iff)
  then obtain f where "cs1 = cs\<lparr>cs_leaseFallback := f\<rparr>" using determineServerCount_frame by blast
  then have inv1: "set_inv cs1" using inv by (simp add: set_inv_def)
  show ?thesis
  proof (cases "int (ClientsCount cs1) \<ge> n \<and> n > 0 \<and> (\<not> cs_syncForever cs1 \<or> cs_countServerLeases cs1)")
    case True
    with False n step inv1 show ?thesis by (simp add: connectOnce_def)
  next
    case dial: False
    show ?thesis
    proof (cases attempt)
      case (Inl e)
      with False dial n step inv1 show ?thesis by (auto simp: connectOnce_def)
    next
      case (Inr r)
      obtain sid received where r: "r = (sid, received)" by (cases r)
      let ?c = "length (cs_servers cs1)" and ?cs2 = "cs1\<lparr>cs_servers := cs_servers cs1 @ [sid]\<rparr>"
      note new = set_inv_new [OF inv1 refl refl, of sid]
      show ?thesis
      proof (cases "gm_get (cs_clients cs1) sid")
        case None
        then have "cs' = (snd (AddClient sid ?c ?cs2))\<lparr>cs_lastReceivedServerCount := received\<rparr>"
          using False dial n step Inr r by (auto simp: connectOnce_def AddClient_def Let_def)
        with new(1) [OF None] show ?thesis by (simp add: set_inv_def)
      next
        case (Some d)
        then have "Client_Close ?c ?cs2 = Ret cs'"
          using False dial n step Inr r by (auto simp: connectOnce_def AddClient_def Let_def bind_outcome_Ret_iff)
        with new(2) Some show ?thesis by auto
      qed
    qed
  qed
qed (use assms in \<open>simp add: connectOnce_def\<close>)

lemma set_inv_init: "set_init cs \<Longrightarrow> set_inv cs"
  by (auto simp: set_init_def set_inv_def clients_ok_def NewAgentClientSet_def)

lemma set_inv_step: "set_inv cs \<Longrightarrow> set_step cs cs' \<Longrightarrow> set_inv cs'"
proof (erule set_stepE)
  show "set_inv cs'" if "set_inv cs" and "connectOnce draining listed attempt cs = Ret (err, cs')"
    for draining listed attempt err
    using that by (rule set_inv_connectOnce)
  show "set_inv cs'" if "set_inv cs" and "c < length (cs_servers cs)" and "removeClient c cs = Ret (b, cs')" for c b
    using set_inv_removeClient [OF that(1,2)] that(3) by auto
  show "set_inv cs'" if "set_inv cs" and "RemoveClient sid cs = Ret cs'" for sid
    using set_inv_RemoveClient [OF that(1), of sid] that(2) by auto
  show "set_inv cs'" if "set_inv cs" and "shutdown cs = Ret cs'"
    using set_inv_shutdown [OF that(1)] that(2) by auto
qed

interpretation set_system: invariant_system set_init set_step set_inv
  by unfold_locales (fact set_inv_init, fact set_inv_step)


definition connected_set :: client_set where
  "connected_set = (NewAgentClientSet False False [])\<lparr>cs_clients := [(''s1'', 0)], cs_servers := [''s1''],
     cs_gauge := 1, cs_lastReceivedServerCount := 1\<rparr>"

lemma connected_set_reach: "reach set_init set_step connected_set"
proof -
  have "reach set_init set_step (NewAgentClientSet False False [])"
    by (rule reach_init) (auto simp: set_init_def)
  moreover have "set_step (NewAgentClientSet False False []) connected_set"
    by (rule set_connects [where draining = False and listed = "Inr []" and attempt = "Inr (''s1'', 1)" and err = None])
      (simp add: connectOnce_def determineServerCount_def NewAgentClientSet_def responseBased_Count_def
        aggregate_Count_def ClientsCount_def AddClient_def connected_set_def gm_put_def)
  ultimately show ?thesis by (rule reach_step)
qed


subsection \<open>Counting and collecting leases\<close>

definition lease_has_duration :: "lease \<Rightarrow> bool" where
  "lease_has_duration l \<longleftrightarrow>
     ls_durationSeconds l \<noteq> None \<or> (ls_renewTime l = None \<and> ls_acquireTime l = None)"

definition lease_valid :: "lease \<times> time \<Rightarrow> bool" where
  "lease_valid p \<longleftrightarrow> IsLeaseValid (snd p) (fst p) = Ret True"

lemma IsLeaseValid_returns:
  "lease_has_duration l \<Longrightarrow> IsLeaseValid now l = Ret (lease_valid (l, now))"
  by (auto simp: IsLeaseValid_def lease_has_duration_def lease_valid_def split: option.splits)

lemma lease_loops:
  assumes "\<forall>p \<in> set ls. lease_has_duration (fst p)"
  shows "count_valid ls = Ret (int (length (filter lease_valid ls)))"
    and "gc_deletes ls = Ret (map (\<lambda>(l, now). (ls_name l, ls_resourceVersion l)) (filter (\<lambda>p. \<not> lease_valid p) ls))"
  using assms by (induction ls rule: count_valid.induct) (simp_all add: IsLeaseValid_returns)


definition sample_lease :: lease where
  "sample_lease = \<lparr>ls_name = ''knp'', ls_renewTime = Some 0, ls_acquireTime = None,
     ls_durationSeconds = Some 30, ls_resourceVersion = 4\<rparr>"


end
