(* ===== verification/KNP_AgentApp.thy ===== *)
theory KNP_AgentApp
  imports KNP_ClientSet KNP_Checks
begin

section \<open>The agent process: options, start and health\<close>

text \<open>
  \<^verbatim>\<open>GrpcProxyAgentOptions\<close> of \<^verbatim>\<open>cmd/agent/app/options/options.go\<close> with its defaults and its
  validation, and the parts of \<^verbatim>\<open>cmd/agent/app/server.go\<close> that turn options into a client set,
  signals into a drain and a stop, and the client set's state into the answer on \<^verbatim>\<open>/readyz\<close>.
  \<open>exists\<close> says which files \<^verbatim>\<open>os.Stat\<close> finds; an error built with \<^verbatim>\<open>fmt.Errorf\<close> has the text of its
  format. The lease label selector, here its text, and the content type are passed on to the
  Kubernetes client only.
\<close>

subsection \<open>Decimal numbers\<close>

fun nat_digits :: "nat \<Rightarrow> string" where
  "nat_digits n = (if n < 10 then [char_of (48 + n)] else nat_digits (n div 10) @ [char_of (48 + n mod 10)])"

declare nat_digits.simps [simp del]

text \<open>\<^verbatim>\<open>strconv.Itoa\<close>.\<close>

definition Itoa :: "int \<Rightarrow> string" where
  "Itoa n = (if n < 0 then CHR ''-'' # nat_digits (nat (- n)) else nat_digits (nat n))"

lemma digits_of_snoc:
  "digits_of cs = Some v \<Longrightarrow> d < 10 \<Longrightarrow> digits_of (cs @ [char_of (48 + d)]) = Some (v * 10 + d)"
proof (induction cs arbitrary: v)
  case Nil
  then show ?case by simp
next
  case (Cons c cs)
  then obtain r where r: "digits_of cs = Some r" "48 \<le> (of_char c :: nat)" "(of_char c :: nat) \<le> 57"
    and v: "v = (of_char c - 48) * 10 ^ length cs + r"
    by (auto simp: Let_def split: if_splits option.splits)
  from Cons.IH [OF r(1) Cons.prems(2)] r v show ?case
    by (simp add: Let_def algebra_simps)
qed

lemma nat_digits_small: "n < 10 \<Longrightarrow> nat_digits n = [char_of (48 + n)]"
  by (subst nat_digits.simps) simp

lemma nat_digits_large: "\<not> n < 10 \<Longrightarrow> nat_digits n = nat_digits (n div 10) @ [char_of (48 + n mod 10)]"
  by (subst nat_digits.simps) simp

lemma nat_digits_nonempty: "nat_digits n \<noteq> []"
  by (cases "n < 10") (simp_all add: nat_digits_small nat_digits_large)

lemma digits_of_nat_digits: "digits_of (nat_digits n) = Some n"
proof (induction n rule: nat_digits.induct)
  case (1 n)
  show ?case
  proof (cases "n < 10")
    case True
    then show ?thesis by (simp add: nat_digits_small)
  next
    case False
    with 1 digits_of_snoc [of "nat_digits (n div 10)" "n div 10" "n mod 10"] show ?thesis
      unfolding nat_digits_large [OF False] by simp
  qed
qed

lemma nat_digits_hd: "48 \<le> (of_char (hd (nat_digits n)) :: nat)"
proof (induction n rule: nat_digits.induct)
  case (1 n)
  then show ?case using nat_digits_nonempty [of "n div 10"]
    by (cases "n < 10") (simp_all add: nat_digits_small nat_digits_large [of n])
qed

lemma Atoi_Itoa: "in_int64 n \<Longrightarrow> Atoi (Itoa n) = Inr n"
proof -
  assume n: "in_int64 n"
  obtain c cs where d: "nat_digits (nat n) = c # cs" using nat_digits_nonempty by (cases "nat_digits (nat n)") auto
  have "48 \<le> (of_char c :: nat)" using nat_digits_hd [of "nat n"] d by simp
  then have "c \<noteq> CHR ''-''" "c \<noteq> CHR ''+''" by auto
  with n d digits_of_nat_digits [of "nat n"] digits_of_nat_digits [of "nat (- n)"] nat_digits_nonempty
  show ?thesis by (cases "n < 0") (auto simp: Atoi_def Itoa_def Let_def simp del: digits_of.simps)
qed


subsection \<open>Options\<close>

record agent_options =
  go_AgentCert :: string
  go_AgentKey :: string
  go_CaCert :: string
  go_ProxyServerHost :: string
  go_ProxyServerPort :: int
  go_AlpnProtos :: "string list"
  go_HealthServerHost :: string
  go_HealthServerPort :: int
  go_AdminBindAddress :: string
  go_AdminServerPort :: int
  go_EnableProfiling :: bool
  go_EnableContentionProfiling :: bool
  go_AgentID :: string
  go_AgentIdentifiers :: string
  go_SyncInterval :: duration
  go_ProbeInterval :: duration
  go_SyncIntervalCap :: duration
  go_KeepaliveTime :: duration
  go_KeepaliveTimeout :: duration
  go_ServiceAccountTokenPath :: string
  go_WarnOnChannelLimit :: bool
  go_SyncForever :: bool
  go_XfrChannelSize :: int
  go_CountServerLeases :: bool
  go_LeaseNamespace :: string
  go_ServerCountSource :: string
  go_KubeconfigPath :: string
  go_LeaseLabelSelector :: string
  go_APIContentType :: string

text \<open>\<open>env\<close> is the value of \<^verbatim>\<open>PROXY_AGENT_ID\<close>, \<open>uuid\<close> a fresh UUID.\<close>

definition defaultAgentID :: "string \<Rightarrow> string \<Rightarrow> string" where
  "defaultAgentID env uuid = (if env \<noteq> [] then env else uuid)"

definition NewGrpcProxyAgentOptions :: "string \<Rightarrow> string \<Rightarrow> agent_options" where
  "NewGrpcProxyAgentOptions env uuid =
     \<lparr>go_AgentCert = [], go_AgentKey = [], go_CaCert = [], go_ProxyServerHost = ''127.0.0.1'',
      go_ProxyServerPort = 8091, go_AlpnProtos = [], go_HealthServerHost = [],
      go_HealthServerPort = 8093, go_AdminBindAddress = ''127.0.0.1'', go_AdminServerPort = 8094,
      go_EnableProfiling = False, go_EnableContentionProfiling = False,
      go_AgentID = defaultAgentID env uuid, go_AgentIdentifiers = [], go_SyncInterval = Second,
      go_ProbeInterval = Second, go_SyncIntervalCap = 10 * Second, go_KeepaliveTime = 3600 * Second,
      go_KeepaliveTimeout = 20 * Second, go_ServiceAccountTokenPath = [],
      go_WarnOnChannelLimit = False, go_SyncForever = False, go_XfrChannelSize = 150,
      go_CountServerLeases = False, go_LeaseNamespace = ''kube-system'',
      go_ServerCountSource = ''default'', go_KubeconfigPath = [],
      go_LeaseLabelSelector = ''k8s-app=konnectivity-server'', go_APIContentType = ''application/vnd.kubernetes.protobuf''\<rparr>"

subsection \<open>Validation\<close>

definition known_types :: "string list" where
  "known_types = [IPv4, IPv6, CIDR, HostId, DefaultRoute]"

text \<open>The loop over the decoded map stops at the first key it meets that is unknown.\<close>

definition validateAgentIdentifiers :: "string \<Rightarrow> go_error option" where
  "validateAgentIdentifiers agentIdentifiers =
     (let (decoded, err) = ParseQuery agentIdentifiers in
      if err \<noteq> None then err
      else (case find (\<lambda>idType. idType \<notin> set known_types) (gm_keys decoded) of
              None \<Rightarrow> None
            | Some idType \<Rightarrow> Some (ErrText (''unknown address type: '' @ idType))))"

definition agent_checks :: "(string \<Rightarrow> bool) \<Rightarrow> agent_options \<Rightarrow> go_error option list" where
  "agent_checks exists opts =
     key_pair_checks exists (CHR 0x22 # ''%s'' @ [CHR 0x22]) ''agent'' (go_AgentKey opts) (go_AgentCert opts) @
     [fails (go_CaCert opts \<noteq> [] \<and> \<not> exists (go_CaCert opts)) ''error checking agent CA cert %s, got %v'',
      fails (go_ProxyServerPort opts \<le> 0) ''proxy server port %d must be greater than 0'',
      fails (go_HealthServerPort opts \<le> 0) ''health server port %d must be greater than 0'',
      fails (go_AdminServerPort opts \<le> 0) ''admin server port %d must be greater than 0'',
      fails (go_KeepaliveTimeout opts \<le> 0) ''keepalive-timeout must be > 0, got %v'',
      fails (go_XfrChannelSize opts \<le> 0) ''channel size %d must be greater than 0'',
      fails (go_EnableContentionProfiling opts \<and> \<not> go_EnableProfiling opts)
        ''if --enable-contention-profiling is set, --enable-profiling must also be set'',
      fails (go_SyncInterval opts > go_SyncIntervalCap opts)
        ''sync interval %v must be less than sync interval cap %v'',
      fails (go_ServiceAccountTokenPath opts \<noteq> [] \<and> \<not> exists (go_ServiceAccountTokenPath opts))
        ''error checking service account token path %s, got %v'',
      (case validateAgentIdentifiers (go_AgentIdentifiers opts) of
         Some err \<Rightarrow> Some (ErrText (''agent address is invalid: '' @ error_string err)) | None \<Rightarrow> None),
      fails (go_KubeconfigPath opts \<noteq> [] \<and> \<not> exists (go_KubeconfigPath opts))
        ''error checking KubeconfigPath %q, got %v'',
      fails (go_ServerCountSource opts \<noteq> [] \<and> go_ServerCountSource opts \<noteq> ''default'' \<and>
             go_ServerCountSource opts \<noteq> ''max'')
        (''--server-count-source must be one of '' @ [CHR 0x27, CHR 0x27] @ '', 'default', 'max', got %v'')]"

definition agent_Validate :: "(string \<Rightarrow> bool) \<Rightarrow> agent_options \<Rightarrow> go_error option" where
  "agent_Validate exists opts = first_failure (agent_checks exists opts)"

definition agent_options_ok :: "(string \<Rightarrow> bool) \<Rightarrow> agent_options \<Rightarrow> bool" where
  "agent_options_ok exists opts \<longleftrightarrow>
     list_all (file_ok exists) [go_AgentKey opts, go_AgentCert opts, go_CaCert opts,
       go_ServiceAccountTokenPath opts, go_KubeconfigPath opts] \<and>
     (go_AgentKey opts = [] \<longleftrightarrow> go_AgentCert opts = []) \<and>
     list_all (\<lambda>port. 0 < port) [go_ProxyServerPort opts, go_HealthServerPort opts, go_AdminServerPort opts] \<and>
     0 < go_KeepaliveTimeout opts \<and> 0 < go_XfrChannelSize opts \<and>
     (go_EnableContentionProfiling opts \<longrightarrow> go_EnableProfiling opts) \<and>
     go_SyncInterval opts \<le> go_SyncIntervalCap opts \<and>
     snd (ParseQuery (go_AgentIdentifiers opts)) = None \<and>
     list_all (\<lambda>t. t \<in> set known_types) (gm_keys (fst (ParseQuery (go_AgentIdentifiers opts)))) \<and>
     go_ServerCountSource opts \<in> {[], ''default'', ''max''}"

lemma validateAgentIdentifiers_None:
  "validateAgentIdentifiers q = None \<longleftrightarrow>
   snd (ParseQuery q) = None \<and> list_all (\<lambda>t. t \<in> set known_types) (gm_keys (fst (ParseQuery q)))"
proof (cases "ParseQuery q")
  case (Pair m err)
  have "find (\<lambda>t. t \<notin> set known_types) (gm_keys m) = None \<longleftrightarrow> list_all (\<lambda>t. t \<in> set known_types) (gm_keys m)"
    by (auto simp: find_None_iff list_all_iff)
  with Pair show ?thesis
    by (cases err; cases "find (\<lambda>t. t \<notin> set known_types) (gm_keys m)")
      (simp_all add: validateAgentIdentifiers_def)
qed

lemma agent_Validate_ok: "agent_Validate exists opts = None \<longleftrightarrow> agent_options_ok exists opts"
proof -
  have "(case validateAgentIdentifiers (go_AgentIdentifiers opts) of
         Some err \<Rightarrow> Some (ErrText (''agent address is invalid: '' @ error_string err)) | None \<Rightarrow> None) = None
     \<longleftrightarrow> validateAgentIdentifiers (go_AgentIdentifiers opts) = None"
    by (simp split: option.split)
  then show ?thesis
    unfolding agent_Validate_def agent_checks_def agent_options_ok_def
    by (simp only: first_failure_simps first_failure.simps(1) key_pair_checked validateAgentIdentifiers_None
        fails_file fails_le fails_less list.pred_inject) (simp; blast)
qed

subsection \<open>Starting\<close>

record clientset_config =
  cc_Address :: string
  cc_AgentID :: string
  cc_AgentIdentifiers :: string
  cc_SyncInterval :: duration
  cc_ProbeInterval :: duration
  cc_SyncIntervalCap :: duration
  cc_ServiceAccountTokenPath :: string
  cc_WarnOnChannelLimit :: bool
  cc_SyncForever :: bool
  cc_CountServerLeases :: bool
  cc_XfrChannelSize :: int
  cc_ServerCountSource :: string

definition ClientSetConfig :: "agent_options \<Rightarrow> clientset_config" where
  "ClientSetConfig opts =
     \<lparr>cc_Address = JoinHostPort (go_ProxyServerHost opts) (Itoa (go_ProxyServerPort opts)),
      cc_AgentID = go_AgentID opts, cc_AgentIdentifiers = go_AgentIdentifiers opts,
      cc_SyncInterval = go_SyncInterval opts, cc_ProbeInterval = go_ProbeInterval opts,
      cc_SyncIntervalCap = go_SyncIntervalCap opts,
      cc_ServiceAccountTokenPath = go_ServiceAccountTokenPath opts,
      cc_WarnOnChannelLimit = go_WarnOnChannelLimit opts, cc_SyncForever = go_SyncForever opts,
      cc_CountServerLeases = go_CountServerLeases opts, cc_XfrChannelSize = go_XfrChannelSize opts,
      cc_ServerCountSource = go_ServerCountSource opts\<rparr>"

text \<open>
  What loading the TLS files, the Kubernetes client's configuration and building the client
  return; the last two are asked only when leases are counted.
\<close>

definition runProxyConnection ::
  "go_error option \<Rightarrow> go_error option \<Rightarrow> go_error option \<Rightarrow> agent_options \<Rightarrow> go_error + client_set" where
  "runProxyConnection tlsErr configErr clientErr opts =
     (let cc = ClientSetConfig opts in
      case tlsErr of
        Some err \<Rightarrow> Inl err
      | None \<Rightarrow>
          case (if go_CountServerLeases opts then configErr else None) of
            Some err \<Rightarrow> Inl (ErrText ((if go_KubeconfigPath opts \<noteq> [] then ''failed to load kubernetes client config: ''
                 else ''failed to load in cluster kubernetes client config: '') @ error_string err))
          | None \<Rightarrow>
          case (if go_CountServerLeases opts then clientErr else None) of
            Some err \<Rightarrow> Inl (ErrText (''failed to create kubernetes clientset: '' @ error_string err))
          | None \<Rightarrow>
              Inr (NewAgentClientSet (cc_SyncForever cc) (cc_CountServerLeases cc) (cc_ServerCountSource cc)))"

text \<open>The first signal closes the drain channel, the second the stop channel.\<close>

definition agent_handleSignals :: "nat \<Rightarrow> bool \<times> bool" where
  "agent_handleSignals signals = (signals \<ge> 1, signals \<ge> 2)"

subsection \<open>Health\<close>

text \<open>The checks by name with their results, in order: the output and the names that failed.\<close>

fun run_checks :: "(string \<times> go_error option) list \<Rightarrow> string \<times> string list" where
  "run_checks [] = ([], [])"
| "run_checks ((name, r) # cs) =
     (let (out, bad) = run_checks cs in
      case r of
        Some err \<Rightarrow> (''[-]'' @ name @ '' failed: '' @ error_string err @ [CHR 0x0A] @ out, name # bad)
      | None \<Rightarrow> (''[+]'' @ name @ '' ok'' @ [CHR 0x0A] @ out, bad))"

definition ping_Check :: "go_error option" where
  "ping_Check = None"

definition serverConnected_Check :: "bool \<Rightarrow> go_error option" where
  "serverConnected_Check ready = (if ready then None else Some (ErrText ''no servers connected''))"

definition agent_readinessHandler :: "(nat \<Rightarrow> bool) \<Rightarrow> bool \<Rightarrow> client_set \<Rightarrow> nat \<times> string" where
  "agent_readinessHandler connReady verbose cs =
     (let (out, bad) = run_checks [(''ping'', ping_Check),
            (''server-connected'', serverConnected_Check (ClientSet_Ready connReady cs))]
      in if length bad > 0 then (503, out)
         else if \<not> verbose then (200, ''ok'')
         else (200, out @ ''check passed'' @ [CHR 0x0A]))"

subsection \<open>What a started agent has\<close>

lemma agent_readyz_iff:
  "fst (agent_readinessHandler connReady verbose cs) =
     (if \<exists>e \<in> set (cs_clients cs). connReady (snd e) then 200 else 503)"
  by (auto simp: agent_readinessHandler_def ping_Check_def serverConnected_Check_def ClientSet_Ready_def
      HealthyClientsCount_def filter_empty_conv)

lemma GenAgentIdentifiers_parsed:
  assumes "snd (ParseQuery q) = None"
  shows "GenAgentIdentifiers q = Ret (Inr (idents_from (fst (ParseQuery q)) no_identifiers))"
  using assms gen_idents_loop_eq [OF ParseQuery_nonempty [of q], of no_identifiers]
  by (simp add: GenAgentIdentifiers_def case_prod_unfold)

lemma runProxyConnection_init: "runProxyConnection e1 e2 e3 opts = Inr cs \<Longrightarrow> set_init cs"
  by (auto simp: runProxyConnection_def set_init_def Let_def split: option.splits)


end
