(* ===== verification/KNP_Handshake.thy ===== *)
theory KNP_Handshake
  imports KNP_AgentApp KNP_Auth
begin

section \<open>The handshake of agent and server\<close>

text \<open>
  What \<^verbatim>\<open>Client.Connect\<close> of the agent writes is what \<^verbatim>\<open>ProxyServer.connect\<close> reads, and the other way
  round: the agent's ID, identifiers and token travel in the metadata of the stream, the server's
  ID and count in its header. The metadata package of gRPC is the parameter \<open>get\<close>: the values that
  the receiver finds under a key when the sender has appended the pairs.
\<close>

text \<open>Keys are case-insensitive; the values of a key keep the order in which they were appended.\<close>

definition delivers_metadata :: "((string \<times> string) list \<Rightarrow> string \<Rightarrow> string list) \<Rightarrow> bool" where
  "delivers_metadata get \<longleftrightarrow>
     (\<forall>pairs key. get pairs key = map snd (filter (\<lambda>p. to_lower (fst p) = to_lower key) pairs))"

definition server_header :: "string \<Rightarrow> int \<Rightarrow> (string \<times> string) list" where
  "server_header sid scount = [(''serverID'', sid), (''serverCount'', Itoa scount)]"

lemma header_keys:
  "to_lower ''serverID'' \<noteq> to_lower ''serverCount''" "to_lower ''agentID'' \<noteq> to_lower ''agentIdentifiers''"
  "to_lower ''agentID'' \<noteq> to_lower ''Authorization''" "to_lower ''agentIdentifiers'' \<noteq> to_lower ''Authorization''"
  by code_simp+

lemma server_header_read:
  assumes "delivers_metadata get" and "in_int64 scount"
  shows "serverID (Inr (get (server_header sid scount))) = Inr sid"
    and "serverCount (Inr (get (server_header sid scount))) = Inr scount"
  using assms header_keys
  by (simp_all add: delivers_metadata_def server_header_def serverID_def serverCount_def Atoi_Itoa)

definition agent_metadata :: "string \<Rightarrow> string \<Rightarrow> string option \<Rightarrow> (string \<times> string) list" where
  "agent_metadata agentID identifiers token =
     [(''agentID'', agentID), (''agentIdentifiers'', identifiers)] @
     (case token of None \<Rightarrow> [] | Some t \<Rightarrow> [(''Authorization'', ''Bearer '' @ t)])"

lemma agent_metadata_read:
  assumes "delivers_metadata get"
  shows "get (agent_metadata agentID identifiers token) ''agentID'' = [agentID]"
    and "get (agent_metadata agentID identifiers token) ''agentIdentifiers'' = [identifiers]"
    and "get (agent_metadata agentID identifiers token) ''Authorization'' =
      (case token of None \<Rightarrow> [] | Some t \<Rightarrow> [''Bearer '' @ t])"
  using assms header_keys header_keys [symmetric]
  by (simp_all add: delivers_metadata_def agent_metadata_def split: option.split)

lemma Connect_metadata:
  assumes "delivers_metadata get" and "in_int64 scount"
  shows "Connect agentID identifiers (map_option Inr token) None None (Inr (get (server_header sid scount))) =
    Inr (agent_metadata agentID identifiers token, sid, scount)"
  by (cases token) (simp_all add: Connect_def initializeAuthContext_def agent_metadata_def
      server_header_read [OF assms])

lemma authenticate_metadata:
  assumes "delivers_metadata get"
  shows "authenticateAgentViaToken review auth (Some (get (agent_metadata agentID identifiers token))) = None \<longleftrightarrow>
    (\<exists>t u. token = Some t \<and> validateAuthToken review auth t = Inr u)"
proof -
  have "trim_prefix (''Bearer '' @ t) ''Bearer '' = t" "has_prefix (''Bearer '' @ t) ''Bearer ''" for t
    by (rule trim_prefix_append, rule has_prefix_append)
  then show ?thesis
    by (cases token) (simp_all add: authenticateAgentViaToken_def AuthenticationTokenContextKey_def
        AuthenticationTokenContextSchemePrefix_def agent_metadata_read [OF assms] split: sum.split)
qed


definition sample_get :: "(string \<times> string) list \<Rightarrow> string \<Rightarrow> string list" where
  "sample_get pairs key = map snd (filter (\<lambda>p. to_lower (fst p) = to_lower key) pairs)"

definition sample_agent :: agent_options where
  "sample_agent = (NewGrpcProxyAgentOptions [] ''agent-1'')\<lparr>go_AgentIdentifiers := ''host=n1&ipv4=1.2.3.4''\<rparr>"


end
