(* ===== verification/KNP_Client.thy ===== *)
theory KNP_Client
  imports KNP_Packet
begin

section \<open>The konnectivity client: a single-use tunnel\<close>

text \<open>
  \<^verbatim>\<open>grpcTunnel\<close> of \<^verbatim>\<open>konnectivity-client/pkg/client/client.go\<close> and \<^verbatim>\<open>conn\<close> of \<^verbatim>\<open>conn.go\<close>: the API
  server's end of the protocol. Three kinds of goroutines share a tunnel: the one that calls
  \<^verbatim>\<open>DialContext\<close>, the receive loop \<^verbatim>\<open>serve\<close>, and the ones that close the tunnel in the background.
  A program counter names the place where each of them is between two accesses to shared state;
  a step function runs one goroutine to the next such place and leaves the state unchanged
  while it blocks. What the gRPC stream answers and which ready case a \<^verbatim>\<open>select\<close> takes are
  arguments. A second call of \<^verbatim>\<open>DialContext\<close> fails at once, so a tunnel has at most one pending
  dial and one \<^verbatim>\<open>conn\<close>: the tables map their identifiers to it, and it is a field of the tunnel.

  A Go slice of bytes that protobuf decodes from an empty field is nil: the empty string.
\<close>

subsection \<open>Errors and metrics\<close>

datatype client_dial_failure =
    DialFailureUnknown | DialFailureTimeout | DialFailureContext | DialFailureEndpoint
  | DialFailureDialClosed | DialFailureTunnelClosed | DialFailureAlreadyStarted
  | DialFailureStreamSetup

datatype client_error = DialFailure string client_dial_failure | OtherError go_error

definition GetDialFailureReason :: "client_error \<Rightarrow> bool \<times> client_dial_failure" where
  "GetDialFailureReason err =
     (case err of DialFailure msg reason \<Rightarrow> (True, reason) | OtherError e \<Rightarrow> (False, DialFailureUnknown))"

datatype client_status = StatusCreated | StatusDialing | StatusOk | StatusClosing

text \<open>The gauge \<^verbatim>\<open>client_connections\<close> of this tunnel: its contribution to each status.\<close>

type_synonym status_gauge = "client_status \<Rightarrow> int"

subsection \<open>State\<close>

datatype dial_result = DialResult "client_error option" int

datatype dial_answer = DialedConn | DialFailed client_error

datatype dialer_pc =
    DialerIdle
  | DialerStarted string string
  | DialerStatus string string
  | DialerStatusSet string string
  | DialerAdds string string
  | DialerSends string string int
  | DialerWaits int
  | DialerGot int int
  | DialerRemoves int dial_answer
  | DialerCancels dial_answer
  | DialerReturned dial_answer

datatype tunnel_pc =
    TunnelRecv
  | TunnelResult dial_result bool
  | TunnelPush string
  | TunnelAck int string
  | TunnelCloseConn | TunnelCloseAll | TunnelCloseMetric | TunnelCloseDone | TunnelDone

datatype closer = AwaitsCloseResponse | ClosesDial int

record tunnel_conn =
  cc_connID :: int
  cc_random :: int
  cc_readCh :: "string list"
  cc_readClosed :: bool
  cc_closeCh :: "string list"
  cc_closeClosed :: bool
  cc_rdata :: "string option"
  cc_closing :: bool

text \<open>
  \<open>gt_cancelCh\<close>: the dial's \<^verbatim>\<open>cancelCh\<close> is closed. \<open>gt_grpcCloses\<close> counts the calls of
  \<^verbatim>\<open>grpcConn.Close\<close>. \<open>gt_log\<close> lists the packets given to the stream with the result,
  \<open>gt_recv\<close> the packets \<^verbatim>\<open>serve\<close> took from it, \<open>gt_read\<close> the bytes that \<^verbatim>\<open>Read\<close> returned.
\<close>

record grpc_tunnel =
  gt_pendingDial :: "(int, unit) gomap"
  gt_conns :: "(int, unit) gomap"
  gt_conn :: "tunnel_conn option"
  gt_done :: bool
  gt_started :: bool
  gt_closing :: bool
  gt_prevStatus :: client_status
  gt_gauge :: status_gauge
  gt_cancelCh :: bool
  gt_ctxDone :: bool
  gt_grpcCloses :: nat
  gt_dialer :: dialer_pc
  gt_serve :: tunnel_pc
  gt_closers :: "closer list"
  gt_log :: "(packet \<times> go_error option) list"
  gt_recv :: "packet list"
  gt_read :: string
  gt_failures :: "client_dial_failure list"

definition readTimeoutSeconds :: nat where "readTimeoutSeconds = 10"

definition readCh_cap :: nat where "readCh_cap = 10"

definition newUnstartedTunnel :: grpc_tunnel where
  "newUnstartedTunnel =
     \<lparr>gt_pendingDial = [], gt_conns = [], gt_conn = None, gt_done = False, gt_started = False,
      gt_closing = False, gt_prevStatus = StatusCreated,
      gt_gauge = (\<lambda>s. if s = StatusCreated then 1 else 0), gt_cancelCh = False,
      gt_ctxDone = False, gt_grpcCloses = 0, gt_dialer = DialerIdle, gt_serve = TunnelRecv,
      gt_closers = [], gt_log = [], gt_recv = [], gt_read = [], gt_failures = []\<rparr>"

subsection \<open>The tables\<close>

definition pendingDial_add :: "int \<Rightarrow> grpc_tunnel \<Rightarrow> grpc_tunnel" where
  "pendingDial_add dialID t = t\<lparr>gt_pendingDial := gm_put dialID () (gt_pendingDial t)\<rparr>"

definition pendingDial_remove :: "int \<Rightarrow> grpc_tunnel \<Rightarrow> grpc_tunnel" where
  "pendingDial_remove dialID t = t\<lparr>gt_pendingDial := gm_delete dialID (gt_pendingDial t)\<rparr>"

definition pendingDial_get :: "int \<Rightarrow> grpc_tunnel \<Rightarrow> bool" where
  "pendingDial_get dialID t \<longleftrightarrow> gm_get (gt_pendingDial t) dialID \<noteq> None"

definition conns_add :: "int \<Rightarrow> tunnel_conn \<Rightarrow> grpc_tunnel \<Rightarrow> grpc_tunnel" where
  "conns_add connID c t = t\<lparr>gt_conns := gm_put connID () (gt_conns t), gt_conn := Some c\<rparr>"

definition conns_remove :: "int \<Rightarrow> grpc_tunnel \<Rightarrow> grpc_tunnel" where
  "conns_remove connID t = t\<lparr>gt_conns := gm_delete connID (gt_conns t)\<rparr>"

definition conns_get :: "int \<Rightarrow> grpc_tunnel \<Rightarrow> tunnel_conn option" where
  "conns_get connID t = (case gm_get (gt_conns t) connID of None \<Rightarrow> None | Some u \<Rightarrow> gt_conn t)"

definition channel_panic :: string where "channel_panic = ''close of closed channel''"

definition close_readCh :: "grpc_tunnel \<Rightarrow> grpc_tunnel outcome" where
  "close_readCh t =
     (case gt_conn t of
        None \<Rightarrow> Panic nil_deref
      | Some c \<Rightarrow>
          if cc_readClosed c then Panic channel_panic
          else Ret (t\<lparr>gt_conn := Some (c\<lparr>cc_readClosed := True\<rparr>)\<rparr>))"

fun closeAll :: "(int, unit) gomap \<Rightarrow> grpc_tunnel \<Rightarrow> grpc_tunnel outcome" where
  "closeAll [] t = Ret t"
| "closeAll (e # es) t = bind_outcome (close_readCh t) (closeAll es)"

subsection \<open>Status metric\<close>

definition updateMetric_set :: "client_status \<Rightarrow> grpc_tunnel \<Rightarrow> grpc_tunnel" where
  "updateMetric_set status t =
     (let prev = gt_prevStatus t;
          g1 = (gt_gauge t)(prev := gt_gauge t prev - 1)
      in t\<lparr>gt_prevStatus := status, gt_gauge := g1(status := g1 status + 1)\<rparr>)"

definition updateMetric :: "client_status \<Rightarrow> grpc_tunnel \<Rightarrow> grpc_tunnel" where
  "updateMetric status t = (if gt_done t then t else updateMetric_set status t)"

definition closeMetric :: "grpc_tunnel \<Rightarrow> grpc_tunnel" where
  "closeMetric t =
     (if gt_done t then t
      else t\<lparr>gt_gauge := (gt_gauge t)(gt_prevStatus t := gt_gauge t (gt_prevStatus t) - 1)\<rparr>)"

subsection \<open>Sending\<close>

definition tunnel_Send :: "go_error option \<Rightarrow> packet \<Rightarrow> grpc_tunnel \<Rightarrow> grpc_tunnel" where
  "tunnel_Send sendErr pkt t = t\<lparr>gt_log := gt_log t @ [(pkt, sendErr)]\<rparr>"

definition sendCloseRequest :: "go_error option \<Rightarrow> int \<Rightarrow> grpc_tunnel \<Rightarrow> grpc_tunnel" where
  "sendCloseRequest sendErr connID t = tunnel_Send sendErr (newCloseRequestPacket connID) t"

definition sendDialClose :: "go_error option \<Rightarrow> int \<Rightarrow> grpc_tunnel \<Rightarrow> grpc_tunnel" where
  "sendDialClose sendErr dialID t = tunnel_Send sendErr (newDialClosePacket dialID) t"

definition closeTunnel :: "grpc_tunnel \<Rightarrow> grpc_tunnel" where
  "closeTunnel t = t\<lparr>gt_closing := True, gt_grpcCloses := Suc (gt_grpcCloses t)\<rparr>"

subsection \<open>The receive loop\<close>

text \<open>
  Which case of a \<^verbatim>\<open>select\<close> is taken, of those that are ready. The channel case of the dial
  result is a rendezvous with the dialling goroutine, \<open>hand_over\<close> below.
\<close>

datatype serve_select = SelectChannel | SelectTimer | SelectContext | SelectCancel

definition serve_return :: "grpc_tunnel \<Rightarrow> grpc_tunnel" where
  "serve_return t = t\<lparr>gt_serve := TunnelCloseConn\<rparr>"

definition tunnel_DIAL_RSP :: "packet \<Rightarrow> grpc_tunnel \<Rightarrow> grpc_tunnel outcome" where
  "tunnel_DIAL_RSP pkt t =
     bind_outcome (deref (GetDialResponse pkt)) (\<lambda>resp.
       if \<not> pendingDial_get (dr_random resp) t then Ret (serve_return t)
       else if dr_error resp \<noteq> [] then
         Ret (t\<lparr>gt_serve := TunnelResult
                (DialResult (Some (DialFailure (dr_error resp) DialFailureEndpoint)) (dr_connectID resp)) True\<rparr>)
       else
         Ret ((updateMetric StatusOk t)\<lparr>gt_serve := TunnelResult (DialResult None (dr_connectID resp)) False\<rparr>))"

definition tunnel_DIAL_CLS :: "packet \<Rightarrow> grpc_tunnel \<Rightarrow> grpc_tunnel outcome" where
  "tunnel_DIAL_CLS pkt t =
     bind_outcome (deref (GetCloseDial pkt)) (\<lambda>resp.
       if \<not> pendingDial_get (cd_random resp) t then Ret (serve_return t)
       else
         Ret (t\<lparr>gt_serve := TunnelResult
                (DialResult (Some (DialFailure ''dial closed'' DialFailureDialClosed)) 0) True\<rparr>))"

definition tunnel_DATA :: "go_error option \<Rightarrow> packet \<Rightarrow> grpc_tunnel \<Rightarrow> grpc_tunnel outcome" where
  "tunnel_DATA sendErr pkt t =
     bind_outcome (deref (GetData pkt)) (\<lambda>resp.
       if dm_connectID resp = 0 then Ret t
       else case conns_get (dm_connectID resp) t of
         None \<Rightarrow> Ret (sendCloseRequest sendErr (dm_connectID resp) t)
       | Some c \<Rightarrow> Ret (t\<lparr>gt_serve := TunnelPush (dm_data resp)\<rparr>))"

definition tunnel_CLOSE_RSP :: "packet \<Rightarrow> grpc_tunnel \<Rightarrow> grpc_tunnel outcome" where
  "tunnel_CLOSE_RSP pkt t =
     bind_outcome (deref (GetCloseResponse pkt)) (\<lambda>resp.
       case conns_get (cr_connectID resp) t of
         None \<Rightarrow> Ret t
       | Some c \<Rightarrow>
           bind_outcome (close_readCh t) (\<lambda>t1.
             Ret (t1\<lparr>gt_serve := TunnelAck (cr_connectID resp) (cr_error resp)\<rparr>)))"

definition serve_packet :: "go_error option \<Rightarrow> packet \<Rightarrow> grpc_tunnel \<Rightarrow> grpc_tunnel outcome" where
  "serve_packet sendErr pkt t =
     (case ptype pkt of
        DIAL_RSP \<Rightarrow> tunnel_DIAL_RSP pkt t
      | DIAL_CLS \<Rightarrow> tunnel_DIAL_CLS pkt t
      | DATA \<Rightarrow> tunnel_DATA sendErr pkt t
      | CLOSE_RSP \<Rightarrow> tunnel_CLOSE_RSP pkt t
      | _ \<Rightarrow> Ret t)"

text \<open>\<open>recv\<close>: what \<^verbatim>\<open>stream.Recv\<close> returns, a packet or nil, or an error.\<close>

definition tunnel_recv ::
  "go_error + packet option \<Rightarrow> go_error option \<Rightarrow> grpc_tunnel \<Rightarrow> grpc_tunnel outcome" where
  "tunnel_recv recv sendErr t =
     (case recv of
        Inl err \<Rightarrow> Ret (serve_return t)
      | Inr None \<Rightarrow> Ret (serve_return t)
      | Inr (Some pkt) \<Rightarrow>
          if gt_closing t then Ret (serve_return t)
          else serve_packet sendErr pkt (t\<lparr>gt_recv := gt_recv t @ [pkt]\<rparr>))"

definition tunnel_result :: "dial_result \<Rightarrow> serve_select \<Rightarrow> grpc_tunnel \<Rightarrow> grpc_tunnel" where
  "tunnel_result res sel t =
     (if sel = SelectCancel \<and> gt_cancelCh t \<or> sel = SelectContext \<and> gt_ctxDone t
      then serve_return t else t)"

definition tunnel_push :: "string \<Rightarrow> serve_select \<Rightarrow> grpc_tunnel \<Rightarrow> grpc_tunnel outcome" where
  "tunnel_push d sel t =
     (case gt_conn t of
        None \<Rightarrow> Panic nil_deref
      | Some c \<Rightarrow>
          if sel = SelectTimer then Ret (serve_return t)
          else if sel = SelectContext \<and> gt_ctxDone t then Ret (t\<lparr>gt_serve := TunnelRecv\<rparr>)
          else if cc_readClosed c then Panic channel_panic
          else if sel = SelectChannel \<and> length (cc_readCh c) < readCh_cap then
            Ret (t\<lparr>gt_conn := Some (c\<lparr>cc_readCh := cc_readCh c @ [d]\<rparr>), gt_serve := TunnelRecv\<rparr>)
          else Ret t)"

definition tunnel_ack :: "int \<Rightarrow> string \<Rightarrow> grpc_tunnel \<Rightarrow> grpc_tunnel outcome" where
  "tunnel_ack connID err t =
     (case gt_conn t of
        None \<Rightarrow> Panic nil_deref
      | Some c \<Rightarrow>
          if cc_closeClosed c then Panic channel_panic
          else if cc_closeCh c \<noteq> [] then Ret t
          else Ret (serve_return (conns_remove connID
                 (t\<lparr>gt_conn := Some (c\<lparr>cc_closeCh := [err], cc_closeClosed := True\<rparr>)\<rparr>))))"

definition tunnel_serve ::
  "go_error + packet option \<Rightarrow> go_error option \<Rightarrow> serve_select \<Rightarrow> grpc_tunnel \<Rightarrow> grpc_tunnel outcome" where
  "tunnel_serve recv sendErr sel t =
     (case gt_serve t of
        TunnelRecv \<Rightarrow> tunnel_recv recv sendErr t
      | TunnelResult res stop \<Rightarrow> Ret (tunnel_result res sel t)
      | TunnelPush d \<Rightarrow> tunnel_push d sel t
      | TunnelAck connID err \<Rightarrow> tunnel_ack connID err t
      | TunnelCloseConn \<Rightarrow> Ret (t\<lparr>gt_grpcCloses := Suc (gt_grpcCloses t), gt_serve := TunnelCloseAll\<rparr>)
      | TunnelCloseAll \<Rightarrow>
          bind_outcome (closeAll (gt_conns t) t) (\<lambda>t1. Ret (t1\<lparr>gt_serve := TunnelCloseMetric\<rparr>))
      | TunnelCloseMetric \<Rightarrow> Ret ((closeMetric t)\<lparr>gt_serve := TunnelCloseDone\<rparr>)
      | TunnelCloseDone \<Rightarrow>
          if gt_done t then Panic channel_panic
          else Ret (t\<lparr>gt_done := True, gt_serve := TunnelDone\<rparr>)
      | TunnelDone \<Rightarrow> Ret t)"

subsection \<open>Dialling\<close>

datatype dial_select = DialSelectTimeout | DialSelectContext | DialSelectDone

text \<open>
  A call of \<^verbatim>\<open>DialContext\<close> swaps \<^verbatim>\<open>started\<close>; the call that finds it unset goes on. Every error
  that \<^verbatim>\<open>dialContext\<close> returns is observed with its reason.
\<close>

definition DialContext_start :: "string \<Rightarrow> string \<Rightarrow> grpc_tunnel \<Rightarrow> grpc_tunnel" where
  "DialContext_start protocol address t =
     (if gt_started t then
        t\<lparr>gt_failures := gt_failures t @
            [snd (GetDialFailureReason
               (DialFailure ''single-use dialer already dialed'' DialFailureAlreadyStarted))]\<rparr>
      else t\<lparr>gt_started := True, gt_dialer := DialerStarted protocol address\<rparr>)"

definition dial_return :: "dial_answer \<Rightarrow> grpc_tunnel \<Rightarrow> grpc_tunnel" where
  "dial_return a t =
     (case a of
        DialedConn \<Rightarrow> t\<lparr>gt_dialer := DialerReturned a\<rparr>
      | DialFailed err \<Rightarrow>
          t\<lparr>gt_dialer := DialerReturned a,
            gt_failures := gt_failures t @ [snd (GetDialFailureReason err)]\<rparr>)"

definition dial_give_up :: "int \<Rightarrow> dial_select \<Rightarrow> grpc_tunnel \<Rightarrow> grpc_tunnel" where
  "dial_give_up random sel t =
     (case sel of
        DialSelectTimeout \<Rightarrow>
          t\<lparr>gt_closers := gt_closers t @ [ClosesDial random],
            gt_dialer := DialerRemoves random
              (DialFailed (DialFailure ''dial timeout, backstop'' DialFailureTimeout))\<rparr>
      | DialSelectContext \<Rightarrow>
          t\<lparr>gt_closers := gt_closers t @ [ClosesDial random],
            gt_dialer := DialerRemoves random
              (DialFailed (DialFailure ''dial timeout, context'' DialFailureContext))\<rparr>
      | DialSelectDone \<Rightarrow>
          if gt_done t then
            t\<lparr>gt_dialer := DialerRemoves random
                (DialFailed (DialFailure ''tunnel closed'' DialFailureTunnelClosed))\<rparr>
          else t)"

definition new_conn :: "int \<Rightarrow> int \<Rightarrow> tunnel_conn" where
  "new_conn random connID =
     \<lparr>cc_connID = connID, cc_random = random, cc_readCh = [], cc_readClosed = False,
      cc_closeCh = [], cc_closeClosed = False, cc_rdata = None, cc_closing = False\<rparr>"

definition dialContext_step ::
  "int \<Rightarrow> go_error option \<Rightarrow> dial_select \<Rightarrow> grpc_tunnel \<Rightarrow> grpc_tunnel" where
  "dialContext_step random sendErr sel t =
     (case gt_dialer t of
        DialerIdle \<Rightarrow> t
      | DialerStarted protocol address \<Rightarrow>
          if gt_done t then dial_return (DialFailed (OtherError (ErrText ''tunnel is closed''))) t
          else if protocol \<noteq> ''tcp'' then
            dial_return (DialFailed (OtherError (ErrText ''protocol not supported''))) t
          else t\<lparr>gt_dialer := DialerStatus protocol address\<rparr>
      | DialerStatus protocol address \<Rightarrow>
          t\<lparr>gt_dialer := (if gt_done t then DialerAdds protocol address
                         else DialerStatusSet protocol address)\<rparr>
      | DialerStatusSet protocol address \<Rightarrow>
          (updateMetric_set StatusDialing t)\<lparr>gt_dialer := DialerAdds protocol address\<rparr>
      | DialerAdds protocol address \<Rightarrow>
          (pendingDial_add random t)\<lparr>gt_dialer := DialerSends protocol address random\<rparr>
      | DialerSends protocol address dialID \<Rightarrow>
          (tunnel_Send sendErr (newDialRequestPacket protocol address dialID) t)
            \<lparr>gt_dialer := (case sendErr of
                None \<Rightarrow> DialerWaits dialID
              | Some err \<Rightarrow> DialerRemoves dialID (DialFailed (OtherError err)))\<rparr>
      | DialerWaits dialID \<Rightarrow> dial_give_up dialID sel t
      | DialerGot dialID connID \<Rightarrow>
          (conns_add connID (new_conn dialID connID) t)\<lparr>gt_dialer := DialerRemoves dialID DialedConn\<rparr>
      | DialerRemoves dialID a \<Rightarrow> (pendingDial_remove dialID t)\<lparr>gt_dialer := DialerCancels a\<rparr>
      | DialerCancels a \<Rightarrow> dial_return a (t\<lparr>gt_cancelCh := True\<rparr>)
      | DialerReturned a \<Rightarrow> t)"

text \<open>The unbuffered \<^verbatim>\<open>resultCh\<close>: both goroutines go on together.\<close>

definition hand_over :: "grpc_tunnel \<Rightarrow> grpc_tunnel" where
  "hand_over t =
     (case (gt_serve t, gt_dialer t) of
        (TunnelResult (DialResult err connID) stop, DialerWaits dialID) \<Rightarrow>
          t\<lparr>gt_serve := (if stop then TunnelCloseConn else TunnelRecv),
            gt_dialer := (case err of
                Some e \<Rightarrow> DialerRemoves dialID (DialFailed e)
              | None \<Rightarrow> DialerGot dialID connID)\<rparr>
      | _ \<Rightarrow> t)"

subsection \<open>The connection\<close>

definition conn_Write ::
  "go_error option \<Rightarrow> string \<Rightarrow> tunnel_conn \<Rightarrow> grpc_tunnel \<Rightarrow> nat \<times> go_error option \<times> grpc_tunnel" where
  "conn_Write sendErr bytes c t =
     (let t1 = tunnel_Send sendErr (newDataPacket (cc_connID c) bytes) t in
      case sendErr of Some err \<Rightarrow> (0, Some err, t1) | None \<Rightarrow> (length bytes, None, t1))"

datatype read_result = ReadBlocks | ReadEOF | ReadBytes string

definition read_data :: "tunnel_conn \<Rightarrow> (string \<times> tunnel_conn) option" where
  "read_data c =
     (case cc_rdata c of
        Some d \<Rightarrow> Some (d, c)
      | None \<Rightarrow>
          (case cc_readCh c of
             d # ds \<Rightarrow> Some (d, c\<lparr>cc_readCh := ds\<rparr>)
           | [] \<Rightarrow> if cc_readClosed c then Some ([], c) else None))"

definition conn_Read :: "nat \<Rightarrow> tunnel_conn \<Rightarrow> read_result \<times> tunnel_conn" where
  "conn_Read n c =
     (case read_data c of
        None \<Rightarrow> (ReadBlocks, c)
      | Some (d, c1) \<Rightarrow>
          if d = [] then (ReadEOF, c1)
          else if length d > n then (ReadBytes (take n d), c1\<lparr>cc_rdata := Some (drop n d)\<rparr>)
          else (ReadBytes d, c1\<lparr>cc_rdata := None\<rparr>))"

definition errConnTunnelClosed :: go_error where
  "errConnTunnelClosed = ErrText ''tunnel closed''"

definition conn_Close ::
  "go_error option \<Rightarrow> tunnel_conn \<Rightarrow> grpc_tunnel \<Rightarrow> go_error option \<times> grpc_tunnel" where
  "conn_Close sendErr c t =
     (if cc_closing c then (None, t)
      else
        let t1 = t\<lparr>gt_conn := Some (c\<lparr>cc_closing := True\<rparr>)\<rparr> in
        if gt_done t1 then (Some errConnTunnelClosed, closeTunnel t1)
        else
          let t2 = (if cc_connID c \<noteq> 0 then sendCloseRequest sendErr (cc_connID c) t1
                    else sendDialClose sendErr (cc_random c) t1)
          in (sendErr, t2\<lparr>gt_closers := gt_closers t2 @ [AwaitsCloseResponse]\<rparr>))"

datatype await_select = AwaitChannel | AwaitDone | AwaitTimer

definition awaitCloseResponse :: "await_select \<Rightarrow> tunnel_conn \<Rightarrow> grpc_tunnel \<Rightarrow> grpc_tunnel option" where
  "awaitCloseResponse sel c t =
     (case sel of
        AwaitChannel \<Rightarrow>
          if cc_closeCh c \<noteq> [] \<or> cc_closeClosed c
          then Some (closeTunnel (t\<lparr>gt_conn := Some (c\<lparr>cc_closeCh := tl (cc_closeCh c)\<rparr>)\<rparr>)) else None
      | AwaitDone \<Rightarrow> if gt_done t then Some (closeTunnel t) else None
      | AwaitTimer \<Rightarrow> Some (closeTunnel t))"

definition dial_closer :: "go_error option \<Rightarrow> int \<Rightarrow> grpc_tunnel \<Rightarrow> grpc_tunnel" where
  "dial_closer sendErr dialID t = closeTunnel (sendDialClose sendErr dialID t)"


subsection \<open>All interleavings\<close>

text \<open>
  The caller of \<^verbatim>\<open>DialContext\<close> uses the connection once the call has returned it; it may read,
  write and close from several goroutines. The tunnel's context may be cancelled at any time.
\<close>

inductive client_step :: "grpc_tunnel \<Rightarrow> grpc_tunnel \<Rightarrow> bool" where
  cl_start: "client_step t (DialContext_start protocol address t)"
| cl_dial: "client_step t (dialContext_step random sendErr sel t)"
| cl_hand_over: "client_step t (hand_over t)"
| cl_serve: "tunnel_serve recv sendErr sel t = Ret t' \<Longrightarrow> client_step t t'"
| cl_cancel: "client_step t (t\<lparr>gt_ctxDone := True\<rparr>)"
| cl_read: "gt_dialer t = DialerReturned DialedConn \<Longrightarrow> gt_conn t = Some c \<Longrightarrow>
     conn_Read n c = (r, c') \<Longrightarrow>
     client_step t (t\<lparr>gt_conn := Some c',
       gt_read := gt_read t @ (case r of ReadBytes bs \<Rightarrow> bs | _ \<Rightarrow> [])\<rparr>)"
| cl_write: "gt_dialer t = DialerReturned DialedConn \<Longrightarrow> gt_conn t = Some c \<Longrightarrow>
     client_step t (snd (snd (conn_Write sendErr bytes c t)))"
| cl_close: "gt_dialer t = DialerReturned DialedConn \<Longrightarrow> gt_conn t = Some c \<Longrightarrow>
     client_step t (snd (conn_Close sendErr c t))"
| cl_await: "gt_closers t = xs @ AwaitsCloseResponse # ys \<Longrightarrow> gt_conn t = Some c \<Longrightarrow>
     awaitCloseResponse aw c (t\<lparr>gt_closers := xs @ ys\<rparr>) = Some t' \<Longrightarrow> client_step t t'"
| cl_dial_closer: "gt_closers t = xs @ ClosesDial dialID # ys \<Longrightarrow>
     client_step t (dial_closer sendErr dialID (t\<lparr>gt_closers := xs @ ys\<rparr>))"

inductive_cases client_stepE: "client_step t t'"

definition client_init :: "grpc_tunnel \<Rightarrow> bool" where
  "client_init t \<longleftrightarrow> t = newUnstartedTunnel"

subsection \<open>Who holds what\<close>

fun pending_at :: "dialer_pc \<Rightarrow> (int, unit) gomap" where
  "pending_at (DialerSends p a r) = [(r, ())]"
| "pending_at (DialerWaits r) = [(r, ())]"
| "pending_at (DialerGot r i) = [(r, ())]"
| "pending_at (DialerRemoves r a) = [(r, ())]"
| "pending_at _ = []"

fun has_conn :: "dialer_pc \<Rightarrow> bool" where
  "has_conn (DialerRemoves r a) \<longleftrightarrow> a = DialedConn"
| "has_conn (DialerCancels a) \<longleftrightarrow> a = DialedConn"
| "has_conn (DialerReturned a) \<longleftrightarrow> a = DialedConn"
| "has_conn _ \<longleftrightarrow> False"

definition dialer_inv :: "grpc_tunnel \<Rightarrow> bool" where
  "dialer_inv t \<longleftrightarrow> gt_pendingDial t = pending_at (gt_dialer t) \<and>
     (gt_conn t \<noteq> None \<longleftrightarrow> has_conn (gt_dialer t)) \<and>
     (gt_started t \<longleftrightarrow> gt_dialer t \<noteq> DialerIdle) \<and> (gt_done t \<longleftrightarrow> gt_serve t = TunnelDone)"

definition conn_open :: "tunnel_conn \<Rightarrow> (int, unit) gomap \<Rightarrow> bool" where
  "conn_open c m \<longleftrightarrow> m = [(cc_connID c, ())] \<and> \<not> cc_readClosed c \<and> cc_closeCh c = [] \<and> \<not> cc_closeClosed c"

fun conn_at :: "tunnel_pc \<Rightarrow> tunnel_conn \<Rightarrow> (int, unit) gomap \<Rightarrow> bool" where
  "conn_at TunnelRecv c m \<longleftrightarrow> conn_open c m"
| "conn_at (TunnelResult res stop) c m \<longleftrightarrow> conn_open c m"
| "conn_at (TunnelPush d) c m \<longleftrightarrow> conn_open c m"
| "conn_at (TunnelAck i err) c m \<longleftrightarrow>
     i = cc_connID c \<and> m = [(i, ())] \<and> cc_readClosed c \<and> cc_closeCh c = [] \<and> \<not> cc_closeClosed c"
| "conn_at TunnelCloseConn c m \<longleftrightarrow> m = [] \<and> cc_readClosed c \<or> conn_open c m"
| "conn_at TunnelCloseAll c m \<longleftrightarrow> m = [] \<and> cc_readClosed c \<or> conn_open c m"
| "conn_at _ c m \<longleftrightarrow> True"

fun uses_conn :: "tunnel_pc \<Rightarrow> bool" where
  "uses_conn (TunnelPush d) \<longleftrightarrow> True"
| "uses_conn (TunnelAck i err) \<longleftrightarrow> True"
| "uses_conn _ \<longleftrightarrow> False"

definition conn_inv :: "grpc_tunnel \<Rightarrow> bool" where
  "conn_inv t \<longleftrightarrow> (case gt_conn t of
      None \<Rightarrow> gt_conns t = [] \<and> \<not> uses_conn (gt_serve t)
    | Some c \<Rightarrow> cc_rdata c \<noteq> Some [] \<and> conn_at (gt_serve t) c (gt_conns t))"

fun metric_open :: "tunnel_pc \<Rightarrow> bool" where
  "metric_open TunnelCloseDone \<longleftrightarrow> False"
| "metric_open TunnelDone \<longleftrightarrow> False"
| "metric_open _ \<longleftrightarrow> True"

definition gauge_total :: "status_gauge \<Rightarrow> int" where
  "gauge_total g = g StatusCreated + g StatusDialing + g StatusOk + g StatusClosing"

definition status_inv :: "grpc_tunnel \<Rightarrow> bool" where
  "status_inv t \<longleftrightarrow>
     (if metric_open (gt_serve t) then gt_gauge t = (\<lambda>s. if s = gt_prevStatus t then 1 else 0)
      else gauge_total (gt_gauge t) = 0)"

text \<open>The shape of a one-step argument: no goroutine but the receive loop moves its counter.\<close>

lemma outcome_bind_Ret [simp]: "bind_outcome r Ret = r"
  by (cases r) auto

lemmas dialer_ops =
  dialContext_step_def dial_return_def dial_give_up_def DialContext_start_def pendingDial_add_def
  pendingDial_remove_def conns_add_def new_conn_def tunnel_Send_def updateMetric_set_def Let_def

lemmas serve_ops =
  tunnel_serve_def tunnel_recv_def serve_packet_def tunnel_DIAL_RSP_def tunnel_DIAL_CLS_def
  tunnel_DATA_def tunnel_CLOSE_RSP_def tunnel_result_def tunnel_push_def tunnel_ack_def
  serve_return_def sendCloseRequest_def tunnel_Send_def conns_remove_def conns_get_def
  close_readCh_def updateMetric_def updateMetric_set_def closeMetric_def pendingDial_get_def Let_def

lemmas user_ops =
  conn_Write_def conn_Close_def closeTunnel_def sendCloseRequest_def sendDialClose_def
  tunnel_Send_def awaitCloseResponse_def dial_closer_def Let_def

lemma dialer_inv_start: "dialer_inv t \<Longrightarrow> dialer_inv (DialContext_start p a t)"
  by (auto simp: dialer_inv_def DialContext_start_def)

lemma dialer_inv_dial: "dialer_inv t \<Longrightarrow> dialer_inv (dialContext_step r e sel t)"
  by (cases "gt_dialer t")
    (auto simp: dialer_inv_def dialer_ops gm_put_def gm_delete_def
      split: dial_answer.split dial_select.split option.split)


lemma dialer_inv_hand_over: "dialer_inv t \<Longrightarrow> dialer_inv (hand_over t)"
  by (cases "gt_serve t"; cases "gt_dialer t")
    (auto simp: dialer_inv_def hand_over_def split: dial_result.split option.split)

lemma conn_inv_dial: "dialer_inv t \<Longrightarrow> conn_inv t \<Longrightarrow> conn_inv (dialContext_step r e sel t)"
  by (cases "gt_dialer t"; cases "gt_serve t")
    (auto simp: dialer_inv_def conn_inv_def dialer_ops conn_open_def gm_put_def
      split: dial_answer.split dial_select.split option.splits)

lemma conn_inv_hand_over: "dialer_inv t \<Longrightarrow> conn_inv t \<Longrightarrow> conn_inv (hand_over t)"
  by (cases "gt_serve t"; cases "gt_dialer t")
    (auto simp: conn_inv_def dialer_inv_def hand_over_def split: dial_result.split option.splits)

lemma status_inv_dial: "status_inv t \<Longrightarrow> status_inv (dialContext_step r e sel t)"
  by (cases "gt_dialer t"; cases "gt_prevStatus t")
    (auto simp: status_inv_def gauge_total_def dialer_ops fun_eq_iff
      split: dial_answer.split dial_select.split option.splits)

lemma status_inv_hand_over: "status_inv t \<Longrightarrow> status_inv (hand_over t)"
  by (cases "gt_serve t"; cases "gt_dialer t")
    (auto simp: status_inv_def hand_over_def split: dial_result.split option.splits)

text \<open>The receive loop, one program counter at a time.\<close>

definition tables_inv :: "grpc_tunnel \<Rightarrow> bool" where
  "tables_inv t \<longleftrightarrow> dialer_inv t \<and> conn_inv t \<and> status_inv t"

text \<open>\<open>conn_data connID pkts\<close>: the payloads of the DATA packets for a connection.\<close>

definition packet_data :: "int \<Rightarrow> packet \<Rightarrow> string list" where
  "packet_data connID p =
     (case GetData p of
        Some d \<Rightarrow> if ptype p = DATA \<and> dm_connectID d = connID then [dm_data d] else []
      | None \<Rightarrow> [])"

definition conn_data :: "int \<Rightarrow> packet list \<Rightarrow> string list" where
  "conn_data connID pkts = concat (map (packet_data connID) pkts)"

lemma serve_packet_cases:
  assumes "serve_packet sendErr pkt t = Ret t'"
  obtains (returns) "t' = t\<lparr>gt_serve := TunnelCloseConn\<rparr>" "ptype pkt \<noteq> DATA"
  | (failed) res where "t' = t\<lparr>gt_serve := TunnelResult res True\<rparr>" "ptype pkt \<noteq> DATA"
  | (dialed) res where "t' = (updateMetric StatusOk t)\<lparr>gt_serve := TunnelResult res False\<rparr>" "ptype pkt \<noteq> DATA"
  | (ignored) "t' = t" "\<And>i. i \<noteq> 0 \<Longrightarrow> packet_data i pkt = []"
  | (unknown) connID where "t' = sendCloseRequest sendErr connID t" "\<And>i. i \<noteq> connID \<Longrightarrow> packet_data i pkt = []"
  | (pushes) connID c d where "t' = t\<lparr>gt_serve := TunnelPush d\<rparr>" "gt_conn t = Some c"
      "gm_get (gt_conns t) connID \<noteq> None" "\<And>i. packet_data i pkt = (if i = connID then [d] else [])"
  | (acked) connID c err where "t' = t\<lparr>gt_conn := Some (c\<lparr>cc_readClosed := True\<rparr>), gt_serve := TunnelAck connID err\<rparr>"
      "gt_conn t = Some c" "gm_get (gt_conns t) connID \<noteq> None" "\<not> cc_readClosed c" "ptype pkt \<noteq> DATA"
proof -
  have data: "(\<forall>i. i \<noteq> 0 \<longrightarrow> packet_data i pkt = []) \<and> t' = t \<or>
      (\<exists>connID. t' = sendCloseRequest sendErr connID t \<and> (\<forall>i. i \<noteq> connID \<longrightarrow> packet_data i pkt = [])) \<or>
      (\<exists>connID c d. t' = t\<lparr>gt_serve := TunnelPush d\<rparr> \<and> gt_conn t = Some c \<and>
         gm_get (gt_conns t) connID \<noteq> None \<and> (\<forall>i. packet_data i pkt = (if i = connID then [d] else [])))"
    if "ptype pkt = DATA"
    using assms that
    by (auto simp: serve_packet_def tunnel_DATA_def bind_outcome_Ret_iff packet_data_def deref_def
        conns_get_def split: if_splits option.splits)
  have other: "ptype pkt \<noteq> DATA \<Longrightarrow> packet_data i pkt = []" for i
    by (simp add: packet_data_def split: option.split)
  show thesis
  proof (cases "ptype pkt")
    case DATA
    from data [OF this] show ?thesis
    proof (elim disjE exE conjE)
      assume "\<forall>i. i \<noteq> 0 \<longrightarrow> packet_data i pkt = []" "t' = t"
      then show thesis by - (rule that(4), assumption, simp)
    next
      fix connID
      assume "t' = sendCloseRequest sendErr connID t" "\<forall>i. i \<noteq> connID \<longrightarrow> packet_data i pkt = []"
      then show thesis by - (rule that(5), assumption, simp)
    next
      fix connID c d
      assume "t' = t\<lparr>gt_serve := TunnelPush d\<rparr>" "gt_conn t = Some c" "gm_get (gt_conns t) connID \<noteq> None"
        "\<forall>i. packet_data i pkt = (if i = connID then [d] else [])"
      then show thesis by - (rule that(6), assumption+, simp)
    qed
  next
    case DIAL_RSP
    then have np: "ptype pkt \<noteq> DATA" by simp
    have "t' = t\<lparr>gt_serve := TunnelCloseConn\<rparr> \<or> (\<exists>res. t' = t\<lparr>gt_serve := TunnelResult res True\<rparr>) \<or>
        (\<exists>res. t' = (updateMetric StatusOk t)\<lparr>gt_serve := TunnelResult res False\<rparr>)"
      using assms DIAL_RSP
      by (auto simp: serve_packet_def tunnel_DIAL_RSP_def serve_return_def bind_outcome_Ret_iff split: if_splits)
    then show ?thesis
      by (elim disjE exE) (rule that(1-3), assumption, rule np)+
  next
    case DIAL_CLS
    then have np: "ptype pkt \<noteq> DATA" by simp
    have "t' = t\<lparr>gt_serve := TunnelCloseConn\<rparr> \<or> (\<exists>res. t' = t\<lparr>gt_serve := TunnelResult res True\<rparr>)"
      using assms DIAL_CLS
      by (auto simp: serve_packet_def tunnel_DIAL_CLS_def serve_return_def bind_outcome_Ret_iff split: if_splits)
    then show ?thesis
      by (elim disjE exE) (rule that(1-3), assumption, rule np)+
  next
    case CLOSE_RSP
    then have np: "ptype pkt \<noteq> DATA" by simp
    have "t' = t \<or> (\<exists>connID c err.
        t' = t\<lparr>gt_conn := Some (c\<lparr>cc_readClosed := True\<rparr>), gt_serve := TunnelAck connID err\<rparr> \<and>
        gt_conn t = Some c \<and> gm_get (gt_conns t) connID \<noteq> None \<and> \<not> cc_readClosed c)"
      using assms CLOSE_RSP
      by (auto simp: serve_packet_def tunnel_CLOSE_RSP_def conns_get_def close_readCh_def
          bind_outcome_Ret_iff split: if_splits option.splits)
    then show ?thesis
    proof (elim disjE exE conjE)
      assume "t' = t"
      then show thesis by (rule that(4)) (rule other [OF np])
    qed (rule that(7), assumption+, rule np)
  qed (use assms that(4) other in \<open>auto simp: serve_packet_def\<close>)
qed

lemma tables_inv_packet:
  assumes "tables_inv t" and "gt_serve t = TunnelRecv" and "serve_packet sendErr pkt t = Ret t'"
  shows "tables_inv t'"
  using assms(3)
proof (cases rule: serve_packet_cases)
  case dialed
  with assms(1,2) show ?thesis
    by (cases "gt_prevStatus t")
      (auto simp: tables_inv_def dialer_inv_def conn_inv_def status_inv_def updateMetric_def
        updateMetric_set_def Let_def fun_eq_iff split: option.splits)
qed (use assms(1,2) in \<open>auto simp: tables_inv_def dialer_inv_def conn_inv_def status_inv_def
       conn_open_def sendCloseRequest_def tunnel_Send_def gm_get_def split: option.splits if_splits\<close>)

lemma tables_inv_push:
  assumes "tables_inv t" and "gt_serve t = TunnelPush d" and "tunnel_push d sel t = Ret t'"
  shows "tables_inv t'"
  using assms
  by (cases "gt_conn t") (auto simp: tables_inv_def dialer_inv_def conn_inv_def status_inv_def
      conn_open_def tunnel_push_def serve_return_def split: if_splits)

lemma tables_inv_ack:
  assumes "tables_inv t" and "gt_serve t = TunnelAck i err" and "tunnel_ack i err t = Ret t'"
  shows "tables_inv t'"
  using assms
  by (cases "gt_conn t") (auto simp: tables_inv_def dialer_inv_def conn_inv_def status_inv_def
      conn_open_def tunnel_ack_def serve_return_def conns_remove_def gm_delete_def)

lemma closeAll_once:
  "conn_inv t \<Longrightarrow> gt_serve t = TunnelCloseAll \<Longrightarrow>
   closeAll (gt_conns t) t = Ret (t\<lparr>gt_conn := map_option (\<lambda>c. c\<lparr>cc_readClosed := True\<rparr>) (gt_conn t)\<rparr>)"
  by (cases "gt_conn t") (auto simp: conn_inv_def conn_open_def close_readCh_def)

lemma tables_inv_frame:
  assumes "tables_inv t" and "gt_pendingDial t' = gt_pendingDial t" "gt_dialer t' = gt_dialer t"
    "gt_conn t' = gt_conn t" "gt_conns t' = gt_conns t" "gt_started t' = gt_started t"
    "gt_done t' = gt_done t" "gt_serve t' = gt_serve t" "gt_prevStatus t' = gt_prevStatus t"
    "gt_gauge t' = gt_gauge t"
  shows "tables_inv t'"
  using assms by (cases "gt_conn t") (simp_all add: tables_inv_def dialer_inv_def conn_inv_def status_inv_def)

lemma tables_inv_closeAll:
  assumes "tables_inv t" and "gt_serve t = TunnelCloseAll" and "tunnel_serve recv sendErr sel t = Ret t'"
  shows "tables_inv t'"
proof -
  have "t' = t\<lparr>gt_conn := map_option (\<lambda>c. c\<lparr>cc_readClosed := True\<rparr>) (gt_conn t), gt_serve := TunnelCloseMetric\<rparr>"
    using assms closeAll_once [of t] by (simp add: tables_inv_def tunnel_serve_def)
  with assms show ?thesis
    by (cases "gt_conn t") (auto simp: tables_inv_def dialer_inv_def conn_inv_def status_inv_def)
qed

lemma tables_inv_closeMetric:
  assumes "tables_inv t" and "gt_serve t = TunnelCloseMetric" and "tunnel_serve recv sendErr sel t = Ret t'"
  shows "tables_inv t'"
proof -
  have t': "t' = t\<lparr>gt_gauge := (gt_gauge t)(gt_prevStatus t := gt_gauge t (gt_prevStatus t) - 1), gt_serve := TunnelCloseDone\<rparr>"
    using assms by (simp add: tables_inv_def dialer_inv_def tunnel_serve_def closeMetric_def)
  have "dialer_inv t'" "conn_inv t'"
    using assms by (auto simp: t' tables_inv_def dialer_inv_def conn_inv_def split: option.splits)
  moreover have "status_inv t'"
    using assms by (cases "gt_prevStatus t") (simp_all add: t' tables_inv_def status_inv_def gauge_total_def)
  ultimately show ?thesis by (simp add: tables_inv_def)
qed

lemma tables_inv_serve:
  assumes inv: "tables_inv t" and step: "tunnel_serve recv sendErr sel t = Ret t'"
  shows "tables_inv t'"
proof (cases "gt_serve t")
  case TunnelRecv
  have "tables_inv (t\<lparr>gt_recv := gt_recv t @ [pkt]\<rparr>)" for pkt
    using inv by (rule tables_inv_frame) simp_all
  moreover have "tables_inv (serve_return t)"
    using inv TunnelRecv
    by (cases "gt_conn t")
      (auto simp: tables_inv_def dialer_inv_def conn_inv_def status_inv_def serve_return_def)
  ultimately show ?thesis
    using step TunnelRecv tables_inv_packet [of "t\<lparr>gt_recv := gt_recv t @ [pkt]\<rparr>" sendErr pkt t' for pkt]
    by (simp add: tunnel_serve_def tunnel_recv_def split: sum.splits option.splits if_splits)
next
  case (TunnelResult res stop)
  with inv step show ?thesis
    by (cases "gt_conn t") (auto simp: tables_inv_def dialer_inv_def conn_inv_def status_inv_def
        tunnel_serve_def tunnel_result_def serve_return_def split: if_splits)
next
  case TunnelDone
  with inv step show ?thesis by (simp add: tunnel_serve_def)
next
  case (TunnelPush d)
  with inv step show ?thesis by (auto simp: tunnel_serve_def intro: tables_inv_push)
next
  case (TunnelAck i err)
  with inv step show ?thesis by (auto simp: tunnel_serve_def intro: tables_inv_ack)
next
  case TunnelCloseConn
  with inv step show ?thesis
    by (cases "gt_conn t") (auto simp: tables_inv_def dialer_inv_def conn_inv_def status_inv_def tunnel_serve_def)
next
  case TunnelCloseDone
  with inv step show ?thesis
    by (cases "gt_conn t")
      (auto simp: tables_inv_def dialer_inv_def conn_inv_def status_inv_def tunnel_serve_def)
next
  case TunnelCloseAll
  then show ?thesis by (rule tables_inv_closeAll [OF inv _ step])
next
  case TunnelCloseMetric
  then show ?thesis by (rule tables_inv_closeMetric [OF inv _ step])
qed

lemma read_data_rdata: "cc_rdata c \<noteq> Some [] \<Longrightarrow> read_data c = Some (d, c') \<Longrightarrow>
    cc_rdata c' = cc_rdata c \<and> cc_connID c' = cc_connID c \<and> cc_readClosed c' = cc_readClosed c \<and>
    cc_closeCh c' = cc_closeCh c \<and> cc_closeClosed c' = cc_closeClosed c"
  by (auto simp: read_data_def split: option.splits list.splits if_splits)

lemma conn_Read_frame:
  assumes "conn_Read n c = (r, c')" and "cc_rdata c \<noteq> Some []"
  shows "cc_rdata c' \<noteq> Some [] \<and> cc_connID c' = cc_connID c \<and> cc_readClosed c' = cc_readClosed c \<and>
    cc_closeCh c' = cc_closeCh c \<and> cc_closeClosed c' = cc_closeClosed c"
proof (cases "read_data c")
  case None
  with assms show ?thesis by (simp add: conn_Read_def)
next
  case (Some p)
  obtain d c1 where p: "p = (d, c1)" by (cases p)
  from read_data_rdata [OF assms(2)] Some p assms show ?thesis
    by (auto simp: conn_Read_def split: if_splits)
qed

lemma conn_at_cong:
  "cc_connID c' = cc_connID c \<Longrightarrow> cc_readClosed c' = cc_readClosed c \<Longrightarrow>
   cc_closeCh c' = cc_closeCh c \<Longrightarrow> cc_closeClosed c' = cc_closeClosed c \<Longrightarrow>
   conn_at pc c' m = conn_at pc c m"
  by (cases pc) (simp_all add: conn_open_def)

lemma conn_at_taken:
  "cc_closeCh c \<noteq> [] \<or> cc_closeClosed c \<Longrightarrow> conn_at pc c m \<Longrightarrow>
   conn_at pc (c\<lparr>cc_closeCh := tl (cc_closeCh c)\<rparr>) m"
  by (cases pc) (auto simp: conn_open_def)

lemma tables_inv_conn:
  assumes "tables_inv t" and "gt_conn t = Some c" and "cc_rdata c' \<noteq> Some []"
    and "conn_at (gt_serve t) c (gt_conns t) \<Longrightarrow> conn_at (gt_serve t) c' (gt_conns t)"
  shows "tables_inv (t\<lparr>gt_conn := Some c'\<rparr>)"
  using assms by (simp add: tables_inv_def dialer_inv_def conn_inv_def status_inv_def)

lemma tables_inv_step:
  assumes inv: "tables_inv t" and "client_step t t'"
  shows "tables_inv t'"
  using assms(2)
proof (cases rule: client_step.cases)
  case (cl_start p a)
  have "conn_inv t'" "status_inv t'"
    using inv cl_start by (auto simp: tables_inv_def conn_inv_def status_inv_def DialContext_start_def split: option.splits)
  then show ?thesis using inv cl_start dialer_inv_start by (simp add: tables_inv_def)
next
  case cl_dial
  then show ?thesis
    using inv dialer_inv_dial conn_inv_dial status_inv_dial by (simp add: tables_inv_def)
next
  case cl_hand_over
  then show ?thesis
    using inv dialer_inv_hand_over conn_inv_hand_over status_inv_hand_over by (simp add: tables_inv_def)
next
  case cl_serve
  then show ?thesis using tables_inv_serve [OF inv] by blast
next
  case (cl_read c n r c')
  have "cc_rdata c \<noteq> Some []" using inv cl_read by (simp add: tables_inv_def conn_inv_def)
  note f = conn_Read_frame [OF cl_read(4) this]
  then have "tables_inv (t\<lparr>gt_conn := Some c'\<rparr>)"
    using conn_at_cong [of c' c] by (intro tables_inv_conn [OF inv cl_read(3)]) auto
  then show ?thesis using cl_read(1) by (elim tables_inv_frame) auto
next
  case cl_write
  then show ?thesis
    by (intro tables_inv_frame [OF inv]) (auto simp: conn_Write_def tunnel_Send_def Let_def split: option.split)
next
  case (cl_close c sendErr)
  have "cc_rdata c \<noteq> Some []" using inv cl_close by (simp add: tables_inv_def conn_inv_def)
  then have "tables_inv (t\<lparr>gt_conn := Some (c\<lparr>cc_closing := True\<rparr>)\<rparr>)"
    using conn_at_cong [of "c\<lparr>cc_closing := True\<rparr>" c] by (intro tables_inv_conn [OF inv cl_close(3)]) auto
  then show ?thesis
    using inv by (cases "cc_closing c") (auto simp: cl_close(1) user_ops elim!: tables_inv_frame)
next
  case (cl_await xs ys c aw)
  have f: "tables_inv (closeTunnel (u\<lparr>gt_closers := xs @ ys\<rparr>))" if "tables_inv u" for u
    using that by (rule tables_inv_frame) (simp_all add: closeTunnel_def)
  show ?thesis
  proof (cases aw)
    case AwaitChannel
    let ?c = "c\<lparr>cc_closeCh := tl (cc_closeCh c)\<rparr>"
    have t': "t' = closeTunnel (t\<lparr>gt_closers := xs @ ys, gt_conn := Some ?c\<rparr>)"
      and "cc_closeCh c \<noteq> [] \<or> cc_closeClosed c"
      using cl_await(3) AwaitChannel by (auto simp: awaitCloseResponse_def split: if_splits)
    moreover have "cc_rdata c \<noteq> Some []" using inv cl_await(2) by (simp add: tables_inv_def conn_inv_def)
    ultimately have "tables_inv (t\<lparr>gt_conn := Some ?c\<rparr>)"
      by (intro tables_inv_conn [OF inv cl_await(2)]) (auto intro: conn_at_taken)
    then show ?thesis unfolding t' by (rule tables_inv_frame) (simp_all add: closeTunnel_def)
  qed (use cl_await f [OF inv] in \<open>auto simp: awaitCloseResponse_def split: if_splits\<close>)
next
  case (cl_dial_closer xs dialID ys sendErr)
  show ?thesis unfolding cl_dial_closer by (rule tables_inv_frame [OF inv]) (simp_all add: user_ops)
next
  case cl_cancel
  show ?thesis unfolding cl_cancel by (rule tables_inv_frame [OF inv]) simp_all
qed

subsection \<open>The bytes of the connection\<close>

definition close_sent :: "int \<Rightarrow> grpc_tunnel \<Rightarrow> bool" where
  "close_sent connID t \<longleftrightarrow> newCloseRequestPacket connID \<in> set (map fst (gt_log t))"

definition unread :: "tunnel_conn \<Rightarrow> string" where
  "unread c = (case cc_rdata c of None \<Rightarrow> [] | Some d \<Rightarrow> d) @ concat (cc_readCh c)"

fun pushing :: "tunnel_pc \<Rightarrow> string" where
  "pushing (TunnelPush d) = d"
| "pushing _ = []"

fun serving :: "tunnel_pc \<Rightarrow> bool" where
  "serving TunnelRecv \<longleftrightarrow> True"
| "serving (TunnelResult res stop) \<longleftrightarrow> True"
| "serving (TunnelPush d) \<longleftrightarrow> True"
| "serving _ \<longleftrightarrow> False"

definition held :: "grpc_tunnel \<Rightarrow> tunnel_conn \<Rightarrow> string" where
  "held t c = gt_read t @ unread c @ pushing (gt_serve t)"

definition arrived :: "int \<Rightarrow> grpc_tunnel \<Rightarrow> string" where
  "arrived connID t = concat (conn_data connID (gt_recv t))"

definition data_at :: "int \<Rightarrow> grpc_tunnel \<Rightarrow> bool" where
  "data_at i t \<longleftrightarrow> (case gt_conn t of
      None \<Rightarrow> conn_data i (gt_recv t) = []
    | Some c \<Rightarrow> cc_connID c = i \<longrightarrow>
        (if serving (gt_serve t) then arrived i t = held t c else prefix (held t c) (arrived i t)))"

definition data_inv :: "grpc_tunnel \<Rightarrow> bool" where
  "data_inv t \<longleftrightarrow> (gt_conn t = None \<longrightarrow> gt_read t = []) \<and>
     (\<not> gt_ctxDone t \<longrightarrow> (\<forall>i. i \<noteq> 0 \<longrightarrow> \<not> close_sent i t \<longrightarrow> data_at i t))"

lemma data_inv_frame:
  assumes "data_inv t" and "gt_conn t' = gt_conn t" and "gt_recv t' = gt_recv t" and "gt_read t' = gt_read t"
    and "gt_serve t' = gt_serve t" and "gt_ctxDone t \<Longrightarrow> gt_ctxDone t'"
    and "set (gt_log t) \<subseteq> set (gt_log t')"
  shows "data_inv t'"
proof -
  have "close_sent i t \<Longrightarrow> close_sent i t'" for i
    using assms(7) by (auto simp: close_sent_def)
  moreover have "data_at i t' = data_at i t" for i
    using assms by (cases "gt_conn t") (simp_all add: data_at_def arrived_def held_def)
  ultimately show ?thesis
    using assms unfolding data_inv_def by metis
qed

lemma read_data_unread:
  "read_data c = Some (d, c') \<Longrightarrow> unread c = d @ concat (cc_readCh c')"
  by (auto simp: read_data_def unread_def split: option.splits list.splits if_splits)

lemma conn_Read_unread:
  assumes "conn_Read n c = (r, c')"
  shows "unread c = (case r of ReadBytes bs \<Rightarrow> bs | _ \<Rightarrow> []) @ unread c'"
proof (cases "read_data c")
  case None
  with assms show ?thesis by (auto simp: conn_Read_def)
next
  case (Some p)
  then obtain d c1 where "read_data c = Some (d, c1)" by (cases p) simp
  moreover from this have "unread c = d @ concat (cc_readCh c1)" by (rule read_data_unread)
  moreover from calculation have "d = [] \<Longrightarrow> unread c1 = concat (cc_readCh c1)"
    by (auto simp: read_data_def unread_def split: option.splits list.splits if_splits)
  ultimately show ?thesis
    using assms by (auto simp: conn_Read_def unread_def split: if_splits)
qed

lemma conn_data_snoc: "conn_data i (pkts @ [p]) = conn_data i pkts @ packet_data i p"
  by (simp add: conn_data_def)

lemma packet_data_other: "ptype p \<noteq> DATA \<Longrightarrow> packet_data i p = []"
  by (simp add: packet_data_def split: option.split)

lemma data_at_packet:
  assumes tab: "tables_inv t" and pc: "gt_serve t = TunnelRecv" and at: "data_at i t" and "i \<noteq> 0"
    and step: "serve_packet sendErr pkt (t\<lparr>gt_recv := gt_recv t @ [pkt]\<rparr>) = Ret t'"
    and "\<not> close_sent i t'"
  shows "data_at i t'"
  using step
proof (cases rule: serve_packet_cases)
  case (unknown connID)
  then have "packet_data i pkt = []"
    using assms(6) by (cases "i = connID") (auto simp: close_sent_def sendCloseRequest_def tunnel_Send_def)
  with at pc unknown(1) show ?thesis
    by (simp add: data_at_def arrived_def held_def conn_data_snoc sendCloseRequest_def tunnel_Send_def
        split: option.splits)
next
  case (pushes connID c d)
  then have "connID = cc_connID c"
    using tab pc by (auto simp: tables_inv_def conn_inv_def conn_open_def gm_get_def split: if_splits)
  with at pc pushes show ?thesis
    by (auto simp: data_at_def arrived_def held_def conn_data_snoc)
next
  case (dialed res)
  with at pc show ?thesis
    by (auto simp: data_at_def arrived_def held_def conn_data_snoc packet_data_other updateMetric_def
        updateMetric_set_def Let_def split: option.splits)
qed (use at pc \<open>i \<noteq> 0\<close> in \<open>auto simp: data_at_def arrived_def held_def conn_data_snoc unread_def
       packet_data_other split: option.splits\<close>)

lemma serve_packet_frame:
  assumes "serve_packet sendErr pkt t = Ret t'"
  shows "gt_read t' = gt_read t \<and> gt_ctxDone t' = gt_ctxDone t \<and> (gt_conn t' = None \<longleftrightarrow> gt_conn t = None) \<and>
    set (gt_log t) \<subseteq> set (gt_log t')"
  using assms
  by (cases rule: serve_packet_cases)
    (auto simp: updateMetric_def updateMetric_set_def Let_def sendCloseRequest_def tunnel_Send_def)

lemma data_at_serve_return:
  "data_at i t \<Longrightarrow> gt_serve t = TunnelRecv \<or> (\<exists>res stop. gt_serve t = TunnelResult res stop) \<Longrightarrow>
   data_at i (serve_return t)"
  by (cases "gt_conn t") (auto simp: data_at_def serve_return_def arrived_def held_def)

lemma data_at_push:
  assumes "data_at i t" and "\<not> gt_ctxDone t" and "gt_serve t = TunnelPush d" and "tunnel_push d sel t = Ret t'"
  shows "data_at i t'"
  using assms
  by (cases "gt_conn t") (auto simp: data_at_def tunnel_push_def serve_return_def arrived_def held_def
      unread_def split: if_splits)

lemma data_at_other:
  assumes tab: "tables_inv t" and at: "data_at i t" "\<not> gt_ctxDone t" "gt_serve t \<noteq> TunnelRecv"
    and step: "tunnel_serve recv sendErr sel t = Ret t'"
  shows "data_at i t'"
proof (cases "gt_serve t")
  case (TunnelResult res stop)
  with at data_at_serve_return [of i t] step show ?thesis
    by (auto simp: tunnel_serve_def tunnel_result_def)
next
  case (TunnelPush d)
  with data_at_push [OF at(1,2)] step show ?thesis by (simp add: tunnel_serve_def)
next
  case (TunnelAck j err)
  with at step show ?thesis
    by (cases "gt_conn t") (auto simp: data_at_def tunnel_serve_def tunnel_ack_def serve_return_def
        conns_remove_def arrived_def held_def unread_def split: if_splits)
next
  case TunnelCloseAll
  then have "t' = t\<lparr>gt_conn := map_option (\<lambda>c. c\<lparr>cc_readClosed := True\<rparr>) (gt_conn t), gt_serve := TunnelCloseMetric\<rparr>"
    using tab step closeAll_once [of t] by (simp add: tables_inv_def tunnel_serve_def)
  with at TunnelCloseAll show ?thesis
    by (cases "gt_conn t") (auto simp: data_at_def arrived_def held_def unread_def)
qed (use at step in \<open>cases "gt_conn t"; auto simp: data_at_def tunnel_serve_def closeMetric_def
       arrived_def held_def unread_def split: if_splits\<close>)+

lemma serve_frame:
  assumes "tables_inv t" and "tunnel_serve recv sendErr sel t = Ret t'"
  shows "gt_read t' = gt_read t \<and> gt_ctxDone t' = gt_ctxDone t \<and> (gt_conn t' = None \<longleftrightarrow> gt_conn t = None) \<and>
    set (gt_log t) \<subseteq> set (gt_log t')"
proof (cases "gt_serve t")
  case TunnelRecv
  with assms(2) serve_packet_frame [of sendErr pkt "t\<lparr>gt_recv := gt_recv t @ [pkt]\<rparr>" t' for pkt]
  show ?thesis
    by (simp add: tunnel_serve_def tunnel_recv_def serve_return_def
        split: sum.splits option.splits if_splits) (clarsimp | blast)+
next
  case TunnelCloseAll
  with assms closeAll_once [of t] show ?thesis by (auto simp: tables_inv_def tunnel_serve_def)
qed (use assms(2) in \<open>auto simp: tunnel_serve_def tunnel_result_def tunnel_push_def tunnel_ack_def
       serve_return_def conns_remove_def closeMetric_def split: option.splits if_splits\<close>)

lemma data_at_serve:
  assumes tab: "tables_inv t" and at: "data_at i t" and i: "i \<noteq> 0" "\<not> close_sent i t'" "\<not> gt_ctxDone t"
    and step: "tunnel_serve recv sendErr sel t = Ret t'"
  shows "data_at i t'"
proof (cases "gt_serve t = TunnelRecv")
  case True
  then show ?thesis
    using step data_at_serve_return [OF at] data_at_packet [OF tab True at i(1) _ i(2)]
    by (auto simp: tunnel_serve_def tunnel_recv_def split: sum.splits option.splits if_splits)
qed (use data_at_other [OF tab at i(3) _ step] in blast)

lemma data_inv_serve:
  assumes "tables_inv t" and "data_inv t" and "tunnel_serve recv sendErr sel t = Ret t'"
  shows "data_inv t'"
proof -
  note f = serve_frame [OF assms(1,3)]
  then have "close_sent i t \<Longrightarrow> close_sent i t'" for i
    by (auto simp: close_sent_def)
  with f assms(2) data_at_serve [OF assms(1) _ _ _ _ assms(3)] show ?thesis
    unfolding data_inv_def by metis
qed

lemma data_at_dial:
  assumes "dialer_inv t" and "gt_read t = [] \<or> gt_conn t \<noteq> None" and "data_at i t"
    and "\<not> uses_conn (gt_serve t) \<or> gt_conn t \<noteq> None"
  shows "data_at i (dialContext_step random sendErr sel t)"
proof (cases "gt_dialer t")
  case (DialerGot r connID)
  with assms show ?thesis
    by (cases "gt_serve t") (auto simp: dialer_inv_def data_at_def dialContext_step_def conns_add_def
        new_conn_def arrived_def held_def unread_def)
qed (use assms in \<open>auto simp: data_at_def dialer_ops arrived_def held_def
       split: dial_answer.split dial_select.split option.splits\<close>)

lemma dial_frame:
  "gt_read (dialContext_step random sendErr sel t) = gt_read t \<and>
   gt_ctxDone (dialContext_step random sendErr sel t) = gt_ctxDone t \<and>
   (gt_conn (dialContext_step random sendErr sel t) = None \<longrightarrow> gt_conn t = None) \<and>
   set (gt_log t) \<subseteq> set (gt_log (dialContext_step random sendErr sel t))"
  by (cases "gt_dialer t") (auto simp: dialer_ops split: dial_answer.split dial_select.split option.splits)

lemma data_inv_dial:
  assumes "tables_inv t" and "data_inv t"
  shows "data_inv (dialContext_step random sendErr sel t)" (is "data_inv ?t")
proof -
  note f = dial_frame [of random sendErr sel t]
  then have "close_sent i t \<Longrightarrow> close_sent i ?t" for i by (auto simp: close_sent_def)
  moreover have "\<not> uses_conn (gt_serve t) \<or> gt_conn t \<noteq> None"
    using assms(1) by (auto simp: tables_inv_def conn_inv_def split: option.splits)
  ultimately show ?thesis
    using f assms data_at_dial [of t] unfolding data_inv_def tables_inv_def by metis
qed

lemma data_inv_hand_over:
  assumes "data_inv t"
  shows "data_inv (hand_over t)"
proof -
  have "data_at i (hand_over t)" if "data_at i t" for i
    using that by (cases "gt_serve t"; cases "gt_dialer t"; cases "gt_conn t")
      (auto simp: data_at_def hand_over_def arrived_def held_def split: dial_result.split)
  moreover have "close_sent i (hand_over t) = close_sent i t" for i
    by (auto simp: close_sent_def hand_over_def split: tunnel_pc.split dialer_pc.split dial_result.split)
  moreover have "gt_conn (hand_over t) = gt_conn t" "gt_read (hand_over t) = gt_read t"
    "gt_ctxDone (hand_over t) = gt_ctxDone t"
    by (auto simp: hand_over_def split: tunnel_pc.split dialer_pc.split dial_result.split)
  ultimately show ?thesis using assms by (simp add: data_inv_def)
qed

lemma data_inv_conn:
  assumes "data_inv t" and "gt_conn t = Some c" and "cc_connID c' = cc_connID c"
    and "unread c = bs @ unread c'"
  shows "data_inv (t\<lparr>gt_conn := Some c', gt_read := gt_read t @ bs\<rparr>)"
  using assms by (auto simp: data_inv_def data_at_def close_sent_def arrived_def held_def)

lemma data_inv_step:
  assumes tab: "tables_inv t" and inv: "data_inv t" and "client_step t t'"
  shows "data_inv t'"
  using assms(3)
proof (cases rule: client_step.cases)
  case cl_start
  show ?thesis unfolding cl_start by (rule data_inv_frame [OF inv]) (simp_all add: DialContext_start_def)
next
  case (cl_read c n r c')
  have "cc_rdata c \<noteq> Some []" using tab cl_read by (simp add: tables_inv_def conn_inv_def)
  note f = conn_Read_frame [OF cl_read(4) this]
  show ?thesis
    unfolding cl_read(1) by (rule data_inv_conn [OF inv cl_read(3)])
      (use f conn_Read_unread [OF cl_read(4)] in auto)
next
  case (cl_write c sendErr bytes)
  show ?thesis unfolding cl_write
    by (rule data_inv_frame [OF inv]) (auto simp: user_ops split: option.split)
next
  case (cl_close c sendErr)
  have "data_inv (t\<lparr>gt_conn := Some (c\<lparr>cc_closing := True\<rparr>), gt_read := gt_read t @ []\<rparr>)"
    by (rule data_inv_conn [OF inv cl_close(3)]) (simp_all add: unread_def)
  then show ?thesis
    using inv by (cases "cc_closing c") (auto simp: cl_close(1) user_ops elim!: data_inv_frame)
next
  case (cl_await xs ys c aw)
  show ?thesis
  proof (cases "aw = AwaitChannel")
    case True
    have "data_inv (t\<lparr>gt_conn := Some (c\<lparr>cc_closeCh := tl (cc_closeCh c)\<rparr>), gt_read := gt_read t @ []\<rparr>)"
      by (rule data_inv_conn [OF inv cl_await(2)]) (simp_all add: unread_def)
    then show ?thesis
      using True cl_await(3) by (auto simp: awaitCloseResponse_def closeTunnel_def elim!: data_inv_frame split: if_splits)
  next
    case False
    with cl_await(3) show ?thesis
      by (intro data_inv_frame [OF inv])
        (auto simp: awaitCloseResponse_def closeTunnel_def split: await_select.splits if_splits)
  qed
next
  case cl_dial_closer
  show ?thesis unfolding cl_dial_closer by (rule data_inv_frame [OF inv]) (auto simp: user_ops)
next
  case cl_cancel
  show ?thesis unfolding cl_cancel by (rule data_inv_frame [OF inv]) simp_all
qed (use tab inv data_inv_dial data_inv_hand_over data_inv_serve in blast)+

subsection \<open>What every reachable tunnel satisfies\<close>

definition client_inv :: "grpc_tunnel \<Rightarrow> bool" where
  "client_inv t \<longleftrightarrow> tables_inv t \<and> data_inv t"

lemma client_inv_init: "client_init t \<Longrightarrow> client_inv t"
  by (auto simp: client_init_def newUnstartedTunnel_def client_inv_def tables_inv_def dialer_inv_def
      conn_inv_def status_inv_def data_inv_def data_at_def conn_data_def)

interpretation client_system: invariant_system client_init client_step client_inv
  by unfold_locales
    (use client_inv_init tables_inv_step data_inv_step in \<open>auto simp: client_inv_def\<close>)

lemma close_readCh_returns: "gt_conn t = Some c \<Longrightarrow> \<not> cc_readClosed c \<Longrightarrow> returns (close_readCh t)"
  by (simp add: close_readCh_def)

lemma returns_bind: "returns (bind_outcome r f) \<longleftrightarrow> (\<exists>x. r = Ret x \<and> returns (f x))"
  by (cases r) auto

lemma conns_get_open:
  "conn_inv t \<Longrightarrow> gt_serve t = TunnelRecv \<Longrightarrow> conns_get i t = Some c \<Longrightarrow> gt_conn t = Some c \<and> \<not> cc_readClosed c"
  by (auto simp: conns_get_def conn_inv_def conn_open_def split: option.splits)

lemma serve_packet_returns:
  assumes "conn_inv t" and "gt_serve t = TunnelRecv" and "payload_fits pkt"
  shows "returns (serve_packet sendErr pkt t)"
proof (cases "ptype pkt")
  case CLOSE_RSP
  then obtain resp where resp: "GetCloseResponse pkt = Some resp"
    using assms(3) by (auto simp: payload_fits_def)
  show ?thesis
  proof (cases "conns_get (cr_connectID resp) t")
    case None
    with CLOSE_RSP resp show ?thesis by (simp add: serve_packet_def tunnel_CLOSE_RSP_def)
  next
    case (Some c)
    from conns_get_open [OF assms(1,2) Some] CLOSE_RSP resp Some show ?thesis
      by (simp add: serve_packet_def tunnel_CLOSE_RSP_def close_readCh_def)
  qed
qed (use assms(3) in \<open>auto simp: payload_fits_def serve_packet_def tunnel_DIAL_RSP_def
       tunnel_DIAL_CLS_def tunnel_DATA_def split: option.split\<close>)

lemma tunnel_serve_returns:
  assumes inv: "tables_inv t" and fits: "\<forall>pkt. recv = Inr (Some pkt) \<longrightarrow> payload_fits pkt"
  shows "returns (tunnel_serve recv sendErr sel t)"
proof (cases "gt_serve t")
  case TunnelRecv
  have "returns (serve_packet sendErr pkt (t\<lparr>gt_recv := gt_recv t @ [pkt]\<rparr>))" if "payload_fits pkt" for pkt
    using inv TunnelRecv that
    by (intro serve_packet_returns) (auto simp: tables_inv_def conn_inv_def split: option.splits)
  then show ?thesis
    using TunnelRecv fits by (auto simp: tunnel_serve_def tunnel_recv_def split: sum.split option.split)
next
  case TunnelCloseAll
  with inv closeAll_once [of t] show ?thesis by (simp add: tables_inv_def tunnel_serve_def)
next
  case (TunnelPush d)
  with inv show ?thesis
    by (auto simp: tables_inv_def conn_inv_def conn_open_def tunnel_serve_def tunnel_push_def split: option.splits)
next
  case (TunnelAck i err)
  with inv show ?thesis
    by (auto simp: tables_inv_def conn_inv_def tunnel_serve_def tunnel_ack_def split: option.splits)
qed (use inv in \<open>auto simp: tunnel_serve_def tables_inv_def dialer_inv_def\<close>)

lemma client_reach_inv:
  assumes "reach client_init client_step t"
  shows "tables_inv t" and "data_inv t"
  using client_system.reach_inv [OF assms] by (simp_all add: client_inv_def)

lemma tables_inv_small: "tables_inv t \<Longrightarrow> length (gt_pendingDial t) \<le> 1"
  by (cases "gt_dialer t") (simp_all add: tables_inv_def dialer_inv_def)

text \<open>
  C11. A single-use tunnel is safe in every interleaving of its dial, its receive loop, its
  closers and the user of its connection: the receive loop never panics on packets whose payload
  fits their type (no channel is closed twice, nothing is sent on a closed one); at most one
  dial is pending; the gauge \<^verbatim>\<open>client_connections\<close> counts the tunnel once, under its current
  status, until the loop has finished and in total not at all afterwards; and \<^verbatim>\<open>Done\<close> is closed
  exactly when the loop has ended.
\<close>

theorem client_tunnel_safe:
  assumes "reach client_init client_step t"
    and "\<forall>pkt. recv = Inr (Some pkt) \<longrightarrow> payload_fits pkt"
  shows "returns (tunnel_serve recv sendErr sel t) \<and> length (gt_pendingDial t) \<le> 1 \<and>
    (if metric_open (gt_serve t) then gt_gauge t = (\<lambda>s. if s = gt_prevStatus t then 1 else 0)
     else gauge_total (gt_gauge t) = 0) \<and>
    (gt_done t \<longleftrightarrow> gt_serve t = TunnelDone)"
  using client_reach_inv [OF assms(1)] tunnel_serve_returns [OF _ assms(2)] tables_inv_small
  by (simp add: tables_inv_def status_inv_def dialer_inv_def)

theorem client_tunnel_safe_witness:
  "returns (tunnel_serve (Inr (Some (newDataPacket 7 ''x''))) None SelectChannel newUnstartedTunnel) \<and>
   length (gt_pendingDial newUnstartedTunnel) \<le> 1"
  using client_tunnel_safe [of newUnstartedTunnel "Inr (Some (newDataPacket 7 ''x''))" None SelectChannel]
  by (simp add: reach.intros client_init_def)

text \<open>
  C12. What the user of a connection reads is what the server sent, in order: as long as the
  tunnel's context is not cancelled and no CLOSE_REQ was sent for the connection, the bytes
  \<^verbatim>\<open>Read\<close> has returned, those it keeps, the queue of the connection and the packet the loop is
  queueing are together the payloads of the DATA packets received for it, and a prefix of them
  once the loop has stopped.
\<close>

theorem client_stream_exact:
  assumes "reach client_init client_step t" and "gt_conn t = Some c" and "cc_connID c \<noteq> 0"
    and "\<not> gt_ctxDone t" and "\<not> close_sent (cc_connID c) t"
  shows "if serving (gt_serve t)
    then gt_read t @ unread c @ pushing (gt_serve t) = concat (conn_data (cc_connID c) (gt_recv t))
    else prefix (gt_read t @ unread c @ pushing (gt_serve t)) (concat (conn_data (cc_connID c) (gt_recv t)))"
  using client_reach_inv(2) [OF assms(1)] assms(2-)
  by (auto simp: data_inv_def data_at_def arrived_def held_def)

subsection \<open>Runs\<close>

definition run_acts :: "(grpc_tunnel \<Rightarrow> grpc_tunnel outcome) list \<Rightarrow> grpc_tunnel outcome" where
  "run_acts acts = foldl bind_outcome (Ret newUnstartedTunnel) acts"

definition is_act :: "(grpc_tunnel \<Rightarrow> grpc_tunnel outcome) \<Rightarrow> bool" where
  "is_act f \<longleftrightarrow> (\<forall>t t'. f t = Ret t' \<longrightarrow> client_step t t' \<or> t' = t)"

definition act_dial :: "grpc_tunnel \<Rightarrow> grpc_tunnel outcome" where
  "act_dial t = Ret (dialContext_step 5 None DialSelectTimeout t)"

definition act_read :: "nat \<Rightarrow> grpc_tunnel \<Rightarrow> grpc_tunnel outcome" where
  "act_read n t =
     (case gt_conn t of
        Some c \<Rightarrow>
          if gt_dialer t = DialerReturned DialedConn then
            Ret (t\<lparr>gt_conn := Some (snd (conn_Read n c)),
                   gt_read := gt_read t @ (case fst (conn_Read n c) of ReadBytes bs \<Rightarrow> bs | _ \<Rightarrow> [])\<rparr>)
          else Ret t
      | None \<Rightarrow> Ret t)"

definition dial_acts :: "(grpc_tunnel \<Rightarrow> grpc_tunnel outcome) list" where
  "dial_acts =
     [\<lambda>t. Ret (DialContext_start ''tcp'' ''10.0.0.1:443'' t),
      act_dial, act_dial, act_dial, act_dial, act_dial,
      tunnel_serve (Inr (Some (newDialResponsePacket 5 7 []))) None SelectChannel, \<lambda>t. Ret (hand_over t)]"

lemma is_acts:
  "is_act (\<lambda>t. Ret (DialContext_start p a t))" "is_act act_dial" "is_act (tunnel_serve recv sendErr sel)"
  "is_act (\<lambda>t. Ret (hand_over t))"
  by (auto simp: is_act_def act_dial_def intro: client_step.intros)

lemma is_act_read: "is_act (act_read n)"
  unfolding is_act_def
proof (intro allI impI)
  fix t t'
  assume "act_read n t = Ret t'"
  then show "client_step t t' \<or> t' = t"
    using cl_read [of t _ n] by (auto simp: act_read_def split: option.splits if_splits)
qed

lemma foldl_acts_Panic: "foldl bind_outcome (Panic m) acts = Panic m"
  by (induction acts) auto

lemma reach_foldl_acts:
  "\<forall>f \<in> set acts. is_act f \<Longrightarrow> reach client_init client_step t \<Longrightarrow>
   foldl bind_outcome (Ret t) acts = Ret t' \<Longrightarrow> reach client_init client_step t'"
proof (induction acts arbitrary: t)
  case (Cons f acts)
  show ?case
  proof (cases "f t")
    case (Ret u)
    then have "client_step t u \<or> u = t" using Cons.prems(1) by (auto simp: is_act_def)
    then have "reach client_init client_step u"
      using Cons.prems(2) by (auto intro: reach.intros)
    with Cons Ret show ?thesis by simp
  qed (use Cons.prems in \<open>simp add: foldl_acts_Panic\<close>)
qed simp

lemma reach_run_acts:
  "run_acts acts = Ret t \<Longrightarrow> \<forall>f \<in> set acts. is_act f \<Longrightarrow> reach client_init client_step t"
  unfolding run_acts_def by (rule reach_foldl_acts) (auto simp: client_init_def intro: reach.intros)

lemmas eval_acts =
  run_acts_def dial_acts_def act_dial_def act_read_def newUnstartedTunnel_def dialer_ops serve_ops
  hand_over_def packet_builders getter_defs gm_put_def gm_delete_def gm_get_def

theorem client_stream_exact_witness:
  "\<exists>t c. run_acts (dial_acts @ [act_dial, act_dial, act_dial,
       tunnel_serve (Inr (Some (newDataPacket 7 ''hello''))) None SelectChannel,
       tunnel_serve (Inl ErrEOF) None SelectChannel, act_read 3]) = Ret t \<and>
     gt_conn t = Some c \<and> gt_read t = ''hel'' \<and> unread c = ''lo'' \<and>
     gt_read t @ unread c = concat (conn_data 7 (gt_recv t))"
proof -
  let ?acts = "dial_acts @ [act_dial, act_dial, act_dial,
       tunnel_serve (Inr (Some (newDataPacket 7 ''hello''))) None SelectChannel,
       tunnel_serve (Inl ErrEOF) None SelectChannel, act_read 3]"
  obtain t c where t: "run_acts ?acts = Ret t" "gt_conn t = Some c" "gt_read t = ''hel''"
    "unread c = ''lo''" "cc_connID c = 7" "\<not> gt_ctxDone t" "\<not> close_sent 7 t" "gt_serve t = TunnelRecv"
    by (simp add: eval_acts readCh_cap_def conn_Read_def read_data_def unread_def close_sent_def)
  have "reach client_init client_step t"
    by (rule reach_run_acts [OF t(1)]) (simp add: dial_acts_def is_acts is_act_read)
  from client_stream_exact [OF this t(2)] t show ?thesis by auto
qed

subsection \<open>The end of the receive loop\<close>

fun serve_times :: "nat \<Rightarrow> grpc_tunnel \<Rightarrow> grpc_tunnel outcome" where
  "serve_times 0 t = Ret t"
| "serve_times (Suc n) t =
     bind_outcome (tunnel_serve (Inl ErrEOF) None SelectChannel t) (serve_times n)"

text \<open>
  C23. The end of the receive loop terminates and releases the user: the deferred cleanup that runs
  when \<^verbatim>\<open>serve\<close> returns takes four steps, which close the gRPC connection once and the channel
  \<^verbatim>\<open>done\<close>; a connection that was registered has then a closed queue, so that a \<^verbatim>\<open>Read\<close> returns
  what is left and then the end of the stream, and never blocks.
\<close>

theorem serve_cleanup_terminates:
  assumes "reach client_init client_step t" and "gt_serve t = TunnelCloseConn"
  shows "\<exists>t'. serve_times 4 t = Ret t' \<and> gt_done t' \<and> gt_serve t' = TunnelDone \<and>
    gt_grpcCloses t' = Suc (gt_grpcCloses t) \<and>
    (\<forall>c n. gt_conn t' = Some c \<longrightarrow> cc_readClosed c \<and> fst (conn_Read n c) \<noteq> ReadBlocks)"
proof -
  let ?t = "t\<lparr>gt_grpcCloses := Suc (gt_grpcCloses t), gt_serve := TunnelCloseAll\<rparr>"
  have "client_step t ?t"
    by (rule cl_serve [of "Inl ErrEOF" None SelectChannel]) (simp add: tunnel_serve_def assms(2))
  then have "reach client_init client_step ?t" using assms(1) by (rule reach.intros(2) [rotated])
  then have "closeAll (gt_conns ?t) ?t =
      Ret (?t\<lparr>gt_conn := map_option (\<lambda>c. c\<lparr>cc_readClosed := True\<rparr>) (gt_conn ?t)\<rparr>)"
    by (intro closeAll_once) (auto dest: client_reach_inv(1) simp: tables_inv_def)
  moreover have "\<not> gt_done t"
    using client_reach_inv(1) [OF assms(1)] assms(2) by (simp add: tables_inv_def dialer_inv_def)
  moreover have "fst (conn_Read n (c\<lparr>cc_readClosed := True\<rparr>)) \<noteq> ReadBlocks" for c :: tunnel_conn and n
    by (auto simp: conn_Read_def read_data_def split: option.split list.split)
  ultimately show ?thesis
    using assms(2) by (simp add: numeral_eq_Suc tunnel_serve_def closeMetric_def) auto
qed

theorem serve_cleanup_terminates_witness:
  "\<exists>t t'. run_acts [tunnel_serve (Inl ErrEOF) None SelectChannel] = Ret t \<and>
     serve_times 4 t = Ret t' \<and> gt_done t' \<and> gt_grpcCloses t' = 1"
proof -
  obtain t where t: "run_acts [tunnel_serve (Inl ErrEOF) None SelectChannel] = Ret t"
    "gt_serve t = TunnelCloseConn" "gt_grpcCloses t = 0"
    by (simp add: eval_acts)
  have "reach client_init client_step t"
    by (rule reach_run_acts [OF t(1)]) (simp add: is_acts)
  from serve_cleanup_terminates [OF this t(2)] t show ?thesis by auto
qed

lemma done_stays:
  assumes "reach client_init client_step t" and "client_step t t'" and "gt_done t"
  shows "gt_done t'"
  using assms(2)
proof (cases rule: client_step.cases)
  case (cl_serve recv sendErr sel)
  have "gt_serve t = TunnelDone"
    using client_reach_inv(1) [OF assms(1)] assms(3) by (simp add: tables_inv_def dialer_inv_def)
  with cl_serve assms(3) show ?thesis by (simp add: tunnel_serve_def)
next
  case (cl_dial random sendErr sel)
  then show ?thesis
    using assms(3) by (cases "gt_dialer t")
      (auto simp: dialer_ops split: dial_answer.split dial_select.split option.split)
next
  case (cl_await xs ys c aw)
  then show ?thesis
    using assms(3) by (cases aw) (auto simp: awaitCloseResponse_def closeTunnel_def split: if_splits)
qed (use assms(3) in \<open>auto simp: DialContext_start_def hand_over_def user_ops
       split: tunnel_pc.split dialer_pc.split dial_result.split option.split\<close>)

subsection \<open>A connection that is registered too late\<close>

definition hung :: "grpc_tunnel \<Rightarrow> bool" where
  "hung t \<longleftrightarrow> gt_done t \<and> gt_serve t = TunnelDone \<and> gt_dialer t = DialerReturned DialedConn \<and>
     (\<exists>c. gt_conn t = Some c \<and> cc_readCh c = [] \<and> \<not> cc_readClosed c \<and> cc_rdata c = None)"

lemma hung_blocks: "hung t \<Longrightarrow> \<exists>c. gt_conn t = Some c \<and> fst (conn_Read n c) = ReadBlocks"
  by (auto simp: hung_def conn_Read_def read_data_def)

lemma hung_forever: "client_step t t' \<Longrightarrow> hung t \<Longrightarrow> gt_started t \<Longrightarrow> hung t' \<and> gt_started t'"
proof (induction rule: client_step.induct)
  case (cl_await t xs ys c aw t')
  then show ?case
    by (cases aw) (auto simp: hung_def awaitCloseResponse_def closeTunnel_def split: if_splits)
next
  case (cl_write t c sendErr bytes)
  then show ?case by (cases sendErr) (auto simp: hung_def user_ops)
qed (auto simp: hung_def DialContext_start_def dialContext_step_def hand_over_def tunnel_serve_def
    conn_Read_def read_data_def user_ops)

text \<open>
  C25. A dial can return a connection whose reader waits forever: \<^verbatim>\<open>serve\<close> hands the dial
  response over and ends (the stream is lost) before the dialling goroutine has registered the
  connection, so the loop's cleanup does not close its queue; \<^verbatim>\<open>DialContext\<close> then registers and
  returns it. The tunnel is done, and in every later state a \<^verbatim>\<open>Read\<close> of any size blocks.
\<close>

theorem late_connection_hangs:
  "\<exists>t. reach client_init client_step t \<and> gt_dialer t = DialerReturned DialedConn \<and> gt_done t \<and>
     {u. client_step\<^sup>*\<^sup>* t u} \<subseteq> {u. \<exists>c. gt_conn u = Some c \<and> fst (conn_Read n c) = ReadBlocks}"
proof -
  let ?acts = "dial_acts @ replicate 5 (tunnel_serve (Inl ErrEOF) None SelectChannel) @ [act_dial, act_dial, act_dial]"
  obtain t where t: "run_acts ?acts = Ret t" "hung t" "gt_started t"
    by (simp add: eval_acts numeral_eq_Suc hung_def)
  have "reach client_init client_step t"
    by (rule reach_run_acts [OF t(1)]) (simp add: dial_acts_def is_acts)
  moreover have "client_step\<^sup>*\<^sup>* t u \<Longrightarrow> hung u \<and> gt_started u" for u
    by (induction rule: rtranclp_induct) (use t hung_forever in blast)+
  ultimately show ?thesis
    using t hung_blocks by (auto simp: hung_def)
qed
end
