(* ===== verification/KNP_EndToEnd.thy ===== *)
theory KNP_EndToEnd
  imports KNP_ServerProps KNP_AgentClient KNP_Client
begin

section \<open>From the client to the endpoint and back\<close>

text \<open>
  The konnectivity client, the proxy server and an agent put together: what one of them gives to
  its stream is what the next one receives. A \<open>path\<close> is the state of the three. The functions
  below carry a dial and then data along the path; each hop takes the packets that the previous
  component has handed to its stream without an error, and nothing else, and runs the code of the
  next component on them. The streams are assumed to work (\<open>smooth\<close>); what happens when they do
  not is the subject of the components' own theories.
\<close>

subsection \<open>What the streams carry\<close>

record path =
  pa_client :: grpc_tunnel
  pa_server :: world
  pa_agent :: agent_client

definition smooth :: "world \<Rightarrow> bool" where
  "smooth w \<longleftrightarrow> (\<forall>n. accepts (w_oracle w n) \<and> an_front (w_oracle w n) = None \<and>
     an_select (w_oracle w n) = SendFinished)"

definition sent :: "(packet \<times> go_error option) list \<Rightarrow> packet list" where
  "sent entries = map fst (filter (\<lambda>e. snd e = None) entries)"

definition to_agent :: "bid \<Rightarrow> effect list \<Rightarrow> packet list" where
  "to_agent b es =
     List.map_filter (\<lambda>e. case e of ToAgent b' p err \<Rightarrow> if b' = b \<and> err = None then Some p else None | _ \<Rightarrow> None) es"

definition to_frontend :: "frontend \<Rightarrow> effect list \<Rightarrow> packet list" where
  "to_frontend f es =
     List.map_filter (\<lambda>e. case e of ToFrontend f' p err \<Rightarrow> if f' = fr_id f \<and> err = None then Some p else None | _ \<Rightarrow> None) es"

lemmas stream_defs = sent_def to_agent_def to_frontend_def List.map_filter_def

subsection \<open>The components at work\<close>

text \<open>A goroutine of the server runs on its own; the effects it has added to the log.\<close>

definition server_runs :: "thread \<Rightarrow> world \<Rightarrow> (effect list \<times> world) outcome" where
  "server_runs th w =
     (case run th w of
        (Ret u, w', ts) \<Rightarrow> Ret (drop (length (w_log w)) (w_log w'), w')
      | (Panic m, w', ts) \<Rightarrow> Panic m)"

text \<open>One round of \<^verbatim>\<open>serveRecvBackend\<close>.\<close>

definition agent_packet :: "bid \<Rightarrow> string \<Rightarrow> packet \<Rightarrow> thread \<Rightarrow> thread" where
  "agent_packet b agentID pkt next =
     (case ptype pkt of
        DIAL_RSP \<Rightarrow> backend_DIAL_RSP b agentID pkt next
      | DIAL_CLS \<Rightarrow> backend_DIAL_CLS pkt next
      | DATA \<Rightarrow> backend_DATA b agentID pkt next
      | CLOSE_RSP \<Rightarrow> backend_CLOSE_RSP agentID pkt next
      | DRAIN \<Rightarrow> atomically (w_markBackendDraining b) (\<lambda>_. next)
      | _ \<Rightarrow> next)"

fun agent_packets :: "bid \<Rightarrow> string \<Rightarrow> packet list \<Rightarrow> thread \<Rightarrow> thread" where
  "agent_packets b agentID [] k = k"
| "agent_packets b agentID (p # ps) k = agent_packet b agentID p (agent_packets b agentID ps k)"

lemma serveRecvBackend_packets:
  "serveRecvBackend b agentID (ps @ qs) k = agent_packets b agentID ps (serveRecvBackend b agentID qs k)"
  by (induction ps) (auto simp: agent_packet_def Let_def split: packet_type.split)

text \<open>The agent's receive loop takes each packet and, where it has to, pushes its data.\<close>

fun agent_receives :: "packet list \<Rightarrow> agent_client \<Rightarrow> agent_client outcome" where
  "agent_receives [] a = Ret a"
| "agent_receives (p # ps) a =
     bind_outcome (Serve_step True None (Inr (Some p)) a) (\<lambda>a1.
     bind_outcome (if ag_serve a1 = ServeLoop then Ret a1 else Serve_step True None (Inr None) a1)
       (agent_receives ps))"

text \<open>The goroutine of a dial: the endpoint accepts, the answer is sent.\<close>

definition agent_answers :: "nat \<Rightarrow> agent_client \<Rightarrow> agent_client outcome" where
  "agent_answers i a =
     bind_outcome (endpoint_dial None None (ag_endpoints a ! i)) (\<lambda>e1.
     let a1 = put_endpoint i e1 a in
     bind_outcome (endpoint_reply None (ag_endpoints a1 ! i)) (\<lambda>e2. Ret (put_endpoint i e2 a1)))"

text \<open>The writer takes the next bytes and writes all of them to the endpoint.\<close>

definition agent_writes :: "nat \<Rightarrow> agent_client \<Rightarrow> agent_client" where
  "agent_writes i a =
     (let e1 = dataChannelToRemote_step (0, None) (ag_endpoints a ! i) in
      put_endpoint i (dataChannelToRemote_step
        (case ec_remote e1 of RemoteWrites d \<Rightarrow> (length d, None) | _ \<Rightarrow> (0, None)) e1) a)"

text \<open>The reader gets bytes from the endpoint, and the sender sends them.\<close>

definition agent_reads :: "nat \<Rightarrow> string \<Rightarrow> agent_client \<Rightarrow> agent_client outcome" where
  "agent_reads i bytes a =
     (let e1 = remoteToSendChannel_step False True (Inr bytes) (ag_endpoints a ! i);
          e2 = remoteToSendChannel_step False True (Inr []) e1 in
      bind_outcome (sendChannelToProxy_step None e2) (\<lambda>e3.
      bind_outcome (sendChannelToProxy_step None e3) (\<lambda>e4. Ret (put_endpoint i e4 a))))"

text \<open>The receive loop of the client takes each packet and, where it has to, pushes its data.\<close>

fun client_receives :: "packet list \<Rightarrow> grpc_tunnel \<Rightarrow> grpc_tunnel outcome" where
  "client_receives [] t = Ret t"
| "client_receives (p # ps) t =
     bind_outcome (tunnel_serve (Inr (Some p)) None SelectChannel t) (\<lambda>t1.
     bind_outcome (case gt_serve t1 of
         TunnelPush d \<Rightarrow> tunnel_serve (Inr None) None SelectChannel t1
       | TunnelResult res stop \<Rightarrow> Ret (hand_over t1)
       | _ \<Rightarrow> Ret t1) (client_receives ps))"

definition client_reads :: "nat \<Rightarrow> grpc_tunnel \<Rightarrow> grpc_tunnel" where
  "client_reads n t =
     (case gt_conn t of
        None \<Rightarrow> t
      | Some c \<Rightarrow>
          (let (r, c') = conn_Read n c in
           t\<lparr>gt_conn := Some c', gt_read := gt_read t @ (case r of ReadBytes bs \<Rightarrow> bs | _ \<Rightarrow> [])\<rparr>))"

text \<open>The cleanup of a connection, with the sender that it waits for, and then the receive loop.\<close>

fun endpoint_acts :: "nat \<Rightarrow> (endpoint \<Rightarrow> endpoint outcome) list \<Rightarrow> agent_client \<Rightarrow> agent_client outcome" where
  "endpoint_acts i [] a = Ret a"
| "endpoint_acts i (act # acts) a =
     bind_outcome (act (ag_endpoints a ! i)) (\<lambda>e. endpoint_acts i acts (put_endpoint i e a))"

definition agent_cleans :: "nat \<Rightarrow> agent_client \<Rightarrow> agent_client outcome" where
  "agent_cleans i a =
     bind_outcome (endpoint_acts i [cleanup_step None, sendChannelToProxy_step None, sendChannelToProxy_step None,
       cleanup_step None, cleanup_step None, cleanup_step None, cleanup_step None, cleanup_step None] a)
       (Serve_step True None (Inr None))"

text \<open>The receive loop of the client after it has left the stream: \<open>n\<close> steps of its cleanup.\<close>

fun client_ends :: "nat \<Rightarrow> grpc_tunnel \<Rightarrow> grpc_tunnel outcome" where
  "client_ends 0 t = Ret t"
| "client_ends (Suc n) t = bind_outcome (tunnel_serve (Inr None) None SelectChannel t) (client_ends n)"

subsection \<open>Along the path\<close>

text \<open>
  A dial: the client sends the request, the server routes it, the agent dials and answers, the
  server establishes the connection, and the client's \<^verbatim>\<open>DialContext\<close> returns.
\<close>

definition carry_dial :: "frontend \<Rightarrow> bid \<Rightarrow> string \<Rightarrow> int \<Rightarrow> path \<Rightarrow> path outcome" where
  "carry_dial f b agentID random s =
     (let t = pa_client s; a = pa_agent s; i = length (ag_endpoints a);
          t1 = dialContext_step random None DialSelectDone t in
      bind_outcome (server_runs (serveRecvFrontend f (sent (drop (length (gt_log t)) (gt_log t1))) None 0 Stop)
        (pa_server s)) (\<lambda>(es, w1).
      bind_outcome (agent_receives (to_agent b es) a) (\<lambda>a1.
      bind_outcome (agent_answers i a1) (\<lambda>a2.
      bind_outcome (server_runs (agent_packets b agentID (sent (ec_log (ag_endpoints a2 ! i))) Stop) w1) (\<lambda>(es', w2).
      bind_outcome (client_receives (to_frontend f es') t1) (\<lambda>t2.
        Ret \<lparr>pa_client = ((dialContext_step random None DialSelectDone) ^^ 3) t2, pa_server = w2, pa_agent = a2\<rparr>))))))"

text \<open>The client writes, and the bytes reach the endpoint.\<close>

definition carry_down :: "frontend \<Rightarrow> bid \<Rightarrow> int \<Rightarrow> nat \<Rightarrow> string \<Rightarrow> path \<Rightarrow> path outcome" where
  "carry_down f b firstConnID i bytes s =
     (let t = pa_client s;
          t1 = (case gt_conn t of None \<Rightarrow> t | Some c \<Rightarrow> snd (snd (conn_Write None bytes c t))) in
      bind_outcome (server_runs (serveRecvFrontend f (sent (drop (length (gt_log t)) (gt_log t1)))
        (Some b) firstConnID Stop) (pa_server s)) (\<lambda>(es, w1).
      bind_outcome (agent_receives (to_agent b es) (pa_agent s)) (\<lambda>a1.
        Ret \<lparr>pa_client = t1, pa_server = w1, pa_agent = agent_writes i a1\<rparr>)))"

text \<open>The endpoint sends, and the client reads the bytes into a buffer of \<open>n\<close>.\<close>

definition carry_up :: "frontend \<Rightarrow> bid \<Rightarrow> string \<Rightarrow> nat \<Rightarrow> nat \<Rightarrow> string \<Rightarrow> path \<Rightarrow> path outcome" where
  "carry_up f b agentID i n bytes s =
     (let a = pa_agent s in
      bind_outcome (agent_reads i bytes a) (\<lambda>a1.
      bind_outcome (server_runs (agent_packets b agentID
        (sent (drop (length (ec_log (ag_endpoints a ! i))) (ec_log (ag_endpoints a1 ! i)))) Stop) (pa_server s)) (\<lambda>(es, w1).
      bind_outcome (client_receives (to_frontend f es) (pa_client s)) (\<lambda>t1.
        Ret \<lparr>pa_client = client_reads n t1, pa_server = w1, pa_agent = a1\<rparr>))))"

text \<open>The client closes, the agent cleans up and answers, and the client's tunnel ends.\<close>

definition carry_close :: "frontend \<Rightarrow> bid \<Rightarrow> string \<Rightarrow> int \<Rightarrow> nat \<Rightarrow> path \<Rightarrow> path outcome" where
  "carry_close f b agentID firstConnID i s =
     (let t = pa_client s; a = pa_agent s;
          t1 = (case gt_conn t of None \<Rightarrow> t | Some c \<Rightarrow> snd (conn_Close None c t)) in
      bind_outcome (server_runs (serveRecvFrontend f (sent (drop (length (gt_log t)) (gt_log t1)))
        (Some b) firstConnID Stop) (pa_server s)) (\<lambda>(es, w1).
      bind_outcome (agent_receives (to_agent b es) a) (\<lambda>a1.
      bind_outcome (agent_cleans i a1) (\<lambda>a2.
      bind_outcome (server_runs (agent_packets b agentID
        (sent (drop (length (ec_log (ag_endpoints a ! i))) (ec_log (ag_endpoints a2 ! i)))) Stop) w1) (\<lambda>(es', w2).
      bind_outcome (client_receives (to_frontend f es') t1) (\<lambda>t2.
      bind_outcome (client_ends 5 t2) (\<lambda>t3.
        Ret \<lparr>pa_client = t3, pa_server = w2, pa_agent = a2\<rparr>)))))))"

datatype message = Down string | Up string

text \<open>\<open>fc\<close> is the server's \<^verbatim>\<open>firstConnID\<close>, which the first data packet sets.\<close>

fun exchange ::
  "frontend \<Rightarrow> bid \<Rightarrow> string \<Rightarrow> int \<Rightarrow> nat \<Rightarrow> nat \<Rightarrow> int \<Rightarrow> message list \<Rightarrow> path \<Rightarrow> path outcome" where
  "exchange f b agentID connID i n fc [] s = Ret s"
| "exchange f b agentID connID i n fc (Down d # ms) s =
     bind_outcome (carry_down f b fc i d s)
       (exchange f b agentID connID i n (if fc = 0 then connID else fc) ms)"
| "exchange f b agentID connID i n fc (Up d # ms) s =
     bind_outcome (carry_up f b agentID i n d s) (exchange f b agentID connID i n fc ms)"

subsection \<open>A connected path\<close>

definition client_open :: "int \<Rightarrow> grpc_tunnel \<Rightarrow> bool" where
  "client_open connID t \<longleftrightarrow>
     gt_dialer t = DialerReturned DialedConn \<and> gt_serve t = TunnelRecv \<and> \<not> gt_closing t \<and> \<not> gt_done t \<and>
     gt_conns t = [(connID, ())] \<and>
     (case gt_conn t of
        None \<Rightarrow> False
      | Some c \<Rightarrow> cc_connID c = connID \<and> cc_readCh c = [] \<and> \<not> cc_readClosed c \<and> cc_rdata c = None \<and>
          cc_closeCh c = [] \<and> \<not> cc_closeClosed c \<and> \<not> cc_closing c)"

definition server_open :: "frontend \<Rightarrow> bid \<Rightarrow> string \<Rightarrow> int \<Rightarrow> world \<Rightarrow> bool" where
  "server_open f b agentID connID w \<longleftrightarrow> smooth w \<and>
     (case est_lookup (w_established w) (agentID, connID) of
        None \<Rightarrow> False
      | Some c \<Rightarrow> pc_frontend c = Some f \<and> pc_backend c = Some b)"

definition endpoint_open :: "int \<Rightarrow> endpoint \<Rightarrow> bool" where
  "endpoint_open connID e \<longleftrightarrow> ec_connID e = connID \<and> 0 < ec_cap e \<and> ec_added e \<and> \<not> ec_deleted e \<and>
     ec_dataCh e = [] \<and> \<not> ec_dataClosed e \<and> ec_sendCh e = [] \<and> \<not> ec_sendClosed e \<and>
     ec_hasConn e \<and> ec_dialDone e \<and> \<not> ec_sendDone e \<and> ec_clean e = CleanIdle \<and>
     ec_reader e = ReaderReads \<and> ec_proxy e = ProxyTakes \<and> ec_remote e = RemoteTakes"

definition agent_open :: "int \<Rightarrow> nat \<Rightarrow> agent_client \<Rightarrow> bool" where
  "agent_open connID i a \<longleftrightarrow> ag_serve a = ServeLoop \<and> \<not> ag_stopped a \<and> cm_Get connID a = Some i \<and>
     i < length (ag_endpoints a) \<and> endpoint_open connID (ag_endpoints a ! i)"

definition path_open :: "frontend \<Rightarrow> bid \<Rightarrow> string \<Rightarrow> int \<Rightarrow> nat \<Rightarrow> path \<Rightarrow> bool" where
  "path_open f b agentID connID i s \<longleftrightarrow> connID \<noteq> 0 \<and> client_open connID (pa_client s) \<and>
     server_open f b agentID connID (pa_server s) \<and> agent_open connID i (pa_agent s)"

subsection \<open>Each hop\<close>

lemma smooth_answers:
  assumes "smooth w"
  shows "accepts (w_oracle w n)" "an_front (w_oracle w n) = None" "an_select (w_oracle w n) = SendFinished"
    "an_send (w_oracle w n) = \<lparr>env_ctxBefore = None, env_lock = None, env_ctxAfter = None, env_conn = None\<rparr>"
  using assms by (simp_all add: smooth_def accepts_def)

lemma smooth_same: "w_oracle w' = w_oracle w \<Longrightarrow> smooth w' = smooth w"
  by (simp add: smooth_def)

text \<open>The server passes data on, in both directions.\<close>

lemma server_data_down:
  assumes "smooth w" and "connID \<noteq> 0" and "fc = 0 \<or> fc = connID"
  shows "\<exists>es w'. server_runs (serveRecvFrontend f [newDataPacket connID bytes] (Some b) fc Stop) w = Ret (es, w') \<and>
     to_agent b es = [newDataPacket connID bytes] \<and> wrote w es w'"
  using assms
  by (auto simp: wrote_def server_runs_def frontend_DATA_def newDataPacket_def GetData_def Let_def w_Send_accepts
      smooth_answers stream_defs)

lemma server_data_up:
  assumes "server_open f b agentID connID w" and "connID \<noteq> 0"
  shows "\<exists>es w'. server_runs (agent_packets b agentID [newDataPacket connID bytes] Stop) w = Ret (es, w') \<and>
     to_frontend f es = [newDataPacket connID bytes] \<and> wrote w es w'"
proof -
  obtain c where c: "est_lookup (w_established w) (agentID, connID) = Some c" "pc_frontend c = Some f" "smooth w"
    using assms(1) by (auto simp: server_open_def split: option.splits)
  then have g: "getFrontend agentID connID (w_established w) = Inr c"
    by (auto simp: getFrontend_def est_lookup_def split: option.splits)
  from c g assms(2) show ?thesis
    by (auto simp: wrote_def server_runs_def agent_packet_def backend_DATA_def newDataPacket_def GetData_def Let_def
        w_getFrontend_def client_send_def Frontend_Send_log smooth_answers stream_defs)
qed

lemma endpoint_put:
  "i < length (ag_endpoints a) \<Longrightarrow> ec_added e = ec_added (ag_endpoints a ! i) \<Longrightarrow>
   ec_deleted e = ec_deleted (ag_endpoints a ! i) \<Longrightarrow>
   put_endpoint i e a = a\<lparr>ag_endpoints := (ag_endpoints a)[i := e]\<rparr>"
  by (simp add: put_endpoint_def Let_def)

lemma agent_data_down:
  assumes "agent_open connID i a" and "connID \<noteq> 0"
  shows "\<exists>a1. agent_receives [newDataPacket connID bytes] a = Ret a1 \<and> agent_open connID i (agent_writes i a1) \<and>
     ec_written (ag_endpoints (agent_writes i a1) ! i) = ec_written (ag_endpoints a ! i) @ bytes"
  using assms
  by (simp add: agent_open_def endpoint_open_def Serve_step_def Serve_packet_def agent_DATA_def newDataPacket_def
      GetData_def sendViaDataChannel_def agent_writes_def dataChannelToRemote_step_def endpoint_put cm_Get_def Let_def)

lemma agent_data_up:
  assumes "agent_open connID i a"
  shows "\<exists>a1. agent_reads i bytes a = Ret a1 \<and> agent_open connID i a1 \<and>
     ec_log (ag_endpoints a1 ! i) = ec_log (ag_endpoints a ! i) @ [(newDataPacket connID bytes, None)] \<and>
     ec_written (ag_endpoints a1 ! i) = ec_written (ag_endpoints a ! i)"
  using assms
  by (simp add: agent_open_def endpoint_open_def agent_reads_def remoteToSendChannel_step_def
      sendChannelToProxy_step_def endpoint_put cm_Get_def Let_def)

lemma client_data_up:
  assumes "client_open connID t" and "connID \<noteq> 0" and "bytes \<noteq> []" and "length bytes \<le> n"
  shows "\<exists>t1. client_receives [newDataPacket connID bytes] t = Ret t1 \<and> client_open connID (client_reads n t1) \<and>
     gt_read (client_reads n t1) = gt_read t @ bytes \<and> gt_log (client_reads n t1) = gt_log t"
proof -
  obtain c where c: "gt_conn t = Some c" "cc_connID c = connID" "cc_readCh c = []" "\<not> cc_readClosed c"
      "cc_rdata c = None" "cc_closeCh c = []" "\<not> cc_closeClosed c" "\<not> cc_closing c"
    and t: "gt_dialer t = DialerReturned DialedConn" "gt_serve t = TunnelRecv" "\<not> gt_closing t" "\<not> gt_done t"
      "gt_conns t = [(connID, ())]"
    using assms(1) by (auto simp: client_open_def split: option.splits)
  let ?t1 = "t\<lparr>gt_recv := gt_recv t @ [newDataPacket connID bytes], gt_serve := TunnelPush bytes\<rparr>"
  let ?t2 = "?t1\<lparr>gt_conn := Some (c\<lparr>cc_readCh := [bytes]\<rparr>), gt_serve := TunnelRecv\<rparr>"
  have entry: "gm_get (gt_conns t) connID \<noteq> None" by (simp add: t(5) gm_get_def)
  have "tunnel_serve (Inr (Some (newDataPacket connID bytes))) None SelectChannel t = Ret ?t1"
    using c(1) t entry assms(2)
    by (auto simp: tunnel_serve_def tunnel_recv_def serve_packet_def tunnel_DATA_def newDataPacket_def GetData_def
        conns_get_def)
  moreover have "tunnel_serve (Inr None) None SelectChannel ?t1 = Ret ?t2"
    using c by (simp add: tunnel_serve_def tunnel_push_def readCh_cap_def)
  ultimately have "client_receives [newDataPacket connID bytes] t = Ret ?t2" by simp
  moreover have "conn_Read n (c\<lparr>cc_readCh := [bytes]\<rparr>) = (ReadBytes bytes, c)"
    using c(3,5) assms(3,4) by (simp add: conn_Read_def read_data_def)
  ultimately show ?thesis
    using c t by (simp add: client_reads_def client_open_def)
qed

subsection \<open>Data\<close>

lemma client_data_down:
  assumes "client_open connID t" and "gt_conn t = Some c"
  shows "snd (snd (conn_Write None bytes c t)) = t\<lparr>gt_log := gt_log t @ [(newDataPacket connID bytes, None)]\<rparr>"
  using assms by (auto simp: client_open_def conn_Write_def tunnel_Send_def)

lemma sent_new: "sent [(p, None)] = [p]"
  by (simp add: sent_def)

lemma server_open_same:
  "server_open f b agentID connID w \<Longrightarrow> w_established w' = w_established w \<Longrightarrow> w_oracle w' = w_oracle w \<Longrightarrow>
   server_open f b agentID connID w'"
  by (simp add: server_open_def smooth_def)

lemma server_open_wrote: "server_open f b agentID connID w \<Longrightarrow> wrote w es w' \<Longrightarrow> server_open f b agentID connID w'"
  using server_open_same wrote_world by metis

lemma carry_down_ok:
  assumes "path_open f b agentID connID i s" and "fc = 0 \<or> fc = connID"
  shows "\<exists>s'. carry_down f b fc i bytes s = Ret s' \<and> path_open f b agentID connID i s' \<and>
     ec_written (ag_endpoints (pa_agent s') ! i) = ec_written (ag_endpoints (pa_agent s) ! i) @ bytes \<and>
     gt_read (pa_client s') = gt_read (pa_client s) \<and> (\<exists>es. wrote (pa_server s) es (pa_server s'))"
proof -
  from assms(1) have id: "connID \<noteq> 0" and cl: "client_open connID (pa_client s)"
    and sv: "server_open f b agentID connID (pa_server s)" and ag: "agent_open connID i (pa_agent s)"
    by (simp_all add: path_open_def)
  obtain c where c: "gt_conn (pa_client s) = Some c" using cl by (auto simp: client_open_def split: option.splits)
  have sm: "smooth (pa_server s)" using sv by (simp add: server_open_def)
  from server_data_down [OF sm id assms(2)] obtain es w1 where
    w1: "server_runs (serveRecvFrontend f [newDataPacket connID bytes] (Some b) fc Stop) (pa_server s) = Ret (es, w1)"
      "to_agent b es = [newDataPacket connID bytes]" "wrote (pa_server s) es w1"
    by blast
  from agent_data_down [OF ag id] obtain a1 where
    a1: "agent_receives [newDataPacket connID bytes] (pa_agent s) = Ret a1" "agent_open connID i (agent_writes i a1)"
      "ec_written (ag_endpoints (agent_writes i a1) ! i) = ec_written (ag_endpoints (pa_agent s) ! i) @ bytes"
    by blast
  have "client_open connID (pa_client s\<lparr>gt_log := gt_log (pa_client s) @ [(newDataPacket connID bytes, None)]\<rparr>)"
    using cl by (simp add: client_open_def)
  with id w1 a1 server_open_wrote [OF sv w1(3)] show ?thesis
    by (auto simp: carry_down_def c client_data_down [OF cl c] sent_new path_open_def Let_def
        simp del: agent_receives.simps serveRecvFrontend.simps)
qed

lemma carry_up_ok:
  assumes "path_open f b agentID connID i s" and "bytes \<noteq> []" and "length bytes \<le> n"
  shows "\<exists>s'. carry_up f b agentID i n bytes s = Ret s' \<and> path_open f b agentID connID i s' \<and>
     ec_written (ag_endpoints (pa_agent s') ! i) = ec_written (ag_endpoints (pa_agent s) ! i) \<and>
     gt_read (pa_client s') = gt_read (pa_client s) @ bytes \<and> (\<exists>es. wrote (pa_server s) es (pa_server s'))"
proof -
  from assms(1) have id: "connID \<noteq> 0" and cl: "client_open connID (pa_client s)"
    and sv: "server_open f b agentID connID (pa_server s)" and ag: "agent_open connID i (pa_agent s)"
    by (simp_all add: path_open_def)
  from agent_data_up [OF ag, of bytes] obtain a1 where
    a1: "agent_reads i bytes (pa_agent s) = Ret a1" "agent_open connID i a1"
      "ec_log (ag_endpoints a1 ! i) = ec_log (ag_endpoints (pa_agent s) ! i) @ [(newDataPacket connID bytes, None)]"
      "ec_written (ag_endpoints a1 ! i) = ec_written (ag_endpoints (pa_agent s) ! i)"
    by blast
  from server_data_up [OF sv id] obtain es w1 where
    w1: "server_runs (agent_packets b agentID [newDataPacket connID bytes] Stop) (pa_server s) = Ret (es, w1)"
      "to_frontend f es = [newDataPacket connID bytes]" "wrote (pa_server s) es w1"
    by blast
  from client_data_up [OF cl id assms(2,3)] obtain t1 where
    t1: "client_receives [newDataPacket connID bytes] (pa_client s) = Ret t1" "client_open connID (client_reads n t1)"
      "gt_read (client_reads n t1) = gt_read (pa_client s) @ bytes"
    by blast
  from id w1 a1 t1 server_open_wrote [OF sv w1(3)] show ?thesis
    by (auto simp: carry_up_def sent_new path_open_def simp del: agent_packets.simps client_receives.simps)
qed

fun downs :: "message list \<Rightarrow> string" where
  "downs [] = []"
| "downs (Down d # ms) = d @ downs ms"
| "downs (Up d # ms) = downs ms"

fun ups :: "message list \<Rightarrow> string" where
  "ups [] = []"
| "ups (Down d # ms) = ups ms"
| "ups (Up d # ms) = d @ ups ms"

fun readable :: "nat \<Rightarrow> message \<Rightarrow> bool" where
  "readable n (Down d) = True"
| "readable n (Up d) = (d \<noteq> [] \<and> length d \<le> n)"

lemma exchange_ok:
  "path_open f b agentID connID i s \<Longrightarrow> fc = 0 \<or> fc = connID \<Longrightarrow> list_all (readable n) ms \<Longrightarrow>
   \<exists>s'. exchange f b agentID connID i n fc ms s = Ret s' \<and> path_open f b agentID connID i s' \<and>
     ec_written (ag_endpoints (pa_agent s') ! i) = ec_written (ag_endpoints (pa_agent s) ! i) @ downs ms \<and>
     gt_read (pa_client s') = gt_read (pa_client s) @ ups ms \<and> (\<exists>es. wrote (pa_server s) es (pa_server s'))"
proof (induction ms arbitrary: fc s)
  case Nil
  then show ?case using wrote_Nil by auto
next
  case (Cons m ms)
  show ?case
  proof (cases m)
    case (Down d)
    from carry_down_ok [OF Cons.prems(1,2), of d] obtain s1 where
      s1: "carry_down f b fc i d s = Ret s1" "path_open f b agentID connID i s1"
        "ec_written (ag_endpoints (pa_agent s1) ! i) = ec_written (ag_endpoints (pa_agent s) ! i) @ d"
        "gt_read (pa_client s1) = gt_read (pa_client s)" "\<exists>es. wrote (pa_server s) es (pa_server s1)"
      by blast
    have "(if fc = 0 then connID else fc) = 0 \<or> (if fc = 0 then connID else fc) = connID"
      using Cons.prems(2) by auto
    from Cons.IH [OF s1(2) this] Cons.prems(3) s1 Down show ?thesis by auto (blast intro: wrote_trans)+
  next
    case (Up d)
    with Cons.prems(3) have "d \<noteq> []" "length d \<le> n" by simp_all
    from carry_up_ok [OF Cons.prems(1) this] obtain s1 where
      s1: "carry_up f b agentID i n d s = Ret s1" "path_open f b agentID connID i s1"
        "ec_written (ag_endpoints (pa_agent s1) ! i) = ec_written (ag_endpoints (pa_agent s) ! i)"
        "gt_read (pa_client s1) = gt_read (pa_client s) @ d" "\<exists>es. wrote (pa_server s) es (pa_server s1)"
      by blast
    from Cons.IH [OF s1(2) Cons.prems(2)] Cons.prems(3) s1 Up show ?thesis by auto (blast intro: wrote_trans)+
  qed
qed

subsection \<open>The dial\<close>

text \<open>\<open>dialled f b random w w'\<close>: the server has filed the dial and nothing else in its tables.\<close>

definition dialled :: "frontend \<Rightarrow> bid \<Rightarrow> int \<Rightarrow> world \<Rightarrow> world \<Rightarrow> bool" where
  "dialled f b random w w' \<longleftrightarrow> w_established w' = w_established w \<and> w_oracle w' = w_oracle w \<and>
     (\<exists>c. pd_map (w_pending w') = gm_put random c (pd_map (w_pending w)) \<and> pc_frontend c = Some f \<and>
        pc_backend c = Some b \<and> pc_dialID c = random)"

text \<open>\<open>filed random k w w'\<close>: the connection \<open>k\<close> has taken the place of the dial.\<close>

definition filed :: "int \<Rightarrow> string \<times> int \<Rightarrow> world \<Rightarrow> world \<Rightarrow> bool" where
  "filed random k w w' \<longleftrightarrow>
     (\<forall>d. gm_get (pd_map (w_pending w')) d = (if d = random then None else gm_get (pd_map (w_pending w)) d)) \<and>
     (\<forall>k'. k' \<noteq> k \<longrightarrow> est_lookup (w_established w') k' = est_lookup (w_established w) k')"

lemma good_runs:
  assumes "server_runs th w = Ret (es, w')" and "good 0 th" and "server_inv w"
  shows "server_inv w'"
  using assms keeps_run [of server_inv w th w] by (auto simp: good_def server_runs_def split: prod.splits outcome.splits)

lemma server_dial:
  assumes "smooth w" and "fst (w_getBackend address w) = Ret (Inr b)"
  shows "\<exists>es w'. server_runs (serveRecvFrontend f [newDialRequestPacket protocol address random] None 0 Stop) w
       = Ret (es, w') \<and>
     to_agent b es = [newDialRequestPacket protocol address random] \<and> dialled f b random w w'"
proof -
  define w1 where "w1 = snd (w_getBackend address w)"
  have w1: "w_oracle w1 = w_oracle w" "w_log w1 = w_log w" "w_pending w1 = w_pending w" "w_established w1 = w_established w"
    by (auto simp: w1_def w_getBackend_def ask_def Let_def split: outcome.splits)
  show ?thesis
    using smooth_answers [OF assms(1)] w1 assms(2)
    by (auto simp: dialled_def server_runs_def frontend_DIAL_REQ_def newDialRequestPacket_def GetDialRequest_def Let_def
        w1_def [symmetric] time_Now_def ask_def w_pendingAdd_def PendingDial_Add_def set_pending_def
        sendDialRequestToBackend_def w_Send_accepts case_prod_unfold SendContext_def lockSend_def dial_error_def
        log_effects_def startPendingDialTimeout_def stream_defs split: option.splits)
qed

lemma server_establishes:
  assumes "smooth w1" and "dialled f b random w w1"
  shows "\<exists>es w'. server_runs (agent_packets b agentID [newDialResponsePacket random connID []] Stop) w1 = Ret (es, w') \<and>
     to_frontend f es = [newDialResponsePacket random connID []] \<and> server_open f b agentID connID w' \<and>
     filed random (agentID, connID) w w'"
proof -
  obtain c where "pd_map (w_pending w1) = gm_put random c (pd_map (w_pending w))" "pc_frontend c = Some f"
      "pc_backend c = Some b" and "w_established w1 = w_established w"
    using assms(2) by (auto simp: dialled_def)
  with smooth_answers [OF assms(1)] assms(1) show ?thesis
    by (simp add: server_runs_def agent_packet_def backend_DIAL_RSP_def newDialResponsePacket_def GetDialResponse_def
        Let_def client_send_def world_actions PendingDial_Remove_def case_prod_unfold addEstablished_lookup
        stream_defs server_open_def smooth_def filed_def set_pending_def)
qed

lemma agent_dialled:
  assumes "ag_serve a = ServeLoop" and "\<not> ag_stopped a" and "0 < ag_channelSize a"
    and "connID = wrap64 (ag_nextConnID a + 1)" and "i = length (ag_endpoints a)"
  shows "\<exists>a1 a2. agent_receives [newDialRequestPacket protocol address random] a = Ret a1 \<and>
     agent_answers i a1 = Ret a2 \<and> agent_open connID i a2 \<and>
     ec_log (ag_endpoints a2 ! i) = [(newDialResponsePacket random connID [], None)] \<and>
     ec_written (ag_endpoints a2 ! i) = []"
  using assms
  by (simp add: Serve_step_def Serve_packet_def agent_DIAL_REQ_def newDialRequestPacket_def GetDialRequest_def
      agent_answers_def endpoint_dial_def endpoint_reply_def newEndpointConn_def put_endpoint_def cm_Add_def
      agent_open_def endpoint_open_def cm_Get_def Let_def)

lemma updateMetric_frame [simp]:
  "gt_dialer (updateMetric st t) = gt_dialer t" "gt_conns (updateMetric st t) = gt_conns t"
  "gt_closing (updateMetric st t) = gt_closing t" "gt_read (updateMetric st t) = gt_read t"
  "gt_pendingDial (updateMetric st t) = gt_pendingDial t" "gt_done (updateMetric st t) = gt_done t"
  by (simp_all add: updateMetric_def updateMetric_set_def Let_def)

lemma dialContext_finishes:
  assumes "gt_dialer t = DialerGot random connID"
  shows "(dialContext_step d None sel ^^ 3) t =
    (pendingDial_remove random (conns_add connID (new_conn random connID) t))
      \<lparr>gt_cancelCh := True, gt_dialer := DialerReturned DialedConn\<rparr>"
  using assms
  by (simp add: numeral_3_eq_3 dialContext_step_def conns_add_def pendingDial_remove_def dial_return_def)

lemma client_dialled:
  assumes "gt_dialer t = DialerWaits random" and "gt_serve t = TunnelRecv" and "\<not> gt_closing t"
    and "pendingDial_get random t" and "\<not> gt_done t" and "gt_conns t = []"
  shows "\<exists>t2. client_receives [newDialResponsePacket random connID []] t = Ret t2 \<and>
     client_open connID ((dialContext_step d None DialSelectDone ^^ 3) t2) \<and>
     gt_read ((dialContext_step d None DialSelectDone ^^ 3) t2) = gt_read t"
proof -
  let ?u = "updateMetric StatusOk (t\<lparr>gt_recv := gt_recv t @ [newDialResponsePacket random connID []]\<rparr>)"
  let ?t1 = "?u\<lparr>gt_serve := TunnelResult (DialResult None connID) False\<rparr>"
  let ?t2 = "?t1\<lparr>gt_serve := TunnelRecv, gt_dialer := DialerGot random connID\<rparr>"
  have "tunnel_serve (Inr (Some (newDialResponsePacket random connID []))) None SelectChannel t = Ret ?t1"
    using assms(2-4)
    by (simp add: tunnel_serve_def tunnel_recv_def serve_packet_def tunnel_DIAL_RSP_def newDialResponsePacket_def
        GetDialResponse_def pendingDial_get_def)
  moreover have "hand_over ?t1 = ?t2" using assms(1) by (simp add: hand_over_def)
  ultimately have "client_receives [newDialResponsePacket random connID []] t = Ret ?t2" by simp
  moreover have "client_open connID ((dialContext_step d None DialSelectDone ^^ 3) ?t2) \<and>
      gt_read ((dialContext_step d None DialSelectDone ^^ 3) ?t2) = gt_read t"
    using assms(3,5,6)
    by (subst (1 2) dialContext_finishes [of ?t2 random connID])
      (simp_all add: client_open_def conns_add_def pendingDial_remove_def new_conn_def gm_put_def)
  ultimately show ?thesis by blast
qed

lemma carry_dial_ok:
  assumes "gt_dialer t = DialerSends ''tcp'' address random" and "gt_serve t = TunnelRecv" and "\<not> gt_closing t"
    and "pendingDial_get random t" and "\<not> gt_done t" and "gt_conns t = []"
    and "smooth w" and "fst (w_getBackend address w) = Ret (Inr b)"
    and "ag_serve a = ServeLoop" and "\<not> ag_stopped a" and "0 < ag_channelSize a"
    and "connID = wrap64 (ag_nextConnID a + 1)" and "connID \<noteq> 0"
  shows "\<exists>s. carry_dial f b agentID random \<lparr>pa_client = t, pa_server = w, pa_agent = a\<rparr> = Ret s \<and>
     path_open f b agentID connID (length (ag_endpoints a)) s \<and>
     ec_written (ag_endpoints (pa_agent s) ! length (ag_endpoints a)) = [] \<and> gt_read (pa_client s) = gt_read t \<and>
     filed random (agentID, connID) w (pa_server s) \<and> (server_inv w \<longrightarrow> server_inv (pa_server s))"
proof -
  let ?i = "length (ag_endpoints a)"
  let ?req = "newDialRequestPacket ''tcp'' address random" and ?rsp = "newDialResponsePacket random connID []"
  let ?t1 = "t\<lparr>gt_log := gt_log t @ [(?req, None)], gt_dialer := DialerWaits random\<rparr>"
  have t1: "dialContext_step random None DialSelectDone t = ?t1"
    using assms(1) by (simp add: dialContext_step_def tunnel_Send_def)
  from server_dial [OF assms(7,8)] obtain es w1 where
    w1: "server_runs (serveRecvFrontend f [?req] None 0 Stop) w = Ret (es, w1)" "to_agent b es = [?req]"
      "dialled f b random w w1"
    by blast
  from agent_dialled [OF assms(9-12) refl] obtain a1 a2 where
    a2: "agent_receives [?req] a = Ret a1" "agent_answers ?i a1 = Ret a2" "agent_open connID ?i a2"
      "ec_log (ag_endpoints a2 ! ?i) = [(?rsp, None)]" "ec_written (ag_endpoints a2 ! ?i) = []"
    by blast
  have "smooth w1" using assms(7) w1(3) by (simp add: smooth_def dialled_def)
  from server_establishes [OF this w1(3)] obtain es' w2 where
    w2: "server_runs (agent_packets b agentID [?rsp] Stop) w1 = Ret (es', w2)" "to_frontend f es' = [?rsp]"
      "server_open f b agentID connID w2" "filed random (agentID, connID) w w2"
    by blast
  have "good 0 (serveRecvFrontend f [?req] None 0 Stop)" by (rule good_serveRecvFrontend) simp_all
  moreover have "good 0 (agent_packets b agentID [?rsp] Stop)"
    by (simp add: agent_packet_def newDialResponsePacket_def GetDialResponse_def good_backend_DIAL_RSP)
  ultimately have inv: "server_inv w \<Longrightarrow> server_inv w2" using good_runs w1(1) w2(1) by blast
  have "pendingDial_get random ?t1" using assms(4) by (simp add: pendingDial_get_def)
  with client_dialled [of ?t1 random connID random] assms(2,3,5,6) obtain t2 where
    t2: "client_receives [?rsp] ?t1 = Ret t2" "client_open connID ((dialContext_step random None DialSelectDone ^^ 3) t2)"
      "gt_read ((dialContext_step random None DialSelectDone ^^ 3) t2) = gt_read t"
    by auto
  from w1(1,2) a2 w2 t2 assms(13) inv show ?thesis
    by (simp add: carry_dial_def Let_def t1 sent_new path_open_def
        del: agent_receives.simps serveRecvFrontend.simps agent_packets.simps client_receives.simps)
qed

subsection \<open>The close\<close>

lemma server_close_down:
  assumes "smooth w"
  shows "\<exists>es w'. server_runs (serveRecvFrontend f [newCloseRequestPacket connID] (Some b) fc Stop) w = Ret (es, w') \<and>
     to_agent b es = [newCloseRequestPacket connID] \<and> w_established w' = w_established w \<and> w_oracle w' = w_oracle w"
  using smooth_answers [OF assms]
  by (simp add: server_runs_def frontend_CLOSE_REQ_def newCloseRequestPacket_def GetCloseRequest_def Let_def
      w_Send_accepts stream_defs)

lemma server_close_up:
  assumes "server_open f b agentID connID w"
  shows "\<exists>es w'. server_runs (agent_packets b agentID [newCloseResponsePacket connID []] Stop) w = Ret (es, w') \<and>
     to_frontend f es = [newCloseResponsePacket connID []] \<and>
     est_lookup (w_established w') = (est_lookup (w_established w))((agentID, connID) := None)"
proof -
  obtain c where c: "est_lookup (w_established w) (agentID, connID) = Some c" "pc_frontend c = Some f" "smooth w"
    using assms by (auto simp: server_open_def split: option.splits)
  have r: "fst (removeEstablished agentID connID (w_established w)) = Some c"
    "est_lookup (snd (removeEstablished agentID connID (w_established w))) =
       (est_lookup (w_established w))((agentID, connID) := None)"
    using c(1) by (simp_all add: removeEstablished_spec fun_eq_iff del: split_paired_All)
  show ?thesis
    using c smooth_answers [OF c(3)] r
    by (simp add: server_runs_def agent_packet_def backend_CLOSE_RSP_def newCloseResponsePacket_def
        GetCloseResponse_def Let_def w_removeEstablished_def case_prod_unfold observe_def log_effects_def
        client_send_def Frontend_Send_log stream_defs)
qed

text \<open>The cleanup of an endpoint, step by step.\<close>

definition closed_endpoint :: "endpoint \<Rightarrow> endpoint" where
  "closed_endpoint e = e\<lparr>ec_clean := CleanDone, ec_sendClosed := True, ec_proxy := ProxyDone, ec_sendDone := True,
     ec_log := ec_log e @ [(closePacket e, None)], ec_dataClosed := True, ec_deleted := True, ec_connClosed := True\<rparr>"

abbreviation with_endpoint :: "nat \<Rightarrow> endpoint \<Rightarrow> agent_client \<Rightarrow> agent_client" where
  "with_endpoint i e a \<equiv> a\<lparr>ag_endpoints := (ag_endpoints a)[i := e]\<rparr>"

lemma endpoint_acts_step:
  assumes "i < length (ag_endpoints a)" and "act e = Ret e'" and "ec_added e' = ec_added e" and "ec_deleted e' = ec_deleted e"
  shows "endpoint_acts i (act # acts) (with_endpoint i e a) = endpoint_acts i acts (with_endpoint i e' a)"
  using assms by (simp add: put_endpoint_def)

lemma endpoint_acts_delete:
  assumes "i < length (ag_endpoints a)" and "act e = Ret e'" and "ec_added e' = ec_added e" and "\<not> ec_deleted e"
    and "ec_deleted e'"
  shows "endpoint_acts i (act # acts) (with_endpoint i e a) =
    endpoint_acts i acts (with_endpoint i e' (cm_Delete (ec_connID e') a))"
  using assms by (cases a) (simp add: put_endpoint_def cm_Delete_def)

lemma endpoint_cleans:
  assumes "endpoint_open connID e" and "i < length (ag_endpoints a)"
  shows "endpoint_acts i [cleanup_step None, sendChannelToProxy_step None, sendChannelToProxy_step None,
       cleanup_step None, cleanup_step None, cleanup_step None, cleanup_step None, cleanup_step None]
       (with_endpoint i (e\<lparr>ec_clean := CleanWaitDial\<rparr>) a) =
     Ret (with_endpoint i (closed_endpoint e) (cm_Delete connID a))"
proof -
  let ?p = "newCloseResponsePacket connID []"
  let ?e1 = "e\<lparr>ec_clean := CleanWaitSend, ec_sendClosed := True\<rparr>"
  let ?e3 = "?e1\<lparr>ec_proxy := ProxyDone, ec_sendDone := True\<rparr>"
  let ?e5 = "?e3\<lparr>ec_clean := CleanCloseData, ec_log := ec_log e @ [(closePacket e, None)]\<rparr>"
  note o = assms(1) [unfolded endpoint_open_def]
  have "cleanup_step None (e\<lparr>ec_clean := CleanWaitDial\<rparr>) = Ret ?e1"
    "sendChannelToProxy_step None ?e1 = Ret (?e1\<lparr>ec_proxy := ProxyDrains\<rparr>)"
    "sendChannelToProxy_step None (?e1\<lparr>ec_proxy := ProxyDrains\<rparr>) = Ret ?e3"
    "cleanup_step None ?e3 = Ret (?e3\<lparr>ec_clean := CleanSendClose\<rparr>)"
    "cleanup_step None (?e3\<lparr>ec_clean := CleanSendClose\<rparr>) = Ret ?e5"
    "cleanup_step None ?e5 = Ret (?e5\<lparr>ec_dataClosed := True, ec_clean := CleanDelete\<rparr>)"
    "cleanup_step None (?e5\<lparr>ec_dataClosed := True, ec_clean := CleanDelete\<rparr>) =
       Ret (?e5\<lparr>ec_dataClosed := True, ec_deleted := True, ec_clean := CleanCloseConn\<rparr>)"
    "cleanup_step None (?e5\<lparr>ec_dataClosed := True, ec_deleted := True, ec_clean := CleanCloseConn\<rparr>) = Ret (closed_endpoint e)"
    using o by (simp_all add: cleanup_step_def sendChannelToProxy_step_def closePacket_def closed_endpoint_def)
  note steps = this
  note clean = trans [OF endpoint_acts_step [where act = "cleanup_step None", OF assms(2)]]
    and send = trans [OF endpoint_acts_step [where act = "sendChannelToProxy_step None", OF assms(2)]]
    and delete = trans [OF endpoint_acts_delete [where act = "cleanup_step None", OF assms(2)]]
    and last = trans [OF endpoint_acts_step [where act = "cleanup_step None"]]
  show ?thesis
    apply (rule clean [OF steps(1)], simp, simp)
    apply (rule send [OF steps(2)], simp, simp)
    apply (rule send [OF steps(3)], simp, simp)
    apply (rule clean [OF steps(4)], simp, simp)
    apply (rule clean [OF steps(5)], simp, simp)
    apply (rule clean [OF steps(6)], simp, simp)
    apply (rule delete [OF steps(7)], simp, use o in simp, simp)
    apply (rule last [OF _ steps(8)])
    using o assms(2) apply (simp_all add: cm_Delete_def closed_endpoint_def)
    done
qed

lemma agent_closed:
  assumes "agent_open connID i a" and "connID \<noteq> 0"
  shows "\<exists>a1 a2. agent_receives [newCloseRequestPacket connID] a = Ret a1 \<and> agent_cleans i a1 = Ret a2 \<and>
     cm_Get connID a2 = None \<and> ag_serve a2 = ServeLoop \<and> ag_endpoints a2 ! i = closed_endpoint (ag_endpoints a ! i)"
proof -
  let ?e = "ag_endpoints a ! i"
  let ?a1 = "with_endpoint i (?e\<lparr>ec_clean := CleanWaitDial\<rparr>) (a\<lparr>ag_serve := ServeClean i\<rparr>)"
  let ?a2 = "with_endpoint i (closed_endpoint ?e) (cm_Delete connID (a\<lparr>ag_serve := ServeClean i\<rparr>))"
  have i: "i < length (ag_endpoints a)" and e: "endpoint_open connID ?e" using assms(1) by (simp_all add: agent_open_def)
  have "agent_receives [newCloseRequestPacket connID] a = Ret ?a1"
    using assms(1) e i
    by (simp add: agent_open_def endpoint_open_def Serve_step_def Serve_packet_def agent_CLOSE_REQ_def
        newCloseRequestPacket_def GetCloseRequest_def Serve_cleanup_def cleanup_start_def endpoint_put Let_def)
  moreover have "agent_cleans i ?a1 = Serve_step True None (Inr None) ?a2"
    using endpoint_cleans [OF e, of i "a\<lparr>ag_serve := ServeClean i\<rparr>"] i by (simp only: agent_cleans_def) simp
  moreover have "Serve_step True None (Inr None) ?a2 = Ret (?a2\<lparr>ag_serve := ServeLoop\<rparr>)"
    using i by (simp add: Serve_step_def Serve_cleanup_def cleanup_start_def closed_endpoint_def cm_Delete_def
        endpoint_put Let_def)
  ultimately show ?thesis using i by (simp add: cm_Get_def cm_Delete_def)
qed

lemma client_closes:
  assumes "client_open connID t" and "gt_conn t = Some c" and "connID \<noteq> 0"
  shows "snd (conn_Close None c t) = t\<lparr>gt_conn := Some (c\<lparr>cc_closing := True\<rparr>),
     gt_log := gt_log t @ [(newCloseRequestPacket connID, None)], gt_closers := gt_closers t @ [AwaitsCloseResponse]\<rparr>"
  using assms by (simp add: client_open_def conn_Close_def sendCloseRequest_def tunnel_Send_def Let_def)

lemma client_closed:
  assumes "gt_serve t = TunnelRecv" and "\<not> gt_closing t" and "\<not> gt_done t" and "gt_conns t = [(connID, ())]"
    and "gt_conn t = Some c" and "\<not> cc_readClosed c" and "cc_closeCh c = []" and "\<not> cc_closeClosed c"
  shows "\<exists>t2 t3. client_receives [newCloseResponsePacket connID err] t = Ret t2 \<and> client_ends 5 t2 = Ret t3 \<and>
     gt_done t3 \<and> gt_serve t3 = TunnelDone \<and> gt_conns t3 = [] \<and> gt_read t3 = gt_read t \<and>
     gt_conn t3 = Some (c\<lparr>cc_readClosed := True, cc_closeCh := [err], cc_closeClosed := True\<rparr>)"
proof -
  let ?c = "c\<lparr>cc_readClosed := True\<rparr>"
  let ?t2 = "t\<lparr>gt_recv := gt_recv t @ [newCloseResponsePacket connID err], gt_conn := Some ?c,
    gt_serve := TunnelAck connID err\<rparr>"
  let ?t3 = "?t2\<lparr>gt_conns := [], gt_conn := Some (?c\<lparr>cc_closeCh := [err], cc_closeClosed := True\<rparr>),
    gt_grpcCloses := Suc (gt_grpcCloses t)\<rparr>"
  have 1: "client_receives [newCloseResponsePacket connID err] t = Ret ?t2"
    using assms by (simp add: tunnel_serve_def tunnel_recv_def serve_packet_def tunnel_CLOSE_RSP_def
        newCloseResponsePacket_def GetCloseResponse_def conns_get_def gm_get_def close_readCh_def)
  have 2: "tunnel_serve (Inr None) None SelectChannel ?t2 = Ret (?t2\<lparr>gt_conns := [],
      gt_conn := Some (?c\<lparr>cc_closeCh := [err], cc_closeClosed := True\<rparr>), gt_serve := TunnelCloseConn\<rparr>)"
    using assms by (simp add: tunnel_serve_def tunnel_ack_def serve_return_def conns_remove_def gm_delete_def)
  have 3: "client_ends 4 (?t2\<lparr>gt_conns := [], gt_conn := Some (?c\<lparr>cc_closeCh := [err], cc_closeClosed := True\<rparr>),
      gt_serve := TunnelCloseConn\<rparr>) = Ret ((closeMetric (?t3\<lparr>gt_serve := TunnelCloseMetric\<rparr>))\<lparr>gt_done := True, gt_serve := TunnelDone\<rparr>)"
    using assms(3) by (simp add: numeral_eq_Suc tunnel_serve_def closeMetric_def)
  have "client_ends 5 ?t2 = Ret ((closeMetric (?t3\<lparr>gt_serve := TunnelCloseMetric\<rparr>))\<lparr>gt_done := True, gt_serve := TunnelDone\<rparr>)"
    using client_ends.simps(2) [of 4 ?t2] 2 3 by simp
  with 1 show ?thesis by (simp add: closeMetric_def assms(3))
qed

definition path_closed :: "string \<Rightarrow> int \<Rightarrow> nat \<Rightarrow> path \<Rightarrow> bool" where
  "path_closed agentID connID i s \<longleftrightarrow> gt_done (pa_client s) \<and> gt_conns (pa_client s) = [] \<and>
     est_lookup (w_established (pa_server s)) (agentID, connID) = None \<and>
     cm_Get connID (pa_agent s) = None \<and> ag_serve (pa_agent s) = ServeLoop \<and> ec_connClosed (ag_endpoints (pa_agent s) ! i)"

lemma carry_close_ok:
  assumes "path_open f b agentID connID i s"
  shows "\<exists>s'. carry_close f b agentID fc i s = Ret s' \<and> path_closed agentID connID i s' \<and>
     ec_written (ag_endpoints (pa_agent s') ! i) = ec_written (ag_endpoints (pa_agent s) ! i) \<and>
     gt_read (pa_client s') = gt_read (pa_client s)"
proof -
  let ?t = "pa_client s" and ?e = "ag_endpoints (pa_agent s) ! i"
  from assms have id: "connID \<noteq> 0" and cl: "client_open connID ?t"
    and sv: "server_open f b agentID connID (pa_server s)" and ag: "agent_open connID i (pa_agent s)"
    by (simp_all add: path_open_def)
  obtain c where c: "gt_conn ?t = Some c" using cl by (auto simp: client_open_def split: option.splits)
  let ?t1 = "?t\<lparr>gt_conn := Some (c\<lparr>cc_closing := True\<rparr>), gt_log := gt_log ?t @ [(newCloseRequestPacket connID, None)],
    gt_closers := gt_closers ?t @ [AwaitsCloseResponse]\<rparr>"
  have sm: "smooth (pa_server s)" using sv by (simp add: server_open_def)
  from server_close_down [OF sm] obtain es w1 where
    w1: "server_runs (serveRecvFrontend f [newCloseRequestPacket connID] (Some b) fc Stop) (pa_server s) = Ret (es, w1)"
      "to_agent b es = [newCloseRequestPacket connID]" "w_established w1 = w_established (pa_server s)"
      "w_oracle w1 = w_oracle (pa_server s)"
    by blast
  from agent_closed [OF ag id] obtain a1 a2 where
    a2: "agent_receives [newCloseRequestPacket connID] (pa_agent s) = Ret a1" "agent_cleans i a1 = Ret a2"
      "cm_Get connID a2 = None" "ag_serve a2 = ServeLoop" "ag_endpoints a2 ! i = closed_endpoint ?e"
    by blast
  have ends: "ec_log (closed_endpoint ?e) = ec_log ?e @ [(newCloseResponsePacket connID [], None)]"
    "ec_connClosed (closed_endpoint ?e)" "ec_written (closed_endpoint ?e) = ec_written ?e"
    using ag id by (simp_all add: closed_endpoint_def closePacket_def agent_open_def endpoint_open_def)
  from server_close_up [OF server_open_same [OF sv w1(3,4)]] obtain es' w2 where
    w2: "server_runs (agent_packets b agentID [newCloseResponsePacket connID []] Stop) w1 = Ret (es', w2)"
      "to_frontend f es' = [newCloseResponsePacket connID []]"
      "est_lookup (w_established w2) = (est_lookup (w_established w1))((agentID, connID) := None)"
    by blast
  have "gt_serve ?t1 = TunnelRecv" "\<not> gt_closing ?t1" "\<not> gt_done ?t1" "gt_conns ?t1 = [(connID, ())]"
      "gt_conn ?t1 = Some (c\<lparr>cc_closing := True\<rparr>)" "\<not> cc_readClosed (c\<lparr>cc_closing := True\<rparr>)"
      "cc_closeCh (c\<lparr>cc_closing := True\<rparr>) = []" "\<not> cc_closeClosed (c\<lparr>cc_closing := True\<rparr>)"
    using cl c by (simp_all add: client_open_def)
  from client_closed [OF this, of "[]"] obtain t2 t3 where
    t3: "client_receives [newCloseResponsePacket connID []] ?t1 = Ret t2" "client_ends 5 t2 = Ret t3"
      "gt_done t3" "gt_conns t3 = []" "gt_read t3 = gt_read ?t"
    by auto
  from w1 a2 w2 t3 ends show ?thesis
    by (simp add: carry_close_def c client_closes [OF cl c id] sent_new path_closed_def Let_def
        del: agent_receives.simps serveRecvFrontend.simps agent_packets.simps client_receives.simps)
qed

subsection \<open>Properties\<close>

definition client_dialling :: "string \<Rightarrow> int \<Rightarrow> grpc_tunnel \<Rightarrow> bool" where
  "client_dialling address random t \<longleftrightarrow> gt_dialer t = DialerSends ''tcp'' address random \<and>
     gt_serve t = TunnelRecv \<and> \<not> gt_closing t \<and> pendingDial_get random t \<and> \<not> gt_done t \<and> gt_conns t = []"

definition agent_serving :: "agent_client \<Rightarrow> bool" where
  "agent_serving a \<longleftrightarrow> ag_serve a = ServeLoop \<and> \<not> ag_stopped a \<and> 0 < ag_channelSize a \<and>
     0 \<le> ag_nextConnID a \<and> ag_nextConnID a + 1 < 2 ^ 63"

lemma filed_wrote: "filed random k w w' \<Longrightarrow> wrote w' es w'' \<Longrightarrow> filed random k w w''"
  using wrote_world [of w' es w''] by (simp add: filed_def)

lemma server_inv_wrote: "server_inv w \<Longrightarrow> wrote w es w' \<Longrightarrow> server_inv w'"
  by (auto simp: wrote_def)

lemma dial_and_exchange:
  assumes "client_dialling address random t" and "smooth w" and "fst (w_getBackend address w) = Ret (Inr b)"
    and "agent_serving a" and "list_all (readable n) ms"
  shows "\<exists>s s'. carry_dial f b agentID random \<lparr>pa_client = t, pa_server = w, pa_agent = a\<rparr> = Ret s \<and>
     exchange f b agentID (ag_nextConnID a + 1) (length (ag_endpoints a)) n 0 ms s = Ret s' \<and>
     path_open f b agentID (ag_nextConnID a + 1) (length (ag_endpoints a)) s' \<and>
     ec_written (ag_endpoints (pa_agent s') ! length (ag_endpoints a)) = downs ms \<and>
     gt_read (pa_client s') = gt_read t @ ups ms \<and>
     filed random (agentID, ag_nextConnID a + 1) w (pa_server s') \<and> (server_inv w \<longrightarrow> server_inv (pa_server s'))"
proof -
  have c: "gt_dialer t = DialerSends ''tcp'' address random" "gt_serve t = TunnelRecv" "\<not> gt_closing t"
    "pendingDial_get random t" "\<not> gt_done t" "gt_conns t = []"
    using assms(1) by (simp_all add: client_dialling_def)
  have a: "ag_serve a = ServeLoop" "\<not> ag_stopped a" "0 < ag_channelSize a"
    and id: "0 \<le> ag_nextConnID a" "ag_nextConnID a + 1 < 2 ^ 63"
    using assms(4) by (simp_all add: agent_serving_def)
  have "ag_nextConnID a + 1 = wrap64 (ag_nextConnID a + 1)" "ag_nextConnID a + 1 \<noteq> 0"
    using id by (simp_all add: in_int64_def)
  from carry_dial_ok [OF c assms(2,3) a this] obtain s where
    s: "carry_dial f b agentID random \<lparr>pa_client = t, pa_server = w, pa_agent = a\<rparr> = Ret s"
      "path_open f b agentID (ag_nextConnID a + 1) (length (ag_endpoints a)) s"
      "ec_written (ag_endpoints (pa_agent s) ! length (ag_endpoints a)) = []" "gt_read (pa_client s) = gt_read t"
      "filed random (agentID, ag_nextConnID a + 1) w (pa_server s)" "server_inv w \<Longrightarrow> server_inv (pa_server s)"
    by blast
  from exchange_ok [OF s(2) _ assms(5), of 0] s(3,4) obtain s' es where
    s': "exchange f b agentID (ag_nextConnID a + 1) (length (ag_endpoints a)) n 0 ms s = Ret s'"
      "path_open f b agentID (ag_nextConnID a + 1) (length (ag_endpoints a)) s'"
      "ec_written (ag_endpoints (pa_agent s') ! length (ag_endpoints a)) = downs ms"
      "gt_read (pa_client s') = gt_read t @ ups ms" "wrote (pa_server s) es (pa_server s')"
    by auto
  from filed_wrote [OF s(5) s'(5)] server_inv_wrote [OF _ s'(5)] s(1,6) s' show ?thesis by blast
qed


definition path_client :: grpc_tunnel where
  "path_client = (dialContext_step 7 None DialSelectDone ^^ 4) (DialContext_start ''tcp'' ''h:1'' newUnstartedTunnel)"

definition path_server :: world where
  "path_server = sample_world\<lparr>w_nextBackend := 1, w_managers := addBackend quiet_heap 0 (w_managers sample_world)\<rparr>"


end
