(* ===== verification/KNP_Cleanup.thy ===== *)
theory KNP_Cleanup
  imports KNP_EndToEnd
begin

section \<open>What the cleanups of the server send\<close>

text \<open>
  The deferred cleanups of the server's two reading loops, on streams that work: exactly which
  packets they hand to one frontend and to one agent, and what they leave in the tables. The
  theory of the server's own properties shows that everyone concerned is told; here the packets of
  one stream are determined, so that the component at its other end can run on them.
\<close>

subsection \<open>Who uses a frontend\<close>

text \<open>
  The entries that the server addresses to a frontend, and those that belong to it: the cleanup of
  a stream finds its entries by the \<^verbatim>\<open>streamUID\<close>.
\<close>

definition uses :: "frontend \<Rightarrow> client_conn \<Rightarrow> bool" where
  "uses f c \<longleftrightarrow> (case pc_frontend c of None \<Rightarrow> False | Some g \<Rightarrow> fr_id g = fr_id f)"

definition belongs :: "frontend \<Rightarrow> client_conn \<Rightarrow> bool" where
  "belongs f c \<longleftrightarrow> uses f c \<or> on_stream (fr_streamUID f) c"

definition no_pending :: "frontend \<Rightarrow> world \<Rightarrow> bool" where
  "no_pending f w \<longleftrightarrow> (\<forall>k c. gm_get (pd_map (w_pending w)) k = Some c \<longrightarrow> \<not> belongs f c)"

definition no_connection :: "frontend \<Rightarrow> world \<Rightarrow> bool" where
  "no_connection f w \<longleftrightarrow> (\<forall>k c. est_lookup (w_established w) k = Some c \<longrightarrow> \<not> belongs f c)"

definition unused :: "frontend \<Rightarrow> world \<Rightarrow> bool" where
  "unused f w \<longleftrightarrow> no_pending f w \<and> no_connection f w"

text \<open>Nothing but the connection \<open>k\<close> belongs to the frontend.\<close>

definition carries_only :: "frontend \<Rightarrow> string \<times> int \<Rightarrow> world \<Rightarrow> bool" where
  "carries_only f k w \<longleftrightarrow> no_pending f w \<and>
     (\<forall>k' c. est_lookup (w_established w) k' = Some c \<longrightarrow> belongs f c \<longrightarrow> k' = k)"

subsection \<open>The loops of the cleanups, exactly\<close>

text \<open>\<open>silent w es w'\<close>: only the log, by \<open>es\<close>, and the position in the oracle have changed.\<close>

definition silent :: "world \<Rightarrow> effect list \<Rightarrow> world \<Rightarrow> bool" where
  "silent w es w' \<longleftrightarrow> w_log w' = w_log w @ es \<and> w_oracle w' = w_oracle w \<and>
     w_pending w' = w_pending w \<and> w_established w' = w_established w"

lemma silent_Nil: "silent w [] w"
  by (simp add: silent_def)

lemma silent_trans: "silent w es w' \<Longrightarrow> silent w' es' w'' \<Longrightarrow> silent w (es @ es') w''"
  by (simp add: silent_def)

lemma silent_smooth: "silent w es w' \<Longrightarrow> smooth w \<Longrightarrow> smooth w'"
  by (simp add: silent_def smooth_def)

lemma stream_append [simp]:
  "to_frontend f (es @ es') = to_frontend f es @ to_frontend f es'"
  "to_agent b (es @ es') = to_agent b es @ to_agent b es'"
  by (simp_all add: to_frontend_def to_agent_def List.map_filter_def)

lemma silent_Frontend_Send:
  assumes "smooth w"
  shows "\<exists>es. silent w es (snd (Frontend_Send g p w)) \<and> fst (Frontend_Send g p w) = None \<and>
     to_frontend f es = (if fr_id g = fr_id f then [p] else []) \<and> to_agent b es = []"
  using smooth_answers [OF assms] by (simp add: Frontend_Send_log silent_def stream_defs)

lemma silent_w_Send:
  assumes "smooth w"
  shows "\<exists>es. silent w es (snd (w_Send b' p w)) \<and> fst (w_Send b' p w) = None \<and>
     to_agent b es = (if b' = b then [p] else []) \<and> to_frontend f es = []"
  using smooth_answers [OF assms] by (simp add: w_Send_accepts silent_def stream_defs)

definition quiet_effect :: "effect \<Rightarrow> bool" where
  "quiet_effect e \<longleftrightarrow> (case e of ToAgent _ _ _ \<Rightarrow> False | ToFrontend _ _ _ \<Rightarrow> False | _ \<Rightarrow> True)"

lemma silent_observe:
  "quiet_effect e \<Longrightarrow> silent w [e] (snd (observe e w)) \<and> to_frontend f [e] = [] \<and> to_agent b [e] = []"
  by (auto simp: silent_def observe_def log_effects_def stream_defs quiet_effect_def split: effect.splits)

text \<open>A loop whose body sends what \<open>pf\<close> and \<open>pa\<close> say of each connection.\<close>

lemma run_each_exact:
  assumes body: "\<And>c w k. c \<in> set cs \<Longrightarrow> smooth w \<Longrightarrow>
     \<exists>es w'. run (body c k) w = run k w' \<and> silent w es w' \<and> to_frontend f es = pf c \<and> to_agent b es = pa c"
    and "smooth w"
  shows "\<exists>es w'. run (each body cs k) w = run k w' \<and> silent w es w' \<and>
     to_frontend f es = concat (map pf cs) \<and> to_agent b es = concat (map pa cs)"
  using assms
proof (induction cs arbitrary: w)
  case Nil
  then show ?case using silent_Nil by (fastforce simp: stream_defs)
next
  case (Cons c cs)
  obtain es1 w1 where 1: "run (body c (each body cs k)) w = run (each body cs k) w1" "silent w es1 w1"
      "to_frontend f es1 = pf c" "to_agent b es1 = pa c"
    using Cons.prems by (meson list.set_intros(1))
  have "smooth w1" using silent_smooth [OF 1(2)] Cons.prems(2) by blast
  then obtain es2 w2 where 2: "run (each body cs k) w1 = run k w2" "silent w1 es2 w2"
      "to_frontend f es2 = concat (map pf cs)" "to_agent b es2 = concat (map pa cs)"
    using Cons.IH [of w1] Cons.prems(1) by (metis list.set_intros(2))
  from 1 2 silent_trans [OF 1(2) 2(2)] show ?case
    by (intro exI [of _ "es1 @ es2"] exI [of _ w2]) simp
qed

lemma concat_if_filter: "concat (map (\<lambda>c. if P c then [g c] else []) cs) = map g (filter P cs)"
  by (induction cs) simp_all

text \<open>\<open>sends t k w ps qs\<close>: \<open>t\<close> continues with \<open>k\<close>, having sent \<open>ps\<close> to the frontend and \<open>qs\<close> to the agent.\<close>

definition sends :: "frontend \<Rightarrow> bid \<Rightarrow> thread \<Rightarrow> thread \<Rightarrow> world \<Rightarrow> packet list \<Rightarrow> packet list \<Rightarrow> bool" where
  "sends f b t k w ps qs \<longleftrightarrow> (\<exists>es w'. run t w = run k w' \<and> silent w es w' \<and> to_frontend f es = ps \<and> to_agent b es = qs)"

lemma sends_client:
  assumes "smooth w" and "pc_frontend c = Some g"
  shows "sends f b (client_send c p (\<lambda>err. k)) k w (if uses f c then [p] else []) []"
proof -
  obtain es where es: "silent w es (snd (Frontend_Send g p w))"
      "to_frontend f es = (if fr_id g = fr_id f then [p] else [])" "to_agent b es = []"
    using silent_Frontend_Send [OF assms(1)] by blast
  show ?thesis unfolding sends_def
    by (rule exI [of _ es], rule exI [of _ "snd (Frontend_Send g p w)"])
      (use es in \<open>simp add: client_send_def assms(2) uses_def\<close>)
qed

lemma sends_agent:
  assumes "smooth w"
  shows "sends f b (atomically (w_Send b' p) (\<lambda>err. k)) k w [] (if b' = b then [p] else [])"
proof -
  obtain es where es: "silent w es (snd (w_Send b' p w))" "to_agent b es = (if b' = b then [p] else [])"
      "to_frontend f es = []"
    using silent_w_Send [OF assms] by blast
  show ?thesis unfolding sends_def
    by (rule exI [of _ es], rule exI [of _ "snd (w_Send b' p w)"]) (use es in simp)
qed

lemma sends_observe:
  assumes "quiet_effect e" and "smooth w" and "\<And>w. smooth w \<Longrightarrow> sends f b t k w ps qs"
  shows "sends f b (atomically (observe e) (\<lambda>_. t)) k w ps qs"
proof -
  note o = silent_observe [OF assms(1), of w f b]
  have "smooth (snd (observe e w))" using o silent_smooth assms(2) by blast
  from assms(3) [OF this] obtain es w' where
    es: "run t (snd (observe e w)) = run k w'" "silent (snd (observe e w)) es w'" "to_frontend f es = ps" "to_agent b es = qs"
    by (auto simp: sends_def)
  show ?thesis unfolding sends_def
    by (rule exI [of _ "[e] @ es"], rule exI [of _ w'])
      (use o es silent_trans [of w "[e]" "snd (observe e w)" es w'] stream_append(1) [of f "[e]" es]
        stream_append(2) [of b "[e]" es] in simp)
qed

lemma sends_each:
  assumes "\<And>c w k. c \<in> set cs \<Longrightarrow> smooth w \<Longrightarrow>
      sends f b (body c k) k w (if P c then [p c] else []) (if Q c then [q c] else [])"
    and "smooth w"
  shows "sends f b (each body cs k) k w (map p (filter P cs)) (map q (filter Q cs))"
  using run_each_exact [of cs body f "\<lambda>c. if P c then [p c] else []" b "\<lambda>c. if Q c then [q c] else []" w k] assms
  unfolding sends_def concat_if_filter by blast

lemma exact_close_frontends:
  assumes "smooth w" and "\<forall>c \<in> set cs. pc_frontend c \<noteq> None"
  shows "sends f b (close_frontends cs k) k w
     (map (\<lambda>c. newCloseResponsePacket (pc_connectID c) []) (filter (uses f) cs)) []"
proof -
  let ?body = "\<lambda>c k. client_send c (newCloseResponsePacket (pc_connectID c) []) (\<lambda>err. k)"
  have eq: "close_frontends cs k = each ?body cs k" by (induction cs) auto
  have "sends f b (each ?body cs k) k w (map (\<lambda>c. newCloseResponsePacket (pc_connectID c) []) (filter (uses f) cs))
      (map (\<lambda>c. newDrainPacket) (filter (\<lambda>c. False) cs))"
  proof (rule sends_each [OF _ assms(1)])
    fix c w and k :: thread
    assume "c \<in> set cs" "smooth w"
    then obtain g where "pc_frontend c = Some g" using assms(2) by auto
    from sends_client [OF \<open>smooth w\<close> this, of f b "newCloseResponsePacket (pc_connectID c) []" k]
    show "sends f b (?body c k) k w (if uses f c then [newCloseResponsePacket (pc_connectID c) []] else [])
        (if False then [newDrainPacket] else [])" by simp
  qed
  then show ?thesis by (simp add: eq)
qed

lemma exact_fail_dials:
  assumes "smooth w" and "\<forall>c \<in> set cs. pc_frontend c \<noteq> None"
  shows "sends f b (fail_dials cs k) k w (map dial_lost (filter (uses f) cs)) []"
proof -
  let ?body = "\<lambda>c k. atomically (observe (ObserveDialFailure DialFailureBackendClose)) (\<lambda>_.
      client_send c (dial_lost c) (\<lambda>err. k))"
  have eq: "fail_dials cs k = each ?body cs k" by (induction cs) auto
  have "sends f b (each ?body cs k) k w (map dial_lost (filter (uses f) cs))
      (map (\<lambda>c. newDrainPacket) (filter (\<lambda>c. False) cs))"
  proof (rule sends_each [OF _ assms(1)])
    fix c w and k :: thread
    assume "c \<in> set cs" "smooth w"
    then obtain g where "pc_frontend c = Some g" using assms(2) by auto
    from sends_client [OF _ this, of _ f b "dial_lost c" k] \<open>smooth w\<close>
    show "sends f b (?body c k) k w (if uses f c then [dial_lost c] else []) (if False then [newDrainPacket] else [])"
      by (intro sends_observe) (simp_all add: quiet_effect_def)
  qed
  then show ?thesis by (simp add: eq)
qed

lemma exact_close_dials:
  assumes "smooth w" and "\<forall>c \<in> set cs. pc_backend c \<noteq> None"
  shows "sends f b (close_dials cs k) k w []
     (map (\<lambda>c. newDialClosePacket (pc_dialID c)) (filter (\<lambda>c. pc_backend c = Some b) cs))"
proof -
  let ?body = "\<lambda>c k. sendBackendDialClose (pc_backend c) (pc_dialID c) k"
  have eq: "close_dials cs k = each ?body cs k" by (induction cs) auto
  have "sends f b (each ?body cs k) k w (map (\<lambda>c. newDrainPacket) (filter (\<lambda>c. False) cs))
      (map (\<lambda>c. newDialClosePacket (pc_dialID c)) (filter (\<lambda>c. pc_backend c = Some b) cs))"
  proof (rule sends_each [OF _ assms(1)])
    fix c w and k :: thread
    assume "c \<in> set cs" "smooth w"
    then obtain x where "pc_backend c = Some x" using assms(2) by auto
    with sends_agent [OF \<open>smooth w\<close>, of f b x "newDialClosePacket (pc_dialID c)" k]
    show "sends f b (?body c k) k w (if False then [newDrainPacket] else [])
        (if pc_backend c = Some b then [newDialClosePacket (pc_dialID c)] else [])"
      by (simp add: sendBackendDialClose_def)
  qed
  then show ?thesis by (simp add: eq)
qed

lemma exact_close_conns:
  assumes "smooth w" and "\<forall>c \<in> set cs. pc_backend c \<noteq> None"
  shows "sends f b (close_conns cs k) k w []
     (map (\<lambda>c. newCloseRequestPacket (pc_connectID c)) (filter (\<lambda>c. pc_backend c = Some b) cs))"
proof -
  let ?body = "\<lambda>c k. atomically (observe (ObserveConnectionsClosed ConnectionClosedFrontendClose 1)) (\<lambda>_.
      sendBackendClose (pc_backend c) (pc_connectID c) k)"
  have eq: "close_conns cs k = each ?body cs k" by (induction cs) auto
  have "sends f b (each ?body cs k) k w (map (\<lambda>c. newDrainPacket) (filter (\<lambda>c. False) cs))
      (map (\<lambda>c. newCloseRequestPacket (pc_connectID c)) (filter (\<lambda>c. pc_backend c = Some b) cs))"
  proof (rule sends_each [OF _ assms(1)])
    fix c w and k :: thread
    assume "c \<in> set cs" "smooth w"
    then obtain x where "pc_backend c = Some x" using assms(2) by auto
    with \<open>smooth w\<close> sends_agent [of _ f b x "newCloseRequestPacket (pc_connectID c)" k]
    show "sends f b (?body c k) k w (if False then [newDrainPacket] else [])
        (if pc_backend c = Some b then [newCloseRequestPacket (pc_connectID c)] else [])"
      by (intro sends_observe) (simp_all add: quiet_effect_def sendBackendClose_def)
  qed
  then show ?thesis by (simp add: eq)
qed

subsection \<open>The end of a stream at the server\<close>

lemma distinct_one: "distinct xs \<Longrightarrow> set xs = {x} \<Longrightarrow> xs = [x]"
  by (cases xs; cases "tl xs") auto

lemma filter_single:
  assumes "gm_wf m" and "gm_get m k = Some c" and "P c" and "\<And>k' c'. gm_get m k' = Some c' \<Longrightarrow> P c' \<Longrightarrow> k' = k"
  shows "filter (\<lambda>e. P (snd e)) m = [(k, c)]"
proof (rule distinct_one)
  show "distinct (filter (\<lambda>e. P (snd e)) m)"
    using assms(1) by (simp add: gm_wf_def gm_keys_def distinct_map)
  note get = gm_get_wf_iff [OF assms(1)]
  show "set (filter (\<lambda>e. P (snd e)) m) = {(k, c)}"
  proof (intro equalityI subsetI)
    fix e assume "e \<in> set (filter (\<lambda>e. P (snd e)) m)"
    then have e: "gm_get m (fst e) = Some (snd e)" "P (snd e)" by (simp_all add: get)
    then have "fst e = k" by (rule assms(4))
    with e(1) assms(2) show "e \<in> {(k, c)}" by (cases e) simp
  qed (use assms(2,3) in \<open>simp add: get\<close>)
qed

lemma filter_none:
  assumes "gm_wf m" and "\<And>k c. gm_get m k = Some c \<Longrightarrow> \<not> P c"
  shows "filter (\<lambda>e. P (snd e)) m = []"
  using assms(2) by (auto simp: filter_empty_conv gm_get_wf_iff [OF assms(1), symmetric])

lemma concat_one:
  assumes "distinct es" and "e \<in> set es" and "\<And>e'. e' \<in> set es \<Longrightarrow> e' \<noteq> e \<Longrightarrow> h e' = []"
  shows "concat (map h es) = h e"
  using assms
proof (induction es)
  case (Cons x es)
  show ?case
  proof (cases "x = e")
    case True
    with Cons.prems have "\<forall>e' \<in> set es. h e' = []" by auto
    with True show ?thesis by simp
  qed (use Cons in auto)
qed simp

lemma stream_loop_list:
  assumes "\<forall>e \<in> set es. gm_wf (snd e)"
  shows "snd (stream_loop uid es m) = concat (map (\<lambda>e. map snd (filter (\<lambda>x. on_stream uid (snd x)) (snd e))) es)"
  using assms
  by (induction uid es m rule: stream_loop.induct) (auto simp: sweep_all case_prod_unfold Let_def)

lemma stream_entries_single:
  assumes "est_inv est" and "est_lookup est (agentID, connID) = Some c" and "on_stream uid c" and "uid \<noteq> []"
    and "\<And>k' c'. est_lookup est k' = Some c' \<Longrightarrow> on_stream uid c' \<Longrightarrow> k' = (agentID, connID)"
  shows "fst (removeEstablishedForStream uid est) = [c]"
proof -
  let ?m = "es_conns est" and ?h = "\<lambda>e. map snd (filter (\<lambda>x. on_stream uid (snd x)) (snd e))"
  obtain conns where conns: "gm_get ?m agentID = Some conns" "gm_get conns connID = Some c"
    using assms(2) by (auto simp: est_lookup_Some)
  have wf: "gm_wf ?m" and inner: "\<And>a cs. (a, cs) \<in> set ?m \<Longrightarrow> gm_wf cs"
    using assms(1) by (auto simp: est_inv_def conns_ok_def gm_get_wf_iff)
  have look: "(a, cs) \<in> set ?m \<Longrightarrow> gm_get cs i = Some c' \<Longrightarrow> est_lookup est (a, i) = Some c'" for a cs i c'
    using gm_get_wf_iff [OF wf] by (auto simp: est_lookup_Some)
  have "snd (stream_loop uid ?m ?m) = concat (map ?h ?m)"
    by (rule stream_loop_list) (use inner in auto)
  also have "\<dots> = ?h (agentID, conns)"
  proof (rule concat_one)
    show "distinct ?m" using wf by (simp add: gm_wf_def gm_keys_def distinct_map)
    show "(agentID, conns) \<in> set ?m" using conns(1) gm_get_wf_iff [OF wf] by simp
    fix e assume mem: "e \<in> set ?m" "e \<noteq> (agentID, conns)"
    obtain a cs where "e = (a, cs)" by (cases e)
    with mem conns(1) have e: "e = (a, cs)" "(a, cs) \<in> set ?m" "a \<noteq> agentID"
      by (auto simp: gm_get_wf_iff [OF wf, symmetric])
    have "filter (\<lambda>x. on_stream uid (snd x)) cs = []"
      by (rule filter_none [OF inner [OF e(2)]]) (use assms(5) look [OF e(2)] e(3) in blast)
    then show "?h e = []" by (simp add: e(1))
  qed
  also have "\<dots> = [c]"
  proof -
    have mem: "(agentID, conns) \<in> set ?m" using conns(1) gm_get_wf_iff [OF wf] by simp
    have "filter (\<lambda>x. on_stream uid (snd x)) conns = [(connID, c)]"
      by (rule filter_single [where P = "on_stream uid", OF inner [OF mem] conns(2) assms(3)]) (use assms(5) look [OF mem] in blast)
    then show ?thesis by simp
  qed
  finally show ?thesis using assms(4) by (simp add: removeEstablishedForStream_def case_prod_unfold Let_def)
qed

lemma w_pendingForBackend_spec:
  assumes "server_inv w"
  shows "fst (w_pendingForBackend b w) = map snd (filter (\<lambda>e. pc_backend (snd e) = Some b) (pd_map (w_pending w)))"
    "pd_map (w_pending (snd (w_pendingForBackend b w))) = filter (\<lambda>e. pc_backend (snd e) \<noteq> Some b) (pd_map (w_pending w))"
    "w_oracle (snd (w_pendingForBackend b w)) = w_oracle w" "w_log (snd (w_pendingForBackend b w)) = w_log w"
    "w_established (snd (w_pendingForBackend b w)) = w_established w"
  using pending_wf [OF assms]
  by (simp_all add: w_pendingForBackend_def removeForBackend_def set_pending_def sweep_all case_prod_unfold Let_def)

lemma w_pendingForStream_spec:
  assumes "server_inv w" and "uid \<noteq> []"
  shows "fst (w_pendingForStream uid w) = map snd (filter (\<lambda>e. on_stream uid (snd e)) (pd_map (w_pending w)))"
    "pd_map (w_pending (snd (w_pendingForStream uid w))) = filter (\<lambda>e. \<not> on_stream uid (snd e)) (pd_map (w_pending w))"
    "w_oracle (snd (w_pendingForStream uid w)) = w_oracle w" "w_log (snd (w_pendingForStream uid w)) = w_log w"
    "w_established (snd (w_pendingForStream uid w)) = w_established w"
  using pending_wf [OF assms(1)] assms(2)
  by (simp_all add: w_pendingForStream_def removeForStream_def set_pending_def sweep_all case_prod_unfold Let_def)

text \<open>The dials and the connections that the server drops when an agent's stream ends.\<close>

definition dials_of :: "bid \<Rightarrow> world \<Rightarrow> client_conn list" where
  "dials_of b w = map snd (filter (\<lambda>e. pc_backend (snd e) = Some b) (pd_map (w_pending w)))"

definition conns_of :: "string \<Rightarrow> bid \<Rightarrow> established \<Rightarrow> client_conn list" where
  "conns_of agentID b est =
     (case gm_get (es_conns est) agentID of
        None \<Rightarrow> [] | Some conns \<Rightarrow> map snd (filter (\<lambda>e. pc_backend (snd e) = Some b) conns))"

abbreviation close_lost :: "client_conn \<Rightarrow> packet" where
  "close_lost c \<equiv> newCloseResponsePacket (pc_connectID c) []"

lemma dials_of_frontends:
  assumes "server_inv w"
  shows "\<forall>c \<in> set (dials_of b w). pc_frontend c \<noteq> None"
proof
  fix c assume "c \<in> set (dials_of b w)"
  then obtain k where "gm_get (pd_map (w_pending w)) k = Some c"
    by (auto simp: dials_of_def gm_get_wf_iff [OF pending_wf [OF assms]])
  from entry_of_pending [OF assms this] show "pc_frontend c \<noteq> None" by (simp add: pending_entry_ok_def)
qed

lemma conns_of_lookup:
  assumes "est_inv est" and "c \<in> set (conns_of agentID b est)"
  obtains i where "est_lookup est (agentID, i) = Some c"
proof -
  from assms(2) obtain conns i where "gm_get (es_conns est) agentID = Some conns" "(i, c) \<in> set conns"
    by (cases "gm_get (es_conns est) agentID") (auto simp: conns_of_def)
  with gm_get_wf_iff [OF inner_wf [OF assms(1)]] that show ?thesis by (auto simp: est_lookup_Some)
qed

lemma conns_of_frontends:
  assumes "server_inv w"
  shows "\<forall>c \<in> set (conns_of agentID b (w_established w)). pc_frontend c \<noteq> None"
proof
  fix c assume "c \<in> set (conns_of agentID b (w_established w))"
  then obtain i where "est_lookup (w_established w) (agentID, i) = Some c"
    using conns_of_lookup [OF est_of_world [OF assms]] by blast
  from entry_of_established [OF assms this] show "pc_frontend c \<noteq> None" by (simp add: established_entry_ok_def)
qed

lemma w_establishedForBackend_run:
  assumes "est_inv (w_established w)" and "k [] = k0"
  shows "run (atomically (w_establishedForBackend agentID b) (\<lambda>r. case r of Inl err \<Rightarrow> k0 | Inr cs \<Rightarrow> k cs)) w =
     run (k (conns_of agentID b (w_established w))) (snd (w_establishedForBackend agentID b w))"
  using inner_wf [OF assms(1)] assms(2)
  by (simp add: w_establishedForBackend_def forBackend_alt conns_of_def sweep_all case_prod_unfold Let_def split: option.split)

lemma w_establishedForBackend_frame:
  "w_log (snd (w_establishedForBackend agentID b w)) = w_log w"
  "w_oracle (snd (w_establishedForBackend agentID b w)) = w_oracle w"
  "w_pending (snd (w_establishedForBackend agentID b w)) = w_pending w"
  "w_established (snd (w_establishedForBackend agentID b w)) = snd (removeEstablishedForBackendConn agentID (Some b) (w_established w))"
  by (simp_all add: w_establishedForBackend_def case_prod_unfold Let_def)

lemma run_backend_shutdown:
  assumes "server_inv w" and "smooth w"
  shows "\<exists>es w'. server_runs (serveRecvBackend b agentID [] Stop) w = Ret (es, w') \<and>
     to_frontend f es = map dial_lost (filter (uses f) (dials_of b w)) @
       map close_lost (filter (uses f) (conns_of agentID b (w_established w))) \<and>
     pd_map (w_pending w') = filter (\<lambda>e. pc_backend (snd e) \<noteq> Some b) (pd_map (w_pending w)) \<and>
     w_established w' = snd (removeEstablishedForBackendConn agentID (Some b) (w_established w)) \<and>
     w_oracle w' = w_oracle w"
proof -
  let ?w1 = "snd (w_pendingForBackend b w)" and ?cs = "conns_of agentID b (w_established w)"
  let ?K = "\<lambda>cs. if length cs > 0
      then atomically (observe (ObserveConnectionsClosed ConnectionClosedBackendClose (length cs))) (\<lambda>_. close_frontends cs Stop)
      else close_frontends cs Stop"
  let ?close = "atomically (w_establishedForBackend agentID b) (\<lambda>r. case r of Inl err \<Rightarrow> Stop | Inr cs \<Rightarrow> ?K cs)"
  note w1 = w_pendingForBackend_spec [OF assms(1), of b, folded dials_of_def]
  have run1: "run (serveRecvBackend b agentID [] Stop) w = run (fail_dials (dials_of b w) ?close) ?w1"
    by (simp only: serveRecvBackend.simps backend_shutdown_def run_atomically w1(1))
  have sm1: "smooth ?w1" using assms(2) w1(3) by (simp add: smooth_def)
  from exact_fail_dials [OF sm1 dials_of_frontends [OF assms(1)], of f b b ?close] obtain es1 w2 where
    w2: "run (fail_dials (dials_of b w) ?close) ?w1 = run ?close w2" "silent ?w1 es1 w2"
      "to_frontend f es1 = map dial_lost (filter (uses f) (dials_of b w))"
    unfolding sends_def by blast
  have est2: "w_established w2 = w_established w" using w2(2) w1(5) by (simp add: silent_def)
  define w3 where "w3 = snd (w_establishedForBackend agentID b w2)"
  note w3 = w_establishedForBackend_frame [of agentID b w2, folded w3_def, unfolded est2]
  have run3: "run ?close w2 = run (?K ?cs) w3"
    using w_establishedForBackend_run [of w2 ?K Stop agentID b] est_of_world [OF assms(1)]
    by (simp only: est2 w3_def close_frontends.simps list.size less_irrefl if_False simp_thms)
  have sm3: "smooth w3" using silent_smooth [OF w2(2) sm1] w3(2) by (simp add: smooth_def)
  have close: "smooth v \<Longrightarrow> sends f b (close_frontends ?cs Stop) Stop v (map close_lost (filter (uses f) ?cs)) []" for v
    using exact_close_frontends conns_of_frontends [OF assms(1)] by blast
  have "sends f b (?K ?cs) Stop w3 (map close_lost (filter (uses f) ?cs)) []"
    using close [OF sm3] sends_observe [OF _ sm3 close] by (auto simp: quiet_effect_def)
  then obtain es2 w4 where w4: "run (?K ?cs) w3 = run Stop w4" "silent w3 es2 w4"
      "to_frontend f es2 = map close_lost (filter (uses f) ?cs)"
    unfolding sends_def by blast
  have log: "w_log w4 = w_log w @ (es1 @ es2)" using w1(4) w2(2) w3(1) w4(2) by (simp add: silent_def)
  have "run (serveRecvBackend b agentID [] Stop) w = (Ret (), w4, [])" using run1 w2(1) run3 w4(1) by (simp only: run.simps)
  with log have "server_runs (serveRecvBackend b agentID [] Stop) w = Ret (es1 @ es2, w4)"
    by (simp add: server_runs_def del: serveRecvBackend.simps)
  with w1 w2(2,3) w3 w4(2,3) show ?thesis
    by (intro exI [of _ "es1 @ es2"] exI [of _ w4]) (simp add: silent_def)
qed

text \<open>The same for the stream of a client.\<close>

definition stream_dials :: "frontend \<Rightarrow> world \<Rightarrow> client_conn list" where
  "stream_dials f w = map snd (filter (\<lambda>e. on_stream (fr_streamUID f) (snd e)) (pd_map (w_pending w)))"

lemma stream_dials_backends:
  assumes "server_inv w"
  shows "\<forall>c \<in> set (stream_dials f w). pc_backend c \<noteq> None"
proof
  fix c assume "c \<in> set (stream_dials f w)"
  then obtain k where "gm_get (pd_map (w_pending w)) k = Some c"
    by (auto simp: stream_dials_def gm_get_wf_iff [OF pending_wf [OF assms]])
  from entry_of_pending [OF assms this] show "pc_backend c \<noteq> None"
    by (auto simp: pending_entry_ok_def exists_backend_def)
qed

lemma forStream_backends:
  assumes "server_inv w" and "uid \<noteq> []"
  shows "\<forall>c \<in> set (fst (removeEstablishedForStream uid (w_established w))). pc_backend c \<noteq> None"
proof
  fix c assume "c \<in> set (fst (removeEstablishedForStream uid (w_established w)))"
  then obtain k where "est_lookup (w_established w) k = Some c"
    using forStream_spec [OF est_of_world [OF assms(1)] assms(2)] by blast
  from entry_of_established [OF assms(1) this] show "pc_backend c \<noteq> None"
    by (auto simp: established_entry_ok_def exists_backend_def)
qed

lemma w_establishedForStream_frame:
  "fst (w_establishedForStream uid w) = fst (removeEstablishedForStream uid (w_established w))"
  "w_log (snd (w_establishedForStream uid w)) = w_log w"
  "w_oracle (snd (w_establishedForStream uid w)) = w_oracle w"
  "w_pending (snd (w_establishedForStream uid w)) = w_pending w"
  "w_established (snd (w_establishedForStream uid w)) = snd (removeEstablishedForStream uid (w_established w))"
  by (simp_all add: w_establishedForStream_def case_prod_unfold Let_def)

lemma run_frontend_shutdown:
  assumes "server_inv w" and "smooth w" and "fr_streamUID f \<noteq> []"
  shows "\<exists>es w'. server_runs (frontend_shutdown f Stop) w = Ret (es, w') \<and>
     to_agent b es = map (\<lambda>c. newDialClosePacket (pc_dialID c)) (filter (\<lambda>c. pc_backend c = Some b) (stream_dials f w)) @
       map (\<lambda>c. newCloseRequestPacket (pc_connectID c)) (filter (\<lambda>c. pc_backend c = Some b)
         (fst (removeEstablishedForStream (fr_streamUID f) (w_established w)))) \<and>
     pd_map (w_pending w') = filter (\<lambda>e. \<not> on_stream (fr_streamUID f) (snd e)) (pd_map (w_pending w)) \<and>
     w_established w' = snd (removeEstablishedForStream (fr_streamUID f) (w_established w)) \<and>
     w_oracle w' = w_oracle w"
proof -
  let ?uid = "fr_streamUID f" and ?w1 = "snd (w_pendingForStream (fr_streamUID f) w)"
  let ?cs = "fst (removeEstablishedForStream ?uid (w_established w))"
  let ?close = "atomically (w_establishedForStream ?uid) (\<lambda>cs. close_conns cs Stop)"
  note w1 = w_pendingForStream_spec [OF assms(1,3), folded stream_dials_def]
  have run1: "run (frontend_shutdown f Stop) w = run (close_dials (stream_dials f w) ?close) ?w1"
    by (simp add: frontend_shutdown_def w1(1))
  have sm1: "smooth ?w1" using assms(2) w1(3) by (simp add: smooth_def)
  from exact_close_dials [OF sm1 stream_dials_backends [OF assms(1)], of f b f ?close] obtain es1 w2 where
    w2: "run (close_dials (stream_dials f w) ?close) ?w1 = run ?close w2" "silent ?w1 es1 w2"
      "to_agent b es1 = map (\<lambda>c. newDialClosePacket (pc_dialID c)) (filter (\<lambda>c. pc_backend c = Some b) (stream_dials f w))"
    unfolding sends_def by blast
  have est2: "w_established w2 = w_established w" using w2(2) w1(5) by (simp add: silent_def)
  define w3 where "w3 = snd (w_establishedForStream ?uid w2)"
  note w3 = w_establishedForStream_frame [of ?uid w2, folded w3_def, unfolded est2]
  have run3: "run ?close w2 = run (close_conns ?cs Stop) w3" by (simp add: w3(1) w3_def)
  have sm3: "smooth w3" using silent_smooth [OF w2(2) sm1] w3(3) by (simp add: smooth_def)
  from exact_close_conns [OF sm3 forStream_backends [OF assms(1,3)], of f b Stop] obtain es2 w4 where
    w4: "run (close_conns ?cs Stop) w3 = run Stop w4" "silent w3 es2 w4"
      "to_agent b es2 = map (\<lambda>c. newCloseRequestPacket (pc_connectID c)) (filter (\<lambda>c. pc_backend c = Some b) ?cs)"
    unfolding sends_def by blast
  have log: "w_log w4 = w_log w @ (es1 @ es2)" using w1(4) w2(2) w3(2) w4(2) by (simp add: silent_def)
  have "run (frontend_shutdown f Stop) w = (Ret (), w4, [])" using run1 w2(1) run3 w4(1) by (simp only: run.simps)
  with log have "server_runs (frontend_shutdown f Stop) w = Ret (es1 @ es2, w4)" by (simp add: server_runs_def)
  with w1 w2(2,3) w3 w4(2,3) show ?thesis
    by (intro exI [of _ "es1 @ es2"] exI [of _ w4]) (simp add: silent_def)
qed

end
