(* ===== verification/KNP_Failures.thy ===== *)
theory KNP_Failures
  imports KNP_Cleanup
begin

section \<open>Failures between the client and the endpoint\<close>

text \<open>
  What a client learns when a dial does not succeed, and what is left of a connection when one of
  its two streams ends. As in \<open>KNP_EndToEnd\<close> each hop runs the code of one component on exactly the
  packets that the component before it handed to its stream. The stream of a frontend carries one
  connection, as the konnectivity client uses it: \<open>unused\<close> says that nothing in the server's tables
  belongs to the frontend, and \<open>carries_only\<close> that nothing but the one connection does.
\<close>

subsection \<open>A connection whose stream ends\<close>

lemma pending_kept:
  assumes "server_inv w" and "pd_map (w_pending w') = filter (\<lambda>e. Q (snd e)) (pd_map (w_pending w))" and "no_pending f w"
  shows "no_pending f w'"
  using assms(3) unfolding no_pending_def assms(2) gm_get_filter [OF pending_wf [OF assms(1)]]
  by (auto split: option.splits if_splits)

lemma no_dials_swept:
  assumes "server_inv w" and "no_pending f w"
  shows "filter (uses f) (dials_of b w) = []" and "stream_dials f w = []"
proof -
  have none: "filter (\<lambda>e. belongs f (snd e)) (pd_map (w_pending w)) = []"
    by (rule filter_none [OF pending_wf [OF assms(1)]]) (use assms(2) in \<open>auto simp: no_pending_def\<close>)
  then show "filter (uses f) (dials_of b w) = []" "stream_dials f w = []"
    by (auto simp: dials_of_def stream_dials_def filter_empty_conv belongs_def)
qed

lemma lost_conns:
  assumes "est_inv est" and "est_lookup est (agentID, connID) = Some c" and "pc_backend c = Some b" and "uses f c"
    and "\<And>k' c'. est_lookup est k' = Some c' \<Longrightarrow> belongs f c' \<Longrightarrow> k' = (agentID, connID)"
  shows "filter (uses f) (conns_of agentID b est) = [c]"
proof -
  obtain conns where conns: "gm_get (es_conns est) agentID = Some conns" "gm_get conns connID = Some c"
    using assms(2) by (auto simp: est_lookup_Some)
  have "filter (\<lambda>e. pc_backend (snd e) = Some b \<and> uses f (snd e)) conns = [(connID, c)]"
  proof (rule filter_single [where P = "\<lambda>c. pc_backend c = Some b \<and> uses f c", OF inner_wf [OF assms(1) conns(1)] conns(2)])
    fix k' c' assume "gm_get conns k' = Some c'" "pc_backend c' = Some b \<and> uses f c'"
    with assms(5) [of "(agentID, k')" c'] conns(1) show "k' = connID" by (simp add: est_lookup_def belongs_def)
  qed (use assms(3,4) in simp)
  then show ?thesis by (simp add: conns_of_def conns(1) filter_map comp_def conj_commute)
qed

lemma server_agent_lost:
  assumes "server_inv w" and "server_open f b agentID connID w" and "carries_only f (agentID, connID) w"
  shows "\<exists>es w'. server_runs (serveRecvBackend b agentID [] Stop) w = Ret (es, w') \<and>
     to_frontend f es = [newCloseResponsePacket connID []] \<and> unused f w'"
proof -
  obtain c where c: "est_lookup (w_established w) (agentID, connID) = Some c" "pc_frontend c = Some f" "pc_backend c = Some b"
    and sm: "smooth w"
    using assms(2) by (auto simp: server_open_def split: option.splits)
  have only: "\<And>k' c'. est_lookup (w_established w) k' = Some c' \<Longrightarrow> belongs f c' \<Longrightarrow> k' = (agentID, connID)"
    and none: "no_pending f w"
    using assms(3) unfolding carries_only_def by blast+
  have id: "pc_connectID c = connID" using entry_of_established [OF assms(1) c(1)] by (simp add: established_entry_ok_def)
  have conn: "filter (uses f) (conns_of agentID b (w_established w)) = [c]"
    by (rule lost_conns [OF est_of_world [OF assms(1)] c(1,3) _ only]) (simp add: uses_def c(2))
  from run_backend_shutdown [OF assms(1) sm, of b agentID f] obtain es w' where
    w': "server_runs (serveRecvBackend b agentID [] Stop) w = Ret (es, w')"
      "to_frontend f es = [close_lost c]"
      "pd_map (w_pending w') = filter (\<lambda>e. pc_backend (snd e) \<noteq> Some b) (pd_map (w_pending w))"
      "w_established w' = snd (removeEstablishedForBackendConn agentID (Some b) (w_established w))"
    unfolding no_dials_swept(1) [OF assms(1) none] conn by auto
  have "no_connection f w'"
    unfolding no_connection_def
  proof (intro allI impI notI)
    fix k c' assume k: "est_lookup (w_established w') k = Some c'" "belongs f c'"
    have *: "est_lookup (w_established w) k = Some c'" "\<not> (fst k = agentID \<and> pc_backend c' = Some b)"
      using forBackend_spec [OF est_of_world [OF assms(1)], of agentID b] k(1) unfolding w'(4)
      by (auto split: option.splits if_splits simp del: split_paired_All)
    from only [OF *(1) k(2)] * c show False by simp
  qed
  with pending_kept [OF assms(1) w'(3) none] w'(1,2) id show ?thesis by (auto simp: unused_def)
qed

lemma server_client_lost:
  assumes "server_inv w" and "server_open f b agentID connID w" and "carries_only f (agentID, connID) w"
    and "fr_streamUID f \<noteq> []"
  shows "\<exists>es w'. server_runs (frontend_shutdown f Stop) w = Ret (es, w') \<and>
     to_agent b es = [newCloseRequestPacket connID] \<and> unused f w' \<and>
     est_lookup (w_established w') (agentID, connID) = None \<and> w_oracle w' = w_oracle w"
proof -
  let ?uid = "fr_streamUID f"
  obtain c where c: "est_lookup (w_established w) (agentID, connID) = Some c" "pc_frontend c = Some f" "pc_backend c = Some b"
    and sm: "smooth w"
    using assms(2) by (auto simp: server_open_def split: option.splits)
  have only: "\<And>k' c'. est_lookup (w_established w) k' = Some c' \<Longrightarrow> belongs f c' \<Longrightarrow> k' = (agentID, connID)"
    and none: "no_pending f w"
    using assms(3) unfolding carries_only_def by blast+
  have id: "pc_connectID c = connID" using entry_of_established [OF assms(1) c(1)] by (simp add: established_entry_ok_def)
  have on: "on_stream ?uid c" by (simp add: on_stream_def c(2))
  have conn: "fst (removeEstablishedForStream ?uid (w_established w)) = [c]"
    by (rule stream_entries_single [OF est_of_world [OF assms(1)] c(1) on assms(4)]) (use only in \<open>auto simp: belongs_def\<close>)
  from run_frontend_shutdown [OF assms(1) sm assms(4), of b] obtain es w' where
    w': "server_runs (frontend_shutdown f Stop) w = Ret (es, w')"
      "to_agent b es = [newCloseRequestPacket (pc_connectID c)]"
      "pd_map (w_pending w') = filter (\<lambda>e. \<not> on_stream ?uid (snd e)) (pd_map (w_pending w))"
      "w_established w' = snd (removeEstablishedForStream ?uid (w_established w))" "w_oracle w' = w_oracle w"
    unfolding no_dials_swept(2) [OF assms(1) none] conn using c(3) by auto
  note look = conjunct1 [OF conjunct2 [OF forStream_spec [OF est_of_world [OF assms(1)] assms(4)]], folded w'(4)]
  have gone: "est_lookup (w_established w') (agentID, connID) = None"
    using spec [OF look, of "(agentID, connID)"] c(1) on by simp
  have "no_connection f w'"
    unfolding no_connection_def
  proof (intro allI impI notI)
    fix k c' assume k: "est_lookup (w_established w') k = Some c'" "belongs f c'"
    have "est_lookup (w_established w) k = Some c'"
      using spec [OF look, of k] k(1) by (auto split: option.splits if_splits)
    from only [OF this k(2)] k(1) gone show False by simp
  qed
  with pending_kept [OF assms(1) w'(3) none] w'(1,2,5) id gone show ?thesis by (auto simp: unused_def)
qed

text \<open>
  The stream of the agent ends: the server's loop for it returns, and the client learns it from
  what the server sends. \<open>client_ends\<close> is the rest of the client's receive loop.
\<close>

definition lose_agent :: "frontend \<Rightarrow> bid \<Rightarrow> string \<Rightarrow> path \<Rightarrow> path outcome" where
  "lose_agent f b agentID s =
     bind_outcome (server_runs (serveRecvBackend b agentID [] Stop) (pa_server s)) (\<lambda>(es, w1).
     bind_outcome (client_receives (to_frontend f es) (pa_client s)) (\<lambda>t1.
     bind_outcome (client_ends 5 t1) (\<lambda>t2.
       Ret (s\<lparr>pa_client := t2, pa_server := w1\<rparr>))))"

text \<open>
  The stream of the client ends: \<^verbatim>\<open>proxy\<close> runs its deferred cleanup, the agent cleans up the
  connection, and its answer comes back to a server that has forgotten it.
\<close>

definition lose_client :: "frontend \<Rightarrow> bid \<Rightarrow> string \<Rightarrow> nat \<Rightarrow> path \<Rightarrow> path outcome" where
  "lose_client f b agentID i s =
     (let a = pa_agent s in
      bind_outcome (server_runs (frontend_shutdown f Stop) (pa_server s)) (\<lambda>(es, w1).
      bind_outcome (agent_receives (to_agent b es) a) (\<lambda>a1.
      bind_outcome (agent_cleans i a1) (\<lambda>a2.
      bind_outcome (server_runs (agent_packets b agentID
        (sent (drop (length (ec_log (ag_endpoints a ! i))) (ec_log (ag_endpoints a2 ! i)))) Stop) w1) (\<lambda>(es', w2).
        Ret (s\<lparr>pa_server := w2, pa_agent := a2\<rparr>))))))"

lemma server_late_close:
  assumes "est_lookup (w_established w) (agentID, connID) = None"
  shows "\<exists>w'. server_runs (agent_packets b agentID [newCloseResponsePacket connID e] Stop) w = Ret ([], w') \<and>
     w_pending w' = w_pending w \<and> w_established w' = w_established w"
  using assms
  by (simp add: server_runs_def agent_packet_def backend_CLOSE_RSP_def newCloseResponsePacket_def GetCloseResponse_def
      w_removeEstablished_def removeEstablished_alt Let_def)

lemma lose_agent_ok:
  assumes "path_open f b agentID connID i s" and "server_inv (pa_server s)" and "carries_only f (agentID, connID) (pa_server s)"
  shows "\<exists>s' c. lose_agent f b agentID s = Ret s' \<and> unused f (pa_server s') \<and> gt_done (pa_client s') \<and>
     gt_conns (pa_client s') = [] \<and> gt_conn (pa_client s') = Some c \<and> fst (conn_Read n c) = ReadEOF \<and>
     gt_read (pa_client s') = gt_read (pa_client s)"
proof -
  let ?t = "pa_client s"
  have cl: "client_open connID ?t" and sv: "server_open f b agentID connID (pa_server s)"
    using assms(1) by (simp_all add: path_open_def)
  from server_agent_lost [OF assms(2) sv assms(3)] obtain es w1 where
    w1: "server_runs (serveRecvBackend b agentID [] Stop) (pa_server s) = Ret (es, w1)"
      "to_frontend f es = [newCloseResponsePacket connID []]" "unused f w1"
    by blast
  obtain c where c: "gt_conn ?t = Some c" "\<not> cc_readClosed c" "cc_closeCh c = []" "\<not> cc_closeClosed c"
      "cc_readCh c = []" "cc_rdata c = None"
    and t: "gt_serve ?t = TunnelRecv" "\<not> gt_closing ?t" "\<not> gt_done ?t" "gt_conns ?t = [(connID, ())]"
    using cl by (auto simp: client_open_def split: option.splits)
  from client_closed [OF t c(1-4), of "[]"] obtain t2 t3 where
    t3: "client_receives [newCloseResponsePacket connID []] ?t = Ret t2" "client_ends 5 t2 = Ret t3" "gt_done t3"
      "gt_conns t3 = []" "gt_read t3 = gt_read ?t"
      "gt_conn t3 = Some (c\<lparr>cc_readClosed := True, cc_closeCh := [[]], cc_closeClosed := True\<rparr>)"
    by blast
  have "fst (conn_Read n (c\<lparr>cc_readClosed := True, cc_closeCh := [[]], cc_closeClosed := True\<rparr>)) = ReadEOF"
    using c by (simp add: conn_Read_def read_data_def)
  with w1 t3 show ?thesis
    by (simp add: lose_agent_def del: client_receives.simps serveRecvBackend.simps)
qed

lemma lose_client_ok:
  assumes "path_open f b agentID connID i s" and "server_inv (pa_server s)" and "carries_only f (agentID, connID) (pa_server s)"
    and "fr_streamUID f \<noteq> []"
  shows "\<exists>s'. lose_client f b agentID i s = Ret s' \<and> unused f (pa_server s') \<and> cm_Get connID (pa_agent s') = None \<and>
     ag_serve (pa_agent s') = ServeLoop \<and> ec_connClosed (ag_endpoints (pa_agent s') ! i) \<and>
     ec_written (ag_endpoints (pa_agent s') ! i) = ec_written (ag_endpoints (pa_agent s) ! i)"
proof -
  let ?e = "ag_endpoints (pa_agent s) ! i"
  have id: "connID \<noteq> 0" and ag: "agent_open connID i (pa_agent s)" and sv: "server_open f b agentID connID (pa_server s)"
    using assms(1) by (simp_all add: path_open_def)
  from server_client_lost [OF assms(2) sv assms(3,4)] obtain es w1 where
    w1: "server_runs (frontend_shutdown f Stop) (pa_server s) = Ret (es, w1)"
      "to_agent b es = [newCloseRequestPacket connID]" "unused f w1"
      "est_lookup (w_established w1) (agentID, connID) = None"
    by blast
  from agent_closed [OF ag id] obtain a1 a2 where
    a2: "agent_receives [newCloseRequestPacket connID] (pa_agent s) = Ret a1" "agent_cleans i a1 = Ret a2"
      "cm_Get connID a2 = None" "ag_serve a2 = ServeLoop" "ag_endpoints a2 ! i = closed_endpoint ?e"
    by blast
  have ends: "ec_log (closed_endpoint ?e) = ec_log ?e @ [(newCloseResponsePacket connID [], None)]"
    "ec_connClosed (closed_endpoint ?e)" "ec_written (closed_endpoint ?e) = ec_written ?e"
    using ag id by (simp_all add: closed_endpoint_def closePacket_def agent_open_def endpoint_open_def)
  from server_late_close [OF w1(4), of b "[]"] obtain w2 where
    w2: "server_runs (agent_packets b agentID [newCloseResponsePacket connID []] Stop) w1 = Ret ([], w2)"
      "w_pending w2 = w_pending w1" "w_established w2 = w_established w1"
    by blast
  have "unused f w2" using w1(3) w2(2,3) by (simp add: unused_def no_pending_def no_connection_def)
  with w1 w2 a2 ends show ?thesis
    by (simp add: lose_client_def sent_new Let_def del: agent_receives.simps agent_packets.simps)
qed

subsection \<open>A dial that fails\<close>

text \<open>
  Why a dial fails: no agent serves the address; the endpoint cannot be reached from the agent;
  the agent does not answer in time; or its stream ends before it answers.
\<close>

datatype dial_fault = NoAgent | Refused go_error | TimedOut | AgentLost

text \<open>What happens after the server has taken the request, up to what the client's stream carries.\<close>

fun dial_fault_hop ::
  "frontend \<Rightarrow> bid \<Rightarrow> string \<Rightarrow> int \<Rightarrow> dial_fault \<Rightarrow> effect list \<Rightarrow> path \<Rightarrow> (packet list \<times> path) outcome" where
  "dial_fault_hop f b agentID random NoAgent es s = Ret (to_frontend f es, s)"
| "dial_fault_hop f b agentID random (Refused err) es s =
     (let i = length (ag_endpoints (pa_agent s)) in
      bind_outcome (agent_receives (to_agent b es) (pa_agent s)) (\<lambda>a1.
      bind_outcome (endpoint_dial (Some err) None (ag_endpoints a1 ! i)) (\<lambda>e.
      let a2 = put_endpoint i e a1 in
      bind_outcome (server_runs (agent_packets b agentID (sent (ec_log (ag_endpoints a2 ! i))) Stop) (pa_server s)) (\<lambda>(es', w).
        Ret (to_frontend f es', s\<lparr>pa_server := w, pa_agent := a2\<rparr>)))))"
| "dial_fault_hop f b agentID random TimedOut es s =
     bind_outcome (server_runs (pendingDialTimer random f) (pa_server s)) (\<lambda>(es', w).
       Ret (to_frontend f es', s\<lparr>pa_server := w\<rparr>))"
| "dial_fault_hop f b agentID random AgentLost es s =
     bind_outcome (server_runs (serveRecvBackend b agentID [] Stop) (pa_server s)) (\<lambda>(es', w).
       Ret (to_frontend f es', s\<lparr>pa_server := w\<rparr>))"

definition carry_failed_dial :: "frontend \<Rightarrow> bid \<Rightarrow> string \<Rightarrow> int \<Rightarrow> dial_fault \<Rightarrow> path \<Rightarrow> path outcome" where
  "carry_failed_dial f b agentID random fault s =
     (let t = pa_client s; t1 = dialContext_step random None DialSelectDone t in
      bind_outcome (server_runs (serveRecvFrontend f (sent (drop (length (gt_log t)) (gt_log t1))) None 0 Stop)
        (pa_server s)) (\<lambda>(es, w1).
      bind_outcome (dial_fault_hop f b agentID random fault es (s\<lparr>pa_server := w1\<rparr>)) (\<lambda>(ps, s1).
      bind_outcome (client_receives ps t1) (\<lambda>t2.
      bind_outcome (client_ends 4 ((dialContext_step random None DialSelectDone ^^ 2) t2)) (\<lambda>t3.
        Ret (s1\<lparr>pa_client := t3\<rparr>))))))"

definition client_failed :: "int \<Rightarrow> string \<Rightarrow> grpc_tunnel \<Rightarrow> bool" where
  "client_failed random msg t \<longleftrightarrow> gt_dialer t = DialerReturned (DialFailed (DialFailure msg DialFailureEndpoint)) \<and>
     gt_done t \<and> gt_serve t = TunnelDone \<and> gt_conns t = [] \<and> \<not> pendingDial_get random t"

lemma client_told:
  assumes "gt_dialer t = DialerWaits random" and "gt_serve t = TunnelRecv" and "\<not> gt_closing t"
    and "pendingDial_get random t" and "\<not> gt_done t" and "gt_conns t = []" and "msg \<noteq> []"
  shows "\<exists>t2 t3. client_receives [newDialResponsePacket random connID msg] t = Ret t2 \<and>
     client_ends 4 ((dialContext_step d None sel ^^ 2) t2) = Ret t3 \<and> client_failed random msg t3 \<and>
     gt_failures t3 = gt_failures t @ [DialFailureEndpoint]"
proof -
  let ?p = "newDialResponsePacket random connID msg" and ?err = "DialFailure msg DialFailureEndpoint"
  let ?t1 = "t\<lparr>gt_recv := gt_recv t @ [?p], gt_serve := TunnelResult (DialResult (Some ?err) connID) True\<rparr>"
  let ?t2 = "?t1\<lparr>gt_serve := TunnelCloseConn, gt_dialer := DialerRemoves random (DialFailed ?err)\<rparr>"
  have "tunnel_serve (Inr (Some ?p)) None SelectChannel t = Ret ?t1"
    using assms(2-4,7)
    by (simp add: tunnel_serve_def tunnel_recv_def serve_packet_def tunnel_DIAL_RSP_def newDialResponsePacket_def
        GetDialResponse_def pendingDial_get_def)
  moreover have "hand_over ?t1 = ?t2" using assms(1) by (simp add: hand_over_def)
  ultimately have 1: "client_receives [?p] t = Ret ?t2" by simp
  let ?t3 = "(pendingDial_remove random ?t2)\<lparr>gt_cancelCh := True, gt_dialer := DialerReturned (DialFailed ?err),
    gt_failures := gt_failures t @ [DialFailureEndpoint]\<rparr>"
  have 2: "(dialContext_step d None sel ^^ 2) ?t2 = ?t3"
    by (simp add: numeral_2_eq_2 dialContext_step_def dial_return_def pendingDial_remove_def GetDialFailureReason_def)
  have "client_ends 4 ?t3 = Ret ((closeMetric (?t3\<lparr>gt_grpcCloses := Suc (gt_grpcCloses t)\<rparr>))\<lparr>gt_done := True, gt_serve := TunnelDone\<rparr>)"
    using assms(5,6) by (simp add: numeral_eq_Suc tunnel_serve_def closeMetric_def pendingDial_remove_def)
  with 1 2 assms(5,6) show ?thesis
    by (simp add: client_failed_def closeMetric_def pendingDial_remove_def pendingDial_get_def)
qed

definition fault_error :: "dial_fault \<Rightarrow> go_error" where
  "fault_error fault =
     (case fault of NoAgent \<Rightarrow> ErrNotFound | Refused err \<Rightarrow> err | TimedOut \<Rightarrow> ErrBackendDialTimeout
      | AgentLost \<Rightarrow> ErrBackendClosedWhileDialing)"

text \<open>The tables of \<open>w'\<close> are those of \<open>w\<close> without some entries, and without the dial \<open>random\<close>.\<close>

lemma unused_after:
  assumes "unused f w" and "dialled f b random w w1"
    and "\<And>k c. gm_get (pd_map (w_pending w')) k = Some c \<Longrightarrow> gm_get (pd_map (w_pending w1)) k = Some c \<and> k \<noteq> random"
    and "\<And>k c. est_lookup (w_established w') k = Some c \<Longrightarrow> est_lookup (w_established w1) k = Some c"
  shows "unused f w'"
proof -
  have "\<not> belongs f c" if "gm_get (pd_map (w_pending w')) k = Some c" for k c
    using assms(3) [OF that] assms(1,2) by (auto simp: dialled_def unused_def no_pending_def)
  moreover have "\<not> belongs f c" if "est_lookup (w_established w') k = Some c" for k c
    using assms(4) [OF that] assms(1,2) unfolding dialled_def unused_def no_connection_def by (metis)
  ultimately show ?thesis by (auto simp: unused_def no_pending_def no_connection_def)
qed

lemma claimed_dial:
  assumes "dialled f b random w w1"
  shows "\<exists>c. fst (w_pendingRemove random w1) = Some c \<and> pc_frontend c = Some f"
    "w_oracle (snd (w_pendingRemove random w1)) = w_oracle w1" "w_log (snd (w_pendingRemove random w1)) = w_log w1"
    "w_established (snd (w_pendingRemove random w1)) = w_established w1"
    "pd_map (w_pending (snd (w_pendingRemove random w1))) = gm_delete random (pd_map (w_pending w1))"
  using assms
  by (auto simp: dialled_def w_pendingRemove_def PendingDial_Remove_def set_pending_def case_prod_unfold Let_def)

lemma server_no_agent:
  assumes "smooth w" and "fst (w_getBackend address w) = Ret (Inl err)" and "unused f w"
  shows "\<exists>es w'. server_runs (serveRecvFrontend f [newDialRequestPacket protocol address random] None 0 Stop) w = Ret (es, w') \<and>
     to_frontend f es = [newDialResponsePacket random 0 (error_string err)] \<and> unused f w'"
proof -
  define w1 where "w1 = snd (w_getBackend address w)"
  have w1: "w_oracle w1 = w_oracle w" "w_log w1 = w_log w" "w_pending w1 = w_pending w" "w_established w1 = w_established w"
    by (auto simp: w1_def w_getBackend_def ask_def Let_def split: outcome.splits)
  show ?thesis
    using smooth_answers [OF assms(1)] w1 assms(2,3)
    by (auto simp: server_runs_def frontend_DIAL_REQ_def newDialRequestPacket_def GetDialRequest_def Let_def
        w1_def [symmetric] observe_def log_effects_def Frontend_Send_log stream_defs unused_def no_pending_def no_connection_def)
qed

lemma server_refused:
  assumes "smooth w" and "dialled f b random w w1" and "unused f w" and "msg \<noteq> []"
  shows "\<exists>es w'. server_runs (agent_packets b agentID [newDialResponsePacket random 0 msg] Stop) w1 = Ret (es, w') \<and>
     to_frontend f es = [newDialResponsePacket random 0 msg] \<and> unused f w'"
proof -
  let ?w2 = "snd (w_pendingRemove random w1)"
  note cl = claimed_dial [OF assms(2)]
  obtain c where c: "fst (w_pendingRemove random w1) = Some c" "pc_frontend c = Some f" using cl(1) by blast
  have sm: "smooth ?w2" using assms(1,2) cl(2) by (simp add: smooth_def dialled_def)
  have u: "unused f w'" if "w_pending w' = w_pending ?w2" "w_established w' = w_established ?w2" for w'
    by (rule unused_after [OF assms(3,2)]) (use that cl(4,5) in \<open>auto split: if_splits\<close>)
  show ?thesis
    using c cl(3) smooth_answers [OF sm] assms(4)
    by (auto simp: server_runs_def agent_packet_def backend_DIAL_RSP_def newDialResponsePacket_def GetDialResponse_def
        Let_def client_send_def observe_def log_effects_def Frontend_Send_log stream_defs intro!: u)
qed

lemma server_times_out:
  assumes "smooth w" and "dialled f b random w w1" and "unused f w" and "\<forall>n. an_timerFires (w_oracle w n)"
  shows "\<exists>es w'. server_runs (pendingDialTimer random f) w1 = Ret (es, w') \<and>
     to_frontend f es = [newDialResponsePacket random 0 (error_string ErrBackendDialTimeout)] \<and> unused f w'"
proof -
  let ?w1 = "snd (ask w1)"
  have d: "dialled f b random w ?w1" using assms(2) by (simp add: dialled_def ask_def)
  let ?w2 = "snd (w_pendingRemove random ?w1)"
  note cl = claimed_dial [OF d]
  obtain c where c: "fst (w_pendingRemove random ?w1) = Some c" using cl(1) by blast
  have sm: "smooth ?w2" using assms(1) d cl(2) by (simp add: smooth_def dialled_def)
  have fires: "an_timerFires (fst (ask w1))" using assms(2,4) by (simp add: ask_def dialled_def)
  have log: "w_log ?w1 = w_log w1" by (simp add: ask_def)
  have u: "unused f w'" if "w_pending w' = w_pending ?w2" "w_established w' = w_established ?w2" for w'
    by (rule unused_after [OF assms(3) d]) (use that cl(4,5) in \<open>auto split: if_splits\<close>)
  show ?thesis
    using c cl(3) log smooth_answers [OF sm] fires
    by (auto simp: server_runs_def pendingDialTimer_def case_prod_unfold Let_def observe_def log_effects_def
        Frontend_Send_log stream_defs intro!: u)
qed

lemma server_loses_agent:
  assumes "server_inv w1" and "smooth w" and "dialled f b random w w1" and "unused f w"
  shows "\<exists>es w'. server_runs (serveRecvBackend b agentID [] Stop) w1 = Ret (es, w') \<and>
     to_frontend f es = [newDialResponsePacket random 0 (error_string ErrBackendClosedWhileDialing)] \<and> unused f w'"
proof -
  obtain c where c: "pd_map (w_pending w1) = gm_put random c (pd_map (w_pending w))" "pc_frontend c = Some f"
      "pc_backend c = Some b" "pc_dialID c = random"
    using assms(3) by (auto simp: dialled_def)
  have est: "w_established w1 = w_established w" and sm: "smooth w1"
    using assms(2,3) by (simp_all add: dialled_def smooth_def)
  note wf = pending_wf [OF assms(1)] and ei = est_of_world [OF assms(1)]
  have "filter (\<lambda>e. pc_backend (snd e) = Some b \<and> uses f (snd e)) (pd_map (w_pending w1)) = [(random, c)]"
  proof (rule filter_single [where P = "\<lambda>c. pc_backend c = Some b \<and> uses f c", OF wf])
    fix k' c' assume "gm_get (pd_map (w_pending w1)) k' = Some c'" "pc_backend c' = Some b \<and> uses f c'"
    with assms(4) show "k' = random" by (auto simp: c(1) unused_def no_pending_def belongs_def split: if_splits)
  qed (use c in \<open>simp_all add: uses_def\<close>)
  then have dials: "filter (uses f) (dials_of b w1) = [c]"
    by (simp add: dials_of_def filter_map comp_def conj_commute)
  have conns: "filter (uses f) (conns_of agentID b (w_established w1)) = []"
  proof -
    have "\<not> uses f c'" if "c' \<in> set (conns_of agentID b (w_established w1))" for c'
    proof -
      from conns_of_lookup [OF ei that] obtain i where "est_lookup (w_established w1) (agentID, i) = Some c'" by blast
      with assms(4) est show ?thesis by (auto simp: unused_def no_connection_def belongs_def)
    qed
    then show ?thesis by (simp add: filter_empty_conv)
  qed
  from run_backend_shutdown [OF assms(1) sm, of b agentID f] obtain es w' where
    w': "server_runs (serveRecvBackend b agentID [] Stop) w1 = Ret (es, w')" "to_frontend f es = [dial_lost c]"
      "pd_map (w_pending w') = filter (\<lambda>e. pc_backend (snd e) \<noteq> Some b) (pd_map (w_pending w1))"
      "w_established w' = snd (removeEstablishedForBackendConn agentID (Some b) (w_established w1))"
    unfolding dials conns by auto
  have "unused f w'"
  proof (rule unused_after [OF assms(4,3)])
    fix k c' assume k: "gm_get (pd_map (w_pending w')) k = Some c'"
    then have "gm_get (pd_map (w_pending w1)) k = Some c'" "pc_backend c' \<noteq> Some b"
      unfolding w'(3) gm_get_filter [OF wf] by (auto split: option.splits if_splits)
    with c show "gm_get (pd_map (w_pending w1)) k = Some c' \<and> k \<noteq> random" by auto
  next
    fix k c' assume "est_lookup (w_established w') k = Some c'"
    then show "est_lookup (w_established w1) k = Some c'" unfolding w'(4) by (rule bulk_removal_sub(1) [OF ei])
  qed
  with w'(1,2) c(4) show ?thesis by auto
qed

lemma agent_refuses:
  assumes "ag_serve a = ServeLoop" and "\<not> ag_stopped a" and "i = length (ag_endpoints a)"
  shows "\<exists>a1 e. agent_receives [newDialRequestPacket protocol address random] a = Ret a1 \<and>
     endpoint_dial (Some err) None (ag_endpoints a1 ! i) = Ret e \<and>
     ec_log (ag_endpoints (put_endpoint i e a1) ! i) = [(newDialResponsePacket random 0 (error_string err), None)] \<and>
     (\<forall>k. cm_Get k (put_endpoint i e a1) = cm_Get k a)"
  using assms
  by (simp add: Serve_step_def Serve_packet_def agent_DIAL_REQ_def newDialRequestPacket_def GetDialRequest_def
      endpoint_dial_def newEndpointConn_def put_endpoint_def cm_Get_def Let_def)

text \<open>The conditions under which each fault occurs.\<close>

definition fault_occurs :: "string \<Rightarrow> bid \<Rightarrow> dial_fault \<Rightarrow> world \<Rightarrow> agent_client \<Rightarrow> bool" where
  "fault_occurs address b fault w a \<longleftrightarrow>
     fst (w_getBackend address w) = Ret (if fault = NoAgent then Inl ErrNotFound else Inr b) \<and>
     (case fault of
        Refused err \<Rightarrow> error_string err \<noteq> [] \<and> ag_serve a = ServeLoop \<and> \<not> ag_stopped a
      | TimedOut \<Rightarrow> \<forall>n. an_timerFires (w_oracle w n)
      | _ \<Rightarrow> True)"

lemma server_dialled:
  assumes "smooth w" and "server_inv w" and "fst (w_getBackend address w) = Ret (Inr b)"
  shows "\<exists>es w1. server_runs (serveRecvFrontend f [newDialRequestPacket protocol address random] None 0 Stop) w = Ret (es, w1) \<and>
     to_agent b es = [newDialRequestPacket protocol address random] \<and> dialled f b random w w1 \<and> server_inv w1"
proof -
  have "good 0 (serveRecvFrontend f [newDialRequestPacket protocol address random] None 0 Stop)"
    by (rule good_serveRecvFrontend) simp_all
  with server_dial [OF assms(1,3), of f protocol random] good_runs assms(2) show ?thesis by blast
qed

text \<open>Whatever the fault, the client is told of it, and the server and the agent keep nothing of the dial.\<close>

definition told :: "frontend \<Rightarrow> int \<Rightarrow> dial_fault \<Rightarrow> agent_client \<Rightarrow> packet list \<times> path \<Rightarrow> bool" where
  "told f random fault a r \<longleftrightarrow>
     fst r = [newDialResponsePacket random 0 (error_string (fault_error fault))] \<and>
     unused f (pa_server (snd r)) \<and> (\<forall>k. cm_Get k (pa_agent (snd r)) = cm_Get k a)"

lemma server_fault:
  assumes "smooth w" and "server_inv w" and "unused f w" and "fault_occurs address b fault w a"
  shows "\<exists>es w1 r. server_runs (serveRecvFrontend f [newDialRequestPacket ''tcp'' address random] None 0 Stop) w = Ret (es, w1) \<and>
     dial_fault_hop f b agentID random fault es \<lparr>pa_client = t, pa_server = w1, pa_agent = a\<rparr> = Ret r \<and>
     told f random fault a r"
proof (cases "fault = NoAgent")
  case True
  with assms(4) have "fst (w_getBackend address w) = Ret (Inl ErrNotFound)" by (simp add: fault_occurs_def)
  from server_no_agent [OF assms(1) this assms(3), of "''tcp''" random] True show ?thesis
    by (auto simp: told_def fault_error_def simp del: serveRecvFrontend.simps)
next
  case False
  with assms(4) have "fst (w_getBackend address w) = Ret (Inr b)" by (simp add: fault_occurs_def)
  from server_dialled [OF assms(1,2) this, of f "''tcp''" random] obtain es w1 where
    w1: "server_runs (serveRecvFrontend f [newDialRequestPacket ''tcp'' address random] None 0 Stop) w = Ret (es, w1)"
      "to_agent b es = [newDialRequestPacket ''tcp'' address random]" "dialled f b random w w1" "server_inv w1"
    by blast
  have "\<exists>r. dial_fault_hop f b agentID random fault es \<lparr>pa_client = t, pa_server = w1, pa_agent = a\<rparr> = Ret r \<and>
      told f random fault a r"
  proof (cases fault)
    case (Refused err)
    with assms(4) have e: "error_string err \<noteq> []" and a: "ag_serve a = ServeLoop" "\<not> ag_stopped a"
      by (simp_all add: fault_occurs_def)
    from agent_refuses [OF a refl, of "''tcp''" address random err] obtain a1 e where
      a1: "agent_receives [newDialRequestPacket ''tcp'' address random] a = Ret a1"
        "endpoint_dial (Some err) None (ag_endpoints a1 ! length (ag_endpoints a)) = Ret e"
        "ec_log (ag_endpoints (put_endpoint (length (ag_endpoints a)) e a1) ! length (ag_endpoints a)) =
           [(newDialResponsePacket random 0 (error_string err), None)]"
        "\<forall>k. cm_Get k (put_endpoint (length (ag_endpoints a)) e a1) = cm_Get k a"
      by blast
    from server_refused [OF assms(1) w1(3) assms(3) e, of agentID] Refused w1(2) a1 show ?thesis
      by (auto simp: sent_new told_def fault_error_def Let_def simp del: agent_receives.simps agent_packets.simps)
  next
    case TimedOut
    with assms(4) have "\<forall>n. an_timerFires (w_oracle w n)" by (simp add: fault_occurs_def)
    from server_times_out [OF assms(1) w1(3) assms(3) this] TimedOut show ?thesis
      by (auto simp: told_def fault_error_def)
  next
    case AgentLost
    from server_loses_agent [OF w1(4) assms(1) w1(3) assms(3), of agentID] AgentLost show ?thesis
      by (auto simp: told_def fault_error_def simp del: serveRecvBackend.simps)
  qed (use False in simp)
  with w1(1) show ?thesis by blast
qed

lemma fault_message: "fault_occurs address b fault w a \<Longrightarrow> error_string (fault_error fault) \<noteq> []"
  by (cases fault) (simp_all add: fault_occurs_def fault_error_def)

subsection \<open>Properties\<close>


lemma path_server_inv: "server_inv path_server"
proof -
  let ?w = "sample_world\<lparr>w_nextBackend := 1\<rparr>"
  have "server_inv sample_world"
    by (rule new_server_inv [OF sample_world_new]) (simp add: quiet_heap_def)
  then have "server_inv ?w"
    by (auto simp: server_inv_def tables_ok_def entries_sound_def sample_world_def NewPendingDialManager_def
        no_established_def est_lookup_def pending_entry_ok_def established_entry_ok_def exists_backend_def)
  then have "server_inv (snd (w_addBackend 0 ?w))" by (rule inv_addBackend) simp
  then show ?thesis by (simp add: path_server_def w_addBackend_def sample_world_def)
qed

lemma path_server_idle: "smooth path_server" "unused f path_server" "fst (w_getBackend ''h:1'' path_server) = Ret (Inr 0)"
proof -
  show "smooth path_server"
    by (simp add: smooth_def path_server_def sample_world_def sample_answer_def accepts_def)
  show "unused f path_server"
    by (simp add: unused_def no_pending_def no_connection_def path_server_def sample_world_def NewPendingDialManager_def
        no_established_def est_lookup_def)
  show "fst (w_getBackend ''h:1'' path_server) = Ret (Inr 0)" by code_simp
qed


lemma filed_carries_only: "unused f w \<Longrightarrow> filed random k w w' \<Longrightarrow> carries_only f k w'"
  unfolding unused_def no_pending_def no_connection_def filed_def carries_only_def by (auto split: if_splits) metis+



end
