(* ===== verification/KNP_ReusableTunnel.thy ===== *)
theory KNP_ReusableTunnel
  imports KNP_Client
begin

section \<open>The konnectivity client: a reusable tunnel\<close>

text \<open>
  \<^verbatim>\<open>reusableGrpcTunnel\<close> of \<^verbatim>\<open>konnectivity-client/pkg/client/client.go\<close>: one gRPC connection, one
  single-use tunnel (\<open>grpc_tunnel\<close> of the previous theory) per call of \<^verbatim>\<open>DialContext\<close>. A call is a
  \<open>reusable_dial\<close> with a program counter; \<open>rd_result\<close> is the content of its \<^verbatim>\<open>resCh\<close>, which the
  goroutine that opens the stream fills once, \<open>rd_watched\<close> whether the goroutine that waits for
  the inner tunnel's end exists, \<open>rd_slot\<close> whether the call's \<^verbatim>\<open>children.Done\<close> is still due. The
  counter of the \<^verbatim>\<open>WaitGroup\<close> panics when it would become negative.
\<close>

subsection \<open>State\<close>

datatype rdial_pc = RSetup | RDraining | RDialing | RReturned dial_answer

record reusable_dial =
  rd_pc :: rdial_pc
  rd_result :: "(go_error + unit) option"
  rd_inner :: "grpc_tunnel option"
  rd_cancelled :: bool
  rd_watched :: bool
  rd_slot :: bool

datatype rclose_pc = RCloseIdle | RCloseCancel | RCloseWait | RCloseConn | RCloseDone | RCloseFinished

record reusable_tunnel =
  rt_closing :: bool
  rt_cancelled :: bool
  rt_children :: int
  rt_connCloses :: nat
  rt_done :: bool
  rt_close :: rclose_pc
  rt_dials :: "reusable_dial list"
  rt_failures :: "client_dial_failure list"

definition newReusableGrpcTunnel :: reusable_tunnel where
  "newReusableGrpcTunnel =
     \<lparr>rt_closing = False, rt_cancelled = False, rt_children = 0, rt_connCloses = 0, rt_done = False,
      rt_close = RCloseIdle, rt_dials = [], rt_failures = []\<rparr>"

text \<open>
  Creating a tunnel: what dialling the proxy server and opening the stream return, the tunnel, and
  how often the gRPC connection has been closed.
\<close>

definition newSingleStreamTunnel :: "go_error option \<Rightarrow> go_error + grpc_tunnel" where
  "newSingleStreamTunnel proxyErr =
     (case proxyErr of Some err \<Rightarrow> Inl err | None \<Rightarrow> Inr newUnstartedTunnel)"

definition CreateSingleUseGrpcTunnelWithContext ::
  "go_error option \<Rightarrow> go_error option \<Rightarrow> (go_error + grpc_tunnel) \<times> nat" where
  "CreateSingleUseGrpcTunnelWithContext dialErr proxyErr =
     (case dialErr of
        Some err \<Rightarrow> (Inl err, 0)
      | None \<Rightarrow>
          (case newSingleStreamTunnel proxyErr of
             Inl err \<Rightarrow> (Inl err, 1)
           | Inr tunnel \<Rightarrow> (Inr tunnel, 0)))"

definition CreateSingleUseGrpcTunnel :: "go_error option \<Rightarrow> go_error option \<Rightarrow> (go_error + grpc_tunnel) \<times> nat" where
  "CreateSingleUseGrpcTunnel dialErr proxyErr = CreateSingleUseGrpcTunnelWithContext dialErr proxyErr"

definition CreateGRPCTunnel :: "go_error option \<Rightarrow> go_error + reusable_tunnel" where
  "CreateGRPCTunnel dialErr = (case dialErr of Some err \<Rightarrow> Inl err | None \<Rightarrow> Inr newReusableGrpcTunnel)"

definition negative_counter :: string where "negative_counter = ''sync: negative WaitGroup counter''"

definition children_Done :: "reusable_tunnel \<Rightarrow> reusable_tunnel outcome" where
  "children_Done r =
     (if rt_children r \<le> 0 then Panic negative_counter else Ret (r\<lparr>rt_children := rt_children r - 1\<rparr>))"

definition put_dial :: "nat \<Rightarrow> reusable_dial \<Rightarrow> reusable_tunnel \<Rightarrow> reusable_tunnel" where
  "put_dial i d r = r\<lparr>rt_dials := (rt_dials r)[i := d]\<rparr>"

definition dial_failed :: "client_dial_failure \<Rightarrow> reusable_tunnel \<Rightarrow> reusable_tunnel" where
  "dial_failed reason r = r\<lparr>rt_failures := rt_failures r @ [reason]\<rparr>"

subsection \<open>DialContext\<close>

definition reusable_DialContext :: "string \<Rightarrow> reusable_tunnel \<Rightarrow> client_error option \<times> reusable_tunnel" where
  "reusable_DialContext protocol r =
     (if protocol \<noteq> ''tcp'' then
        (Some (OtherError (ErrText ''protocol not supported'')), dial_failed DialFailureUnknown r)
      else if rt_closing r then
        (Some (DialFailure ''tunnel closed'' DialFailureTunnelClosed), dial_failed DialFailureTunnelClosed r)
      else
        (None, r\<lparr>rt_children := rt_children r + 1,
                 rt_dials := rt_dials r @
                   [\<lparr>rd_pc = RSetup, rd_result = None, rd_inner = None, rd_cancelled = False,
                     rd_watched = False, rd_slot = True\<rparr>]\<rparr>))"

text \<open>The goroutine that opens the stream; \<open>res\<close> is the answer of \<^verbatim>\<open>proxyClient.Proxy\<close>.\<close>

definition open_stream :: "go_error + unit \<Rightarrow> reusable_dial \<Rightarrow> reusable_dial" where
  "open_stream res d =
     (if rd_result d = None then
        (case res of
           Inl err \<Rightarrow> d\<lparr>rd_result := Some (Inl err)\<rparr>
         | Inr u \<Rightarrow> d\<lparr>rd_result := Some (Inr ()), rd_inner := Some newUnstartedTunnel\<rparr>)
      else d)"

text \<open>The first \<^verbatim>\<open>select\<close> of the call, on \<^verbatim>\<open>resCh\<close> and on the request's context.\<close>

definition take_result :: "nat \<Rightarrow> reusable_tunnel \<Rightarrow> reusable_tunnel outcome" where
  "take_result i r =
     (let d = rt_dials r ! i in
      case (rd_pc d, rd_result d) of
        (RSetup, Some (Inl err)) \<Rightarrow>
          bind_outcome (children_Done r) (\<lambda>r1.
            Ret (dial_failed DialFailureStreamSetup (put_dial i
              (d\<lparr>rd_pc := RReturned (DialFailed (DialFailure (error_string err) DialFailureStreamSetup)),
                 rd_cancelled := True, rd_slot := False\<rparr>) r1)))
      | (RSetup, Some (Inr u)) \<Rightarrow>
          Ret (put_dial i (d\<lparr>rd_pc := RDialing, rd_watched := True\<rparr>) r)
      | _ \<Rightarrow> Ret r)"

definition request_done :: "nat \<Rightarrow> reusable_tunnel \<Rightarrow> reusable_tunnel" where
  "request_done i r =
     (let d = rt_dials r ! i in
      if rd_pc d = RSetup then put_dial i (d\<lparr>rd_pc := RDraining, rd_cancelled := True\<rparr>) r else r)"

definition drain_result :: "nat \<Rightarrow> reusable_tunnel \<Rightarrow> reusable_tunnel outcome" where
  "drain_result i r =
     (let d = rt_dials r ! i;
          failed = RReturned (DialFailed (DialFailure ''dial timeout, context'' DialFailureContext)) in
      case (rd_pc d, rd_result d) of
        (RDraining, Some (Inr u)) \<Rightarrow>
          Ret (dial_failed DialFailureContext (put_dial i (d\<lparr>rd_pc := failed, rd_watched := True\<rparr>) r))
      | (RDraining, Some (Inl err)) \<Rightarrow>
          bind_outcome (children_Done r) (\<lambda>r1.
            Ret (dial_failed DialFailureContext (put_dial i (d\<lparr>rd_pc := failed, rd_slot := False\<rparr>) r1)))
      | _ \<Rightarrow> Ret r)"

text \<open>The inner dial has returned; its tunnel has observed the failure.\<close>

definition inner_returned :: "nat \<Rightarrow> reusable_tunnel \<Rightarrow> reusable_tunnel" where
  "inner_returned i r =
     (let d = rt_dials r ! i in
      case (rd_pc d, rd_inner d) of
        (RDialing, Some t) \<Rightarrow>
          (case gt_dialer t of
             DialerReturned DialedConn \<Rightarrow> put_dial i (d\<lparr>rd_pc := RReturned DialedConn\<rparr>) r
           | DialerReturned (DialFailed err) \<Rightarrow>
               put_dial i (d\<lparr>rd_pc := RReturned (DialFailed err), rd_cancelled := True\<rparr>) r
           | _ \<Rightarrow> r)
      | _ \<Rightarrow> r)"

definition watcher_Done :: "nat \<Rightarrow> reusable_tunnel \<Rightarrow> reusable_tunnel outcome" where
  "watcher_Done i r =
     (let d = rt_dials r ! i in
      case rd_inner d of
        Some t \<Rightarrow>
          if rd_watched d \<and> gt_done t then
            bind_outcome (children_Done r) (\<lambda>r1.
              Ret (put_dial i (d\<lparr>rd_watched := False, rd_slot := False\<rparr>) r1))
          else Ret r
      | None \<Rightarrow> Ret r)"

subsection \<open>Close\<close>

text \<open>
  The first caller closes; another waits for \<^verbatim>\<open>done\<close> (\<open>None\<close> while it blocks). \<open>closeErr\<close> is what
  closing the gRPC connection returns.
\<close>

definition reusable_Close :: "reusable_tunnel \<Rightarrow> reusable_tunnel option" where
  "reusable_Close r =
     (if rt_closing r then (if rt_done r then Some r else None)
      else Some (r\<lparr>rt_closing := True, rt_close := RCloseCancel\<rparr>))"

definition close_step :: "reusable_tunnel \<Rightarrow> reusable_tunnel outcome" where
  "close_step r =
     (case rt_close r of
        RCloseCancel \<Rightarrow> Ret (r\<lparr>rt_cancelled := True, rt_close := RCloseWait\<rparr>)
      | RCloseWait \<Rightarrow> if rt_children r = 0 then Ret (r\<lparr>rt_close := RCloseConn\<rparr>) else Ret r
      | RCloseConn \<Rightarrow> Ret (r\<lparr>rt_connCloses := Suc (rt_connCloses r), rt_close := RCloseDone\<rparr>)
      | RCloseDone \<Rightarrow>
          if rt_done r then Panic channel_panic else Ret (r\<lparr>rt_done := True, rt_close := RCloseFinished\<rparr>)
      | _ \<Rightarrow> Ret r)"

subsection \<open>All interleavings\<close>

text \<open>The inner tunnels run by themselves, with every step of theirs.\<close>

inductive reusable_step :: "reusable_tunnel \<Rightarrow> reusable_tunnel \<Rightarrow> bool" where
  ru_dial: "reusable_step r (snd (reusable_DialContext protocol r))"
| ru_open: "i < length (rt_dials r) \<Longrightarrow> reusable_step r (put_dial i (open_stream res (rt_dials r ! i)) r)"
| ru_take: "i < length (rt_dials r) \<Longrightarrow> take_result i r = Ret r' \<Longrightarrow> reusable_step r r'"
| ru_request: "i < length (rt_dials r) \<Longrightarrow> reusable_step r (request_done i r)"
| ru_drain: "i < length (rt_dials r) \<Longrightarrow> drain_result i r = Ret r' \<Longrightarrow> reusable_step r r'"
| ru_inner: "i < length (rt_dials r) \<Longrightarrow> rd_inner (rt_dials r ! i) = Some t \<Longrightarrow> client_step t t' \<Longrightarrow>
     reusable_step r (put_dial i ((rt_dials r ! i)\<lparr>rd_inner := Some t'\<rparr>) r)"
| ru_returned: "i < length (rt_dials r) \<Longrightarrow> reusable_step r (inner_returned i r)"
| ru_watch: "i < length (rt_dials r) \<Longrightarrow> watcher_Done i r = Ret r' \<Longrightarrow> reusable_step r r'"
| ru_close: "reusable_Close r = Some r' \<Longrightarrow> reusable_step r r'"
| ru_closing: "close_step r = Ret r' \<Longrightarrow> reusable_step r r'"

definition reusable_init :: "reusable_tunnel \<Rightarrow> bool" where
  "reusable_init r \<longleftrightarrow> r = newReusableGrpcTunnel"

subsection \<open>Slots\<close>

fun dial_pc_ok :: "rdial_pc \<Rightarrow> reusable_dial \<Rightarrow> bool" where
  "dial_pc_ok RSetup d \<longleftrightarrow> rd_slot d \<and> \<not> rd_watched d"
| "dial_pc_ok RDraining d \<longleftrightarrow> rd_slot d \<and> \<not> rd_watched d"
| "dial_pc_ok _ d \<longleftrightarrow> rd_result d \<noteq> None \<and> (rd_slot d \<longleftrightarrow> rd_watched d)"

definition dial_state_ok :: "reusable_dial \<Rightarrow> bool" where
  "dial_state_ok d \<longleftrightarrow> dial_pc_ok (rd_pc d) d \<and>
     (case rd_inner d of
        None \<Rightarrow> rd_result d \<noteq> Some (Inr ())
      | Some t \<Rightarrow> rd_result d = Some (Inr ()) \<and> reach client_init client_step t \<and> (rd_slot d \<or> gt_done t))"

definition slots :: "reusable_dial list \<Rightarrow> int" where
  "slots ds = int (length (filter rd_slot ds))"

fun close_ok :: "rclose_pc \<Rightarrow> reusable_tunnel \<Rightarrow> bool" where
  "close_ok RCloseIdle r \<longleftrightarrow> \<not> rt_closing r \<and> rt_connCloses r = 0 \<and> \<not> rt_done r"
| "close_ok RCloseCancel r \<longleftrightarrow> rt_closing r \<and> rt_connCloses r = 0 \<and> \<not> rt_done r"
| "close_ok RCloseWait r \<longleftrightarrow> rt_closing r \<and> rt_cancelled r \<and> rt_connCloses r = 0 \<and> \<not> rt_done r"
| "close_ok RCloseConn r \<longleftrightarrow>
     rt_closing r \<and> rt_cancelled r \<and> rt_connCloses r = 0 \<and> \<not> rt_done r \<and> rt_children r = 0"
| "close_ok RCloseDone r \<longleftrightarrow>
     rt_closing r \<and> rt_cancelled r \<and> rt_connCloses r = 1 \<and> \<not> rt_done r \<and> rt_children r = 0"
| "close_ok RCloseFinished r \<longleftrightarrow>
     rt_closing r \<and> rt_cancelled r \<and> rt_connCloses r = 1 \<and> rt_done r \<and> rt_children r = 0"

definition reusable_inv :: "reusable_tunnel \<Rightarrow> bool" where
  "reusable_inv r \<longleftrightarrow> rt_children r = slots (rt_dials r) \<and> (\<forall>d \<in> set (rt_dials r). dial_state_ok d) \<and>
     close_ok (rt_close r) r"

lemma slots_append: "slots (ds @ [d]) = slots ds + (if rd_slot d then 1 else 0)"
  by (simp add: slots_def)

lemma slots_Cons: "slots (d # ds) = (if rd_slot d then 1 else 0) + slots ds"
  by (simp add: slots_def)

lemma slots_update:
  "i < length ds \<Longrightarrow> slots (ds[i := d]) = slots ds - (if rd_slot (ds ! i) then 1 else 0) + (if rd_slot d then 1 else 0)"
proof (induction ds arbitrary: i)
  case (Cons a ds)
  then show ?case by (cases i) (simp_all add: slots_Cons)
qed simp

lemma slots_nonneg: "0 \<le> slots ds"
  by (simp add: slots_def)

lemma slots_zero_iff: "slots ds = 0 \<longleftrightarrow> (\<forall>d \<in> set ds. \<not> rd_slot d)"
  by (induction ds) (auto simp: slots_def)

lemma reusable_inv_put:
  assumes inv: "reusable_inv r" and i: "i < length (rt_dials r)" and "dial_state_ok d"
    and "rd_slot d = rd_slot (rt_dials r ! i)"
  shows "reusable_inv (put_dial i d r)"
proof -
  have "close_ok (rt_close r) (put_dial i d r) = close_ok (rt_close r) r"
    by (cases "rt_close r") (simp_all add: put_dial_def)
  moreover have "set ((rt_dials r)[i := d]) \<subseteq> insert d (set (rt_dials r))" by (rule set_update_subset_insert)
  ultimately show ?thesis
    using assms by (auto simp: reusable_inv_def put_dial_def slots_update)
qed

text \<open>A slot that is given back: the counter was positive.\<close>

lemma reusable_inv_release:
  assumes inv: "reusable_inv r" and i: "i < length (rt_dials r)" and "dial_state_ok d"
    and "rd_slot (rt_dials r ! i)" and "\<not> rd_slot d"
  shows "0 < rt_children r" and "reusable_inv (put_dial i d (r\<lparr>rt_children := rt_children r - 1\<rparr>))"
proof -
  have "slots (rt_dials r) \<noteq> 0" using i assms(4) by (auto simp: slots_zero_iff dest: nth_mem)
  then show pos: "0 < rt_children r"
    using inv slots_nonneg [of "rt_dials r"] by (simp add: reusable_inv_def)
  then have "close_ok (rt_close r) (put_dial i d (r\<lparr>rt_children := rt_children r - 1\<rparr>))"
    using inv by (cases "rt_close r") (simp_all add: put_dial_def reusable_inv_def)
  moreover have "set ((rt_dials r)[i := d]) \<subseteq> insert d (set (rt_dials r))" by (rule set_update_subset_insert)
  ultimately show "reusable_inv (put_dial i d (r\<lparr>rt_children := rt_children r - 1\<rparr>))"
    using assms by (auto simp: reusable_inv_def put_dial_def slots_update)
qed

lemma reusable_inv_failed: "reusable_inv (dial_failed reason r) = reusable_inv r"
  by (cases "rt_close r") (simp_all add: reusable_inv_def dial_failed_def)

lemma reusable_inv_nth: "reusable_inv r \<Longrightarrow> i < length (rt_dials r) \<Longrightarrow> dial_state_ok (rt_dials r ! i)"
  by (simp add: reusable_inv_def)


lemma dial_state_step:
  assumes "dial_state_ok d" and "rd_inner d = Some t" and "client_step t t'"
  shows "dial_state_ok (d\<lparr>rd_inner := Some t'\<rparr>)"
proof -
  have "gt_done t \<Longrightarrow> gt_done t'"
    using assms(1,2) done_stays [OF _ assms(3)] by (auto simp: dial_state_ok_def)
  moreover have "reach client_init client_step t'"
    using assms by (auto simp: dial_state_ok_def intro: reach.intros)
  ultimately show ?thesis
    using assms by (cases "rd_pc d") (auto simp: dial_state_ok_def)
qed

lemma open_stream_ok:
  "dial_state_ok d \<Longrightarrow> dial_state_ok (open_stream res d) \<and> rd_slot (open_stream res d) = rd_slot d"
  by (cases "rd_pc d")
    (auto simp: dial_state_ok_def open_stream_def client_init_def intro: reach.intros
      split: sum.split option.splits)

lemma take_result_ok:
  assumes inv: "reusable_inv r" and i: "i < length (rt_dials r)"
  shows "\<exists>r'. take_result i r = Ret r' \<and> reusable_inv r'"
proof -
  let ?d = "rt_dials r ! i"
  have ok: "dial_state_ok ?d" by (rule reusable_inv_nth [OF inv i])
  show ?thesis
  proof (cases "rd_pc ?d = RSetup \<and> rd_result ?d \<noteq> None")
    case True
    show ?thesis
    proof (cases "the (rd_result ?d)")
      case (Inl err)
      let ?d' = "?d\<lparr>rd_pc := RReturned (DialFailed (DialFailure (error_string err) DialFailureStreamSetup)),
                 rd_cancelled := True, rd_slot := False\<rparr>"
      have "dial_state_ok ?d'" "rd_slot ?d" "\<not> rd_slot ?d'"
        using ok True Inl by (auto simp: dial_state_ok_def split: option.splits)
      from reusable_inv_release [OF inv i this] True Inl show ?thesis
        by (auto simp: take_result_def children_Done_def reusable_inv_failed)
    next
      case (Inr u)
      have "reusable_inv (put_dial i (?d\<lparr>rd_pc := RDialing, rd_watched := True\<rparr>) r)"
        by (rule reusable_inv_put [OF inv i])
          (use ok True in \<open>auto simp: dial_state_ok_def split: option.splits\<close>)
      with True Inr show ?thesis by (auto simp: take_result_def)
    qed
  next
    case False
    with inv show ?thesis
      by (cases "rd_pc ?d") (auto simp: take_result_def Let_def)
  qed
qed

lemma drain_result_ok:
  assumes inv: "reusable_inv r" and i: "i < length (rt_dials r)"
  shows "\<exists>r'. drain_result i r = Ret r' \<and> reusable_inv r'"
proof -
  let ?d = "rt_dials r ! i"
  let ?f = "RReturned (DialFailed (DialFailure ''dial timeout, context'' DialFailureContext))"
  have ok: "dial_state_ok ?d" by (rule reusable_inv_nth [OF inv i])
  show ?thesis
  proof (cases "rd_pc ?d = RDraining \<and> rd_result ?d \<noteq> None")
    case True
    show ?thesis
    proof (cases "the (rd_result ?d)")
      case (Inl err)
      have "dial_state_ok (?d\<lparr>rd_pc := ?f, rd_slot := False\<rparr>)" "rd_slot ?d"
        "\<not> rd_slot (?d\<lparr>rd_pc := ?f, rd_slot := False\<rparr>)"
        using ok True Inl by (auto simp: dial_state_ok_def split: option.splits)
      from reusable_inv_release [OF inv i this] True Inl show ?thesis
        by (auto simp: drain_result_def children_Done_def reusable_inv_failed)
    next
      case (Inr u)
      have "reusable_inv (put_dial i (?d\<lparr>rd_pc := ?f, rd_watched := True\<rparr>) r)"
        by (rule reusable_inv_put [OF inv i])
          (use ok True in \<open>auto simp: dial_state_ok_def split: option.splits\<close>)
      with True Inr show ?thesis by (auto simp: drain_result_def reusable_inv_failed)
    qed
  next
    case False
    with inv show ?thesis
      by (cases "rd_pc ?d") (auto simp: drain_result_def Let_def)
  qed
qed

lemma watcher_Done_ok:
  assumes inv: "reusable_inv r" and i: "i < length (rt_dials r)"
  shows "\<exists>r'. watcher_Done i r = Ret r' \<and> reusable_inv r'"
proof -
  let ?d = "rt_dials r ! i"
  have ok: "dial_state_ok ?d" by (rule reusable_inv_nth [OF inv i])
  show ?thesis
  proof (cases "rd_watched ?d \<and> (\<exists>t. rd_inner ?d = Some t \<and> gt_done t)")
    case True
    have "dial_state_ok (?d\<lparr>rd_watched := False, rd_slot := False\<rparr>)" "rd_slot ?d"
      "\<not> rd_slot (?d\<lparr>rd_watched := False, rd_slot := False\<rparr>)"
      using ok True by (cases "rd_pc ?d"; auto simp: dial_state_ok_def)+
    from reusable_inv_release [OF inv i this] True show ?thesis
      by (auto simp: watcher_Done_def children_Done_def)
  next
    case False
    with inv show ?thesis by (auto simp: watcher_Done_def Let_def split: option.split)
  qed
qed

lemma inner_returned_ok:
  assumes inv: "reusable_inv r" and i: "i < length (rt_dials r)"
  shows "reusable_inv (inner_returned i r)"
proof -
  have ok: "dial_state_ok (rt_dials r ! i)" by (rule reusable_inv_nth [OF inv i])
  show ?thesis
    unfolding inner_returned_def Let_def
    by (auto simp: inv intro!: reusable_inv_put [OF inv i] split: rdial_pc.split option.split
        dialer_pc.split dial_answer.split)
      (use ok in \<open>auto simp: dial_state_ok_def\<close>)
qed

lemma reusable_Close_ok: "reusable_inv r \<Longrightarrow> reusable_Close r = Some r' \<Longrightarrow> reusable_inv r'"
  by (cases "rt_close r") (auto simp: reusable_inv_def reusable_Close_def split: if_splits)

lemma close_step_ok: "reusable_inv r \<Longrightarrow> \<exists>r'. close_step r = Ret r' \<and> reusable_inv r'"
  by (cases "rt_close r") (auto simp: reusable_inv_def close_step_def)

lemma reusable_DialContext_ok:
  assumes "reusable_inv r"
  shows "reusable_inv (snd (reusable_DialContext protocol r))"
proof (cases "protocol \<noteq> ''tcp'' \<or> rt_closing r")
  case True
  with assms show ?thesis by (auto simp: reusable_DialContext_def reusable_inv_failed)
next
  case False
  with assms show ?thesis
    by (cases "rt_close r")
      (auto simp: reusable_DialContext_def reusable_inv_def slots_append dial_state_ok_def)
qed

lemma reusable_inv_step:
  assumes inv: "reusable_inv r" and "reusable_step r r'"
  shows "reusable_inv r'"
  using assms(2)
proof (cases rule: reusable_step.cases)
  case (ru_open i res)
  then show ?thesis
    using open_stream_ok [OF reusable_inv_nth [OF inv]] reusable_inv_put [OF inv] by simp
next
  case (ru_request i)
  have "reusable_inv (put_dial i ((rt_dials r ! i)\<lparr>rd_pc := RDraining, rd_cancelled := True\<rparr>) r)"
    if "rd_pc (rt_dials r ! i) = RSetup"
    using that reusable_inv_nth [OF inv ru_request(2)]
    by (intro reusable_inv_put [OF inv ru_request(2)]) (auto simp: dial_state_ok_def split: option.splits)
  then show ?thesis using inv ru_request(1) by (simp add: request_done_def Let_def)
next
  case (ru_inner i t t')
  have "dial_state_ok ((rt_dials r ! i)\<lparr>rd_inner := Some t'\<rparr>)"
    by (rule dial_state_step [OF reusable_inv_nth [OF inv ru_inner(2)] ru_inner(3,4)])
  then show ?thesis unfolding ru_inner(1) by (rule reusable_inv_put [OF inv ru_inner(2)]) simp
qed (use inv reusable_DialContext_ok take_result_ok drain_result_ok watcher_Done_ok inner_returned_ok
    reusable_Close_ok close_step_ok in \<open>fastforce+\<close>)

lemma reusable_inv_init: "reusable_init r \<Longrightarrow> reusable_inv r"
  by (simp add: reusable_init_def newReusableGrpcTunnel_def reusable_inv_def slots_def)

interpretation reusable_system: invariant_system reusable_init reusable_step reusable_inv
  by unfold_locales (fact reusable_inv_init, fact reusable_inv_step)

lemma reusable_done_inner:
  assumes "reusable_inv r" and "rt_done r"
  shows "rt_children r = 0" and "rt_closing r" and "rt_connCloses r = 1"
    and "d \<in> set (rt_dials r) \<Longrightarrow> rd_inner d = Some t \<Longrightarrow> gt_done t"
proof -
  have "rt_close r = RCloseFinished" using assms by (cases "rt_close r") (auto simp: reusable_inv_def)
  then show z: "rt_children r = 0" and "rt_closing r" and "rt_connCloses r = 1"
    using assms by (auto simp: reusable_inv_def)
  assume "d \<in> set (rt_dials r)" "rd_inner d = Some t"
  moreover from this have "\<not> rd_slot d"
    using z assms slots_zero_iff [of "rt_dials r"] by (simp add: reusable_inv_def)
  ultimately show "gt_done t" using assms by (auto simp: reusable_inv_def dial_state_ok_def)
qed

text \<open>
  A tunnel that is returned starts in the initial state, with its gRPC connection open; when none is
  returned, a connection that was dialled has been closed.
\<close>

lemma creates_or_closes:
  "case CreateSingleUseGrpcTunnelWithContext dialErr proxyErr of
     (Inr t, n) \<Rightarrow> client_init t \<and> n = 0 \<and> dialErr = None
   | (Inl err, n) \<Rightarrow> n = (if dialErr = None then 1 else 0)"
  by (auto simp: CreateSingleUseGrpcTunnelWithContext_def newSingleStreamTunnel_def client_init_def
      split: option.splits)

text \<open>
  C22. The contract of a reusable tunnel, in every interleaving of its dials, its inner tunnels
  and its callers of \<^verbatim>\<open>Close\<close>: the \<^verbatim>\<open>WaitGroup\<close> counts the calls whose stream is not yet
  released and never goes below zero, so that no goroutine panics; and when \<^verbatim>\<open>Done\<close> is closed the
  tunnel refuses new dials, the gRPC connection was closed exactly once, and every inner tunnel
  has ended its receive loop.
\<close>

theorem reusable_tunnel_contract:
  assumes "reach reusable_init reusable_step r"
  shows "rt_children r = int (length (filter rd_slot (rt_dials r))) \<and>
    list_all (\<lambda>i. returns (take_result i r) \<and> returns (drain_result i r) \<and> returns (watcher_Done i r))
      [0..<length (rt_dials r)] \<and>
    returns (close_step r) \<and>
    (rt_done r \<longrightarrow> rt_closing r \<and> rt_children r = 0 \<and> rt_connCloses r = 1 \<and>
       list_all (\<lambda>d. case rd_inner d of None \<Rightarrow> True | Some t \<Rightarrow> gt_done t) (rt_dials r))"
proof -
  have inv: "reusable_inv r" by (rule reusable_system.reach_inv [OF assms])
  show ?thesis
  proof (intro conjI impI)
    show "rt_children r = int (length (filter rd_slot (rt_dials r)))"
      using inv by (simp add: reusable_inv_def slots_def)
    show "list_all (\<lambda>i. returns (take_result i r) \<and> returns (drain_result i r) \<and> returns (watcher_Done i r))
      [0..<length (rt_dials r)]"
      using take_result_ok [OF inv] drain_result_ok [OF inv] watcher_Done_ok [OF inv]
      by (fastforce simp: list_all_iff returns_iff)
    show "returns (close_step r)" using close_step_ok [OF inv] by (auto simp: returns_iff)
    assume d: "rt_done r"
    note c = reusable_done_inner [OF inv d]
    show "rt_closing r" "rt_children r = 0" "rt_connCloses r = 1" by (fact c)+
    show "list_all (\<lambda>d. case rd_inner d of None \<Rightarrow> True | Some t \<Rightarrow> gt_done t) (rt_dials r)"
      using c(4) by (auto simp: list_all_iff split: option.split)
  qed
qed

text \<open>A tunnel that was closed without a dial.\<close>

definition closed_run :: reusable_tunnel where
  "closed_run = newReusableGrpcTunnel\<lparr>rt_closing := True, rt_cancelled := True, rt_connCloses := 1,
     rt_done := True, rt_close := RCloseFinished\<rparr>"

lemma closed_run_reach: "reach reusable_init reusable_step closed_run"
proof -
  let ?n = newReusableGrpcTunnel
  have r0: "reach reusable_init reusable_step ?n" by (rule reach.intros) (simp add: reusable_init_def)
  have r1: "reach reusable_init reusable_step (?n\<lparr>rt_closing := True, rt_close := RCloseCancel\<rparr>)"
    by (rule reach.intros(2) [OF r0], rule ru_close) (simp add: reusable_Close_def newReusableGrpcTunnel_def)
  have r2: "reach reusable_init reusable_step (?n\<lparr>rt_closing := True, rt_cancelled := True, rt_close := RCloseWait\<rparr>)"
    by (rule reach.intros(2) [OF r1], rule ru_closing) (simp add: close_step_def newReusableGrpcTunnel_def)
  have r3: "reach reusable_init reusable_step (?n\<lparr>rt_closing := True, rt_cancelled := True, rt_close := RCloseConn\<rparr>)"
    by (rule reach.intros(2) [OF r2], rule ru_closing) (simp add: close_step_def newReusableGrpcTunnel_def)
  have r4: "reach reusable_init reusable_step
      (?n\<lparr>rt_closing := True, rt_cancelled := True, rt_connCloses := 1, rt_close := RCloseDone\<rparr>)"
    by (rule reach.intros(2) [OF r3], rule ru_closing) (simp add: close_step_def newReusableGrpcTunnel_def)
  show ?thesis
    by (rule reach.intros(2) [OF r4], rule ru_closing)
      (simp add: close_step_def newReusableGrpcTunnel_def closed_run_def)
qed

theorem reusable_tunnel_contract_witness:
  "rt_done closed_run \<and> rt_closing closed_run \<and> rt_connCloses closed_run = 1"
  using reusable_tunnel_contract [OF closed_run_reach]
  by (simp add: closed_run_def newReusableGrpcTunnel_def)

end
