(* ===== verification/KNP_Collectors.thy ===== *)
theory KNP_Collectors
  imports KNP_AgentApp
begin

section \<open>Collectors\<close>

text \<open>
  The metrics of server, agent and client are Prometheus collectors: counters, gauges and
  histograms, one value for each combination of label values. The model follows the client library
  as far as the sources use it: \<^verbatim>\<open>WithLabelValues\<close> and \<^verbatim>\<open>With\<close> panic when the number of values is
  not the number of label names or a value is not valid UTF-8, and create the value otherwise;
  \<^verbatim>\<open>Reset\<close> deletes all values; \<^verbatim>\<open>MustRegister\<close> panics when a collector with the same fully-qualified
  name is registered, or when its name or one of its label names is not allowed. Values are floats
  in the library and whole numbers here; all of the sources' are whole and remain exact below
  \<open>2 ^ 53\<close>. A histogram counts durations, in nanoseconds, which is the unit of
  \<^verbatim>\<open>time.Duration\<close>; \<^verbatim>\<open>Seconds\<close> keeps their order, so they fall into the same buckets. The second
  half is \<^verbatim>\<open>konnectivity-client/pkg/common/metrics\<close>.
\<close>

subsection \<open>Valid UTF-8\<close>

definition cont_byte :: "char \<Rightarrow> bool" where
  "cont_byte c \<longleftrightarrow> (128 :: nat) \<le> of_char c \<and> (of_char c :: nat) < 192"

definition byte_in :: "nat \<Rightarrow> nat \<Rightarrow> char \<Rightarrow> bool" where
  "byte_in lo hi c \<longleftrightarrow> lo \<le> of_char c \<and> of_char c \<le> hi"

text \<open>\<^verbatim>\<open>utf8.ValidString\<close>: no overlong forms, no surrogates, nothing above U+10FFFF.\<close>

fun ValidString :: "string \<Rightarrow> bool" where
  "ValidString [] = True"
| "ValidString (a # s) =
     (if byte_in 0 127 a then ValidString s
      else
        (case s of
           [] \<Rightarrow> False
         | b # s1 \<Rightarrow>
             if byte_in 194 223 a then cont_byte b \<and> ValidString s1
             else
               (case s1 of
                  [] \<Rightarrow> False
                | c # s2 \<Rightarrow>
                    if byte_in 224 239 a then
                      (if byte_in 224 224 a then byte_in 160 191 b
                       else if byte_in 237 237 a then byte_in 128 159 b else cont_byte b) \<and>
                      cont_byte c \<and> ValidString s2
                    else
                      (case s2 of
                         [] \<Rightarrow> False
                       | d # s3 \<Rightarrow>
                           byte_in 240 244 a \<and>
                           (if byte_in 240 240 a then byte_in 144 191 b
                            else if byte_in 244 244 a then byte_in 128 143 b else cont_byte b) \<and>
                           cont_byte c \<and> cont_byte d \<and> ValidString s3))))"

lemma ValidString_ascii: "list_all (byte_in 0 127) s \<Longrightarrow> ValidString s"
  by (induction s) simp_all

subsection \<open>Vectors of values\<close>

text \<open>\<open>vc_zero\<close> is the value that a new combination of labels starts with.\<close>

record 'v vec =
  vc_fqName :: string
  vc_labels :: "string list"
  vc_zero :: 'v
  vc_values :: "(string list, 'v) gomap"

type_synonym counter_vec = "nat vec"
type_synonym gauge_vec = "int vec"

record histogram =
  hs_bounds :: "int list"
  hs_counts :: "nat list"
  hs_overflow :: nat
  hs_sum :: int

type_synonym histogram_vec = "histogram vec"

definition fqName :: "string \<Rightarrow> string \<Rightarrow> string \<Rightarrow> string" where
  "fqName namespace subsystem name = namespace @ ''_'' @ subsystem @ ''_'' @ name"

definition new_vec :: "string \<Rightarrow> string list \<Rightarrow> 'v \<Rightarrow> 'v vec" where
  "new_vec name labels zero = \<lparr>vc_fqName = name, vc_labels = labels, vc_zero = zero, vc_values = []\<rparr>"

text \<open>\<^verbatim>\<open>prometheus.DefBuckets\<close>, for a histogram without buckets of its own.\<close>

definition DefBuckets :: "int list" where
  "DefBuckets = [5000000, 10000000, 25000000, 50000000, 100000000, 250000000, 500000000,
     1000000000, 2500000000, 5000000000, 10000000000]"

definition new_histogram :: "int list \<Rightarrow> histogram" where
  "new_histogram buckets =
     (let bounds = (if buckets = [] then DefBuckets else buckets) in
      \<lparr>hs_bounds = bounds, hs_counts = replicate (length bounds) 0, hs_overflow = 0, hs_sum = 0\<rparr>)"

definition label_panic :: string where
  "label_panic = ''inconsistent label cardinality or invalid label value''"

definition WithLabelValues :: "string list \<Rightarrow> ('v \<Rightarrow> 'v) \<Rightarrow> 'v vec \<Rightarrow> 'v vec outcome" where
  "WithLabelValues values act v =
     (if length values \<noteq> length (vc_labels v) \<or> \<not> list_all ValidString values then Panic label_panic
      else
        Ret (v\<lparr>vc_values := gm_put values
          (act (case gm_get (vc_values v) values of Some x \<Rightarrow> x | None \<Rightarrow> vc_zero v)) (vc_values v)\<rparr>))"

definition vec_Reset :: "'v vec \<Rightarrow> 'v vec" where
  "vec_Reset v = v\<lparr>vc_values := []\<rparr>"

text \<open>What a collector shows for some label values; one it has not created counts as its zero.\<close>

definition reads :: "'v vec \<Rightarrow> string list \<Rightarrow> 'v" where
  "reads v values = (case gm_get (vc_values v) values of Some x \<Rightarrow> x | None \<Rightarrow> vc_zero v)"

text \<open>\<^verbatim>\<open>histogram.Observe\<close>: the first bucket whose bound is not below the value.\<close>

fun findBucket :: "int list \<Rightarrow> int \<Rightarrow> nat" where
  "findBucket [] d = 0"
| "findBucket (b # bs) d = (if d \<le> b then 0 else Suc (findBucket bs d))"

definition Observe :: "duration \<Rightarrow> histogram \<Rightarrow> histogram" where
  "Observe d h =
     (let i = findBucket (hs_bounds h) d; h1 = h\<lparr>hs_sum := hs_sum h + d\<rparr> in
      if i < length (hs_counts h) then h1\<lparr>hs_counts := (hs_counts h)[i := hs_counts h ! i + 1]\<rparr>
      else h1\<lparr>hs_overflow := hs_overflow h + 1\<rparr>)"

definition observations :: "histogram \<Rightarrow> nat" where
  "observations h = sum_list (hs_counts h) + hs_overflow h"

subsection \<open>The registry\<close>

text \<open>The fully-qualified names that are registered.\<close>

type_synonym registry = "string list"

definition valid_name :: "string \<Rightarrow> bool" where
  "valid_name s \<longleftrightarrow> s \<noteq> [] \<and> ValidString s"

definition checkLabelName :: "string \<Rightarrow> bool" where
  "checkLabelName s \<longleftrightarrow> valid_name s \<and> take 2 s \<noteq> ''__''"

definition MustRegister :: "string \<times> string list \<Rightarrow> registry \<Rightarrow> registry outcome" where
  "MustRegister desc reg =
     (if \<not> valid_name (fst desc) \<or> \<not> list_all checkLabelName (snd desc) \<or> \<not> distinct (snd desc)
      then Panic ''descriptor is invalid''
      else if fst desc \<in> set reg then Panic ''duplicate metrics collector registration attempted''
      else Ret (reg @ [fst desc]))"

fun register_all :: "(string \<times> string list) list \<Rightarrow> registry \<Rightarrow> registry outcome" where
  "register_all [] reg = Ret reg"
| "register_all (d # ds) reg = bind_outcome (MustRegister d reg) (register_all ds)"

definition desc :: "'v vec \<Rightarrow> string \<times> string list" where
  "desc v = (vc_fqName v, vc_labels v)"

subsection \<open>Streams\<close>

definition segment_string :: "segment \<Rightarrow> string" where
  "segment_string s =
     (case s of SegmentFromClient \<Rightarrow> ''from_client'' | SegmentToClient \<Rightarrow> ''to_client''
      | SegmentFromAgent \<Rightarrow> ''from_agent'' | SegmentToAgent \<Rightarrow> ''to_agent'')"

definition PacketType_String :: "packet_type \<Rightarrow> string" where
  "PacketType_String p =
     (case p of
        DIAL_REQ \<Rightarrow> ''DIAL_REQ'' | DIAL_RSP \<Rightarrow> ''DIAL_RSP'' | CLOSE_REQ \<Rightarrow> ''CLOSE_REQ'' | CLOSE_RSP \<Rightarrow> ''CLOSE_RSP''
      | DATA \<Rightarrow> ''DATA'' | DIAL_CLS \<Rightarrow> ''DIAL_CLS'' | DRAIN \<Rightarrow> ''DRAIN'' | UnknownType n \<Rightarrow> Itoa n)"

definition MakeStreamPacketsTotalMetric :: "string \<Rightarrow> string \<Rightarrow> counter_vec" where
  "MakeStreamPacketsTotalMetric namespace subsystem =
     new_vec (fqName namespace subsystem ''stream_packets_total'') [''segment'', ''packet_type''] 0"

definition MakeStreamErrorsTotalMetric :: "string \<Rightarrow> string \<Rightarrow> counter_vec" where
  "MakeStreamErrorsTotalMetric namespace subsystem =
     new_vec (fqName namespace subsystem ''stream_errors_total'') [''segment'', ''code'', ''packet_type''] 0"

definition common_ObservePacket :: "segment \<Rightarrow> packet_type \<Rightarrow> counter_vec \<Rightarrow> counter_vec outcome" where
  "common_ObservePacket s p v = WithLabelValues [segment_string s, PacketType_String p] Suc v"

text \<open>\<open>code\<close> is the name of the gRPC status code of the error.\<close>

definition common_ObserveStreamErrorNoPacket :: "segment \<Rightarrow> string \<Rightarrow> counter_vec \<Rightarrow> counter_vec outcome" where
  "common_ObserveStreamErrorNoPacket s code v = WithLabelValues [segment_string s, code, ''Unknown''] Suc v"

definition common_ObserveStreamError :: "segment \<Rightarrow> string \<Rightarrow> packet_type \<Rightarrow> counter_vec \<Rightarrow> counter_vec outcome" where
  "common_ObserveStreamError s code p v = WithLabelValues [segment_string s, code, PacketType_String p] Suc v"

subsection \<open>Lemmas\<close>

text \<open>The vector after \<^verbatim>\<open>WithLabelValues\<close> and an operation on the value it returned.\<close>

definition touch :: "string list \<Rightarrow> ('v \<Rightarrow> 'v) \<Rightarrow> 'v vec \<Rightarrow> 'v vec" where
  "touch values act v = v\<lparr>vc_values := gm_put values (act (reads v values)) (vc_values v)\<rparr>"

lemma WithLabelValues_Ret:
  "length values = length (vc_labels v) \<Longrightarrow> list_all ValidString values \<Longrightarrow>
   WithLabelValues values act v = Ret (touch values act v)"
  by (simp add: WithLabelValues_def touch_def reads_def)

lemma WithLabelValues_Ret_iff:
  "WithLabelValues values act v = Ret v' \<longleftrightarrow>
   length values = length (vc_labels v) \<and> list_all ValidString values \<and> v' = touch values act v"
  by (auto simp: WithLabelValues_def touch_def reads_def)

lemma touch_frame [simp]:
  "desc (touch values act v) = desc v" "vc_labels (touch values act v) = vc_labels v"
  "desc (vec_Reset v) = desc v" "vc_labels (vec_Reset v) = vc_labels v"
  "vc_zero (touch values act v) = vc_zero v" "vc_zero (vec_Reset v) = vc_zero v"
  by (simp_all add: touch_def desc_def vec_Reset_def)

lemma reads_touch [simp]:
  "reads (touch values act v) l = (if l = values then act (reads v values) else reads v l)"
  by (simp add: reads_def touch_def split: option.split)

lemma reads_Reset [simp]: "reads (vec_Reset v) l = vc_zero v"
  by (simp add: reads_def vec_Reset_def gm_get_def)

lemma reads_new [simp]: "reads (new_vec name labels zero) l = zero"
  by (simp add: reads_def new_vec_def gm_get_def)

lemma new_vec_sel [simp]:
  "desc (new_vec name labels zero) = (name, labels)" "vc_labels (new_vec name labels zero) = labels"
  "vc_zero (new_vec name labels zero) = zero"
  by (simp_all add: new_vec_def desc_def)

lemma nat_digits_valid: "ValidString (nat_digits n)"
proof (rule ValidString_ascii)
  show "list_all (byte_in 0 127) (nat_digits n)"
    by (induction n rule: nat_digits.induct) (subst nat_digits.simps, auto simp: byte_in_def [abs_def])
qed

lemma Itoa_valid [simp]: "ValidString (Itoa n)"
  using nat_digits_valid by (simp add: Itoa_def byte_in_def)

lemma segment_valid [simp]: "ValidString (segment_string s)"
  by (cases s) (simp_all add: segment_string_def byte_in_def)

lemma PacketType_valid [simp]: "ValidString (PacketType_String p)"
  by (cases p) (simp_all add: PacketType_String_def byte_in_def)

lemma Unknown_valid [simp]: "ValidString ''Unknown''"
  by (simp add: byte_in_def)

declare ValidString.simps(2) [simp del]

text \<open>A histogram counts every observation once, in the bucket of its value.\<close>

definition histogram_ok :: "histogram \<Rightarrow> bool" where
  "histogram_ok h \<longleftrightarrow> length (hs_counts h) = length (hs_bounds h) \<and> sorted (hs_bounds h) \<and> distinct (hs_bounds h)"

lemma findBucket_le: "findBucket bs d \<le> length bs"
  by (induction bs) auto

lemma Observe_bounds [simp]: "hs_bounds (Observe d h) = hs_bounds h" "length (hs_counts (Observe d h)) = length (hs_counts h)"
  by (simp_all add: Observe_def Let_def)

lemma sum_list_bump: "i < length ns \<Longrightarrow> sum_list (ns[i := ns ! i + 1]) = sum_list ns + (1 :: nat)"
  by (induction ns arbitrary: i) (auto split: nat.split)

lemma observations_Observe [simp]: "observations (Observe d h) = observations h + 1"
  by (simp add: observations_def Observe_def Let_def sum_list_bump [unfolded Suc_eq_plus1 [symmetric]])

lemma hs_sum_Observe [simp]: "hs_sum (Observe d h) = hs_sum h + d"
  by (simp add: Observe_def Let_def)

lemma observations_new [simp]: "observations (new_histogram bs) = 0" "hs_sum (new_histogram bs) = 0"
  by (simp_all add: observations_def new_histogram_def Let_def sum_list_replicate)

lemma fqName_inj [simp]: "fqName ns ss n = fqName ns ss n' \<longleftrightarrow> n = n'"
  by (simp add: fqName_def)

lemma fqName_valid:
  "list_all (byte_in 0 127) ns \<Longrightarrow> list_all (byte_in 0 127) ss \<Longrightarrow> list_all (byte_in 0 127) n \<Longrightarrow> valid_name (fqName ns ss n)"
  by (simp add: valid_name_def fqName_def ValidString_ascii byte_in_def)

lemma register_all_ok:
  "list_all (\<lambda>d. valid_name (fst d) \<and> list_all checkLabelName (snd d) \<and> distinct (snd d)) ds \<Longrightarrow>
   distinct (map fst ds) \<Longrightarrow> set (map fst ds) \<inter> set reg = {} \<Longrightarrow> register_all ds reg = Ret (reg @ map fst ds)"
  by (induction ds arbitrary: reg) (auto simp: MustRegister_def)

subsection \<open>Sets of metrics\<close>

text \<open>
  What the three sets of metrics have in common: their operations, on arguments that are legal,
  return and leave the names and labels of the collectors as they are.
\<close>

fun perform_all :: "('op \<Rightarrow> 'm \<Rightarrow> 'm outcome) \<Rightarrow> 'op list \<Rightarrow> 'm \<Rightarrow> 'm outcome" where
  "perform_all perform [] m = Ret m"
| "perform_all perform (op # ops) m = bind_outcome (perform op m) (perform_all perform ops)"

lemma bind_outcome_assoc: "bind_outcome (bind_outcome r f) g = bind_outcome r (\<lambda>x. bind_outcome (f x) g)"
  by (cases r) simp_all

lemma perform_all_append:
  "perform_all perform (ops @ ops') m = bind_outcome (perform_all perform ops m) (perform_all perform ops')"
proof (induction ops arbitrary: m)
  case (Cons op ops)
  then show ?case by (cases "perform op m") simp_all
qed simp

text \<open>The operations since the last one that resets.\<close>

definition recent :: "('op \<Rightarrow> bool) \<Rightarrow> 'op list \<Rightarrow> 'op list" where
  "recent reset ops = rev (takeWhile (\<lambda>op. \<not> reset op) (rev ops))"

lemma recent_snoc [simp]: "recent reset (ops @ [op]) = (if reset op then [] else recent reset ops @ [op])"
  by (simp add: recent_def)

lemma recent_Nil [simp]: "recent reset [] = []"
  by (simp add: recent_def)

lemma recent_all: "list_all (\<lambda>op. \<not> reset op) ops \<Longrightarrow> recent reset ops = ops"
  by (induction ops rule: rev_induct) simp_all

lemma recent_never [simp]: "recent (\<lambda>_. False) ops = ops"
  by (induction ops rule: rev_induct) simp_all

text \<open>A value that every operation raises by \<open>bump\<close> and that a reset clears is the sum since the last reset.\<close>

lemma value_counts:
  fixes val :: "'m \<Rightarrow> 'n :: comm_monoid_add"
  assumes "\<And>op m m'. ok m \<Longrightarrow> perform op m = Ret m' \<Longrightarrow> ok m' \<and> val m' = (if reset op then 0 else val m + bump op)"
    and "ok m0" and "val m0 = 0" and "perform_all perform ops m0 = Ret m"
  shows "val m = sum_list (map bump (recent reset ops))"
proof -
  have "ok m \<and> val m = sum_list (map bump (recent reset ops))"
    using assms(4)
  proof (induction ops arbitrary: m rule: rev_induct)
    case (snoc op ops)
    then obtain m1 where "perform_all perform ops m0 = Ret m1" "perform op m1 = Ret m"
      by (auto simp: perform_all_append bind_outcome_Ret_iff)
    with snoc.IH assms(1) [of m1 op m] show ?case by auto
  qed (use assms(2,3) in simp)
  then show ?thesis ..
qed

locale metric_set =
  fixes descs :: "'m \<Rightarrow> (string \<times> string list) list"
    and new :: 'm
    and perform :: "'op \<Rightarrow> 'm \<Rightarrow> 'm outcome"
    and legal :: "'op \<Rightarrow> bool"
  assumes performs: "descs m = descs new \<Longrightarrow> legal op \<Longrightarrow> \<exists>m'. perform op m = Ret m' \<and> descs m' = descs m"
begin

lemma never_panics:
  "descs m = descs new \<Longrightarrow> list_all legal ops \<Longrightarrow> \<exists>m'. perform_all perform ops m = Ret m' \<and> descs m' = descs new"
proof (induction ops arbitrary: m)
  case (Cons op ops)
  from performs [OF Cons.prems(1), of op] Cons.prems(2) obtain m1 where "perform op m = Ret m1" "descs m1 = descs m"
    by auto
  with Cons show ?case by simp
qed simp

end

end
