(* ===== verification/KNP_ServerMetrics.thy ===== *)
theory KNP_ServerMetrics
  imports KNP_Collectors KNP_World
begin

section \<open>Metrics of the server\<close>

text \<open>
  \<^verbatim>\<open>pkg/server/metrics/metrics.go\<close>: the collectors of the proxy server with their names and labels,
  their registration, and one definition for each method. A method that returns a gauge for the
  caller to change is modelled with that change as an argument. A collector without labels that is
  not a vector has the one value at the empty list.
\<close>

subsection \<open>Collectors\<close>

definition server_Namespace :: string where
  "server_Namespace = ''konnectivity_network_proxy''"

definition server_Subsystem :: string where
  "server_Subsystem = ''server''"

definition server_latencyBuckets :: "int list" where
  "server_latencyBuckets = [1000, 10000, 100000, 5000000, 25000000, 100000000, 500000000, 2500000000, 12500000000]"

definition connectionDurationBuckets :: "int list" where
  "connectionDurationBuckets = map (\<lambda>s. s * 1000000000) [1, 5, 15, 30, 60, 300, 900, 1800, 3600, 14400, 43200, 86400]"

record server_metrics =
  sm_endpointLatencies :: histogram_vec
  sm_frontendLatencies :: histogram_vec
  sm_connectionDuration :: histogram_vec
  sm_backendConnDuration :: histogram_vec
  sm_grpcConnections :: gauge_vec
  sm_httpConnections :: gauge_vec
  sm_backend :: gauge_vec
  sm_totalBackendCount :: gauge_vec
  sm_pendingDials :: gauge_vec
  sm_establishedConns :: gauge_vec
  sm_establishedClosed :: counter_vec
  sm_fullRecvChannels :: gauge_vec
  sm_fullWriteQueues :: gauge_vec
  sm_blockedWriteChannels :: gauge_vec
  sm_dialFailures :: counter_vec
  sm_streamPackets :: counter_vec
  sm_streamErrors :: counter_vec
  sm_culledLeases :: counter_vec
  sm_leaseDeleteLatencies :: histogram_vec
  sm_leaseDeletes :: counter_vec
  sm_leaseListLatencies :: histogram_vec
  sm_leaseLists :: counter_vec

definition new_endpointLatencies :: histogram_vec where
  "new_endpointLatencies = new_vec (fqName server_Namespace server_Subsystem ''dial_duration_seconds'') [] (new_histogram server_latencyBuckets)"

definition new_frontendLatencies :: histogram_vec where
  "new_frontendLatencies = new_vec (fqName server_Namespace server_Subsystem ''frontend_write_duration_seconds'') [] (new_histogram server_latencyBuckets)"

definition new_connectionDuration :: histogram_vec where
  "new_connectionDuration = new_vec (fqName server_Namespace server_Subsystem ''connection_duration_seconds'') [] (new_histogram connectionDurationBuckets)"

definition new_backendConnDuration :: histogram_vec where
  "new_backendConnDuration = new_vec (fqName server_Namespace server_Subsystem ''backend_connection_duration_seconds'') [] (new_histogram connectionDurationBuckets)"

definition new_grpcConnections :: gauge_vec where
  "new_grpcConnections = new_vec (fqName server_Namespace server_Subsystem ''grpc_connections'') [''service_method''] 0"

definition new_httpConnections :: gauge_vec where
  "new_httpConnections = new_vec (fqName server_Namespace server_Subsystem ''http_connections'') [] 0"

definition new_backend :: gauge_vec where
  "new_backend = new_vec (fqName server_Namespace server_Subsystem ''ready_backend_connections'') [] 0"

definition new_totalBackendCount :: gauge_vec where
  "new_totalBackendCount = new_vec (fqName server_Namespace server_Subsystem ''ready_backends'') [''proxy_strategy''] 0"

definition new_pendingDials :: gauge_vec where
  "new_pendingDials = new_vec (fqName server_Namespace server_Subsystem ''pending_backend_dials'') [] 0"

definition new_establishedConns :: gauge_vec where
  "new_establishedConns = new_vec (fqName server_Namespace server_Subsystem ''established_connections'') [] 0"

definition new_establishedClosed :: counter_vec where
  "new_establishedClosed = new_vec (fqName server_Namespace server_Subsystem ''established_connections_closed_total'') [''reason''] 0"

definition new_fullRecvChannels :: gauge_vec where
  "new_fullRecvChannels = new_vec (fqName server_Namespace server_Subsystem ''full_receive_channels'') [''service_method''] 0"

definition new_fullWriteQueues :: gauge_vec where
  "new_fullWriteQueues = new_vec (fqName server_Namespace server_Subsystem ''full_frontend_write_queues'') [] 0"

definition new_blockedWriteChannels :: gauge_vec where
  "new_blockedWriteChannels = new_vec (fqName server_Namespace server_Subsystem ''blocked_frontend_write_channels'') [] 0"

definition new_dialFailures :: counter_vec where
  "new_dialFailures = new_vec (fqName server_Namespace server_Subsystem ''dial_failure_count'') [''reason''] 0"

definition new_culledLeases :: counter_vec where
  "new_culledLeases = new_vec (fqName server_Namespace server_Subsystem ''culled_leases_count'') [] 0"

definition new_leaseDeleteLatencies :: histogram_vec where
  "new_leaseDeleteLatencies = new_vec (fqName server_Namespace server_Subsystem ''lease_delete_latency_seconds'') [''http_status_code''] (new_histogram [])"

definition new_leaseDeletes :: counter_vec where
  "new_leaseDeletes = new_vec (fqName server_Namespace server_Subsystem ''lease_delete_total'') [''http_status_code'', ''reason''] 0"

definition new_leaseListLatencies :: histogram_vec where
  "new_leaseListLatencies = new_vec (fqName server_Namespace server_Subsystem ''lease_list_latency_seconds'') [''http_status_code''] (new_histogram [])"

definition new_leaseLists :: counter_vec where
  "new_leaseLists = new_vec (fqName server_Namespace server_Subsystem ''lease_list_total'') [''http_status_code'', ''reason''] 0"

definition server_collectors :: server_metrics where
  "server_collectors =
     \<lparr>sm_endpointLatencies = new_endpointLatencies,
      sm_frontendLatencies = new_frontendLatencies,
      sm_connectionDuration = new_connectionDuration,
      sm_backendConnDuration = new_backendConnDuration,
      sm_grpcConnections = new_grpcConnections,
      sm_httpConnections = new_httpConnections,
      sm_backend = new_backend,
      sm_totalBackendCount = new_totalBackendCount,
      sm_pendingDials = new_pendingDials,
      sm_establishedConns = new_establishedConns,
      sm_establishedClosed = new_establishedClosed,
      sm_fullRecvChannels = new_fullRecvChannels,
      sm_fullWriteQueues = new_fullWriteQueues,
      sm_blockedWriteChannels = new_blockedWriteChannels,
      sm_dialFailures = new_dialFailures,
      sm_streamPackets = MakeStreamPacketsTotalMetric server_Namespace server_Subsystem,
      sm_streamErrors = MakeStreamErrorsTotalMetric server_Namespace server_Subsystem,
      sm_culledLeases = new_culledLeases,
      sm_leaseDeleteLatencies = new_leaseDeleteLatencies,
      sm_leaseDeletes = new_leaseDeletes,
      sm_leaseListLatencies = new_leaseListLatencies,
      sm_leaseLists = new_leaseLists\<rparr>"

definition server_descs :: "server_metrics \<Rightarrow> (string \<times> string list) list" where
  "server_descs s =
     [desc (sm_endpointLatencies s),
      desc (sm_frontendLatencies s),
      desc (sm_connectionDuration s),
      desc (sm_backendConnDuration s),
      desc (sm_grpcConnections s),
      desc (sm_httpConnections s),
      desc (sm_backend s),
      desc (sm_totalBackendCount s),
      desc (sm_pendingDials s),
      desc (sm_establishedConns s),
      desc (sm_establishedClosed s),
      desc (sm_fullRecvChannels s),
      desc (sm_fullWriteQueues s),
      desc (sm_blockedWriteChannels s),
      desc (sm_dialFailures s),
      desc (sm_streamPackets s),
      desc (sm_streamErrors s),
      desc (sm_culledLeases s),
      desc (sm_leaseDeleteLatencies s),
      desc (sm_leaseDeletes s),
      desc (sm_leaseListLatencies s),
      desc (sm_leaseLists s)]"

definition newServerMetrics :: "registry \<Rightarrow> (registry \<times> server_metrics) outcome" where
  "newServerMetrics reg =
     bind_outcome (register_all (server_descs server_collectors) reg) (\<lambda>reg'. Ret (reg', server_collectors))"

subsection \<open>Methods\<close>

definition server_Reset :: "server_metrics \<Rightarrow> server_metrics" where
  "server_Reset s =
     s\<lparr>sm_endpointLatencies := vec_Reset (sm_endpointLatencies s),
       sm_frontendLatencies := vec_Reset (sm_frontendLatencies s),
       sm_connectionDuration := vec_Reset (sm_connectionDuration s),
       sm_backendConnDuration := vec_Reset (sm_backendConnDuration s),
       sm_grpcConnections := vec_Reset (sm_grpcConnections s),
       sm_backend := vec_Reset (sm_backend s),
       sm_totalBackendCount := vec_Reset (sm_totalBackendCount s),
       sm_pendingDials := vec_Reset (sm_pendingDials s),
       sm_establishedConns := vec_Reset (sm_establishedConns s),
       sm_establishedClosed := vec_Reset (sm_establishedClosed s),
       sm_fullRecvChannels := vec_Reset (sm_fullRecvChannels s),
       sm_fullWriteQueues := vec_Reset (sm_fullWriteQueues s),
       sm_blockedWriteChannels := vec_Reset (sm_blockedWriteChannels s),
       sm_dialFailures := vec_Reset (sm_dialFailures s),
       sm_streamPackets := vec_Reset (sm_streamPackets s),
       sm_streamErrors := vec_Reset (sm_streamErrors s)\<rparr>"

definition sm_CulledLeasesInc :: "server_metrics \<Rightarrow> server_metrics" where
  "sm_CulledLeasesInc s = s\<lparr>sm_culledLeases := touch [] Suc (sm_culledLeases s)\<rparr>"

definition sm_ObserveDialLatency :: "duration \<Rightarrow> server_metrics \<Rightarrow> server_metrics outcome" where
  "sm_ObserveDialLatency elapsed s =
     bind_outcome (WithLabelValues [] (Observe elapsed) (sm_endpointLatencies s)) (\<lambda>v. Ret (s\<lparr>sm_endpointLatencies := v\<rparr>))"

definition sm_ObserveConnectionDuration :: "duration \<Rightarrow> server_metrics \<Rightarrow> server_metrics outcome" where
  "sm_ObserveConnectionDuration elapsed s =
     bind_outcome (WithLabelValues [] (Observe elapsed) (sm_connectionDuration s)) (\<lambda>v. Ret (s\<lparr>sm_connectionDuration := v\<rparr>))"

definition sm_ObserveBackendConnectionDuration :: "duration \<Rightarrow> server_metrics \<Rightarrow> server_metrics outcome" where
  "sm_ObserveBackendConnectionDuration elapsed s =
     bind_outcome (WithLabelValues [] (Observe elapsed) (sm_backendConnDuration s)) (\<lambda>v. Ret (s\<lparr>sm_backendConnDuration := v\<rparr>))"

definition sm_ObserveFrontendWriteLatency :: "duration \<Rightarrow> server_metrics \<Rightarrow> server_metrics outcome" where
  "sm_ObserveFrontendWriteLatency elapsed s =
     bind_outcome (WithLabelValues [] (Observe elapsed) (sm_frontendLatencies s)) (\<lambda>v. Ret (s\<lparr>sm_frontendLatencies := v\<rparr>))"

definition sm_ConnectionInc :: "string \<Rightarrow> server_metrics \<Rightarrow> server_metrics outcome" where
  "sm_ConnectionInc serviceMethod s =
     bind_outcome (WithLabelValues [serviceMethod] (\<lambda>n. n + 1) (sm_grpcConnections s)) (\<lambda>v. Ret (s\<lparr>sm_grpcConnections := v\<rparr>))"

definition sm_ConnectionDec :: "string \<Rightarrow> server_metrics \<Rightarrow> server_metrics outcome" where
  "sm_ConnectionDec serviceMethod s =
     bind_outcome (WithLabelValues [serviceMethod] (\<lambda>n. n - 1) (sm_grpcConnections s)) (\<lambda>v. Ret (s\<lparr>sm_grpcConnections := v\<rparr>))"

definition sm_HTTPConnectionInc :: "server_metrics \<Rightarrow> server_metrics" where
  "sm_HTTPConnectionInc s = s\<lparr>sm_httpConnections := touch [] (\<lambda>n. n + 1) (sm_httpConnections s)\<rparr>"

definition sm_HTTPConnectionDec :: "server_metrics \<Rightarrow> server_metrics" where
  "sm_HTTPConnectionDec s = s\<lparr>sm_httpConnections := touch [] (\<lambda>n. n - 1) (sm_httpConnections s)\<rparr>"

definition sm_SetBackendCountDeprecated :: "int \<Rightarrow> server_metrics \<Rightarrow> server_metrics outcome" where
  "sm_SetBackendCountDeprecated n s =
     bind_outcome (WithLabelValues [] (\<lambda>_. n) (sm_backend s)) (\<lambda>v. Ret (s\<lparr>sm_backend := v\<rparr>))"

definition sm_SetTotalBackendCount :: "proxy_strategy \<Rightarrow> int \<Rightarrow> server_metrics \<Rightarrow> server_metrics outcome" where
  "sm_SetTotalBackendCount proxyStrategy n s =
     bind_outcome (ProxyStrategy_String proxyStrategy) (\<lambda>name.
     bind_outcome (WithLabelValues [name] (\<lambda>_. n) (sm_totalBackendCount s)) (\<lambda>v.
       Ret (s\<lparr>sm_totalBackendCount := v\<rparr>)))"

definition sm_SetPendingDialCount :: "int \<Rightarrow> server_metrics \<Rightarrow> server_metrics outcome" where
  "sm_SetPendingDialCount n s =
     bind_outcome (WithLabelValues [] (\<lambda>_. n) (sm_pendingDials s)) (\<lambda>v. Ret (s\<lparr>sm_pendingDials := v\<rparr>))"

definition sm_SetEstablishedConnCount :: "int \<Rightarrow> server_metrics \<Rightarrow> server_metrics outcome" where
  "sm_SetEstablishedConnCount n s =
     bind_outcome (WithLabelValues [] (\<lambda>_. n) (sm_establishedConns s)) (\<lambda>v. Ret (s\<lparr>sm_establishedConns := v\<rparr>))"

definition closed_reason_string :: "closed_reason \<Rightarrow> string" where
  "closed_reason_string r =
     (case r of ConnectionClosedCloseResponse \<Rightarrow> ''close_rsp'' | ConnectionClosedFrontendClose \<Rightarrow> ''frontend_close''
      | ConnectionClosedBackendClose \<Rightarrow> ''backend_close'' | ConnectionClosedSendResponse \<Rightarrow> ''send_rsp'')"

text \<open>A negative argument of \<^verbatim>\<open>Add\<close> panics.\<close>

definition sm_ObserveEstablishedConnectionsClosed ::
  "closed_reason \<Rightarrow> int \<Rightarrow> server_metrics \<Rightarrow> server_metrics outcome" where
  "sm_ObserveEstablishedConnectionsClosed reason n s =
     (if n = 0 then Ret s
      else if n < 0 then Panic ''counter cannot decrease in value''
      else
        bind_outcome (WithLabelValues [closed_reason_string reason] (\<lambda>m. m + nat n) (sm_establishedClosed s))
          (\<lambda>v. Ret (s\<lparr>sm_establishedClosed := v\<rparr>)))"

definition sm_FullRecvChannel :: "string \<Rightarrow> (int \<Rightarrow> int) \<Rightarrow> server_metrics \<Rightarrow> server_metrics outcome" where
  "sm_FullRecvChannel serviceMethod act s =
     bind_outcome (WithLabelValues [serviceMethod] act (sm_fullRecvChannels s)) (\<lambda>v. Ret (s\<lparr>sm_fullRecvChannels := v\<rparr>))"

definition sm_FullFrontendWriteQueues :: "(int \<Rightarrow> int) \<Rightarrow> server_metrics \<Rightarrow> server_metrics outcome" where
  "sm_FullFrontendWriteQueues act s =
     bind_outcome (WithLabelValues [] act (sm_fullWriteQueues s)) (\<lambda>v. Ret (s\<lparr>sm_fullWriteQueues := v\<rparr>))"

definition sm_BlockedFrontendWriteChannels :: "(int \<Rightarrow> int) \<Rightarrow> server_metrics \<Rightarrow> server_metrics outcome" where
  "sm_BlockedFrontendWriteChannels act s =
     bind_outcome (WithLabelValues [] act (sm_blockedWriteChannels s)) (\<lambda>v. Ret (s\<lparr>sm_blockedWriteChannels := v\<rparr>))"

definition dial_failure_string :: "dial_failure \<Rightarrow> string" where
  "dial_failure_string r =
     (case r of DialFailureNoAgent \<Rightarrow> ''no_agent'' | DialFailureErrorResponse \<Rightarrow> ''error_response''
      | DialFailureUnrecognizedResponse \<Rightarrow> ''unrecognized_response'' | DialFailureSendResponse \<Rightarrow> ''send_rsp''
      | DialFailureBackendClose \<Rightarrow> ''backend_close'' | DialFailureBackendDialTimeout \<Rightarrow> ''backend_dial_timeout''
      | DialFailureFrontendClose \<Rightarrow> ''frontend_close'')"

definition sm_ObserveDialFailure :: "dial_failure \<Rightarrow> server_metrics \<Rightarrow> server_metrics outcome" where
  "sm_ObserveDialFailure reason s =
     bind_outcome (WithLabelValues [dial_failure_string reason] Suc (sm_dialFailures s)) (\<lambda>v. Ret (s\<lparr>sm_dialFailures := v\<rparr>))"

definition sm_ObservePacket :: "segment \<Rightarrow> packet_type \<Rightarrow> server_metrics \<Rightarrow> server_metrics outcome" where
  "sm_ObservePacket segment packetType s =
     bind_outcome (common_ObservePacket segment packetType (sm_streamPackets s)) (\<lambda>v. Ret (s\<lparr>sm_streamPackets := v\<rparr>))"

definition sm_ObserveStreamErrorNoPacket :: "segment \<Rightarrow> string \<Rightarrow> server_metrics \<Rightarrow> server_metrics outcome" where
  "sm_ObserveStreamErrorNoPacket segment code s =
     bind_outcome (common_ObserveStreamErrorNoPacket segment code (sm_streamErrors s)) (\<lambda>v. Ret (s\<lparr>sm_streamErrors := v\<rparr>))"

definition sm_ObserveStreamError :: "segment \<Rightarrow> string \<Rightarrow> packet_type \<Rightarrow> server_metrics \<Rightarrow> server_metrics outcome" where
  "sm_ObserveStreamError segment code packetType s =
     bind_outcome (common_ObserveStreamError segment code packetType (sm_streamErrors s)) (\<lambda>v. Ret (s\<lparr>sm_streamErrors := v\<rparr>))"

definition sm_ObserveLeaseDeleteLatency :: "int \<Rightarrow> duration \<Rightarrow> server_metrics \<Rightarrow> server_metrics outcome" where
  "sm_ObserveLeaseDeleteLatency httpCode latency s =
     bind_outcome (WithLabelValues [Itoa httpCode] (Observe latency) (sm_leaseDeleteLatencies s)) (\<lambda>v. Ret (s\<lparr>sm_leaseDeleteLatencies := v\<rparr>))"

definition sm_ObserveLeaseDelete :: "int \<Rightarrow> string \<Rightarrow> server_metrics \<Rightarrow> server_metrics outcome" where
  "sm_ObserveLeaseDelete httpCode reason s =
     bind_outcome (WithLabelValues [Itoa httpCode, reason] Suc (sm_leaseDeletes s)) (\<lambda>v. Ret (s\<lparr>sm_leaseDeletes := v\<rparr>))"

definition sm_ObserveLeaseListLatency :: "int \<Rightarrow> duration \<Rightarrow> server_metrics \<Rightarrow> server_metrics outcome" where
  "sm_ObserveLeaseListLatency httpCode latency s =
     bind_outcome (WithLabelValues [Itoa httpCode] (Observe latency) (sm_leaseListLatencies s)) (\<lambda>v. Ret (s\<lparr>sm_leaseListLatencies := v\<rparr>))"

definition sm_ObserveLeaseList :: "int \<Rightarrow> string \<Rightarrow> server_metrics \<Rightarrow> server_metrics outcome" where
  "sm_ObserveLeaseList httpCode reason s =
     bind_outcome (WithLabelValues [Itoa httpCode, reason] Suc (sm_leaseLists s)) (\<lambda>v. Ret (s\<lparr>sm_leaseLists := v\<rparr>))"

subsection \<open>Sequences of observations\<close>

datatype server_op =
    SrvReset
  | SrvCulledLease
  | SrvDialLatency duration
  | SrvConnectionDuration duration
  | SrvBackendDuration duration
  | SrvWriteLatency duration
  | SrvConnectionInc string
  | SrvConnectionDec string
  | SrvHTTPInc
  | SrvHTTPDec
  | SrvBackendCount int
  | SrvTotalBackendCount proxy_strategy int
  | SrvPendingDials int
  | SrvEstablished int
  | SrvClosed closed_reason int
  | SrvFullRecv string "int \<Rightarrow> int"
  | SrvFullQueues "int \<Rightarrow> int"
  | SrvBlocked "int \<Rightarrow> int"
  | SrvDialFailure dial_failure
  | SrvPacket segment packet_type
  | SrvErrorNoPacket segment string
  | SrvError segment string packet_type
  | SrvLeaseDeleteLatency int duration
  | SrvLeaseDelete int string
  | SrvLeaseListLatency int duration
  | SrvLeaseList int string

fun perform_server :: "server_op \<Rightarrow> server_metrics \<Rightarrow> server_metrics outcome" where
  "perform_server SrvReset s = Ret (server_Reset s)"
| "perform_server SrvCulledLease s = Ret (sm_CulledLeasesInc s)"
| "perform_server (SrvDialLatency d) s = sm_ObserveDialLatency d s"
| "perform_server (SrvConnectionDuration d) s = sm_ObserveConnectionDuration d s"
| "perform_server (SrvBackendDuration d) s = sm_ObserveBackendConnectionDuration d s"
| "perform_server (SrvWriteLatency d) s = sm_ObserveFrontendWriteLatency d s"
| "perform_server (SrvConnectionInc m) s = sm_ConnectionInc m s"
| "perform_server (SrvConnectionDec m) s = sm_ConnectionDec m s"
| "perform_server SrvHTTPInc s = Ret (sm_HTTPConnectionInc s)"
| "perform_server SrvHTTPDec s = Ret (sm_HTTPConnectionDec s)"
| "perform_server (SrvBackendCount n) s = sm_SetBackendCountDeprecated n s"
| "perform_server (SrvTotalBackendCount ps n) s = sm_SetTotalBackendCount ps n s"
| "perform_server (SrvPendingDials n) s = sm_SetPendingDialCount n s"
| "perform_server (SrvEstablished n) s = sm_SetEstablishedConnCount n s"
| "perform_server (SrvClosed r n) s = sm_ObserveEstablishedConnectionsClosed r n s"
| "perform_server (SrvFullRecv m act) s = sm_FullRecvChannel m act s"
| "perform_server (SrvFullQueues act) s = sm_FullFrontendWriteQueues act s"
| "perform_server (SrvBlocked act) s = sm_BlockedFrontendWriteChannels act s"
| "perform_server (SrvDialFailure r) s = sm_ObserveDialFailure r s"
| "perform_server (SrvPacket seg p) s = sm_ObservePacket seg p s"
| "perform_server (SrvErrorNoPacket seg code) s = sm_ObserveStreamErrorNoPacket seg code s"
| "perform_server (SrvError seg code p) s = sm_ObserveStreamError seg code p s"
| "perform_server (SrvLeaseDeleteLatency c d) s = sm_ObserveLeaseDeleteLatency c d s"
| "perform_server (SrvLeaseDelete c r) s = sm_ObserveLeaseDelete c r s"
| "perform_server (SrvLeaseListLatency c d) s = sm_ObserveLeaseListLatency c d s"
| "perform_server (SrvLeaseList c r) s = sm_ObserveLeaseList c r s"

text \<open>
  The arguments that do not panic: label values that come from outside are valid UTF-8, the strategy
  has a name, and a count is not negative.
\<close>

fun server_legal :: "server_op \<Rightarrow> bool" where
  "server_legal (SrvConnectionInc m) = ValidString m"
| "server_legal (SrvConnectionDec m) = ValidString m"
| "server_legal (SrvTotalBackendCount ps n) = returns (ProxyStrategy_String ps)"
| "server_legal (SrvClosed r n) = (0 \<le> n)"
| "server_legal (SrvFullRecv m act) = ValidString m"
| "server_legal (SrvErrorNoPacket seg code) = ValidString code"
| "server_legal (SrvError seg code p) = ValidString code"
| "server_legal (SrvLeaseDelete c r) = ValidString r"
| "server_legal (SrvLeaseList c r) = ValidString r"
| "server_legal _ = True"

lemmas server_constructors =
  new_endpointLatencies_def new_frontendLatencies_def new_connectionDuration_def new_backendConnDuration_def
  new_grpcConnections_def new_httpConnections_def new_backend_def new_totalBackendCount_def new_pendingDials_def
  new_establishedConns_def new_establishedClosed_def new_fullRecvChannels_def new_fullWriteQueues_def
  new_blockedWriteChannels_def new_dialFailures_def new_culledLeases_def new_leaseDeleteLatencies_def
  new_leaseDeletes_def new_leaseListLatencies_def new_leaseLists_def MakeStreamPacketsTotalMetric_def
  MakeStreamErrorsTotalMetric_def

lemmas server_methods =
  sm_CulledLeasesInc_def sm_ObserveDialLatency_def sm_ObserveConnectionDuration_def
  sm_ObserveBackendConnectionDuration_def sm_ObserveFrontendWriteLatency_def sm_ConnectionInc_def sm_ConnectionDec_def
  sm_HTTPConnectionInc_def sm_HTTPConnectionDec_def sm_SetBackendCountDeprecated_def sm_SetTotalBackendCount_def
  sm_SetPendingDialCount_def sm_SetEstablishedConnCount_def sm_ObserveEstablishedConnectionsClosed_def
  sm_FullRecvChannel_def sm_FullFrontendWriteQueues_def sm_BlockedFrontendWriteChannels_def sm_ObserveDialFailure_def
  sm_ObservePacket_def sm_ObserveStreamErrorNoPacket_def sm_ObserveStreamError_def sm_ObserveLeaseDeleteLatency_def
  sm_ObserveLeaseDelete_def sm_ObserveLeaseListLatency_def sm_ObserveLeaseList_def
  common_ObservePacket_def common_ObserveStreamErrorNoPacket_def common_ObserveStreamError_def

lemma reason_strings_valid [simp]:
  "ValidString (dial_failure_string r)" "ValidString (closed_reason_string r')"
  by (cases r; simp add: dial_failure_string_def ValidString.simps byte_in_def)
    (cases r'; simp add: closed_reason_string_def ValidString.simps byte_in_def)

lemma reason_strings_inj [simp]:
  "dial_failure_string r = dial_failure_string r1 \<longleftrightarrow> r = r1"
  "closed_reason_string q = closed_reason_string q1 \<longleftrightarrow> q = q1"
  by (cases r; cases r1; simp add: dial_failure_string_def)
    (cases q; cases q1; simp add: closed_reason_string_def)

lemma strategy_valid: "ProxyStrategy_String ps = Ret name \<Longrightarrow> ValidString name"
  by (cases ps) (auto simp: ValidString.simps byte_in_def)

lemma server_labels:
  assumes "server_descs s = server_descs server_collectors"
  shows "vc_labels (sm_endpointLatencies s) = []" "vc_labels (sm_frontendLatencies s) = []"
    "vc_labels (sm_connectionDuration s) = []" "vc_labels (sm_backendConnDuration s) = []"
    "vc_labels (sm_grpcConnections s) = [''service_method'']" "vc_labels (sm_backend s) = []"
    "vc_labels (sm_totalBackendCount s) = [''proxy_strategy'']" "vc_labels (sm_pendingDials s) = []"
    "vc_labels (sm_establishedConns s) = []" "vc_labels (sm_establishedClosed s) = [''reason'']"
    "vc_labels (sm_fullRecvChannels s) = [''service_method'']" "vc_labels (sm_fullWriteQueues s) = []"
    "vc_labels (sm_blockedWriteChannels s) = []" "vc_labels (sm_dialFailures s) = [''reason'']"
    "vc_labels (sm_streamPackets s) = [''segment'', ''packet_type'']"
    "vc_labels (sm_streamErrors s) = [''segment'', ''code'', ''packet_type'']"
    "vc_labels (sm_leaseDeleteLatencies s) = [''http_status_code'']"
    "vc_labels (sm_leaseDeletes s) = [''http_status_code'', ''reason'']"
    "vc_labels (sm_leaseListLatencies s) = [''http_status_code'']"
    "vc_labels (sm_leaseLists s) = [''http_status_code'', ''reason'']"
  using assms unfolding server_descs_def server_collectors_def server_metrics.select_convs server_constructors
  by (simp_all add: desc_def)

lemma server_performs:
  assumes "server_descs s = server_descs server_collectors" and "server_legal op"
  shows "\<exists>s'. perform_server op s = Ret s' \<and> server_descs s' = server_descs s"
proof (cases op)
  case (SrvTotalBackendCount ps n)
  with assms(2) obtain name where "ProxyStrategy_String ps = Ret name" by (auto simp: returns_def split: outcome.splits)
  with strategy_valid SrvTotalBackendCount show ?thesis
    by (simp add: server_methods WithLabelValues_Ret server_labels [OF assms(1)] server_descs_def)
qed (use assms(2) in \<open>simp_all add: server_methods WithLabelValues_Ret server_labels [OF assms(1)] server_descs_def
    server_Reset_def\<close>)

interpretation server_metric_set: metric_set server_descs server_collectors perform_server server_legal
  by unfold_locales (rule server_performs)

text \<open>How much an operation adds to a value.\<close>

fun server_resets :: "server_op \<Rightarrow> bool" where
  "server_resets SrvReset = True"
| "server_resets _ = False"

fun fails_dial :: "dial_failure \<Rightarrow> server_op \<Rightarrow> nat" where
  "fails_dial r (SrvDialFailure r') = (if r' = r then 1 else 0)"
| "fails_dial r _ = 0"

fun closes_conns :: "closed_reason \<Rightarrow> server_op \<Rightarrow> nat" where
  "closes_conns r (SrvClosed r' n) = (if r' = r then nat n else 0)"
| "closes_conns r _ = 0"

fun passes_packet :: "string list \<Rightarrow> server_op \<Rightarrow> nat" where
  "passes_packet l (SrvPacket seg p) = (if l = [segment_string seg, PacketType_String p] then 1 else 0)"
| "passes_packet l _ = 0"

fun opens_stream :: "string \<Rightarrow> server_op \<Rightarrow> int" where
  "opens_stream m (SrvConnectionInc m') = (if m' = m then 1 else 0)"
| "opens_stream m (SrvConnectionDec m') = (if m' = m then - 1 else 0)"
| "opens_stream m _ = 0"

fun opens_http :: "server_op \<Rightarrow> int" where
  "opens_http SrvHTTPInc = 1"
| "opens_http SrvHTTPDec = - 1"
| "opens_http _ = 0"

fun dials :: "server_op \<Rightarrow> nat" where
  "dials (SrvDialLatency d) = 1"
| "dials _ = 0"

fun dial_time :: "server_op \<Rightarrow> int" where
  "dial_time (SrvDialLatency d) = d"
| "dial_time _ = 0"

definition server_zero :: "server_metrics \<Rightarrow> bool" where
  "server_zero s \<longleftrightarrow> vc_zero (sm_dialFailures s) = 0 \<and> vc_zero (sm_establishedClosed s) = 0 \<and>
     vc_zero (sm_streamPackets s) = 0 \<and> vc_zero (sm_grpcConnections s) = 0 \<and>
     vc_zero (sm_endpointLatencies s) = new_histogram server_latencyBuckets"

lemma server_zero_new: "server_zero server_collectors"
  by (simp add: server_zero_def server_collectors_def server_constructors)

lemma server_zero_kept: "server_zero s \<Longrightarrow> perform_server op s = Ret s' \<Longrightarrow> server_zero s'"
  by (cases op) (auto simp: server_zero_def server_methods server_Reset_def bind_outcome_Ret_iff WithLabelValues_Ret_iff
      split: if_splits)

lemma server_step_dialFailures:
  assumes "server_zero s" and "perform_server op s = Ret s'"
  shows "reads (sm_dialFailures s') [dial_failure_string r] =
     (if server_resets op then 0 else reads (sm_dialFailures s) [dial_failure_string r] + fails_dial r op)"
  using assms
  by (cases op) (auto simp: server_zero_def server_methods server_Reset_def bind_outcome_Ret_iff WithLabelValues_Ret_iff
      split: if_splits)

lemma server_step_establishedClosed:
  assumes "server_zero s" and "perform_server op s = Ret s'"
  shows "reads (sm_establishedClosed s') [closed_reason_string r] =
     (if server_resets op then 0 else reads (sm_establishedClosed s) [closed_reason_string r] + closes_conns r op)"
  using assms
  by (cases op) (auto simp: server_zero_def server_methods server_Reset_def bind_outcome_Ret_iff WithLabelValues_Ret_iff
      split: if_splits)

lemma server_step_streamPackets:
  assumes "server_zero s" and "perform_server op s = Ret s'"
  shows "reads (sm_streamPackets s') l =
     (if server_resets op then 0 else reads (sm_streamPackets s) l + passes_packet l op)"
  using assms
  by (cases op) (auto simp: server_zero_def server_methods server_Reset_def bind_outcome_Ret_iff WithLabelValues_Ret_iff
      split: if_splits)

lemma server_step_grpcConnections:
  assumes "server_zero s" and "perform_server op s = Ret s'"
  shows "reads (sm_grpcConnections s') [m] =
     (if server_resets op then 0 else reads (sm_grpcConnections s) [m] + opens_stream m op)"
  using assms
  by (cases op) (auto simp: server_zero_def server_methods server_Reset_def bind_outcome_Ret_iff WithLabelValues_Ret_iff
      split: if_splits)

lemma server_step_httpConnections:
  assumes "perform_server op s = Ret s'"
  shows "reads (sm_httpConnections s') [] = reads (sm_httpConnections s) [] + opens_http op"
  using assms
  by (cases op) (auto simp: server_methods server_Reset_def bind_outcome_Ret_iff WithLabelValues_Ret_iff split: if_splits)

lemma server_step_endpointLatencies:
  assumes "server_zero s" and "perform_server op s = Ret s'"
  shows "observations (reads (sm_endpointLatencies s') []) =
     (if server_resets op then 0 else observations (reads (sm_endpointLatencies s) []) + dials op)"
    and "hs_sum (reads (sm_endpointLatencies s') []) =
     (if server_resets op then 0 else hs_sum (reads (sm_endpointLatencies s) []) + dial_time op)"
  using assms
  by (cases op; auto simp: server_zero_def server_methods server_Reset_def bind_outcome_Ret_iff WithLabelValues_Ret_iff
      split: if_splits)+

lemma server_values:
  assumes "perform_all perform_server ops server_collectors = Ret s"
  shows "reads (sm_dialFailures s) [dial_failure_string r] = sum_list (map (fails_dial r) (recent server_resets ops))"
    and "reads (sm_establishedClosed s) [closed_reason_string q] = sum_list (map (closes_conns q) (recent server_resets ops))"
    and "reads (sm_streamPackets s) l = sum_list (map (passes_packet l) (recent server_resets ops))"
    and "reads (sm_grpcConnections s) [m] = sum_list (map (opens_stream m) (recent server_resets ops))"
    and "reads (sm_httpConnections s) [] = sum_list (map opens_http ops)"
    and "observations (reads (sm_endpointLatencies s) []) = sum_list (map dials (recent server_resets ops))"
    and "hs_sum (reads (sm_endpointLatencies s) []) = sum_list (map dial_time (recent server_resets ops))"
proof -
  note sum = value_counts [where ok = server_zero and perform = perform_server and ops = ops and ?m0.0 = server_collectors
      and m = s, OF _ server_zero_new _ assms]
  have new: "reads (sm_dialFailures server_collectors) [dial_failure_string r] = 0"
    "reads (sm_establishedClosed server_collectors) [closed_reason_string q] = 0"
    "reads (sm_streamPackets server_collectors) l = 0" "reads (sm_grpcConnections server_collectors) [m] = 0"
    "reads (sm_httpConnections server_collectors) [] = 0"
    "reads (sm_endpointLatencies server_collectors) [] = new_histogram server_latencyBuckets"
    by (simp_all add: server_collectors_def server_constructors)
  show "reads (sm_dialFailures s) [dial_failure_string r] = sum_list (map (fails_dial r) (recent server_resets ops))"
    by (rule sum [where val = "\<lambda>s. reads (sm_dialFailures s) [dial_failure_string r]"])
      (simp_all add: server_zero_kept server_step_dialFailures new)
  show "reads (sm_establishedClosed s) [closed_reason_string q] = sum_list (map (closes_conns q) (recent server_resets ops))"
    by (rule sum [where val = "\<lambda>s. reads (sm_establishedClosed s) [closed_reason_string q]"])
      (simp_all add: server_zero_kept server_step_establishedClosed new)
  show "reads (sm_streamPackets s) l = sum_list (map (passes_packet l) (recent server_resets ops))"
    by (rule sum [where val = "\<lambda>s. reads (sm_streamPackets s) l"])
      (simp_all add: server_zero_kept server_step_streamPackets new)
  show "reads (sm_grpcConnections s) [m] = sum_list (map (opens_stream m) (recent server_resets ops))"
    by (rule sum [where val = "\<lambda>s. reads (sm_grpcConnections s) [m]"])
      (simp_all add: server_zero_kept server_step_grpcConnections new)
  show "reads (sm_httpConnections s) [] = sum_list (map opens_http ops)"
    using sum [where val = "\<lambda>s. reads (sm_httpConnections s) []" and reset = "\<lambda>_. False" and bump = opens_http]
    by (simp add: server_zero_kept server_step_httpConnections new)
  show "observations (reads (sm_endpointLatencies s) []) = sum_list (map dials (recent server_resets ops))"
    by (rule sum [where val = "\<lambda>s. observations (reads (sm_endpointLatencies s) [])"])
      (simp_all add: server_zero_kept server_step_endpointLatencies(1) new)
  show "hs_sum (reads (sm_endpointLatencies s) []) = sum_list (map dial_time (recent server_resets ops))"
    by (rule sum [where val = "\<lambda>s. hs_sum (reads (sm_endpointLatencies s) [])"])
      (simp_all add: server_zero_kept server_step_endpointLatencies(2) new)
qed

subsection \<open>Properties\<close>

text \<open>
  C28. The metrics of the server count what they are told: no sequence of observations with legal
  arguments panics, and after it the counter of dial failures of each reason, of closed connections
  of each reason and of packets of each segment and type, the gauge of open streams of each method,
  and the count and sum of the dial latencies are those of the observations since the last
  \<^verbatim>\<open>Reset\<close>; the gauge of HTTP connections, which \<^verbatim>\<open>Reset\<close> leaves alone, is that of all of them.
\<close>

theorem server_metrics_exact:
  assumes "list_all server_legal ops"
  shows "\<exists>s. perform_all perform_server ops server_collectors = Ret s \<and>
     (\<forall>r. reads (sm_dialFailures s) [dial_failure_string r] = sum_list (map (fails_dial r) (recent server_resets ops))) \<and>
     (\<forall>r. reads (sm_establishedClosed s) [closed_reason_string r] = sum_list (map (closes_conns r) (recent server_resets ops))) \<and>
     (\<forall>l. reads (sm_streamPackets s) l = sum_list (map (passes_packet l) (recent server_resets ops))) \<and>
     (\<forall>m. reads (sm_grpcConnections s) [m] = sum_list (map (opens_stream m) (recent server_resets ops))) \<and>
     observations (reads (sm_endpointLatencies s) []) = sum_list (map dials (recent server_resets ops)) \<and>
     hs_sum (reads (sm_endpointLatencies s) []) = sum_list (map dial_time (recent server_resets ops)) \<and>
     reads (sm_httpConnections s) [] = sum_list (map opens_http ops)"
proof -
  from server_metric_set.never_panics [OF refl assms] obtain s where
    "perform_all perform_server ops server_collectors = Ret s"
    by blast
  with server_values [OF this] show ?thesis by blast
qed

theorem server_metrics_exact_witness:
  "\<exists>s. perform_all perform_server [SrvHTTPInc, SrvDialFailure DialFailureNoAgent, SrvReset,
        SrvPacket SegmentToAgent DATA, SrvDialFailure DialFailureNoAgent, SrvDialLatency 2000000] server_collectors = Ret s \<and>
     reads (sm_dialFailures s) [''no_agent''] = 1 \<and> reads (sm_streamPackets s) [''to_agent'', ''DATA''] = 1 \<and>
     hs_sum (reads (sm_endpointLatencies s) []) = 2000000 \<and> reads (sm_httpConnections s) [] = 1"
proof -
  let ?ops = "[SrvHTTPInc, SrvDialFailure DialFailureNoAgent, SrvReset, SrvPacket SegmentToAgent DATA,
    SrvDialFailure DialFailureNoAgent, SrvDialLatency 2000000]"
  have recent: "recent server_resets ?ops =
      [SrvPacket SegmentToAgent DATA, SrvDialFailure DialFailureNoAgent, SrvDialLatency 2000000]"
    by (simp add: recent_def)
  have "list_all server_legal ?ops" by simp
  from server_metrics_exact [OF this] obtain s where
    s: "perform_all perform_server ?ops server_collectors = Ret s"
      "reads (sm_dialFailures s) [dial_failure_string DialFailureNoAgent] = 1"
      "reads (sm_streamPackets s) [''to_agent'', ''DATA''] = 1"
      "hs_sum (reads (sm_endpointLatencies s) []) = 2000000" "reads (sm_httpConnections s) [] = 1"
    unfolding recent by (auto simp: segment_string_def PacketType_String_def simp del: perform_all.simps)
  then show ?thesis by (simp add: dial_failure_string_def del: perform_all.simps)
qed

text \<open>The observations that the handlers of \<open>KNP_Server\<close> leave in the log, as operations on the metrics.\<close>

fun log_ops :: "effect list \<Rightarrow> server_op list" where
  "log_ops [] = []"
| "log_ops (ObservePacket seg p # es) = SrvPacket seg p # log_ops es"
| "log_ops (ObserveDialFailure r # es) = SrvDialFailure r # log_ops es"
| "log_ops (ObserveConnectionsClosed r n # es) = SrvClosed r (int n) # log_ops es"
| "log_ops (ObserveDialLatency d # es) = SrvDialLatency d # log_ops es"
| "log_ops (e # es) = log_ops es"

lemma log_ops_legal: "list_all server_legal (log_ops es) \<and> list_all (\<lambda>op. \<not> server_resets op) (log_ops es)"
  by (induction es rule: log_ops.induct) auto

lemma log_ops_fails: "sum_list (map (fails_dial r) (log_ops es)) = count_list es (ObserveDialFailure r)"
  by (induction es rule: log_ops.induct) auto

lemma log_metrics:
  "\<exists>s. perform_all perform_server (log_ops (w_log w)) server_collectors = Ret s \<and>
     (\<forall>r. reads (sm_dialFailures s) [dial_failure_string r] = count_list (w_log w) (ObserveDialFailure r))"
proof -
  have legal: "list_all server_legal (log_ops (w_log w))" and "list_all (\<lambda>op. \<not> server_resets op) (log_ops (w_log w))"
    using log_ops_legal by blast+
  then have "recent server_resets (log_ops (w_log w)) = log_ops (w_log w)"
    by (simp add: recent_all)
  with server_metric_set.never_panics [OF refl legal] server_values(1) [of "log_ops (w_log w)"] log_ops_fails
  show ?thesis by metis
qed

end
