(* ===== verification/KNP_AgentMetrics.thy ===== *)
theory KNP_AgentMetrics
  imports KNP_ServerMetrics KNP_AgentClient KNP_Client
begin

section \<open>Metrics of the agent and of the client\<close>

text \<open>
  \<^verbatim>\<open>pkg/agent/metrics/metrics.go\<close> and \<^verbatim>\<open>konnectivity-client/pkg/client/metrics/metrics.go\<close>, in the
  same way as the metrics of the server; and the registration of all three in one registry.
\<close>

subsection \<open>Collectors of the agent\<close>

definition agent_Namespace :: string where
  "agent_Namespace = ''konnectivity_network_proxy''"

definition agent_Subsystem :: string where
  "agent_Subsystem = ''agent''"

definition agent_latencyBuckets :: "int list" where
  "agent_latencyBuckets = [5000000, 25000000, 100000000, 500000000, 2500000000, 10000000000, 30000000000]"

record agent_metrics =
  am_dialLatencies :: histogram_vec
  am_serverFailures :: counter_vec
  am_dialFailures :: counter_vec
  am_serverConnections :: gauge_vec
  am_serverConnectionsLost :: counter_vec
  am_serverConnectionsAttempts :: counter_vec
  am_serverCount :: gauge_vec
  am_endpointConnections :: gauge_vec
  am_streamPackets :: counter_vec
  am_streamErrors :: counter_vec
  am_leaseLists :: counter_vec
  am_leaseWatches :: counter_vec
  am_leaseListLatencies :: histogram_vec

definition agent_dialLatencies :: histogram_vec where
  "agent_dialLatencies = new_vec (fqName agent_Namespace agent_Subsystem ''dial_duration_seconds'') [] (new_histogram agent_latencyBuckets)"

definition agent_serverFailures :: counter_vec where
  "agent_serverFailures = new_vec (fqName agent_Namespace agent_Subsystem ''server_connection_failure_count'') [''direction''] 0"

definition agent_dialFailures :: counter_vec where
  "agent_dialFailures = new_vec (fqName agent_Namespace agent_Subsystem ''endpoint_dial_failure_total'') [''reason''] 0"

definition agent_serverConnections :: gauge_vec where
  "agent_serverConnections = new_vec (fqName agent_Namespace agent_Subsystem ''open_server_connections'') [] 0"

definition agent_serverConnectionsLost :: counter_vec where
  "agent_serverConnectionsLost = new_vec (fqName agent_Namespace agent_Subsystem ''server_connection_lost_total'') [''reason''] 0"

definition agent_serverConnectionsAttempts :: counter_vec where
  "agent_serverConnectionsAttempts = new_vec (fqName agent_Namespace agent_Subsystem ''server_connection_attempts_total'') [''result''] 0"

definition agent_serverCount :: gauge_vec where
  "agent_serverCount = new_vec (fqName agent_Namespace agent_Subsystem ''known_server_count'') [] 0"

definition agent_endpointConnections :: gauge_vec where
  "agent_endpointConnections = new_vec (fqName agent_Namespace agent_Subsystem ''open_endpoint_connections'') [] 0"

definition agent_leaseLists :: counter_vec where
  "agent_leaseLists = new_vec (fqName agent_Namespace agent_Subsystem ''lease_lists_total'') [''http_response_code'', ''reason''] 0"

definition agent_leaseWatches :: counter_vec where
  "agent_leaseWatches = new_vec (fqName agent_Namespace agent_Subsystem ''lease_watches_total'') [''http_response_code'', ''reason''] 0"

definition agent_leaseListLatencies :: histogram_vec where
  "agent_leaseListLatencies = new_vec (fqName agent_Namespace agent_Subsystem ''lease_list_latency_seconds'') [''http_response_code''] (new_histogram agent_latencyBuckets)"

definition agent_collectors :: agent_metrics where
  "agent_collectors =
     \<lparr>am_dialLatencies = agent_dialLatencies,
      am_serverFailures = agent_serverFailures,
      am_dialFailures = agent_dialFailures,
      am_serverConnections = agent_serverConnections,
      am_serverConnectionsLost = agent_serverConnectionsLost,
      am_serverConnectionsAttempts = agent_serverConnectionsAttempts,
      am_serverCount = agent_serverCount,
      am_endpointConnections = agent_endpointConnections,
      am_streamPackets = MakeStreamPacketsTotalMetric agent_Namespace agent_Subsystem,
      am_streamErrors = MakeStreamErrorsTotalMetric agent_Namespace agent_Subsystem,
      am_leaseLists = agent_leaseLists,
      am_leaseWatches = agent_leaseWatches,
      am_leaseListLatencies = agent_leaseListLatencies\<rparr>"

definition agent_descs :: "agent_metrics \<Rightarrow> (string \<times> string list) list" where
  "agent_descs a =
     [desc (am_dialLatencies a),
      desc (am_serverFailures a),
      desc (am_dialFailures a),
      desc (am_serverConnections a),
      desc (am_serverConnectionsLost a),
      desc (am_serverConnectionsAttempts a),
      desc (am_endpointConnections a),
      desc (am_streamPackets a),
      desc (am_streamErrors a),
      desc (am_serverCount a),
      desc (am_leaseLists a),
      desc (am_leaseWatches a),
      desc (am_leaseListLatencies a)]"

definition newAgentMetrics :: "registry \<Rightarrow> (registry \<times> agent_metrics) outcome" where
  "newAgentMetrics reg =
     bind_outcome (register_all (agent_descs agent_collectors) reg) (\<lambda>reg'. Ret (reg', agent_collectors))"

subsection \<open>Methods of the agent's metrics\<close>

definition agent_Reset :: "agent_metrics \<Rightarrow> agent_metrics" where
  "agent_Reset a =
     a\<lparr>am_dialLatencies := vec_Reset (am_dialLatencies a),
       am_serverFailures := vec_Reset (am_serverFailures a),
       am_dialFailures := vec_Reset (am_dialFailures a),
       am_serverConnections := vec_Reset (am_serverConnections a),
       am_serverConnectionsLost := vec_Reset (am_serverConnectionsLost a),
       am_serverConnectionsAttempts := vec_Reset (am_serverConnectionsAttempts a),
       am_endpointConnections := vec_Reset (am_endpointConnections a),
       am_streamPackets := vec_Reset (am_streamPackets a),
       am_streamErrors := vec_Reset (am_streamErrors a),
       am_leaseLists := vec_Reset (am_leaseLists a)\<rparr>"

datatype direction = DirectionToServer | DirectionFromServer

definition direction_string :: "direction \<Rightarrow> string" where
  "direction_string d = (case d of DirectionToServer \<Rightarrow> ''to_server'' | DirectionFromServer \<Rightarrow> ''from_server'')"

definition am_ObserveServerFailureDeprecated :: "direction \<Rightarrow> agent_metrics \<Rightarrow> agent_metrics outcome" where
  "am_ObserveServerFailureDeprecated direction a =
     bind_outcome (WithLabelValues [direction_string direction] Suc (am_serverFailures a)) (\<lambda>v. Ret (a\<lparr>am_serverFailures := v\<rparr>))"

datatype agent_dial_failure = AgentDialFailureTimeout | AgentDialFailureUnknown

definition agent_dial_failure_string :: "agent_dial_failure \<Rightarrow> string" where
  "agent_dial_failure_string r = (case r of AgentDialFailureTimeout \<Rightarrow> ''timeout'' | AgentDialFailureUnknown \<Rightarrow> ''unknown'')"

definition am_ObserveDialLatency :: "duration \<Rightarrow> agent_metrics \<Rightarrow> agent_metrics outcome" where
  "am_ObserveDialLatency elapsed a =
     bind_outcome (WithLabelValues [] (Observe elapsed) (am_dialLatencies a)) (\<lambda>v. Ret (a\<lparr>am_dialLatencies := v\<rparr>))"

definition am_ObserveDialFailure :: "agent_dial_failure \<Rightarrow> agent_metrics \<Rightarrow> agent_metrics outcome" where
  "am_ObserveDialFailure reason a =
     bind_outcome (WithLabelValues [agent_dial_failure_string reason] Suc (am_dialFailures a)) (\<lambda>v. Ret (a\<lparr>am_dialFailures := v\<rparr>))"

definition am_SetServerConnectionsCount :: "int \<Rightarrow> agent_metrics \<Rightarrow> agent_metrics outcome" where
  "am_SetServerConnectionsCount n a =
     bind_outcome (WithLabelValues [] (\<lambda>_. n) (am_serverConnections a)) (\<lambda>v. Ret (a\<lparr>am_serverConnections := v\<rparr>))"

definition lost_reason_string :: "lost_reason \<Rightarrow> string" where
  "lost_reason_string r =
     (case r of ServerConnectionLostEOF \<Rightarrow> ''eof'' | ServerConnectionLostCancelled \<Rightarrow> ''cancelled''
      | ServerConnectionLostRecvError \<Rightarrow> ''recv_error'' | ServerConnectionLostSendError \<Rightarrow> ''send_error''
      | ServerConnectionLostProbe \<Rightarrow> ''probe'')"

definition am_ObserveServerConnectionLost :: "lost_reason \<Rightarrow> agent_metrics \<Rightarrow> agent_metrics outcome" where
  "am_ObserveServerConnectionLost reason a =
     bind_outcome (WithLabelValues [lost_reason_string reason] Suc (am_serverConnectionsLost a)) (\<lambda>v. Ret (a\<lparr>am_serverConnectionsLost := v\<rparr>))"

datatype attempt_result = ServerConnectionAttemptConnected | ServerConnectionAttemptError

definition attempt_result_string :: "attempt_result \<Rightarrow> string" where
  "attempt_result_string r =
     (case r of ServerConnectionAttemptConnected \<Rightarrow> ''connected'' | ServerConnectionAttemptError \<Rightarrow> ''error'')"

definition am_ObserveServerConnectionAttempt :: "attempt_result \<Rightarrow> agent_metrics \<Rightarrow> agent_metrics outcome" where
  "am_ObserveServerConnectionAttempt result a =
     bind_outcome (WithLabelValues [attempt_result_string result] Suc (am_serverConnectionsAttempts a)) (\<lambda>v. Ret (a\<lparr>am_serverConnectionsAttempts := v\<rparr>))"

definition am_SetServerCount :: "int \<Rightarrow> agent_metrics \<Rightarrow> agent_metrics" where
  "am_SetServerCount n a = a\<lparr>am_serverCount := touch [] (\<lambda>_. n) (am_serverCount a)\<rparr>"

definition am_ObserveLeaseList :: "int \<Rightarrow> string \<Rightarrow> agent_metrics \<Rightarrow> agent_metrics outcome" where
  "am_ObserveLeaseList httpCode reason a =
     bind_outcome (WithLabelValues [Itoa httpCode, reason] Suc (am_leaseLists a)) (\<lambda>v. Ret (a\<lparr>am_leaseLists := v\<rparr>))"

definition am_ObserveLeaseWatch :: "int \<Rightarrow> string \<Rightarrow> agent_metrics \<Rightarrow> agent_metrics outcome" where
  "am_ObserveLeaseWatch httpCode reason a =
     bind_outcome (WithLabelValues [Itoa httpCode, reason] Suc (am_leaseLists a)) (\<lambda>v. Ret (a\<lparr>am_leaseLists := v\<rparr>))"

definition am_ObserveLeaseListLatency :: "duration \<Rightarrow> int \<Rightarrow> agent_metrics \<Rightarrow> agent_metrics outcome" where
  "am_ObserveLeaseListLatency latency httpCode a =
     bind_outcome (WithLabelValues [Itoa httpCode] (Observe latency) (am_leaseListLatencies a)) (\<lambda>v. Ret (a\<lparr>am_leaseListLatencies := v\<rparr>))"

definition am_EndpointConnectionInc :: "agent_metrics \<Rightarrow> agent_metrics outcome" where
  "am_EndpointConnectionInc a =
     bind_outcome (WithLabelValues [] (\<lambda>n. n + 1) (am_endpointConnections a)) (\<lambda>v. Ret (a\<lparr>am_endpointConnections := v\<rparr>))"

definition am_EndpointConnectionDec :: "agent_metrics \<Rightarrow> agent_metrics outcome" where
  "am_EndpointConnectionDec a =
     bind_outcome (WithLabelValues [] (\<lambda>n. n - 1) (am_endpointConnections a)) (\<lambda>v. Ret (a\<lparr>am_endpointConnections := v\<rparr>))"

definition am_ObservePacket :: "segment \<Rightarrow> packet_type \<Rightarrow> agent_metrics \<Rightarrow> agent_metrics outcome" where
  "am_ObservePacket segment packetType a =
     bind_outcome (common_ObservePacket segment packetType (am_streamPackets a)) (\<lambda>v. Ret (a\<lparr>am_streamPackets := v\<rparr>))"

definition am_ObserveStreamErrorNoPacket :: "segment \<Rightarrow> string \<Rightarrow> agent_metrics \<Rightarrow> agent_metrics outcome" where
  "am_ObserveStreamErrorNoPacket segment code a =
     bind_outcome (common_ObserveStreamErrorNoPacket segment code (am_streamErrors a)) (\<lambda>v. Ret (a\<lparr>am_streamErrors := v\<rparr>))"

definition am_ObserveStreamError :: "segment \<Rightarrow> string \<Rightarrow> packet_type \<Rightarrow> agent_metrics \<Rightarrow> agent_metrics outcome" where
  "am_ObserveStreamError segment code packetType a =
     bind_outcome (common_ObserveStreamError segment code packetType (am_streamErrors a)) (\<lambda>v. Ret (a\<lparr>am_streamErrors := v\<rparr>))"

datatype agent_op =
    AgReset
  | AgServerFailure direction
  | AgDialLatency duration
  | AgDialFailure agent_dial_failure
  | AgServerConnections int
  | AgConnectionLost lost_reason
  | AgAttempt attempt_result
  | AgServerCount int
  | AgLeaseList int string
  | AgLeaseWatch int string
  | AgLeaseListLatency duration int
  | AgEndpointInc
  | AgEndpointDec
  | AgPacket segment packet_type
  | AgErrorNoPacket segment string
  | AgError segment string packet_type

fun perform_agent :: "agent_op \<Rightarrow> agent_metrics \<Rightarrow> agent_metrics outcome" where
  "perform_agent AgReset a = Ret (agent_Reset a)"
| "perform_agent (AgServerFailure d) a = am_ObserveServerFailureDeprecated d a"
| "perform_agent (AgDialLatency d) a = am_ObserveDialLatency d a"
| "perform_agent (AgDialFailure r) a = am_ObserveDialFailure r a"
| "perform_agent (AgServerConnections n) a = am_SetServerConnectionsCount n a"
| "perform_agent (AgConnectionLost r) a = am_ObserveServerConnectionLost r a"
| "perform_agent (AgAttempt r) a = am_ObserveServerConnectionAttempt r a"
| "perform_agent (AgServerCount n) a = Ret (am_SetServerCount n a)"
| "perform_agent (AgLeaseList c r) a = am_ObserveLeaseList c r a"
| "perform_agent (AgLeaseWatch c r) a = am_ObserveLeaseWatch c r a"
| "perform_agent (AgLeaseListLatency d c) a = am_ObserveLeaseListLatency d c a"
| "perform_agent AgEndpointInc a = am_EndpointConnectionInc a"
| "perform_agent AgEndpointDec a = am_EndpointConnectionDec a"
| "perform_agent (AgPacket seg p) a = am_ObservePacket seg p a"
| "perform_agent (AgErrorNoPacket seg code) a = am_ObserveStreamErrorNoPacket seg code a"
| "perform_agent (AgError seg code p) a = am_ObserveStreamError seg code p a"

fun agent_legal :: "agent_op \<Rightarrow> bool" where
  "agent_legal (AgLeaseList c r) = ValidString r"
| "agent_legal (AgLeaseWatch c r) = ValidString r"
| "agent_legal (AgErrorNoPacket seg code) = ValidString code"
| "agent_legal (AgError seg code p) = ValidString code"
| "agent_legal _ = True"

lemmas agent_constructors =
  agent_dialLatencies_def agent_serverFailures_def agent_dialFailures_def agent_serverConnections_def
  agent_serverConnectionsLost_def agent_serverConnectionsAttempts_def agent_serverCount_def
  agent_endpointConnections_def agent_leaseLists_def agent_leaseWatches_def agent_leaseListLatencies_def
  MakeStreamPacketsTotalMetric_def MakeStreamErrorsTotalMetric_def

lemmas agent_methods =
  am_ObserveServerFailureDeprecated_def am_ObserveDialLatency_def am_ObserveDialFailure_def
  am_SetServerConnectionsCount_def am_ObserveServerConnectionLost_def am_ObserveServerConnectionAttempt_def
  am_SetServerCount_def am_ObserveLeaseList_def am_ObserveLeaseWatch_def am_ObserveLeaseListLatency_def
  am_EndpointConnectionInc_def am_EndpointConnectionDec_def am_ObservePacket_def am_ObserveStreamErrorNoPacket_def
  am_ObserveStreamError_def common_ObservePacket_def common_ObserveStreamErrorNoPacket_def common_ObserveStreamError_def

lemma agent_strings_valid [simp]:
  "ValidString (direction_string d)" "ValidString (agent_dial_failure_string r)" "ValidString (lost_reason_string l)"
  "ValidString (attempt_result_string t)"
proof -
  show "ValidString (direction_string d)" by (cases d) (simp_all add: direction_string_def ValidString.simps byte_in_def)
  show "ValidString (agent_dial_failure_string r)"
    by (cases r) (simp_all add: agent_dial_failure_string_def ValidString.simps byte_in_def)
  show "ValidString (lost_reason_string l)" by (cases l) (simp_all add: lost_reason_string_def ValidString.simps byte_in_def)
  show "ValidString (attempt_result_string t)"
    by (cases t) (simp_all add: attempt_result_string_def ValidString.simps byte_in_def)
qed

lemma agent_labels:
  assumes "agent_descs a = agent_descs agent_collectors"
  shows "vc_labels (am_dialLatencies a) = []" "vc_labels (am_serverFailures a) = [''direction'']"
    "vc_labels (am_dialFailures a) = [''reason'']" "vc_labels (am_serverConnections a) = []"
    "vc_labels (am_serverConnectionsLost a) = [''reason'']" "vc_labels (am_serverConnectionsAttempts a) = [''result'']"
    "vc_labels (am_endpointConnections a) = []" "vc_labels (am_streamPackets a) = [''segment'', ''packet_type'']"
    "vc_labels (am_streamErrors a) = [''segment'', ''code'', ''packet_type'']"
    "vc_labels (am_leaseLists a) = [''http_response_code'', ''reason'']"
    "vc_labels (am_leaseListLatencies a) = [''http_response_code'']"
  using assms unfolding agent_descs_def agent_collectors_def agent_metrics.select_convs agent_constructors
  by (simp_all add: desc_def)

lemma agent_performs:
  assumes "agent_descs a = agent_descs agent_collectors" and "agent_legal op"
  shows "\<exists>a'. perform_agent op a = Ret a' \<and> agent_descs a' = agent_descs a"
  using assms(2)
  by (cases op) (simp_all add: agent_methods WithLabelValues_Ret agent_labels [OF assms(1)] agent_descs_def agent_Reset_def)

interpretation agent_metric_set: metric_set agent_descs agent_collectors perform_agent agent_legal
  by unfold_locales (rule agent_performs)

fun agent_resets :: "agent_op \<Rightarrow> bool" where
  "agent_resets AgReset = True"
| "agent_resets _ = False"

text \<open>The calls of the API server that list leases and those that watch them.\<close>

fun lists_leases :: "string list \<Rightarrow> agent_op \<Rightarrow> nat" where
  "lists_leases l (AgLeaseList c r) = (if l = [Itoa c, r] then 1 else 0)"
| "lists_leases l _ = 0"

fun watches_leases :: "string list \<Rightarrow> agent_op \<Rightarrow> nat" where
  "watches_leases l (AgLeaseWatch c r) = (if l = [Itoa c, r] then 1 else 0)"
| "watches_leases l _ = 0"

fun opens_endpoint :: "agent_op \<Rightarrow> int" where
  "opens_endpoint AgEndpointInc = 1"
| "opens_endpoint AgEndpointDec = - 1"
| "opens_endpoint _ = 0"

definition agent_zero :: "agent_metrics \<Rightarrow> bool" where
  "agent_zero a \<longleftrightarrow> vc_zero (am_leaseLists a) = 0 \<and> vc_zero (am_endpointConnections a) = 0 \<and> vc_values (am_leaseWatches a) = []"

lemma agent_zero_new: "agent_zero agent_collectors"
  by (simp add: agent_zero_def agent_collectors_def agent_constructors) (simp add: new_vec_def)

lemma agent_zero_kept: "agent_zero a \<Longrightarrow> perform_agent op a = Ret a' \<Longrightarrow> agent_zero a'"
  by (cases op) (auto simp: agent_zero_def agent_methods agent_Reset_def bind_outcome_Ret_iff WithLabelValues_Ret_iff)

lemma agent_step_leaseLists:
  assumes "agent_zero a" and "perform_agent op a = Ret a'"
  shows "reads (am_leaseLists a') l =
     (if agent_resets op then 0 else reads (am_leaseLists a) l + (lists_leases l op + watches_leases l op))"
  using assms
  by (cases op) (auto simp: agent_zero_def agent_methods agent_Reset_def bind_outcome_Ret_iff WithLabelValues_Ret_iff)

lemma agent_step_endpointConnections:
  assumes "agent_zero a" and "perform_agent op a = Ret a'"
  shows "reads (am_endpointConnections a') [] =
     (if agent_resets op then 0 else reads (am_endpointConnections a) [] + opens_endpoint op)"
  using assms
  by (cases op) (auto simp: agent_zero_def agent_methods agent_Reset_def bind_outcome_Ret_iff WithLabelValues_Ret_iff)

subsection \<open>Who observes: the lease informer and the streams\<close>

text \<open>The error of a call of the API server: one with an API status, or another one.\<close>

datatype api_error = APIStatus int string | OtherAPIError go_error

text \<open>
  The functions of \<^verbatim>\<open>NewLeaseInformerWithMetrics\<close>, for a call that returns \<open>r\<close>. The latency is
  recorded in a deferred call, with the code as it is then.
\<close>

definition lease_ListFunc :: "duration \<Rightarrow> api_error + 'o \<Rightarrow> agent_metrics \<Rightarrow> ((api_error + 'o) \<times> agent_metrics) outcome" where
  "lease_ListFunc latency r a =
     bind_outcome
       (case r of
          Inr obj \<Rightarrow> bind_outcome (am_ObserveLeaseList 200 [] a) (\<lambda>a1. Ret (200, a1))
        | Inl (APIStatus code reason) \<Rightarrow> bind_outcome (am_ObserveLeaseList code reason a) (\<lambda>a1. Ret (code, a1))
        | Inl (OtherAPIError err) \<Rightarrow> Ret (200, a))
       (\<lambda>(httpCode, a1). bind_outcome (am_ObserveLeaseListLatency latency httpCode a1) (\<lambda>a2. Ret (r, a2)))"

definition lease_WatchFunc :: "api_error + 'o \<Rightarrow> agent_metrics \<Rightarrow> ((api_error + 'o) \<times> agent_metrics) outcome" where
  "lease_WatchFunc r a =
     bind_outcome
       (case r of
          Inr obj \<Rightarrow> am_ObserveLeaseWatch 200 [] a
        | Inl (APIStatus code reason) \<Rightarrow> am_ObserveLeaseWatch code reason a
        | Inl (OtherAPIError err) \<Rightarrow> Ret a)
       (\<lambda>a1. Ret (r, a1))"

text \<open>\<open>code\<close> gives the name of the gRPC code of an error.\<close>

definition agent_Recv ::
  "(go_error \<Rightarrow> string) \<Rightarrow> go_error + packet \<Rightarrow> agent_metrics \<Rightarrow> ((go_error + packet) \<times> agent_metrics) outcome" where
  "agent_Recv code r a =
     (case r of
        Inl err \<Rightarrow>
          if err \<noteq> ErrEOF then
            bind_outcome (am_ObserveServerFailureDeprecated DirectionFromServer a) (\<lambda>a1.
            bind_outcome (am_ObserveStreamErrorNoPacket SegmentToAgent (code err) a1) (\<lambda>a2. Ret (Inl err, a2)))
          else Ret (Inl err, a)
      | Inr pkt \<Rightarrow> bind_outcome (am_ObservePacket SegmentToAgent (ptype pkt) a) (\<lambda>a1. Ret (Inr pkt, a1)))"

text \<open>A list that fails without an API status is timed as if the server had answered with 200.\<close>

lemma failed_list_timed_as_ok:
  "lease_ListFunc latency (Inl (OtherAPIError err)) a = Ret (r, a') \<Longrightarrow>
   observations (reads (am_leaseListLatencies a') [Itoa 200]) = observations (reads (am_leaseListLatencies a) [Itoa 200]) + 1 \<and>
   am_leaseLists a' = am_leaseLists a"
  by (auto simp: lease_ListFunc_def am_ObserveLeaseListLatency_def bind_outcome_Ret_iff WithLabelValues_Ret_iff)

subsection \<open>The client\<close>

definition client_Namespace :: string where
  "client_Namespace = ''konnectivity_network_proxy''"

definition client_Subsystem :: string where
  "client_Subsystem = ''client''"

text \<open>\<open>km_registered\<close>: whether \<^verbatim>\<open>registerOnce\<close> has run.\<close>

record client_metrics =
  km_registered :: bool
  km_streamPackets :: counter_vec
  km_streamErrors :: counter_vec
  km_dialFailures :: counter_vec
  km_clientConns :: gauge_vec

definition client_dialFailures :: counter_vec where
  "client_dialFailures = new_vec (fqName client_Namespace client_Subsystem ''dial_failure_total'') [''reason''] 0"

definition client_clientConns :: gauge_vec where
  "client_clientConns = new_vec (fqName client_Namespace client_Subsystem ''client_connections'') [''status''] 0"

definition newMetrics :: client_metrics where
  "newMetrics =
     \<lparr>km_registered = False,
      km_streamPackets = MakeStreamPacketsTotalMetric client_Namespace client_Subsystem,
      km_streamErrors = MakeStreamErrorsTotalMetric client_Namespace client_Subsystem,
      km_dialFailures = client_dialFailures,
      km_clientConns = client_clientConns\<rparr>"

text \<open>\<open>r\<close> is the registerer's \<^verbatim>\<open>MustRegister\<close>.\<close>

definition RegisterMetrics ::
  "(string \<times> string list \<Rightarrow> 'r \<Rightarrow> 'r outcome) \<Rightarrow> 'r \<Rightarrow> client_metrics \<Rightarrow> ('r \<times> client_metrics) outcome" where
  "RegisterMetrics r reg c =
     (if km_registered c then Ret (reg, c)
      else
        bind_outcome (r (desc (km_streamPackets c)) reg) (\<lambda>reg1.
        bind_outcome (r (desc (km_streamErrors c)) reg1) (\<lambda>reg2.
        bind_outcome (r (desc (km_dialFailures c)) reg2) (\<lambda>reg3.
        bind_outcome (r (desc (km_clientConns c)) reg3) (\<lambda>reg4.
          Ret (reg4, c\<lparr>km_registered := True\<rparr>))))))"

definition LegacyRegisterMetrics ::
  "(string \<times> string list \<Rightarrow> 'r \<Rightarrow> 'r outcome) \<Rightarrow> 'r \<Rightarrow> client_metrics \<Rightarrow> ('r \<times> client_metrics) outcome" where
  "LegacyRegisterMetrics mustRegisterFn reg c = RegisterMetrics mustRegisterFn reg c"

definition client_Reset :: "client_metrics \<Rightarrow> client_metrics" where
  "client_Reset c =
     c\<lparr>km_streamPackets := vec_Reset (km_streamPackets c), km_streamErrors := vec_Reset (km_streamErrors c),
       km_dialFailures := vec_Reset (km_dialFailures c), km_clientConns := vec_Reset (km_clientConns c)\<rparr>"

definition client_dial_failure_string :: "client_dial_failure \<Rightarrow> string" where
  "client_dial_failure_string r =
     (case r of DialFailureUnknown \<Rightarrow> ''unknown'' | client_dial_failure.DialFailureTimeout \<Rightarrow> ''timeout''
      | DialFailureContext \<Rightarrow> ''context'' | DialFailureEndpoint \<Rightarrow> ''endpoint'' | DialFailureDialClosed \<Rightarrow> ''dialclosed''
      | DialFailureTunnelClosed \<Rightarrow> ''tunnelclosed'' | DialFailureAlreadyStarted \<Rightarrow> ''tunnelstarted''
      | DialFailureStreamSetup \<Rightarrow> ''streamsetup'')"

definition km_ObserveDialFailure :: "client_dial_failure \<Rightarrow> client_metrics \<Rightarrow> client_metrics outcome" where
  "km_ObserveDialFailure reason c =
     bind_outcome (WithLabelValues [client_dial_failure_string reason] Suc (km_dialFailures c))
       (\<lambda>v. Ret (c\<lparr>km_dialFailures := v\<rparr>))"

definition client_status_string :: "client_status \<Rightarrow> string" where
  "client_status_string st =
     (case st of StatusCreated \<Rightarrow> ''created'' | StatusDialing \<Rightarrow> ''dialing'' | StatusOk \<Rightarrow> ''ok''
      | StatusClosing \<Rightarrow> ''closing'')"

text \<open>\<open>act\<close> is what the caller does with the gauge of a status.\<close>

definition km_GetClientConnectionsMetric ::
  "client_status \<Rightarrow> (int \<Rightarrow> int) \<Rightarrow> client_metrics \<Rightarrow> client_metrics outcome" where
  "km_GetClientConnectionsMetric st act c =
     bind_outcome (WithLabelValues [client_status_string st] act (km_clientConns c))
       (\<lambda>v. Ret (c\<lparr>km_clientConns := v\<rparr>))"

definition km_ObservePacket :: "segment \<Rightarrow> packet_type \<Rightarrow> client_metrics \<Rightarrow> client_metrics outcome" where
  "km_ObservePacket segment packetType c =
     bind_outcome (common_ObservePacket segment packetType (km_streamPackets c)) (\<lambda>v. Ret (c\<lparr>km_streamPackets := v\<rparr>))"

definition km_ObserveStreamErrorNoPacket :: "segment \<Rightarrow> string \<Rightarrow> client_metrics \<Rightarrow> client_metrics outcome" where
  "km_ObserveStreamErrorNoPacket segment code c =
     bind_outcome (common_ObserveStreamErrorNoPacket segment code (km_streamErrors c)) (\<lambda>v. Ret (c\<lparr>km_streamErrors := v\<rparr>))"

definition km_ObserveStreamError :: "segment \<Rightarrow> string \<Rightarrow> packet_type \<Rightarrow> client_metrics \<Rightarrow> client_metrics outcome" where
  "km_ObserveStreamError segment code packetType c =
     bind_outcome (common_ObserveStreamError segment code packetType (km_streamErrors c)) (\<lambda>v. Ret (c\<lparr>km_streamErrors := v\<rparr>))"

definition grpcTunnel_Recv ::
  "(go_error \<Rightarrow> string) \<Rightarrow> go_error + packet \<Rightarrow> client_metrics \<Rightarrow> ((go_error + packet) \<times> client_metrics) outcome" where
  "grpcTunnel_Recv code r c =
     (case r of
        Inl err \<Rightarrow>
          if err \<noteq> ErrEOF then
            bind_outcome (km_ObserveStreamErrorNoPacket SegmentToClient (code err) c) (\<lambda>c1. Ret (Inl err, c1))
          else Ret (Inl err, c)
      | Inr pkt \<Rightarrow> bind_outcome (km_ObservePacket SegmentToClient (ptype pkt) c) (\<lambda>c1. Ret (Inr pkt, c1)))"

datatype client_op =
    ClReset
  | ClDialFailure client_dial_failure
  | ClConnections client_status "int \<Rightarrow> int"
  | ClPacket segment packet_type
  | ClErrorNoPacket segment string
  | ClError segment string packet_type

fun perform_client :: "client_op \<Rightarrow> client_metrics \<Rightarrow> client_metrics outcome" where
  "perform_client ClReset c = Ret (client_Reset c)"
| "perform_client (ClDialFailure r) c = km_ObserveDialFailure r c"
| "perform_client (ClConnections st act) c = km_GetClientConnectionsMetric st act c"
| "perform_client (ClPacket seg p) c = km_ObservePacket seg p c"
| "perform_client (ClErrorNoPacket seg code) c = km_ObserveStreamErrorNoPacket seg code c"
| "perform_client (ClError seg code p) c = km_ObserveStreamError seg code p c"

fun client_legal :: "client_op \<Rightarrow> bool" where
  "client_legal (ClErrorNoPacket seg code) = ValidString code"
| "client_legal (ClError seg code p) = ValidString code"
| "client_legal _ = True"

definition client_descs :: "client_metrics \<Rightarrow> (string \<times> string list) list" where
  "client_descs c = [desc (km_streamPackets c), desc (km_streamErrors c), desc (km_dialFailures c), desc (km_clientConns c)]"

lemmas client_constructors =
  client_dialFailures_def client_clientConns_def MakeStreamPacketsTotalMetric_def MakeStreamErrorsTotalMetric_def

lemmas client_methods =
  km_ObserveDialFailure_def km_GetClientConnectionsMetric_def km_ObservePacket_def km_ObserveStreamErrorNoPacket_def
  km_ObserveStreamError_def common_ObservePacket_def common_ObserveStreamErrorNoPacket_def common_ObserveStreamError_def

lemma client_strings_valid [simp]:
  "ValidString (client_dial_failure_string r)" "ValidString (client_status_string st)"
proof -
  show "ValidString (client_dial_failure_string r)"
    by (cases r) (simp_all add: client_dial_failure_string_def ValidString.simps byte_in_def)
  show "ValidString (client_status_string st)"
    by (cases st) (simp_all add: client_status_string_def ValidString.simps byte_in_def)
qed

lemma client_labels:
  assumes "client_descs c = client_descs newMetrics"
  shows "vc_labels (km_streamPackets c) = [''segment'', ''packet_type'']"
    "vc_labels (km_streamErrors c) = [''segment'', ''code'', ''packet_type'']"
    "vc_labels (km_dialFailures c) = [''reason'']" "vc_labels (km_clientConns c) = [''status'']"
  using assms unfolding client_descs_def newMetrics_def client_metrics.select_convs client_constructors
  by (simp_all add: desc_def)

lemma client_performs:
  assumes "client_descs c = client_descs newMetrics" and "client_legal op"
  shows "\<exists>c'. perform_client op c = Ret c' \<and> client_descs c' = client_descs c"
  using assms(2)
  by (cases op) (simp_all add: client_methods WithLabelValues_Ret client_labels [OF assms(1)] client_descs_def client_Reset_def)

interpretation client_metric_set: metric_set client_descs newMetrics perform_client client_legal
  by unfold_locales (rule client_performs)

subsection \<open>One registry\<close>

text \<open>The names of the collectors and the label names that occur.\<close>

definition server_names :: "string list" where
  "server_names = [''dial_duration_seconds'', ''frontend_write_duration_seconds'', ''connection_duration_seconds'',
     ''backend_connection_duration_seconds'', ''grpc_connections'', ''http_connections'', ''ready_backend_connections'',
     ''ready_backends'', ''pending_backend_dials'', ''established_connections'', ''established_connections_closed_total'',
     ''full_receive_channels'', ''full_frontend_write_queues'', ''blocked_frontend_write_channels'', ''dial_failure_count'',
     ''stream_packets_total'', ''stream_errors_total'', ''culled_leases_count'', ''lease_delete_latency_seconds'',
     ''lease_delete_total'', ''lease_list_latency_seconds'', ''lease_list_total'']"

definition agent_names :: "string list" where
  "agent_names = [''dial_duration_seconds'', ''server_connection_failure_count'', ''endpoint_dial_failure_total'',
     ''open_server_connections'', ''server_connection_lost_total'', ''server_connection_attempts_total'',
     ''open_endpoint_connections'', ''stream_packets_total'', ''stream_errors_total'', ''known_server_count'',
     ''lease_lists_total'', ''lease_watches_total'', ''lease_list_latency_seconds'']"

definition client_names :: "string list" where
  "client_names = [''stream_packets_total'', ''stream_errors_total'', ''dial_failure_total'', ''client_connections'']"

lemma names:
  "map fst (server_descs server_collectors) = map (fqName server_Namespace server_Subsystem) server_names"
  "map fst (agent_descs agent_collectors) = map (fqName agent_Namespace agent_Subsystem) agent_names"
  "map fst (client_descs newMetrics) = map (fqName client_Namespace client_Subsystem) client_names"
  by (simp_all add: server_descs_def server_collectors_def server_constructors server_names_def
      agent_descs_def agent_collectors_def agent_constructors agent_names_def
      client_descs_def newMetrics_def client_constructors client_names_def)

lemma names_distinct: "distinct server_names" "distinct agent_names" "distinct client_names"
  by (simp_all add: server_names_def agent_names_def client_names_def)

lemma names_ascii:
  "list_all (list_all (byte_in 0 127)) (server_names @ agent_names @ client_names)"
  "list_all (list_all (byte_in 0 127)) [server_Namespace, server_Subsystem, agent_Namespace, agent_Subsystem,
     client_Namespace, client_Subsystem]"
  by (simp_all add: server_names_def agent_names_def client_names_def server_Namespace_def server_Subsystem_def
      agent_Namespace_def agent_Subsystem_def client_Namespace_def client_Subsystem_def byte_in_def)

lemma names_valid:
  "n \<in> set (map (fqName server_Namespace server_Subsystem) server_names @ map (fqName agent_Namespace agent_Subsystem) agent_names
     @ map (fqName client_Namespace client_Subsystem) client_names) \<Longrightarrow> valid_name n"
  using names_ascii by (auto simp: list_all_iff [of "list_all (byte_in 0 127)"] intro!: fqName_valid)

lemma label_names_ok:
  "d \<in> set (server_descs server_collectors @ agent_descs agent_collectors @ client_descs newMetrics) \<Longrightarrow>
   list_all checkLabelName (snd d) \<and> distinct (snd d)"
proof -
  let ?ok = "\<lambda>ls. list_all checkLabelName ls \<and> distinct ls"
  have ok: "?ok []" "?ok [''reason'']" "?ok [''service_method'']" "?ok [''proxy_strategy'']" "?ok [''segment'', ''packet_type'']"
    "?ok [''segment'', ''code'', ''packet_type'']" "?ok [''http_status_code'']" "?ok [''http_status_code'', ''reason'']"
    "?ok [''direction'']" "?ok [''result'']" "?ok [''http_response_code'']" "?ok [''http_response_code'', ''reason'']"
    "?ok [''status'']"
    by (simp_all add: checkLabelName_def valid_name_def ValidString_ascii byte_in_def)
  assume "d \<in> set (server_descs server_collectors @ agent_descs agent_collectors @ client_descs newMetrics)"
  then have "snd d \<in> {[], [''reason''], [''service_method''], [''proxy_strategy''], [''segment'', ''packet_type''],
      [''segment'', ''code'', ''packet_type''], [''http_status_code''], [''http_status_code'', ''reason''], [''direction''],
      [''result''], [''http_response_code''], [''http_response_code'', ''reason''], [''status'']}"
    by (auto simp: server_descs_def server_collectors_def server_constructors agent_descs_def agent_collectors_def
        agent_constructors client_descs_def newMetrics_def client_constructors)
  with ok show ?thesis by (elim insertE emptyE) (simp_all only:)
qed

lemma RegisterMetrics_all:
  "\<not> km_registered c \<Longrightarrow> RegisterMetrics MustRegister reg c =
   bind_outcome (register_all (client_descs c) reg) (\<lambda>reg'. Ret (reg', c\<lparr>km_registered := True\<rparr>))"
  by (simp add: RegisterMetrics_def client_descs_def bind_outcome_assoc)

lemma registers:
  assumes "ds \<in> {server_descs server_collectors, agent_descs agent_collectors, client_descs newMetrics}"
    and "set (map fst ds) \<inter> set reg = {}"
  shows "register_all ds reg = Ret (reg @ map fst ds)"
proof (rule register_all_ok [OF _ _ assms(2)])
  have "valid_name (fst d) \<and> list_all checkLabelName (snd d) \<and> distinct (snd d)" if "d \<in> set ds" for d
  proof -
    have "fst d \<in> set (map fst ds)" using that by simp
    with assms(1) have "valid_name (fst d)" by (elim insertE emptyE) (auto intro: names_valid simp only: names set_append)
    with that assms(1) label_names_ok [of d] show ?thesis by auto
  qed
  then show "list_all (\<lambda>d. valid_name (fst d) \<and> list_all checkLabelName (snd d) \<and> distinct (snd d)) ds"
    by (simp add: list_all_iff)
  show "distinct (map fst ds)"
    using assms(1) names_distinct
    by (elim insertE emptyE) (simp_all only: names distinct_map inj_on_def fqName_inj simp_thms ball_triv)
qed

lemma subsystems_apart:
  "fqName server_Namespace server_Subsystem n \<noteq> fqName agent_Namespace agent_Subsystem n'"
  "fqName server_Namespace server_Subsystem n \<noteq> fqName client_Namespace client_Subsystem n'"
  "fqName agent_Namespace agent_Subsystem n \<noteq> fqName client_Namespace client_Subsystem n'"
  by (simp_all add: fqName_def server_Namespace_def server_Subsystem_def agent_Namespace_def agent_Subsystem_def
      client_Namespace_def client_Subsystem_def)

subsection \<open>Properties\<close>

text \<open>
  The metrics of server, agent and client can be registered in one registry: no name is used
  twice, every name and label name is allowed, and so no registration panics when a process links
  all three. The client's second registration does nothing; creating the server's a second time
  would panic.
\<close>

theorem metrics_register_together:
  "\<exists>reg1 reg2 reg3 c. newServerMetrics [] = Ret (reg1, server_collectors) \<and>
     newAgentMetrics reg1 = Ret (reg2, agent_collectors) \<and>
     RegisterMetrics MustRegister reg2 newMetrics = Ret (reg3, c) \<and> distinct reg3 \<and> length reg3 = 39 \<and>
     RegisterMetrics MustRegister reg3 c = Ret (reg3, c) \<and> \<not> returns (newServerMetrics reg3)"
proof -
  let ?s = "map (fqName server_Namespace server_Subsystem) server_names"
  let ?a = "map (fqName agent_Namespace agent_Subsystem) agent_names"
  let ?c = "map (fqName client_Namespace client_Subsystem) client_names"
  have 1: "newServerMetrics [] = Ret (?s, server_collectors)"
    using registers [of "server_descs server_collectors" "[]"] by (simp add: newServerMetrics_def names)
  have "set ?a \<inter> set ?s = {}" by (auto simp: subsystems_apart [THEN not_sym])
  with registers [of "agent_descs agent_collectors" ?s] have 2: "newAgentMetrics ?s = Ret (?s @ ?a, agent_collectors)"
    by (simp add: newAgentMetrics_def names)
  have "set ?c \<inter> set (?s @ ?a) = {}" by (auto simp: subsystems_apart [THEN not_sym])
  with registers [of "client_descs newMetrics" "?s @ ?a"] have 3: "RegisterMetrics MustRegister (?s @ ?a) newMetrics =
      Ret ((?s @ ?a) @ ?c, newMetrics\<lparr>km_registered := True\<rparr>)"
    using RegisterMetrics_all [of newMetrics "?s @ ?a"] by (simp add: names) (simp add: newMetrics_def)
  have d: "distinct ((?s @ ?a) @ ?c)"
    using names_distinct subsystems_apart subsystems_apart [THEN not_sym]
    by (auto simp: distinct_map inj_on_def)
  have len: "length ((?s @ ?a) @ ?c) = 39" by (simp add: server_names_def agent_names_def client_names_def)
  have "fst (desc (sm_endpointLatencies server_collectors)) \<in> set ((?s @ ?a) @ ?c)"
    using names(1) by (simp add: server_descs_def server_names_def)
  then have "\<not> returns (newServerMetrics ((?s @ ?a) @ ?c))"
    by (simp add: newServerMetrics_def server_descs_def MustRegister_def returns_def del: append_assoc set_append)
  with 1 2 3 d len show ?thesis by (auto simp: RegisterMetrics_def [of _ _ "newMetrics\<lparr>km_registered := True\<rparr>"] simp del: append_assoc)
qed

text \<open>
  C40. The agent's watches of the server leases are counted as lists: whatever is observed, the
  counter \<^verbatim>\<open>lease_watches_total\<close> has no value, and \<^verbatim>\<open>lease_lists_total\<close> shows the lists and the
  watches together. The gauge of endpoint connections is the number opened less the number closed.
\<close>

theorem lease_watches_counted_as_lists:
  assumes "list_all agent_legal ops"
  shows "\<exists>a. perform_all perform_agent ops agent_collectors = Ret a \<and> vc_values (am_leaseWatches a) = [] \<and>
     (\<forall>l. reads (am_leaseLists a) l =
        sum_list (map (\<lambda>op. lists_leases l op + watches_leases l op) (recent agent_resets ops))) \<and>
     reads (am_endpointConnections a) [] = sum_list (map opens_endpoint (recent agent_resets ops))"
proof -
  from agent_metric_set.never_panics [OF refl assms] obtain a where
    a: "perform_all perform_agent ops agent_collectors = Ret a"
    by blast
  note sum = value_counts [where ok = agent_zero and perform = perform_agent and ops = ops and ?m0.0 = agent_collectors
      and m = a, OF _ agent_zero_new _ a]
  have new: "reads (am_leaseLists agent_collectors) l = 0" "reads (am_endpointConnections agent_collectors) [] = 0" for l
    by (simp_all add: agent_collectors_def agent_constructors)
  have "reads (am_leaseLists a) l =
      sum_list (map (\<lambda>op. lists_leases l op + watches_leases l op) (recent agent_resets ops))" for l
    by (rule sum [where val = "\<lambda>a. reads (am_leaseLists a) l"]) (simp_all add: agent_zero_kept agent_step_leaseLists new)
  moreover have "reads (am_endpointConnections a) [] = sum_list (map opens_endpoint (recent agent_resets ops))"
    by (rule sum [where val = "\<lambda>a. reads (am_endpointConnections a) []"])
      (simp_all add: agent_zero_kept agent_step_endpointConnections new)
  moreover have "agent_zero a"
    using a agent_zero_new
    by (induction ops arbitrary: a rule: rev_induct)
      (auto simp: perform_all_append bind_outcome_Ret_iff dest: agent_zero_kept)
  ultimately show ?thesis using a by (auto simp: agent_zero_def)
qed

theorem lease_watches_counted_as_lists_witness:
  "\<exists>a. perform_all perform_agent [AgLeaseList 200 [], AgLeaseWatch 200 [], AgEndpointInc] agent_collectors = Ret a \<and>
     vc_values (am_leaseWatches a) = [] \<and> reads (am_leaseLists a) [''200'', []] = 2 \<and>
     reads (am_endpointConnections a) [] = 1"
proof -
  let ?ops = "[AgLeaseList 200 [], AgLeaseWatch 200 [], AgEndpointInc]"
  have recent: "recent agent_resets ?ops = ?ops" by (simp add: recent_def)
  have itoa: "Itoa 200 = ''200''" by code_simp
  have "list_all agent_legal ?ops" by simp
  from lease_watches_counted_as_lists [OF this] show ?thesis
    unfolding recent by (auto simp: itoa simp del: perform_all.simps)
qed

end
