(* ===== verification/KNP_Admin.thy ===== *)
theory KNP_Admin
  imports KNP_ServerApp KNP_AgentApp
begin

section \<open>The HTTP endpoints of the processes\<close>

text \<open>
  The admin and the health server of both commands (\<^verbatim>\<open>runAdminServer\<close> and \<^verbatim>\<open>runHealthServer\<close> of
  \<^verbatim>\<open>cmd/server/app\<close> and \<^verbatim>\<open>cmd/agent/app\<close>): their addresses, their routes, what each route answers, and
  \<^verbatim>\<open>Run\<close> of the agent, which starts them. \<^verbatim>\<open>http.ServeMux\<close> is modelled for paths in their clean form:
  a pattern that ends in a slash matches the paths below it, the longest pattern wins. What the
  profiler and the metrics page write is left out; whether listening succeeds does not change what
  the commands do. \<^verbatim>\<open>net.SplitHostPort\<close> and \<^verbatim>\<open>net.JoinHostPort\<close> are the library's.
\<close>

subsection \<open>Hosts and ports\<close>

fun index_byte :: "string \<Rightarrow> char \<Rightarrow> nat option" where
  "index_byte [] c = None"
| "index_byte (x # s) c = (if x = c then Some 0 else map_option Suc (index_byte s c))"

text \<open>\<^verbatim>\<open>net.SplitHostPort\<close>.\<close>

definition SplitHostPort :: "string \<Rightarrow> go_error + string \<times> string" where
  "SplitHostPort hostport =
     (let missing = Inl (ErrText ''missing port in address''); many = Inl (ErrText ''too many colons in address'');
          finish = (\<lambda>host i j k.
            if CHR ''['' \<in> set (drop j hostport) then Inl (ErrText ''unexpected '[' in address'')
            else if CHR '']'' \<in> set (drop k hostport) then Inl (ErrText ''unexpected ']' in address'')
            else Inr (host, drop (i + 1) hostport)) in
      case last_index_byte hostport CHR '':'' of
        None \<Rightarrow> missing
      | Some i \<Rightarrow>
          if take 1 hostport = ''['' then
            (case index_byte hostport CHR '']'' of
               None \<Rightarrow> Inl (ErrText ''missing ']' in address'')
             | Some e \<Rightarrow>
                 if e + 1 = length hostport then missing
                 else if e + 1 = i then finish (take (e - 1) (drop 1 hostport)) i 1 (e + 1)
                 else if hostport ! (e + 1) = CHR '':'' then many
                 else missing)
          else if CHR '':'' \<in> set (take i hostport) then many
          else finish (take i hostport) i 0 0)"

subsection \<open>Routes\<close>

datatype route =
    RouteMetrics
  | RouteMetricsRedirect int
  | RouteLiveness
  | RouteReadiness
  | RouteRedirect string
  | RouteProfile string

text \<open>\<open>MetricsPage\<close> and \<open>ProfilePage\<close> are what the libraries' handlers write.\<close>

datatype http_answer =
    NotFound
  | Page nat string
  | MovedPermanently string
  | MetricsPage
  | ProfilePage string

record http_request =
  rq_host :: string
  rq_path :: string
  rq_query :: string

text \<open>\<open>ws_contention\<close>: whether starting it calls \<^verbatim>\<open>runtime.SetBlockProfileRate(1)\<close>.\<close>

record http_server =
  ws_addr :: string
  ws_contention :: bool
  ws_routes :: "(string \<times> route) list"

definition subtree :: "string \<Rightarrow> string \<Rightarrow> bool" where
  "subtree pattern path \<longleftrightarrow> pattern \<noteq> [] \<and> last pattern = CHR ''/'' \<and> take (length pattern) path = pattern"

fun longest :: "(string \<times> 'h) list \<Rightarrow> string \<Rightarrow> (string \<times> 'h) option" where
  "longest [] path = None"
| "longest ((p, h) # rs) path =
     (if subtree p path then
        (case longest rs path of
           Some (p', h') \<Rightarrow> if length p' > length p then Some (p', h') else Some (p, h)
         | None \<Rightarrow> Some (p, h))
      else longest rs path)"

definition ServeMux :: "(string \<times> 'h) list \<Rightarrow> string \<Rightarrow> 'h option" where
  "ServeMux routes path =
     (case map_of routes path of
        Some h \<Rightarrow> Some h
      | None \<Rightarrow> map_option snd (longest routes path))"

definition profile_routes :: "(string \<times> route) list" where
  "profile_routes =
     [(''/debug/pprof'', RouteRedirect ''/debug/pprof/''), (''/debug/pprof/'', RouteProfile ''index''),
      (''/debug/pprof/profile'', RouteProfile ''profile''), (''/debug/pprof/symbol'', RouteProfile ''symbol''),
      (''/debug/pprof/trace'', RouteProfile ''trace'')]"

definition health_routes :: "(string \<times> route) list" where
  "health_routes =
     [(''/metrics'', RouteMetrics), (''/healthz'', RouteLiveness), (''/ready'', RouteReadiness), (''/readyz'', RouteReadiness)]"

subsection \<open>The server's endpoints\<close>

definition runAdminServer :: "server_options \<Rightarrow> http_server" where
  "runAdminServer opts =
     \<lparr>ws_addr = JoinHostPort (so_AdminBindAddress opts) (Itoa (so_AdminPort opts)),
      ws_contention = (so_EnableProfiling opts \<and> so_EnableContentionProfiling opts),
      ws_routes = [(''/metrics'', RouteMetrics)] @ (if so_EnableProfiling opts then profile_routes else [])\<rparr>"

definition runHealthServer :: "server_options \<Rightarrow> http_server" where
  "runHealthServer opts =
     \<lparr>ws_addr = JoinHostPort (so_HealthBindAddress opts) (Itoa (so_HealthPort opts)), ws_contention = False,
      ws_routes = health_routes\<rparr>"

subsection \<open>The agent's endpoints\<close>

definition agent_runAdminServer :: "agent_options \<Rightarrow> http_server" where
  "agent_runAdminServer opts =
     \<lparr>ws_addr = JoinHostPort (go_AdminBindAddress opts) (Itoa (go_AdminServerPort opts)),
      ws_contention = (go_EnableProfiling opts \<and> go_EnableContentionProfiling opts),
      ws_routes = [(''/metrics'', RouteMetricsRedirect (go_HealthServerPort opts))] @
        (if go_EnableProfiling opts then profile_routes else [])\<rparr>"

definition agent_runHealthServer :: "agent_options \<Rightarrow> http_server" where
  "agent_runHealthServer opts =
     \<lparr>ws_addr = JoinHostPort (go_HealthServerHost opts) (Itoa (go_HealthServerPort opts)), ws_contention = False,
      ws_routes = health_routes\<rparr>"

text \<open>
  The redirect of the metrics to the health server. The URL of a request in origin form has no scheme
  and no host, so that the new one is relative to the scheme; its path, here as it was sent, and its
  query stay. \<^verbatim>\<open>URL.String\<close> escapes what may not stand in a host.
\<close>

definition host_char :: "char \<Rightarrow> bool" where
  "host_char c \<longleftrightarrow> (let n = (of_char c :: nat) in 48 \<le> n \<and> n \<le> 57 \<or> 65 \<le> n \<and> n \<le> 90 \<or> 97 \<le> n \<and> n \<le> 122) \<or>
     c \<in> set ''-_.~!$&'()*+,;=:[]<>'' \<or> c = CHR 0x22"

definition escape_host :: "string \<Rightarrow> string" where
  "escape_host s = concat (map (\<lambda>c. if host_char c then [c]
     else [CHR ''%'', ''0123456789ABCDEF'' ! (of_char c div 16), ''0123456789ABCDEF'' ! (of_char c mod 16)]) s)"

definition metrics_redirect :: "int \<Rightarrow> http_request \<Rightarrow> http_answer" where
  "metrics_redirect healthPort r =
     (let host = (case SplitHostPort (rq_host r) of Inl _ \<Rightarrow> rq_host r | Inr (h, _) \<Rightarrow> h) in
      MovedPermanently (''//'' @ escape_host (JoinHostPort host (Itoa healthPort)) @ rq_path r @
        (if rq_query r = [] then [] else ''?'' @ rq_query r)))"

definition RedirectTo :: "string \<Rightarrow> http_request \<Rightarrow> http_answer" where
  "RedirectTo to r = MovedPermanently to"

definition livenessHandler :: "http_request \<Rightarrow> http_answer" where
  "livenessHandler r = Page 200 ''ok''"

text \<open>\<open>ready\<close> is what the readiness handler of the process answers.\<close>

definition handle :: "nat \<times> string \<Rightarrow> http_server \<Rightarrow> http_request \<Rightarrow> http_answer" where
  "handle ready srv r =
     (case ServeMux (ws_routes srv) (rq_path r) of
        None \<Rightarrow> NotFound
      | Some RouteMetrics \<Rightarrow> MetricsPage
      | Some (RouteMetricsRedirect port) \<Rightarrow> metrics_redirect port r
      | Some RouteLiveness \<Rightarrow> livenessHandler r
      | Some RouteReadiness \<Rightarrow> Page (fst ready) (snd ready)
      | Some (RouteRedirect to) \<Rightarrow> RedirectTo to r
      | Some (RouteProfile name) \<Rightarrow> ProfilePage name)"

subsection \<open>Run of the agent\<close>

datatype agent_part = AgentHealthServer | AgentAdminServer

datatype agent_event = AgentStarts agent_part http_server | AgentConnects | AgentCloses agent_part

record agent_result =
  ar_err :: "go_error option"
  ar_clients :: "client_set option"
  ar_events :: "agent_event list"

definition agent_failed :: "string \<Rightarrow> go_error \<Rightarrow> agent_result" where
  "agent_failed msg err = \<lparr>ar_err = Some (ErrText (msg @ error_string err)), ar_clients = None, ar_events = []\<rparr>"

text \<open>Up to the return of \<^verbatim>\<open>Run\<close>, which waits for \<^verbatim>\<open>stopCh\<close> and then closes the servers, the last one first.\<close>

definition agent_Run ::
  "(string \<Rightarrow> bool) \<Rightarrow> go_error option \<Rightarrow> go_error option \<Rightarrow> go_error option \<Rightarrow> agent_options \<Rightarrow> agent_result" where
  "agent_Run exists tlsErr configErr clientErr opts =
     (case agent_Validate exists opts of
        Some err \<Rightarrow> agent_failed ''failed to validate agent options with '' err
      | None \<Rightarrow>
          (case runProxyConnection tlsErr configErr clientErr opts of
             Inl err \<Rightarrow> agent_failed ''failed to run proxy connection with '' err
           | Inr cs \<Rightarrow>
               \<lparr>ar_err = None, ar_clients = Some cs,
                ar_events = [AgentConnects, AgentStarts AgentHealthServer (agent_runHealthServer opts),
                  AgentStarts AgentAdminServer (agent_runAdminServer opts),
                  AgentCloses AgentAdminServer, AgentCloses AgentHealthServer]\<rparr>))"

subsection \<open>Properties\<close>

lemma index_byte_append: "c \<notin> set s \<Longrightarrow> index_byte (s @ c # t) c = Some (length s)"
  by (induction s) auto

lemma SplitHostPort_JoinHostPort:
  assumes "set h \<inter> set ''[]'' = {}" and "set port \<inter> set '':[]'' = {}"
  shows "SplitHostPort (JoinHostPort h port) = Inr (h, port)"
proof (cases "CHR '':'' \<in> set h")
  case True
  let ?s = "''['' @ h @ '']:'' @ port"
  have "last_index_byte ((''['' @ h @ '']'') @ CHR '':'' # port) CHR '':'' = Some (length (''['' @ h @ '']''))"
    by (rule last_index_byte_append) (use assms(2) in auto)
  moreover have "index_byte ((''['' @ h) @ CHR '']'' # CHR '':'' # port) CHR '']'' = Some (length (''['' @ h))"
    by (rule index_byte_append) (use assms(1) in auto)
  ultimately have "last_index_byte ?s CHR '':'' = Some (length h + 2)" "index_byte ?s CHR '']'' = Some (length h + 1)"
    by simp_all
  with assms have "SplitHostPort ?s = Inr (h, port)" by (auto simp: SplitHostPort_def Let_def)
  with True show ?thesis by (simp add: JoinHostPort_def)
next
  case False
  have "last_index_byte (h @ CHR '':'' # port) CHR '':'' = Some (length h)"
    by (rule last_index_byte_append) (use assms(2) in auto)
  moreover have "take 1 (h @ CHR '':'' # port) \<noteq> ''[''" using assms(1) by (cases h) auto
  ultimately have "SplitHostPort (h @ CHR '':'' # port) = Inr (h, port)"
    using assms False by (auto simp: SplitHostPort_def Let_def)
  with False show ?thesis by (simp add: JoinHostPort_def)
qed

lemma SplitHostPort_bracketed: "CHR '']'' \<notin> set h \<Longrightarrow> SplitHostPort (''['' @ h @ '']'') = Inl (ErrText ''missing port in address'')"
  using index_byte_append [of "CHR '']''" "''['' @ h" "[]"]
  by (auto simp: SplitHostPort_def Let_def split: option.split)

lemma escape_host_id: "list_all host_char s \<Longrightarrow> escape_host s = s"
  unfolding escape_host_def by (induction s) simp_all

lemma digits_host_char: "list_all host_char (nat_digits n)"
  by (induction n rule: nat_digits.induct) (subst nat_digits.simps, auto simp: host_char_def [abs_def])

lemma escape_host_JoinHostPort:
  "list_all host_char h \<Longrightarrow> escape_host (JoinHostPort h (Itoa n)) = JoinHostPort h (Itoa n)"
  using digits_host_char by (intro escape_host_id) (simp add: JoinHostPort_def Itoa_def host_char_def)

lemma ServeMux_health: "ServeMux health_routes path = map_of health_routes path"
proof -
  have "longest health_routes path = None" by (simp add: health_routes_def subtree_def)
  then show ?thesis by (simp add: ServeMux_def split: option.split)
qed

text \<open>Without a bind address the server's admin endpoint listens on every interface.\<close>

lemma empty_admin_address: "ws_addr (runAdminServer (opts\<lparr>so_AdminBindAddress := []\<rparr>)) = '':'' @ Itoa (so_AdminPort opts)"
  by (simp add: runAdminServer_def JoinHostPort_def)

lemma health_no_profile: "ServeMux health_routes path \<noteq> Some (RouteProfile name)"
  unfolding ServeMux_health by (auto simp: health_routes_def dest!: map_of_SomeD)

lemma admin_profile:
  assumes "\<And>n. h \<noteq> RouteProfile n"
  shows "(\<exists>name. ServeMux ([(''/metrics'', h)] @ (if b then profile_routes else [])) path = Some (RouteProfile name)) \<longleftrightarrow>
     b \<and> subtree ''/debug/pprof/'' path"
proof (cases b)
  case False
  then show ?thesis using assms by (auto simp: ServeMux_def subtree_def split: option.split)
next
  case True
  have long: "longest ((''/metrics'', h) # profile_routes) path =
      (if subtree ''/debug/pprof/'' path then Some (''/debug/pprof/'', RouteProfile ''index'') else None)"
    by (simp add: profile_routes_def subtree_def)
  show ?thesis
  proof (cases "path \<in> fst ` set ((''/metrics'', h) # profile_routes)")
    case True
    with \<open>b\<close> assms show ?thesis by (auto simp: ServeMux_def profile_routes_def subtree_def)
  next
    case False
    then have "map_of ((''/metrics'', h) # profile_routes) path = None" by (simp only: map_of_eq_None_iff not_False_eq_True)
    with long \<open>b\<close> show ?thesis by (simp add: ServeMux_def)
  qed
qed

lemma handle_profile:
  "handle ready srv r = ProfilePage name \<longleftrightarrow> ServeMux (ws_routes srv) (rq_path r) = Some (RouteProfile name)"
  by (auto simp: handle_def metrics_redirect_def RedirectTo_def livenessHandler_def Let_def split: option.splits route.splits)

text \<open>
  The profiler is reached only where it is meant to be: the health servers of both processes
  never answer with a profile, and the admin servers do so for exactly the paths below
  \<^verbatim>\<open>/debug/pprof/\<close>, and only when profiling is enabled. The health servers answer \<^verbatim>\<open>/readyz\<close> with what
  the process's readiness check says.
\<close>

theorem profiling_confined:
  "(\<forall>name. handle ready (runHealthServer so) r \<noteq> ProfilePage name) \<and>
   (\<forall>name. handle ready (agent_runHealthServer go) r \<noteq> ProfilePage name) \<and>
   ((\<exists>name. handle ready (runAdminServer so) r = ProfilePage name) \<longleftrightarrow>
      so_EnableProfiling so \<and> subtree ''/debug/pprof/'' (rq_path r)) \<and>
   ((\<exists>name. handle ready (agent_runAdminServer go) r = ProfilePage name) \<longleftrightarrow>
      go_EnableProfiling go \<and> subtree ''/debug/pprof/'' (rq_path r)) \<and>
   handle ready (runHealthServer so) (r\<lparr>rq_path := ''/readyz''\<rparr>) = Page (fst ready) (snd ready) \<and>
   handle ready (agent_runHealthServer go) (r\<lparr>rq_path := ''/readyz''\<rparr>) = Page (fst ready) (snd ready)"
proof -
  have "ServeMux health_routes ''/readyz'' = Some RouteReadiness"
    unfolding ServeMux_health by (simp add: health_routes_def)
  then have "handle ready (runHealthServer so) (r\<lparr>rq_path := ''/readyz''\<rparr>) = Page (fst ready) (snd ready)"
    "handle ready (agent_runHealthServer go) (r\<lparr>rq_path := ''/readyz''\<rparr>) = Page (fst ready) (snd ready)"
    by (simp_all add: handle_def runHealthServer_def agent_runHealthServer_def)
  then show ?thesis
    using admin_profile [of RouteMetrics "so_EnableProfiling so" "rq_path r"]
      admin_profile [of "RouteMetricsRedirect (go_HealthServerPort go)" "go_EnableProfiling go" "rq_path r"]
    by (simp add: handle_profile health_no_profile runHealthServer_def agent_runHealthServer_def runAdminServer_def
        agent_runAdminServer_def)
qed

text \<open>
  The agent's admin server redirects its metrics to the health server on the host the request
  named, with or without a port; but for an IPv6 address without a port, which is written in
  brackets, it redirects to an address with two pairs of brackets, which no client can reach.
\<close>

theorem metrics_redirect_brackets:
  assumes "list_all host_char h" and "set h \<inter> set ''[]'' = {}" and "set port \<inter> set '':[]'' = {}"
  shows "metrics_redirect hp \<lparr>rq_host = JoinHostPort h port, rq_path = path, rq_query = []\<rparr> =
       MovedPermanently (''//'' @ JoinHostPort h (Itoa hp) @ path) \<and>
     (if CHR '':'' \<in> set h
      then metrics_redirect hp \<lparr>rq_host = ''['' @ h @ '']'', rq_path = path, rq_query = []\<rparr> =
        MovedPermanently (''//[['' @ h @ '']]:'' @ Itoa hp @ path)
      else metrics_redirect hp \<lparr>rq_host = h, rq_path = path, rq_query = []\<rparr> =
        MovedPermanently (''//'' @ JoinHostPort h (Itoa hp) @ path))"
proof -
  have brackets: "list_all host_char (''['' @ h @ '']'')" using assms(1) by (simp add: host_char_def)
  have "SplitHostPort (''['' @ h @ '']'') = Inl (ErrText ''missing port in address'')"
    by (rule SplitHostPort_bracketed) (use assms(2) in auto)
  moreover have "CHR '':'' \<notin> set h \<Longrightarrow> SplitHostPort h = Inl (ErrText ''missing port in address'')"
    using last_index_byte_None [of h "CHR '':''"] by (simp add: SplitHostPort_def Let_def)
  ultimately show ?thesis
    using SplitHostPort_JoinHostPort [OF assms(2,3)] escape_host_JoinHostPort [OF assms(1)]
      escape_host_JoinHostPort [OF brackets]
    by (simp add: metrics_redirect_def) (simp add: JoinHostPort_def)
qed

theorem metrics_redirect_brackets_witness:
  "metrics_redirect 93 \<lparr>rq_host = ''[::1]:8094'', rq_path = ''/metrics'', rq_query = []\<rparr> =
     MovedPermanently ''//[::1]:93/metrics'' \<and>
   metrics_redirect 93 \<lparr>rq_host = ''[::1]'', rq_path = ''/metrics'', rq_query = []\<rparr> =
     MovedPermanently ''//[[::1]]:93/metrics''"
proof -
  have "Itoa 93 = ''93''" by code_simp
  moreover have "set ''::1'' \<inter> set ''[]'' = {}" "set ''8094'' \<inter> set '':[]'' = {}" "CHR '':'' \<in> set ''::1''"
    "list_all host_char ''::1''" by (simp_all add: host_char_def)
  ultimately show ?thesis
    using metrics_redirect_brackets [of "''::1''" "''8094''" 93 "''/metrics''"] by (simp add: JoinHostPort_def)
qed

end
