(* ===== verification/KNP_Startup.thy ===== *)
theory KNP_Startup
  imports KNP_Admin
begin

section \<open>From the command line to a running process\<close>

text \<open>
  \<^verbatim>\<open>main\<close> of \<^verbatim>\<open>cmd/server\<close> and \<^verbatim>\<open>cmd/agent\<close>: the options' \<^verbatim>\<open>Flags\<close> are registered together with those of
  the logging library, the flags of the command line are set one after the other, and \<^verbatim>\<open>Run\<close> gets the
  options. The set of flags is \<^verbatim>\<open>github.com/spf13/pflag\<close> as far as the sources use it: a name that is
  registered twice panics, setting an unknown flag or one to a text that its type does not accept ends
  the program, a list of strings grows with every use of its flag. The command line is the list of the
  flags with their texts, in order; how it is split into them, and \<^verbatim>\<open>--help\<close>, are the library's. The
  parsers of numbers, durations, comma separated lists and label selectors are fields of
  \<open>flag_parsers\<close>; a selector appears as its text.
\<close>

subsection \<open>Flags\<close>

datatype flag_value =
    VString string
  | VBool bool
  | VInt int
  | VFloat32 float32
  | VDuration duration
  | VStrings "string list"
  | VSelector string
  | VNone

text \<open>
  What a flag is bound to: a field of the options with its update, or, for \<open>Elsewhere\<close>, a variable
  outside the options, of which only the acceptance of a text matters.
\<close>

datatype 'o flag_var =
    StringVar "'o \<Rightarrow> string" "(string \<Rightarrow> string) \<Rightarrow> 'o \<Rightarrow> 'o"
  | BoolVar "'o \<Rightarrow> bool" "(bool \<Rightarrow> bool) \<Rightarrow> 'o \<Rightarrow> 'o"
  | IntVar "'o \<Rightarrow> int" "(int \<Rightarrow> int) \<Rightarrow> 'o \<Rightarrow> 'o"
  | Float32Var "'o \<Rightarrow> float32" "(float32 \<Rightarrow> float32) \<Rightarrow> 'o \<Rightarrow> 'o"
  | DurationVar "'o \<Rightarrow> duration" "(duration \<Rightarrow> duration) \<Rightarrow> 'o \<Rightarrow> 'o"
  | StringSliceVar "'o \<Rightarrow> string list" "(string list \<Rightarrow> string list) \<Rightarrow> 'o \<Rightarrow> 'o"
  | SelectorVar "'o \<Rightarrow> string" "(string \<Rightarrow> string) \<Rightarrow> 'o \<Rightarrow> 'o"
  | Elsewhere "string \<Rightarrow> go_error option"

record flag_parsers =
  fp_ParseInt :: "string \<Rightarrow> go_error + int"
  fp_ParseFloat32 :: "string \<Rightarrow> go_error + float32"
  fp_ParseDuration :: "string \<Rightarrow> go_error + duration"
  fp_readAsCSV :: "string \<Rightarrow> go_error + string list"
  fp_ParseSelector :: "string \<Rightarrow> go_error + string"

definition parse_bool :: "string \<Rightarrow> go_error + bool" where
  "parse_bool s = (case ParseBool s of Some b \<Rightarrow> Inr b | None \<Rightarrow> Inl (ErrText ''invalid syntax''))"

fun current :: "'o flag_var \<Rightarrow> 'o \<Rightarrow> flag_value" where
  "current (StringVar get upd) opts = VString (get opts)"
| "current (BoolVar get upd) opts = VBool (get opts)"
| "current (IntVar get upd) opts = VInt (get opts)"
| "current (Float32Var get upd) opts = VFloat32 (get opts)"
| "current (DurationVar get upd) opts = VDuration (get opts)"
| "current (StringSliceVar get upd) opts = VStrings (get opts)"
| "current (SelectorVar get upd) opts = VSelector (get opts)"
| "current (Elsewhere accept) opts = VNone"

text \<open>\<^verbatim>\<open>labelSelectorFlag.Set\<close> parses its text before it stores the selector.\<close>

definition labelSelectorFlag_Set :: "flag_parsers \<Rightarrow> string \<Rightarrow> go_error + flag_value" where
  "labelSelectorFlag_Set P s = map_sum id VSelector (fp_ParseSelector P s)"

fun parse_text :: "flag_parsers \<Rightarrow> 'o flag_var \<Rightarrow> string \<Rightarrow> go_error + flag_value" where
  "parse_text P (StringVar get upd) s = Inr (VString s)"
| "parse_text P (BoolVar get upd) s = map_sum id VBool (parse_bool s)"
| "parse_text P (IntVar get upd) s = map_sum id VInt (fp_ParseInt P s)"
| "parse_text P (Float32Var get upd) s = map_sum id VFloat32 (fp_ParseFloat32 P s)"
| "parse_text P (DurationVar get upd) s = map_sum id VDuration (fp_ParseDuration P s)"
| "parse_text P (StringSliceVar get upd) s = map_sum id VStrings (fp_readAsCSV P s)"
| "parse_text P (SelectorVar get upd) s = labelSelectorFlag_Set P s"
| "parse_text P (Elsewhere accept) s = (case accept s of Some err \<Rightarrow> Inl err | None \<Rightarrow> Inr VNone)"

text \<open>\<open>changed\<close>: whether the flag was set before.\<close>

fun store :: "bool \<Rightarrow> 'o flag_var \<Rightarrow> flag_value \<Rightarrow> 'o \<Rightarrow> 'o" where
  "store changed (StringVar get upd) (VString s) opts = upd (\<lambda>_. s) opts"
| "store changed (BoolVar get upd) (VBool b) opts = upd (\<lambda>_. b) opts"
| "store changed (IntVar get upd) (VInt i) opts = upd (\<lambda>_. i) opts"
| "store changed (Float32Var get upd) (VFloat32 q) opts = upd (\<lambda>_. q) opts"
| "store changed (DurationVar get upd) (VDuration d) opts = upd (\<lambda>_. d) opts"
| "store changed (StringSliceVar get upd) (VStrings ss) opts = upd (\<lambda>old. if changed then old @ ss else ss) opts"
| "store changed (SelectorVar get upd) (VSelector s) opts = upd (\<lambda>_. s) opts"
| "store changed var v opts = opts"

record 'o flag_set =
  fs_flags :: "(string \<times> 'o flag_var) list"
  fs_changed :: "string list"
  fs_opts :: 'o

definition NewFlagSet :: "'o \<Rightarrow> 'o flag_set" where
  "NewFlagSet opts = \<lparr>fs_flags = [], fs_changed = [], fs_opts = opts\<rparr>"

definition AddFlag :: "string \<times> 'o flag_var \<Rightarrow> 'o flag_set \<Rightarrow> 'o flag_set outcome" where
  "AddFlag flag fs =
     (if fst flag \<in> fst ` set (fs_flags fs) then Panic ''flag redefined''
      else Ret (fs\<lparr>fs_flags := fs_flags fs @ [flag]\<rparr>))"

fun add_flags :: "(string \<times> 'o flag_var) list \<Rightarrow> 'o flag_set \<Rightarrow> 'o flag_set outcome" where
  "add_flags [] fs = Ret fs"
| "add_flags (flag # flags) fs = bind_outcome (AddFlag flag fs) (add_flags flags)"

definition FlagSet_Set :: "flag_parsers \<Rightarrow> string \<Rightarrow> string \<Rightarrow> 'o flag_set \<Rightarrow> go_error + 'o flag_set" where
  "FlagSet_Set P name text fs =
     (case map_of (fs_flags fs) name of
        None \<Rightarrow> Inl (ErrText ''no such flag'')
      | Some var \<Rightarrow>
          (case parse_text P var text of
             Inl err \<Rightarrow> Inl (ErrText (''invalid argument: '' @ error_string err))
           | Inr v \<Rightarrow>
               Inr (fs\<lparr>fs_opts := store (name \<in> set (fs_changed fs)) var v (fs_opts fs),
                       fs_changed := name # fs_changed fs\<rparr>)))"

fun FlagSet_Parse :: "flag_parsers \<Rightarrow> (string \<times> string) list \<Rightarrow> 'o flag_set \<Rightarrow> go_error + 'o flag_set" where
  "FlagSet_Parse P [] fs = Inr fs"
| "FlagSet_Parse P ((name, text) # args) fs =
     (case FlagSet_Set P name text fs of Inl err \<Rightarrow> Inl err | Inr fs' \<Rightarrow> FlagSet_Parse P args fs')"

subsection \<open>Flags and Print of the options\<close>

text \<open>The server's deprecated \<^verbatim>\<open>warn-on-channel-limit\<close>, whose value nobody reads.\<close>

definition ignored_bool :: "string \<Rightarrow> go_error option" where
  "ignored_bool s = (case parse_bool s of Inl err \<Rightarrow> Some err | Inr b \<Rightarrow> None)"

text \<open>\<^verbatim>\<open>util.PrettyPrintURL\<close>; an error of the parser is ignored.\<close>

definition TrimSuffix :: "string \<Rightarrow> string \<Rightarrow> string" where
  "TrimSuffix s suf =
     (if drop (length s - length suf) s = suf then take (length s - length suf) s else s)"

definition PrettyPrintURL :: "string \<Rightarrow> string" where
  "PrettyPrintURL urlEncode =
     TrimSuffix (concat (map (\<lambda>(key, val). concat (map (\<lambda>subVal. key @ ''='' @ subVal @ '','') val)) (fst (ParseQuery urlEncode)))) '',''"

definition server_flag_table :: "(string \<times> server_options flag_var) list" where
  "server_flag_table =
     [(''server-cert'', StringVar so_ServerCert so_ServerCert_update),
      (''server-key'', StringVar so_ServerKey so_ServerKey_update),
      (''server-ca-cert'', StringVar so_ServerCaCert so_ServerCaCert_update),
      (''cluster-cert'', StringVar so_ClusterCert so_ClusterCert_update),
      (''cluster-key'', StringVar so_ClusterKey so_ClusterKey_update),
      (''cluster-ca-cert'', StringVar so_ClusterCaCert so_ClusterCaCert_update),
      (''mode'', StringVar so_Mode so_Mode_update),
      (''uds-name'', StringVar so_UdsName so_UdsName_update),
      (''delete-existing-uds-file'', BoolVar so_DeleteUDSFile so_DeleteUDSFile_update),
      (''server-port'', IntVar so_ServerPort so_ServerPort_update),
      (''server-bind-address'', StringVar so_ServerBindAddress so_ServerBindAddress_update),
      (''agent-port'', IntVar so_AgentPort so_AgentPort_update),
      (''agent-bind-address'', StringVar so_AgentBindAddress so_AgentBindAddress_update),
      (''admin-port'', IntVar so_AdminPort so_AdminPort_update),
      (''admin-bind-address'', StringVar so_AdminBindAddress so_AdminBindAddress_update),
      (''health-port'', IntVar so_HealthPort so_HealthPort_update),
      (''health-bind-address'', StringVar so_HealthBindAddress so_HealthBindAddress_update),
      (''keepalive-time'', DurationVar so_KeepaliveTime so_KeepaliveTime_update),
      (''keepalive-timeout'', DurationVar so_KeepaliveTimeout so_KeepaliveTimeout_update),
      (''frontend-keepalive-time'', DurationVar so_FrontendKeepaliveTime so_FrontendKeepaliveTime_update),
      (''enable-profiling'', BoolVar so_EnableProfiling so_EnableProfiling_update),
      (''enable-contention-profiling'', BoolVar so_EnableContentionProfiling so_EnableContentionProfiling_update),
      (''server-id'', StringVar so_ServerID so_ServerID_update),
      (''server-count'', IntVar so_ServerCount so_ServerCount_update),
      (''agent-namespace'', StringVar so_AgentNamespace so_AgentNamespace_update),
      (''agent-service-account'', StringVar so_AgentServiceAccount so_AgentServiceAccount_update),
      (''kubeconfig'', StringVar so_KubeconfigPath so_KubeconfigPath_update),
      (''kubeconfig-qps'', Float32Var so_KubeconfigQPS so_KubeconfigQPS_update),
      (''kubeconfig-burst'', IntVar so_KubeconfigBurst so_KubeconfigBurst_update),
      (''kube-api-content-type'', StringVar so_APIContentType so_APIContentType_update),
      (''authentication-audience'', StringVar so_AuthenticationAudience so_AuthenticationAudience_update),
      (''proxy-strategies'', StringVar so_ProxyStrategies so_ProxyStrategies_update),
      (''cipher-suites'', StringSliceVar so_CipherSuites so_CipherSuites_update),
      (''tls-min-version'', StringVar so_TLSMinVersion so_TLSMinVersion_update),
      (''xfr-channel-size'', IntVar so_XfrChannelSize so_XfrChannelSize_update),
      (''frontend-write-channel-size'', IntVar so_FrontendWriteChannelSize so_FrontendWriteChannelSize_update),
      (''enable-lease-controller'', BoolVar so_EnableLeaseController so_EnableLeaseController_update),
      (''lease-namespace'', StringVar so_LeaseNamespace so_LeaseNamespace_update),
      (''lease-label'', StringVar so_LeaseLabel so_LeaseLabel_update),
      (''graceful-shutdown-timeout'', DurationVar so_GracefulShutdownTimeout so_GracefulShutdownTimeout_update),
      (''backend-dial-timeout'', DurationVar so_BackendDialTimeout so_BackendDialTimeout_update),
      (''warn-on-channel-limit'', Elsewhere ignored_bool)]"

definition server_Print :: "server_options \<Rightarrow> (string \<times> flag_value) list" where
  "server_Print opts =
     [(''ServerCert'', VString (so_ServerCert opts)),
      (''ServerKey'', VString (so_ServerKey opts)),
      (''ServerCACert'', VString (so_ServerCaCert opts)),
      (''ClusterCert'', VString (so_ClusterCert opts)),
      (''ClusterKey'', VString (so_ClusterKey opts)),
      (''ClusterCACert'', VString (so_ClusterCaCert opts)),
      (''Mode'', VString (so_Mode opts)),
      (''UDSName'', VString (so_UdsName opts)),
      (''DeleteUDSFile'', VBool (so_DeleteUDSFile opts)),
      (''Server port'', VInt (so_ServerPort opts)),
      (''Server bind address'', VString (so_ServerBindAddress opts)),
      (''Agent port'', VInt (so_AgentPort opts)),
      (''Agent bind address'', VString (so_AgentBindAddress opts)),
      (''Admin port'', VInt (so_AdminPort opts)),
      (''Admin bind address'', VString (so_AdminBindAddress opts)),
      (''Health port'', VInt (so_HealthPort opts)),
      (''Health bind address'', VString (so_HealthBindAddress opts)),
      (''Keepalive time'', VDuration (so_KeepaliveTime opts)),
      (''Keepalive timeout'', VDuration (so_KeepaliveTimeout opts)),
      (''Frontend keepalive time'', VDuration (so_FrontendKeepaliveTime opts)),
      (''EnableProfiling'', VBool (so_EnableProfiling opts)),
      (''EnableContentionProfiling'', VBool (so_EnableContentionProfiling opts)),
      (''ServerID'', VString (so_ServerID opts)),
      (''ServerCount'', VInt (so_ServerCount opts)),
      (''AgentNamespace'', VString (so_AgentNamespace opts)),
      (''AgentServiceAccount'', VString (so_AgentServiceAccount opts)),
      (''AuthenticationAudience'', VString (so_AuthenticationAudience opts)),
      (''KubeconfigPath'', VString (so_KubeconfigPath opts)),
      (''KubeconfigQPS'', VFloat32 (so_KubeconfigQPS opts)),
      (''KubeconfigBurst'', VInt (so_KubeconfigBurst opts)),
      (''APIContentType'', VString (so_APIContentType opts)),
      (''ProxyStrategies'', VString (so_ProxyStrategies opts)),
      (''EnableLeaseController'', VBool (so_EnableLeaseController opts)),
      (''LeaseNamespace'', VString (so_LeaseNamespace opts)),
      (''LeaseLabel'', VString (so_LeaseLabel opts)),
      (''CipherSuites'', VStrings (so_CipherSuites opts)),
      (''TLSMinVersion'', VString (so_TLSMinVersion opts)),
      (''XfrChannelSize'', VInt (so_XfrChannelSize opts)),
      (''FrontendWriteChannelSize'', VInt (so_FrontendWriteChannelSize opts)),
      (''GracefulShutdownTimeout'', VDuration (so_GracefulShutdownTimeout opts)),
      (''BackendDialTimeout'', VDuration (so_BackendDialTimeout opts))]"

definition agent_flag_table :: "(string \<times> agent_options flag_var) list" where
  "agent_flag_table =
     [(''agent-cert'', StringVar go_AgentCert go_AgentCert_update),
      (''agent-key'', StringVar go_AgentKey go_AgentKey_update),
      (''ca-cert'', StringVar go_CaCert go_CaCert_update),
      (''proxy-server-host'', StringVar go_ProxyServerHost go_ProxyServerHost_update),
      (''proxy-server-port'', IntVar go_ProxyServerPort go_ProxyServerPort_update),
      (''alpn-proto'', StringSliceVar go_AlpnProtos go_AlpnProtos_update),
      (''health-server-host'', StringVar go_HealthServerHost go_HealthServerHost_update),
      (''health-server-port'', IntVar go_HealthServerPort go_HealthServerPort_update),
      (''admin-server-port'', IntVar go_AdminServerPort go_AdminServerPort_update),
      (''admin-bind-address'', StringVar go_AdminBindAddress go_AdminBindAddress_update),
      (''enable-profiling'', BoolVar go_EnableProfiling go_EnableProfiling_update),
      (''enable-contention-profiling'', BoolVar go_EnableContentionProfiling go_EnableContentionProfiling_update),
      (''agent-id'', StringVar go_AgentID go_AgentID_update),
      (''sync-interval'', DurationVar go_SyncInterval go_SyncInterval_update),
      (''probe-interval'', DurationVar go_ProbeInterval go_ProbeInterval_update),
      (''sync-interval-cap'', DurationVar go_SyncIntervalCap go_SyncIntervalCap_update),
      (''keepalive-time'', DurationVar go_KeepaliveTime go_KeepaliveTime_update),
      (''keepalive-timeout'', DurationVar go_KeepaliveTimeout go_KeepaliveTimeout_update),
      (''service-account-token-path'', StringVar go_ServiceAccountTokenPath go_ServiceAccountTokenPath_update),
      (''agent-identifiers'', StringVar go_AgentIdentifiers go_AgentIdentifiers_update),
      (''warn-on-channel-limit'', BoolVar go_WarnOnChannelLimit go_WarnOnChannelLimit_update),
      (''sync-forever'', BoolVar go_SyncForever go_SyncForever_update),
      (''xfr-channel-size'', IntVar go_XfrChannelSize go_XfrChannelSize_update),
      (''count-server-leases'', BoolVar go_CountServerLeases go_CountServerLeases_update),
      (''lease-namespace'', StringVar go_LeaseNamespace go_LeaseNamespace_update),
      (''lease-label-selector'', SelectorVar go_LeaseLabelSelector go_LeaseLabelSelector_update),
      (''lease-label'', SelectorVar go_LeaseLabelSelector go_LeaseLabelSelector_update),
      (''server-count-source'', StringVar go_ServerCountSource go_ServerCountSource_update),
      (''kubeconfig'', StringVar go_KubeconfigPath go_KubeconfigPath_update),
      (''kube-api-content-type'', StringVar go_APIContentType go_APIContentType_update)]"

definition agent_Print :: "agent_options \<Rightarrow> (string \<times> flag_value) list" where
  "agent_Print opts =
     [(''AgentCert'', VString (go_AgentCert opts)),
      (''AgentKey'', VString (go_AgentKey opts)),
      (''CACert'', VString (go_CaCert opts)),
      (''ProxyServerHost'', VString (go_ProxyServerHost opts)),
      (''ProxyServerPort'', VInt (go_ProxyServerPort opts)),
      (''ALPNProtos'', VStrings (go_AlpnProtos opts)),
      (''HealthServerHost'', VString (go_HealthServerHost opts)),
      (''HealthServerPort'', VInt (go_HealthServerPort opts)),
      (''Admin bind address'', VString (go_AdminBindAddress opts)),
      (''AdminServerPort'', VInt (go_AdminServerPort opts)),
      (''EnableProfiling'', VBool (go_EnableProfiling opts)),
      (''EnableContentionProfiling'', VBool (go_EnableContentionProfiling opts)),
      (''AgentID'', VString (go_AgentID opts)),
      (''SyncInterval'', VDuration (go_SyncInterval opts)),
      (''ProbeInterval'', VDuration (go_ProbeInterval opts)),
      (''SyncIntervalCap'', VDuration (go_SyncIntervalCap opts)),
      (''Keepalive time'', VDuration (go_KeepaliveTime opts)),
      (''Keepalive timeout'', VDuration (go_KeepaliveTimeout opts)),
      (''ServiceAccountTokenPath'', VString (go_ServiceAccountTokenPath opts)),
      (''AgentIdentifiers'', VString (PrettyPrintURL (go_AgentIdentifiers opts))),
      (''WarnOnChannelLimit'', VBool (go_WarnOnChannelLimit opts)),
      (''SyncForever'', VBool (go_SyncForever opts)),
      (''CountServerLeases'', VBool (go_CountServerLeases opts)),
      (''LeaseNamespace'', VString (go_LeaseNamespace opts)),
      (''LeaseLabelSelector'', VSelector (go_LeaseLabelSelector opts)),
      (''ServerCountSource'', VString (go_ServerCountSource opts)),
      (''ChannelSize'', VInt (go_XfrChannelSize opts)),
      (''APIContentType'', VString (go_APIContentType opts))]"

text \<open>
  \<^verbatim>\<open>Flags\<close> of the server's options. The default of every flag is the field's own value, so that
  registering leaves the options as they are; only the agent's channel size is set to 150.
\<close>

definition server_Flags :: "server_options \<Rightarrow> server_options flag_set outcome" where
  "server_Flags opts = add_flags server_flag_table (NewFlagSet opts)"

definition agent_Flags :: "agent_options \<Rightarrow> agent_options flag_set outcome" where
  "agent_Flags opts = add_flags agent_flag_table (NewFlagSet (opts\<lparr>go_XfrChannelSize := 150\<rparr>))"

subsection \<open>The main functions\<close>

text \<open>The flags of the logging library, under normalized names; a name that is taken is left out.\<close>

definition AddGoFlag :: "string \<times> (string \<Rightarrow> go_error option) \<Rightarrow> 'o flag_set \<Rightarrow> 'o flag_set" where
  "AddGoFlag flag fs =
     (let name = Normalize (fst flag) in
      if name \<in> fst ` set (fs_flags fs) then fs
      else fs\<lparr>fs_flags := fs_flags fs @ [(name, Elsewhere (snd flag))]\<rparr>)"

type_synonym go_flags = "(string \<times> (string \<Rightarrow> go_error option)) list"

definition parse_args ::
  "flag_parsers \<Rightarrow> go_flags \<Rightarrow> (string \<times> string) list \<Rightarrow> 'o flag_set outcome \<Rightarrow> (go_error + 'o) outcome" where
  "parse_args P klog args flags =
     bind_outcome flags (\<lambda>fs. Ret (map_sum id fs_opts (FlagSet_Parse P args (fold AddGoFlag klog fs))))"

text \<open>
  \<^verbatim>\<open>util.GetClientTLSConfig\<close>; \<open>pool\<close> and \<open>pair\<close> are the errors of reading a CA file and a certificate
  with its key. The name of the server is set only together with a client certificate.
\<close>

record client_tls =
  ct_RootCAs :: string
  ct_MinVersion :: nat
  ct_NextProtos :: "string list"
  ct_ServerName :: string
  ct_Certificates :: "(string \<times> string) list"

definition GetClientTLSConfig ::
  "(string \<Rightarrow> go_error option) \<Rightarrow> (string \<Rightarrow> string \<Rightarrow> go_error option) \<Rightarrow> string \<Rightarrow> string \<Rightarrow> string \<Rightarrow> string
     \<Rightarrow> string list \<Rightarrow> go_error + client_tls" where
  "GetClientTLSConfig pool pair caFile certFile keyFile serverName protos =
     (case pool caFile of
        Some err \<Rightarrow> Inl (ErrText (''failed to load CA cert: '' @ error_string err))
      | None \<Rightarrow>
          (let tls = \<lparr>ct_RootCAs = caFile, ct_MinVersion = 771, ct_NextProtos = protos, ct_ServerName = [],
                 ct_Certificates = []\<rparr> in
           if certFile = [] \<and> keyFile = [] then Inr tls
           else
             (case pair certFile keyFile of
                Some err \<Rightarrow> Inl (ErrText (''failed to load X509 key pair '' @ certFile @ '' and '' @ keyFile @ '': '' @ error_string err))
              | None \<Rightarrow> Inr (tls\<lparr>ct_ServerName := serverName, ct_Certificates := [(certFile, keyFile)]\<rparr>))))"

definition tls_error :: "(string \<Rightarrow> go_error option) \<Rightarrow> (string \<Rightarrow> string \<Rightarrow> go_error option) \<Rightarrow> agent_options \<Rightarrow> go_error option" where
  "tls_error pool pair opts =
     (case GetClientTLSConfig pool pair (go_CaCert opts) (go_AgentCert opts) (go_AgentKey opts) (go_ProxyServerHost opts)
         (go_AlpnProtos opts) of
        Inl err \<Rightarrow> Some err
      | Inr tls \<Rightarrow> None)"

text \<open>The exit code with what \<^verbatim>\<open>Run\<close> did; nothing when a flag is refused.\<close>

definition server_main ::
  "flag_parsers \<Rightarrow> go_flags \<Rightarrow> (string \<times> string) list \<Rightarrow> string \<Rightarrow> string \<Rightarrow> (string \<Rightarrow> bool) \<Rightarrow> (string, nat) gomap \<Rightarrow> rng
     \<Rightarrow> (nat \<Rightarrow> answer) \<Rightarrow> bheap \<Rightarrow> run_env \<Rightarrow> (nat \<times> run_result option) outcome" where
  "server_main P klog args env uuid exists accepted r oracle h renv =
     bind_outcome (parse_args P klog args (server_Flags (NewProxyRunOptions env uuid))) (\<lambda>parsed.
     case parsed of
       Inl err \<Rightarrow> Ret (1, None)
     | Inr opts \<Rightarrow>
         bind_outcome (Run exists accepted r oracle h renv opts) (\<lambda>res.
           Ret (if rr_error res = None then 0 else 1, Some res)))"

definition agent_main ::
  "flag_parsers \<Rightarrow> go_flags \<Rightarrow> (string \<times> string) list \<Rightarrow> string \<Rightarrow> string \<Rightarrow> (string \<Rightarrow> bool) \<Rightarrow> (string \<Rightarrow> go_error option)
     \<Rightarrow> (string \<Rightarrow> string \<Rightarrow> go_error option) \<Rightarrow> go_error option \<Rightarrow> go_error option \<Rightarrow> (nat \<times> agent_result option) outcome" where
  "agent_main P klog args env uuid exists pool pair configErr clientErr =
     bind_outcome (parse_args P klog args (agent_Flags (NewGrpcProxyAgentOptions env uuid))) (\<lambda>parsed.
     case parsed of
       Inl err \<Rightarrow> Ret (1, None)
     | Inr opts \<Rightarrow>
         (let res = agent_Run exists (tls_error pool pair opts) configErr clientErr opts in
          Ret (if ar_err res = None then 0 else 1, Some res)))"

text \<open>The server's signals: the first closes the stop channel, the second ends the process.\<close>

definition handleSignals :: "nat \<Rightarrow> bool \<times> nat option" where
  "handleSignals signals = (signals \<ge> 1, if signals \<ge> 2 then Some 1 else None)"

subsection \<open>Flags and the fields they set\<close>

fun fits :: "'o flag_var \<Rightarrow> flag_value \<Rightarrow> bool" where
  "fits (StringVar get upd) (VString s) = True"
| "fits (BoolVar get upd) (VBool b) = True"
| "fits (IntVar get upd) (VInt i) = True"
| "fits (Float32Var get upd) (VFloat32 q) = True"
| "fits (DurationVar get upd) (VDuration d) = True"
| "fits (StringSliceVar get upd) (VStrings ss) = True"
| "fits (SelectorVar get upd) (VSelector s) = True"
| "fits (Elsewhere accept) VNone = True"
| "fits var v = False"

fun is_slice :: "'o flag_var \<Rightarrow> bool" where
  "is_slice (StringSliceVar get upd) = True"
| "is_slice var = False"

fun combine :: "bool \<Rightarrow> flag_value \<Rightarrow> flag_value \<Rightarrow> flag_value" where
  "combine changed (VStrings ss) (VStrings old) = VStrings (if changed then old @ ss else ss)"
| "combine changed v old = v"

fun items :: "flag_value \<Rightarrow> string list" where
  "items (VStrings ss) = ss"
| "items v = []"

definition accepted_arg :: "flag_parsers \<Rightarrow> (string \<times> 'o flag_var) list \<Rightarrow> string \<times> string \<Rightarrow> bool" where
  "accepted_arg P table arg \<longleftrightarrow>
     (case map_of table (fst arg) of None \<Rightarrow> False | Some var \<Rightarrow> \<not> isl (parse_text P var (snd arg)))"

text \<open>
  What the command line says of a flag: its field keeps the default when the flag is not given, a
  list has the items of all its uses, anything else the value of the last use.
\<close>

definition flag_result :: "flag_parsers \<Rightarrow> 'o flag_var \<Rightarrow> string list \<Rightarrow> flag_value \<Rightarrow> flag_value" where
  "flag_result P var texts old =
     (if texts = [] then old
      else if is_slice var then VStrings (concat (map (\<lambda>t. items (projr (parse_text P var t))) texts))
      else projr (parse_text P var (last texts)))"

definition texts_of :: "(string \<Rightarrow> string) \<Rightarrow> (string \<times> string) list \<Rightarrow> string \<Rightarrow> string list" where
  "texts_of field args name = map snd (filter (\<lambda>arg. field (fst arg) = field name) args)"

lemma map_sum_Inr: "map_sum f g s = Inr v \<longleftrightarrow> (\<exists>x. s = Inr x \<and> v = g x)"
  by (cases s) auto

lemma parse_text_fits: "parse_text P var s = Inr v \<Longrightarrow> fits var v"
  by (cases var) (auto simp: labelSelectorFlag_Set_def map_sum_Inr split: option.splits)

lemma fits_items: "fits var v \<Longrightarrow> is_slice var \<Longrightarrow> v = VStrings (items v)"
  by (cases var; cases v) auto

lemma combine_other: "fits var v \<Longrightarrow> \<not> is_slice var \<Longrightarrow> combine c v old = v"
  by (cases var; cases v) auto

lemma combine_fresh: "fits var v \<Longrightarrow> combine False v old = v"
  by (cases v; cases old) auto

lemma flag_result_snoc:
  assumes "parse_text P var t = Inr v" and "is_slice var \<longrightarrow> (c \<longleftrightarrow> ts \<noteq> [])"
  shows "combine c v (flag_result P var ts d) = flag_result P var (ts @ [t]) d"
proof -
  note fit = parse_text_fits [OF assms(1)]
  show ?thesis
  proof (cases "is_slice var")
    case True
    then obtain ss where v: "v = VStrings ss" using fits_items [OF fit] by blast
    with True assms show ?thesis
      by (cases "ts = []") (simp_all add: flag_result_def combine_fresh [OF fit, unfolded v])
  next
    case False
    then show ?thesis using assms(1) combine_other [OF fit] by (simp add: flag_result_def)
  qed
qed

lemma add_flags_Ret:
  "distinct (map fst (fs_flags fs @ flags)) \<Longrightarrow> add_flags flags fs = Ret (fs\<lparr>fs_flags := fs_flags fs @ flags\<rparr>)"
  by (induction flags arbitrary: fs) (auto simp: AddFlag_def)

lemma FlagSet_Parse_snoc:
  "FlagSet_Parse P (args @ [(name, text)]) fs =
   (case FlagSet_Parse P args fs of Inl err \<Rightarrow> Inl err | Inr fs' \<Rightarrow> FlagSet_Set P name text fs')"
  by (induction args arbitrary: fs) (auto split: sum.splits)

lemma FlagSet_Set_flags: "FlagSet_Set P name text fs = Inr fs' \<Longrightarrow> fs_flags fs' = fs_flags fs"
  by (auto simp: FlagSet_Set_def split: option.splits sum.splits)

lemma FlagSet_Set_accepts: "isl (FlagSet_Set P name text fs) \<longleftrightarrow> \<not> accepted_arg P (fs_flags fs) (name, text)"
  by (auto simp: FlagSet_Set_def accepted_arg_def split: option.splits sum.splits)

lemma FlagSet_Parse_accepts: "isl (FlagSet_Parse P args fs) \<longleftrightarrow> \<not> list_all (accepted_arg P (fs_flags fs)) args"
proof (induction args arbitrary: fs)
  case (Cons arg args)
  obtain name val where arg: "arg = (name, val)" by (cases arg)
  show ?case
  proof (cases "FlagSet_Set P name val fs")
    case (Inl err)
    with FlagSet_Set_accepts [of P name val fs] show ?thesis by (simp add: arg)
  next
    case (Inr fs')
    with FlagSet_Set_accepts [of P name val fs] Cons.IH [of fs'] FlagSet_Set_flags [OF Inr] show ?thesis by (simp add: arg)
  qed
qed simp

text \<open>
  A table of flags: each is bound to a field of its own, or shares it with other names that are not
  lists; \<open>field\<close> gives the field's first name.
\<close>

locale bound_flags =
  fixes flags :: "(string \<times> 'o flag_var) list"
    and field :: "string \<Rightarrow> string"
  assumes distinct_names: "distinct (map fst flags)"
    and store_bound: "(n, var) \<in> set flags \<Longrightarrow> (n', var') \<in> set flags \<Longrightarrow> fits var v \<Longrightarrow>
      current var' (store c var v opts) =
        (if field n = field n' then combine c v (current var' opts) else current var' opts)"
    and lists_apart: "(n, var) \<in> set flags \<Longrightarrow> (n', var') \<in> set flags \<Longrightarrow> field n = field n' \<Longrightarrow>
      parse_text P var = parse_text P var' \<and> is_slice var = is_slice var' \<and> (is_slice var \<longrightarrow> n = n')"
    and field_in: "n \<in> fst ` set flags \<Longrightarrow> field n \<in> fst ` set flags"
    and field_out: "n \<notin> fst ` set flags \<Longrightarrow> field n = n"
begin

lemma parse_step:
  assumes "FlagSet_Set P name text fs = Inr fs'" and "fs_flags fs = flags" and "set (fs_changed fs) = fst ` set args"
    and "fst ` set args \<subseteq> fst ` set flags" and "(n, var) \<in> set flags"
    and "current var (fs_opts fs) = flag_result P var (texts_of field args n) d"
  shows "current var (fs_opts fs') = flag_result P var (texts_of field (args @ [(name, text)]) n) d"
proof -
  from assms(1,2) obtain var0 v where v: "map_of flags name = Some var0" "parse_text P var0 text = Inr v"
    and opts: "fs_opts fs' = store (name \<in> set (fs_changed fs)) var0 v (fs_opts fs)"
    by (auto simp: FlagSet_Set_def split: option.splits sum.splits)
  from v(1) have mem: "(name, var0) \<in> set flags" by (rule map_of_SomeD)
  note new = store_bound [OF mem assms(5) parse_text_fits [OF v(2)], of "name \<in> set (fs_changed fs)" "fs_opts fs", folded opts]
  show ?thesis
  proof (cases "field name = field n")
    case False
    then show ?thesis using new assms(6) by (simp add: texts_of_def)
  next
    case True
    from lists_apart [OF mem assms(5) True, of P] have parse: "parse_text P var text = Inr v"
      and slice: "is_slice var \<Longrightarrow> name = n"
      using v(2) by auto
    have "is_slice var \<longrightarrow> (name \<in> set (fs_changed fs) \<longleftrightarrow> texts_of field args n \<noteq> [])"
    proof
      assume "is_slice var"
      have "m = n" if "m \<in> fst ` set args" "field m = field n" for m
      proof -
        from that(1) assms(4) have "m \<in> fst ` set flags" by blast
        then obtain var' where "(m, var') \<in> set flags" by auto
        from lists_apart [OF this assms(5) that(2), of P] \<open>is_slice var\<close> show "m = n" by simp
      qed
      with slice [OF \<open>is_slice var\<close>] assms(3) show "name \<in> set (fs_changed fs) \<longleftrightarrow> texts_of field args n \<noteq> []"
        by (auto simp: texts_of_def filter_empty_conv image_iff)
    qed
    from flag_result_snoc [OF parse this, of d] new True assms(6) show ?thesis by (simp add: texts_of_def)
  qed
qed

lemma parse_exact:
  assumes "FlagSet_Parse P args fs = Inr fs'" and "fs_flags fs = flags" and "fs_changed fs = []"
  shows "fs_flags fs' = flags \<and> set (fs_changed fs') = fst ` set args \<and> fst ` set args \<subseteq> fst ` set flags \<and>
    (\<forall>(n, var) \<in> set flags. current var (fs_opts fs') = flag_result P var (texts_of field args n) (current var (fs_opts fs)))"
  using assms(1)
proof (induction args arbitrary: fs' rule: rev_induct)
  case Nil
  then show ?case using assms(2,3) by (auto simp: flag_result_def texts_of_def)
next
  case (snoc arg args)
  obtain name val where arg: "arg = (name, val)" by (cases arg)
  from snoc.prems obtain fs1 where 1: "FlagSet_Parse P args fs = Inr fs1" "FlagSet_Set P name val fs1 = Inr fs'"
    by (auto simp: arg FlagSet_Parse_snoc split: sum.splits)
  note IH = snoc.IH [OF 1(1)]
  have "name \<in> fst ` set flags" "set (fs_changed fs') = insert name (set (fs_changed fs1))"
    using 1(2) IH by (auto simp: FlagSet_Set_def rev_image_eqI split: option.splits sum.splits dest!: map_of_SomeD)
  moreover have "current var (fs_opts fs') = flag_result P var (texts_of field (args @ [arg]) n) (current var (fs_opts fs))"
    if "(n, var) \<in> set flags" for n var
    unfolding arg by (rule parse_step [OF 1(2)]) (use IH that in auto)
  ultimately show ?case using IH FlagSet_Set_flags [OF 1(2)] by (auto simp: arg)
qed

text \<open>Flags that are bound elsewhere, under other names, can be added.\<close>

lemma extended:
  assumes "list_all (\<lambda>flag. \<exists>accept. snd flag = Elsewhere accept) extra" and "distinct (map fst (flags @ extra))"
  shows "bound_flags (flags @ extra) field"
proof
  have out: "field n = n" "n \<notin> fst ` set flags" if "(n, var) \<in> set extra" for n var
    using assms(2) that field_out by (force simp: image_iff)+
  have apart: "field n \<noteq> field n'" if "(n, var) \<in> set flags" "(n', var') \<in> set extra" for n n' var var'
    using field_in [of n] out [OF that(2)] that(1) by (metis fst_conv imageI)
  have same: "var = var'" if "(n, var) \<in> set extra" "(n, var') \<in> set extra" for n var var'
    using that assms(2) by (auto dest: eq_key_imp_eq_value)
  have elsewhere: "\<exists>accept. var = Elsewhere accept" if "(n, var) \<in> set extra" for n var
    using assms(1) that by (auto simp: list_all_iff)
  show "distinct (map fst (flags @ extra))" by (rule assms(2))
  show "field n \<in> fst ` set (flags @ extra)" if "n \<in> fst ` set (flags @ extra)" for n
    using that field_in [of n] field_out [of n] by (cases "n \<in> fst ` set flags") auto
  show "field n = n" if "n \<notin> fst ` set (flags @ extra)" for n using that field_out [of n] by auto
  fix n n' :: string and var var' :: "'o flag_var"
  assume mem: "(n, var) \<in> set (flags @ extra)" "(n', var') \<in> set (flags @ extra)"
  show "parse_text P var = parse_text P var' \<and> is_slice var = is_slice var' \<and> (is_slice var \<longrightarrow> n = n')"
    if "field n = field n'" for P
    using mem that lists_apart [of n var n' var' P] apart [of n var n' var'] apart [of n' var' n var] out [of n var] out [of n' var']
      same [of n var var'] by auto
  show "current var' (store c var v opts) =
      (if field n = field n' then combine c v (current var' opts) else current var' opts)"
    if fit: "fits var v" for c v opts
  proof (cases "(n, var) \<in> set extra")
    case True
    then obtain accept where "var = Elsewhere accept" using elsewhere by blast
    with fit have v: "v = VNone" "store c var v opts = opts" by (cases v; simp)+
    from True mem(2) apart [of n' var' n var] out [of n var] out [of n' var'] same [of n var var']
    have "field n = field n' \<Longrightarrow> var' = var" by auto
    then show ?thesis using v \<open>var = Elsewhere accept\<close> by auto
  next
    case False
    then have 1: "(n, var) \<in> set flags" using mem(1) by simp
    show ?thesis
    proof (cases "(n', var') \<in> set flags")
      case True
      then show ?thesis by (rule store_bound [OF 1 _ fit])
    next
      case False
      then have "(n', var') \<in> set extra" using mem(2) by simp
      with apart [OF 1 this] elsewhere [OF this] show ?thesis by auto
    qed
  qed
qed

end

subsection \<open>The command line\<close>

text \<open>An argument that is known: a flag of the options or of the logging library, with a text that it accepts.\<close>

definition known :: "flag_parsers \<Rightarrow> (string \<times> 'o flag_var) list \<Rightarrow> go_flags \<Rightarrow> string \<times> string \<Rightarrow> bool" where
  "known P flags klog arg \<longleftrightarrow>
     (case map_of flags (fst arg) of
        Some var \<Rightarrow> \<not> isl (parse_text P var (snd arg))
      | None \<Rightarrow>
          (case map_of (map (\<lambda>(n, accept). (Normalize n, accept)) klog) (fst arg) of
             Some accept \<Rightarrow> accept (snd arg) = None
           | None \<Rightarrow> False))"

lemma AddGoFlags:
  assumes "distinct (map fst (fs_flags fs))"
  shows "\<exists>extra. fold AddGoFlag klog fs = fs\<lparr>fs_flags := fs_flags fs @ extra\<rparr> \<and>
     list_all (\<lambda>flag. \<exists>accept. snd flag = Elsewhere accept) extra \<and> distinct (map fst (fs_flags fs @ extra)) \<and>
     (\<forall>name. map_of (fs_flags fs @ extra) name =
        (case map_of (fs_flags fs) name of
           Some var \<Rightarrow> Some var
         | None \<Rightarrow> map_option Elsewhere (map_of (map (\<lambda>(n, accept). (Normalize n, accept)) klog) name)))"
  using assms
proof (induction klog arbitrary: fs)
  case (Cons flag klog)
  obtain n accept where flag: "flag = (n, accept)" by (cases flag)
  show ?case
  proof (cases "Normalize n \<in> fst ` set (fs_flags fs)")
    case True
    then obtain var where "map_of (fs_flags fs) (Normalize n) = Some var" by (metis domD dom_map_of_conv_image_fst)
    let ?kl = "map (\<lambda>(n, accept). (Normalize n, accept)) klog"
    from \<open>map_of (fs_flags fs) (Normalize n) = Some var\<close>
    have same: "(case map_of (fs_flags fs) name of Some var \<Rightarrow> Some var | None \<Rightarrow> map_option Elsewhere (map_of ?kl name)) =
        (case map_of (fs_flags fs) name of Some var \<Rightarrow> Some var
         | None \<Rightarrow> map_option Elsewhere (map_of ((Normalize n, accept) # ?kl) name))" for name
      by (auto split: option.split)
    have "AddGoFlag flag fs = fs" using True by (simp add: flag AddGoFlag_def)
    with Cons.IH [OF Cons.prems, unfolded same] show ?thesis by (simp only: flag fold_simps list.map prod.case)
  next
    case False
    let ?e = "(Normalize n, Elsewhere accept)"
    have fs: "AddGoFlag flag fs = fs\<lparr>fs_flags := fs_flags fs @ [?e]\<rparr>" using False by (simp add: flag AddGoFlag_def)
    have none: "map_of (fs_flags fs) (Normalize n) = None" using False by (simp add: map_of_eq_None_iff)
    from Cons.IH [of "fs\<lparr>fs_flags := fs_flags fs @ [?e]\<rparr>"] Cons.prems False obtain extra where
      extra: "fold AddGoFlag klog (fs\<lparr>fs_flags := fs_flags fs @ [?e]\<rparr>) = fs\<lparr>fs_flags := (fs_flags fs @ [?e]) @ extra\<rparr>"
        "list_all (\<lambda>flag. \<exists>accept. snd flag = Elsewhere accept) extra" "distinct (map fst ((fs_flags fs @ [?e]) @ extra))"
        "\<forall>name. map_of ((fs_flags fs @ [?e]) @ extra) name =
          (case map_of (fs_flags fs @ [?e]) name of
             Some var \<Rightarrow> Some var
           | None \<Rightarrow> map_option Elsewhere (map_of (map (\<lambda>(n, accept). (Normalize n, accept)) klog) name))"
      by auto
    have "map_of (fs_flags fs @ ?e # extra) name =
        (case map_of (fs_flags fs) name of
           Some var \<Rightarrow> Some var
         | None \<Rightarrow> map_option Elsewhere (map_of (map (\<lambda>(n, accept). (Normalize n, accept)) (flag # klog)) name))" for name
      using extra(4) [rule_format, of name] none by (auto simp: flag map_add_def split: option.splits)
    with extra(1-3) fs show ?thesis by (intro exI [of _ "?e # extra"]) simp
  qed
qed (intro exI [of _ "[]"], simp split: option.split)

context bound_flags
begin

lemma command_line:
  "if list_all (known P flags klog) args
   then \<exists>opts'. parse_args P klog args (add_flags flags (NewFlagSet opts)) = Ret (Inr opts') \<and>
     (\<forall>(n, var) \<in> set flags. current var opts' = flag_result P var (texts_of field args n) (current var opts))
   else \<exists>err. parse_args P klog args (add_flags flags (NewFlagSet opts)) = Ret (Inl err)"
proof -
  let ?fs = "\<lparr>fs_flags = flags, fs_changed = [], fs_opts = opts\<rparr>"
  have start: "add_flags flags (NewFlagSet opts) = Ret ?fs"
    using add_flags_Ret [of "NewFlagSet opts" flags] distinct_names by (simp add: NewFlagSet_def)
  from AddGoFlags [of ?fs klog] distinct_names obtain extra where
    extra: "fold AddGoFlag klog ?fs = ?fs\<lparr>fs_flags := flags @ extra\<rparr>"
      "list_all (\<lambda>flag. \<exists>accept. snd flag = Elsewhere accept) extra" "distinct (map fst (flags @ extra))"
      "\<forall>name. map_of (flags @ extra) name =
        (case map_of flags name of
           Some var \<Rightarrow> Some var
         | None \<Rightarrow> map_option Elsewhere (map_of (map (\<lambda>(n, accept). (Normalize n, accept)) klog) name))"
    by auto
  let ?fs' = "?fs\<lparr>fs_flags := flags @ extra\<rparr>"
  have "accepted_arg P (flags @ extra) arg = known P flags klog arg" for arg
    unfolding accepted_arg_def known_def extra(4) [rule_format] by (auto split: option.splits)
  then have acc: "isl (FlagSet_Parse P args ?fs') \<longleftrightarrow> \<not> list_all (known P flags klog) args"
    using FlagSet_Parse_accepts [of P args ?fs'] by (simp add: list_all_iff)
  show ?thesis
  proof (cases "FlagSet_Parse P args ?fs'")
    case (Inl err)
    with acc show ?thesis by (simp add: parse_args_def start extra(1))
  next
    case (Inr fs')
    from bound_flags.parse_exact [OF extended [OF extra(2,3)] Inr]
    have "\<forall>(n, var) \<in> set (flags @ extra). current var (fs_opts fs') = flag_result P var (texts_of field args n) (current var opts)"
      by simp
    with acc Inr show ?thesis by (auto simp: parse_args_def start extra(1))
  qed
qed

end

subsection \<open>The flags of the two commands\<close>

lemma fits_iff:
  "fits (StringVar g u) v \<longleftrightarrow> (\<exists>s. v = VString s)"
  "fits (BoolVar g1 u1) v \<longleftrightarrow> (\<exists>b. v = VBool b)"
  "fits (IntVar g2 u2) v \<longleftrightarrow> (\<exists>i. v = VInt i)"
  "fits (Float32Var g3 u3) v \<longleftrightarrow> (\<exists>q. v = VFloat32 q)"
  "fits (DurationVar g4 u4) v \<longleftrightarrow> (\<exists>d. v = VDuration d)"
  "fits (StringSliceVar g5 u5) v \<longleftrightarrow> (\<exists>ss. v = VStrings ss)"
  "fits (SelectorVar g6 u6) v \<longleftrightarrow> (\<exists>s. v = VSelector s)"
  "fits (Elsewhere a) v \<longleftrightarrow> v = VNone"
  by (cases v; simp)+

lemma all_fits:
  "(\<forall>v. fits (StringVar g u) v \<longrightarrow> Q v) \<longleftrightarrow> (\<forall>s. Q (VString s))"
  "(\<forall>v. fits (BoolVar g1 u1) v \<longrightarrow> Q v) \<longleftrightarrow> (\<forall>b. Q (VBool b))"
  "(\<forall>v. fits (IntVar g2 u2) v \<longrightarrow> Q v) \<longleftrightarrow> (\<forall>i. Q (VInt i))"
  "(\<forall>v. fits (Float32Var g3 u3) v \<longrightarrow> Q v) \<longleftrightarrow> (\<forall>q. Q (VFloat32 q))"
  "(\<forall>v. fits (DurationVar g4 u4) v \<longrightarrow> Q v) \<longleftrightarrow> (\<forall>d. Q (VDuration d))"
  "(\<forall>v. fits (StringSliceVar g5 u5) v \<longrightarrow> Q v) \<longleftrightarrow> (\<forall>ss. Q (VStrings ss))"
  "(\<forall>v. fits (SelectorVar g6 u6) v \<longrightarrow> Q v) \<longleftrightarrow> (\<forall>s. Q (VSelector s))"
  "(\<forall>v. fits (Elsewhere a) v \<longrightarrow> Q v) \<longleftrightarrow> Q VNone"
  by (auto simp: fits_iff)

definition binds :: "(string \<times> 'o flag_var) list \<Rightarrow> (string \<Rightarrow> string) \<Rightarrow> string \<times> 'o flag_var \<Rightarrow> bool" where
  "binds flags field flag \<longleftrightarrow>
     (\<forall>v. fits (snd flag) v \<longrightarrow> (\<forall>c opts. list_all (\<lambda>(n', var'). current var' (store c (snd flag) v opts) =
        (if field (fst flag) = field n' then combine c v (current var' opts) else current var' opts)) flags))"

lemma binds_server: "list_all (binds server_flag_table (\<lambda>n. n)) server_flag_table"
  by (simp add: server_flag_table_def binds_def all_fits)

text \<open>The agent's deprecated \<^verbatim>\<open>lease-label\<close> is a second name of \<^verbatim>\<open>lease-label-selector\<close>.\<close>

definition agent_field :: "string \<Rightarrow> string" where
  "agent_field name = (if name = ''lease-label'' then ''lease-label-selector'' else name)"

lemma binds_agent: "list_all (binds agent_flag_table agent_field) agent_flag_table"
  by (simp add: agent_flag_table_def binds_def all_fits agent_field_def)

lemma flag_names: "distinct (map fst server_flag_table)" "distinct (map fst agent_flag_table)"
  by (simp_all add: server_flag_table_def agent_flag_table_def)

lemma agent_selectors:
  "map_of agent_flag_table ''lease-label'' = Some (SelectorVar go_LeaseLabelSelector go_LeaseLabelSelector_update)"
  "map_of agent_flag_table ''lease-label-selector'' = Some (SelectorVar go_LeaseLabelSelector go_LeaseLabelSelector_update)"
  by (simp_all add: agent_flag_table_def)

lemma bindsD:
  assumes "list_all (binds flags field) flags" and "(n, var) \<in> set flags" and "(n', var') \<in> set flags" and "fits var v"
  shows "current var' (store c var v opts) =
     (if field n = field n' then combine c v (current var' opts) else current var' opts)"
  using assms by (force simp: binds_def list_all_iff)

interpretation server_flags: bound_flags server_flag_table "\<lambda>n. n"
proof
  show "distinct (map fst server_flag_table)" by (rule flag_names)
  show "current var' (store c var v opts) = (if n = n' then combine c v (current var' opts) else current var' opts)"
    if "(n, var) \<in> set server_flag_table" "(n', var') \<in> set server_flag_table" "fits var v" for n n' var var' v c opts
    using bindsD [OF binds_server that] .
  show "parse_text P var = parse_text P var' \<and> is_slice var = is_slice var' \<and> (is_slice var \<longrightarrow> n = n')"
    if "(n, var) \<in> set server_flag_table" "(n', var') \<in> set server_flag_table" "n = n'" for n n' var var' P
    using that eq_key_imp_eq_value [OF flag_names(1)] by metis
qed simp_all

interpretation agent_flags: bound_flags agent_flag_table agent_field
proof
  show "distinct (map fst agent_flag_table)" by (rule flag_names)
  show "current var' (store c var v opts) =
      (if agent_field n = agent_field n' then combine c v (current var' opts) else current var' opts)"
    if "(n, var) \<in> set agent_flag_table" "(n', var') \<in> set agent_flag_table" "fits var v" for n n' var var' v c opts
    using bindsD [OF binds_agent that] .
  have both: "''lease-label'' \<in> fst ` set agent_flag_table" "''lease-label-selector'' \<in> fst ` set agent_flag_table"
    using agent_selectors by (metis domI dom_map_of_conv_image_fst)+
  show "agent_field n \<in> fst ` set agent_flag_table" if "n \<in> fst ` set agent_flag_table" for n
    using that both by (simp add: agent_field_def)
  show "agent_field n = n" if "n \<notin> fst ` set agent_flag_table" for n
    using that both by (auto simp: agent_field_def)
  fix n n' :: string and var var' :: "agent_options flag_var" and P
  assume mem: "(n, var) \<in> set agent_flag_table" "(n', var') \<in> set agent_flag_table" and eq: "agent_field n = agent_field n'"
  have sel: "var = SelectorVar go_LeaseLabelSelector go_LeaseLabelSelector_update"
    if "(m, var) \<in> set agent_flag_table" "m = ''lease-label'' \<or> m = ''lease-label-selector''" for m var
    using that agent_selectors map_of_is_SomeI [OF flag_names(2) that(1)] by auto
  show "parse_text P var = parse_text P var' \<and> is_slice var = is_slice var' \<and> (is_slice var \<longrightarrow> n = n')"
  proof (cases "n = n'")
    case True
    with mem eq_key_imp_eq_value [OF flag_names(2)] show ?thesis by metis
  next
    case False
    with eq have "n = ''lease-label'' \<or> n = ''lease-label-selector''" "n' = ''lease-label'' \<or> n' = ''lease-label-selector''"
      by (auto simp: agent_field_def split: if_splits)
    from sel [OF mem(1) this(1)] sel [OF mem(2) this(2)] show ?thesis by simp
  qed
qed

subsection \<open>Properties\<close>

text \<open>
  \<^verbatim>\<open>Print\<close> of the server logs all of its options: two that print the same differ at most in whether
  the Kubernetes client is needed, which the validation sets afterwards.
\<close>

lemma server_Print_complete:
  "server_Print o1 = server_Print o2 \<longleftrightarrow>
   o1\<lparr>so_NeedsKubernetesClient := False\<rparr> = o2\<lparr>so_NeedsKubernetesClient := False\<rparr>"
  by (cases o1; cases o2; simp add: server_Print_def; blast)


definition sample_parsers :: flag_parsers where
  "sample_parsers =
     \<lparr>fp_ParseInt = (\<lambda>s. case digits_of s of Some n \<Rightarrow> Inr (int n) | None \<Rightarrow> Inl (ErrText ''invalid syntax'')),
      fp_ParseFloat32 = (\<lambda>s. Inl (ErrText ''invalid syntax'')), fp_ParseDuration = (\<lambda>s. Inl (ErrText ''invalid duration'')),
      fp_readAsCSV = (\<lambda>s. Inr (split_on CHR '','' s)), fp_ParseSelector = Inr\<rparr>"


end
