(* ===== verification/KNP_Leases.thy ===== *)
theory KNP_Leases
  imports KNP_ClientSet "HOL-Library.Char_ord" "HOL-Library.List_Lexorder"
begin

section \<open>The lease controller of the server\<close>

text \<open>
  \<^verbatim>\<open>pkg/server/leases/controller.go\<close> and the life of \<^verbatim>\<open>gc_controller.go\<close>: a server holds a lease, which
  a controller of the Kubernetes libraries acquires and renews with the server's labels, and collects
  the expired leases with these labels. The acquiring controller appears with the arguments it is
  built from. \<^verbatim>\<open>labels.FormatLabels\<close> is the library's.
\<close>

subsection \<open>Labels as text\<close>

definition label_text :: "string \<times> string \<Rightarrow> string" where
  "label_text e = fst e @ ''='' @ snd e"

definition FormatLabels :: "(string, string) gomap \<Rightarrow> string" where
  "FormatLabels labelMap =
     (let l = join_with CHR '','' (sort (map label_text labelMap)) in if l = [] then ''<none>'' else l)"

subsection \<open>The controllers\<close>

record gc_controller =
  gcc_leaseNamespace :: string
  gcc_labelSelector :: string
  gcc_gcCheckPeriod :: duration

definition NewGarbageCollectionController :: "string \<Rightarrow> duration \<Rightarrow> string \<Rightarrow> gc_controller" where
  "NewGarbageCollectionController namespace gcCheckPeriod leaseSelector =
     \<lparr>gcc_leaseNamespace = namespace, gcc_labelSelector = leaseSelector, gcc_gcCheckPeriod = gcCheckPeriod\<rparr>"

record acquire_controller =
  ac_holderIdentity :: string
  ac_leaseDurationSeconds :: int
  ac_renewInterval :: duration
  ac_leaseName :: string
  ac_leaseNamespace :: string
  ac_leaseLabels :: "(string, string) gomap"

record lease_controller =
  lk_leaseName :: string
  lk_leaseNamespace :: string
  lk_gcController :: gc_controller
  lk_acquireController :: acquire_controller

definition NewController ::
  "string \<Rightarrow> int \<Rightarrow> duration \<Rightarrow> duration \<Rightarrow> string \<Rightarrow> string \<Rightarrow> (string, string) gomap \<Rightarrow> lease_controller" where
  "NewController holderIdentity leaseDurationSeconds renewInterval gcCheckPeriod leaseName leaseNamespace leaseLabels =
     \<lparr>lk_leaseName = leaseName, lk_leaseNamespace = leaseNamespace,
      lk_gcController = NewGarbageCollectionController leaseNamespace gcCheckPeriod (FormatLabels leaseLabels),
      lk_acquireController =
        \<lparr>ac_holderIdentity = holderIdentity, ac_leaseDurationSeconds = leaseDurationSeconds,
         ac_renewInterval = renewInterval, ac_leaseName = leaseName, ac_leaseNamespace = leaseNamespace,
         ac_leaseLabels = leaseLabels\<rparr>\<rparr>"

text \<open>
  The garbage collector collects once in every period until its context ends: what each of the
  rounds lists, and what it deletes. A panic in a round ends the process.
\<close>

fun GarbageCollection_Run :: "(go_error + (lease \<times> time) list) list \<Rightarrow> (string \<times> nat) list list outcome" where
  "GarbageCollection_Run [] = Ret []"
| "GarbageCollection_Run (listed # rounds) =
     bind_outcome (gc listed) (\<lambda>ds. bind_outcome (GarbageCollection_Run rounds) (\<lambda>dss. Ret (ds # dss)))"

datatype controller_event =
    RunsGC gc_controller
  | RunsAcquire acquire_controller
  | DeletesLease string string

definition Controller_Run :: "lease_controller \<Rightarrow> controller_event list" where
  "Controller_Run c = [RunsGC (lk_gcController c), RunsAcquire (lk_acquireController c)]"

text \<open>An error of the deletion is only logged.\<close>

definition Controller_Stop :: "lease_controller \<Rightarrow> controller_event list" where
  "Controller_Stop c = [DeletesLease (lk_leaseNamespace c) (lk_leaseName c)]"

subsection \<open>Labels that were parsed\<close>

lemma strip_runes_stops: "find (\<lambda>r. r \<noteq> [] \<and> has_prefix (strip_runes rs s) r) rs = None"
  by (induction rs s rule: strip_runes.induct) (subst (1) strip_runes.simps, auto split: option.splits)

lemma strip_runes_done: "find (\<lambda>r. r \<noteq> [] \<and> has_prefix s r) rs = None \<Longrightarrow> strip_runes rs s = s"
  by (subst strip_runes.simps) simp

lemma strip_runes_drop: "\<exists>n. strip_runes rs s = drop n s"
proof (induction rs s rule: strip_runes.induct)
  case (1 rs s)
  show ?case
  proof (cases "find (\<lambda>r. r \<noteq> [] \<and> has_prefix s r) rs")
    case None
    then have "strip_runes rs s = drop 0 s" by (simp add: strip_runes_done)
    then show ?thesis ..
  next
    case (Some r)
    then have "strip_runes rs s = strip_runes rs (drop (length r) s)" by (subst strip_runes.simps) simp
    with 1 [OF Some] show ?thesis by (metis drop_drop)
  qed
qed

lemma TrimSpace_take: "\<exists>n. TrimSpace s = take n (strip_runes space_runes s)"
proof -
  obtain n where "strip_runes (map rev space_runes) (rev (strip_runes space_runes s)) = drop n (rev (strip_runes space_runes s))"
    using strip_runes_drop by blast
  then show ?thesis by (auto simp: TrimSpace_def rev_drop)
qed

lemma TrimSpace_idem: "TrimSpace (TrimSpace s) = TrimSpace s"
proof -
  obtain n where n: "TrimSpace s = take n (strip_runes space_runes s)" using TrimSpace_take by blast
  have "find (\<lambda>r. r \<noteq> [] \<and> has_prefix (TrimSpace s) r) space_runes = None"
    using strip_runes_stops [of space_runes s] unfolding n find_None_iff has_prefix_def
    by (metis length_take min.absorb_iff1 min.cobounded2 take_take length_append append_take_drop_id le_add1)
  then have "strip_runes space_runes (TrimSpace s) = TrimSpace s" by (rule strip_runes_done)
  moreover have "strip_runes (map rev space_runes) (rev (TrimSpace s)) = rev (TrimSpace s)"
    by (rule strip_runes_done) (simp add: TrimSpace_def strip_runes_stops)
  ultimately show ?thesis by (simp add: TrimSpace_def [of "TrimSpace s"])
qed

lemma TrimSpace_set: "set (TrimSpace s) \<subseteq> set s"
proof -
  obtain n m where "TrimSpace s = take n (drop m s)" using TrimSpace_take strip_runes_drop by metis
  then show ?thesis by (metis set_take_subset set_drop_subset subset_trans)
qed

text \<open>Keys and values as \<^verbatim>\<open>ParseLabels\<close> leaves them.\<close>

definition plain_label :: "string \<times> string \<Rightarrow> bool" where
  "plain_label e \<longleftrightarrow> TrimSpace (fst e) = fst e \<and> TrimSpace (snd e) = snd e \<and>
     set (fst e @ snd e) \<inter> {CHR '','', CHR ''=''} = {}"

lemma set_gm_put: "set (gm_put k v m) \<subseteq> insert (k, v) (set m)"
  unfolding gm_put_def by (induction m) auto

lemma ParseLabels_loop_plain:
  "ParseLabels_loop pairs labels = Inr m \<Longrightarrow> \<forall>p \<in> set pairs. CHR '','' \<notin> set p \<Longrightarrow> list_all plain_label labels \<Longrightarrow>
   list_all plain_label m"
proof (induction pairs arbitrary: labels)
  case (Cons p pairs)
  let ?kv = "split_on CHR ''='' p"
  from Cons.prems(1) have len: "length ?kv = 2"
    and rest: "ParseLabels_loop pairs (gm_put (TrimSpace (?kv ! 0)) (TrimSpace (?kv ! 1)) labels) = Inr m"
    by (auto simp: Let_def split: if_splits)
  have part: "CHR ''='' \<notin> set x \<and> CHR '','' \<notin> set x" if "x \<in> set ?kv" for x
  proof
    show "CHR ''='' \<notin> set x" using that by (rule split_on_no_sep)
    have "set x \<subseteq> set p" if "x \<in> set (split_on c p)" for c and x p :: string
      using that by (induction c p arbitrary: x rule: split_on.induct) (fastforce split: if_splits list.splits)+
    with that Cons.prems(2) show "CHR '','' \<notin> set x" by fastforce
  qed
  have "plain_label (TrimSpace (?kv ! 0), TrimSpace (?kv ! 1))"
    using part [of "?kv ! 0"] part [of "?kv ! 1"] len TrimSpace_set [of "?kv ! 0"] TrimSpace_set [of "?kv ! 1"]
    by (auto simp: plain_label_def TrimSpace_idem)
  then have "list_all plain_label (gm_put (TrimSpace (?kv ! 0)) (TrimSpace (?kv ! 1)) labels)"
    using Cons.prems(3) set_gm_put [of "TrimSpace (?kv ! 0)" "TrimSpace (?kv ! 1)" labels] unfolding list_all_iff by blast
  with Cons.IH [OF rest] Cons.prems(2) show ?case by simp
qed simp

lemma parse_label_text:
  assumes "plain_label (k, v)"
  shows "split_on CHR ''='' (label_text (k, v)) = [k, v]" and "CHR '','' \<notin> set (label_text (k, v))"
  using assms by (auto simp: plain_label_def label_text_def split_on_append_sep split_on_absent)

lemma ParseLabels_loop_texts:
  assumes "list_all plain_label es"
  shows "\<exists>m. ParseLabels_loop (map label_text es) acc = Inr m \<and>
     (\<forall>k. gm_get m k = (case map_of (rev es) k of Some v \<Rightarrow> Some v | None \<Rightarrow> gm_get acc k))"
  using assms
proof (induction es arbitrary: acc)
  case (Cons e es)
  obtain k v where e: "e = (k, v)" by (cases e)
  with Cons.prems have p: "plain_label (k, v)" by simp
  from Cons.IH [of "gm_put k v acc"] Cons.prems obtain m where
    m: "ParseLabels_loop (map label_text es) (gm_put k v acc) = Inr m"
      "\<forall>k'. gm_get m k' = (case map_of (rev es) k' of Some v \<Rightarrow> Some v | None \<Rightarrow> gm_get (gm_put k v acc) k')"
    by auto
  have "ParseLabels_loop (map label_text (e # es)) acc = Inr m"
    using m(1) p by (simp add: e parse_label_text(1) [OF p] plain_label_def Let_def)
  moreover have "gm_get m k' = (case map_of (rev (e # es)) k' of Some v \<Rightarrow> Some v | None \<Rightarrow> gm_get acc k')" for k'
    using m(2) by (auto simp: e map_add_def split: option.splits)
  ultimately show ?case by blast
qed simp

lemma sort_texts: "\<exists>es. sort (map label_text m) = map label_text es \<and> mset es = mset m"
proof (intro exI conjI)
  show "sort (map label_text m) = map label_text (sort_key label_text m)"
    by (rule properties_for_sort) simp_all
  show "mset (sort_key label_text m) = mset m" by simp
qed

lemma put_nonempty: "gm_put k v m \<noteq> []"
  by (cases m) (auto simp: gm_put_def)

lemma ParseLabels_loop_nonempty: "ParseLabels_loop pairs labels = Inr m \<Longrightarrow> pairs \<noteq> [] \<or> labels \<noteq> [] \<Longrightarrow> m \<noteq> []"
  by (induction pairs arbitrary: labels) (auto simp: Let_def put_nonempty split: if_splits)

subsection \<open>Which leases are collected\<close>

text \<open>
  The labels of a server's lease, formatted as the selector of the garbage collector and read again,
  are the same labels: the collector looks for the leases that carry what the controller writes on
  its own lease, in the same namespace, and \<^verbatim>\<open>Stop\<close> deletes that lease.
\<close>

lemma lease_selector_roundtrip:
  assumes "ParseLabels s = Inr labels"
  shows "\<exists>m. ParseLabels (gcc_labelSelector (lk_gcController (NewController holder secs renew period name ns labels))) = Inr m \<and>
     (\<forall>k. gm_get m k = gm_get (ac_leaseLabels (lk_acquireController (NewController holder secs renew period name ns labels))) k) \<and>
     Controller_Stop (NewController holder secs renew period name ns labels) = [DeletesLease ns name]"
proof -
  have loop: "ParseLabels_loop (split_on CHR '','' s) [] = Inr labels"
    using assms by (auto simp: ParseLabels_def split: if_splits)
  have wf: "gm_wf labels" by (rule ParseLabels_loop_wf [OF _ loop]) simp
  have plain: "list_all plain_label labels"
    by (rule ParseLabels_loop_plain [OF loop]) (auto dest: split_on_no_sep)
  have ne: "labels \<noteq> []" by (rule ParseLabels_loop_nonempty [OF loop]) simp
  obtain es where es: "sort (map label_text labels) = map label_text es" "mset es = mset labels"
    using sort_texts by blast
  then have set_es: "set es = set labels" and "es \<noteq> []" using ne by (auto dest: mset_eq_setD)
  have plain_es: "list_all plain_label es" using plain by (simp add: list_all_iff set_es)
  let ?l = "join_with CHR '','' (map label_text es)"
  have split: "split_on CHR '','' ?l = map label_text es"
    by (rule split_on_join) (use \<open>es \<noteq> []\<close> plain_es parse_label_text(2) in \<open>auto simp: list_all_iff\<close>)
  have "?l \<noteq> []"
  proof
    assume "?l = []"
    with split have "map label_text es = [[]]" by simp
    then show False by (auto simp: label_text_def)
  qed
  then have sel: "FormatLabels labels = ?l" by (simp add: FormatLabels_def es(1) Let_def)
  from ParseLabels_loop_texts [OF plain_es, of "[]"] obtain m where
    m: "ParseLabels_loop (map label_text es) [] = Inr m"
      "\<forall>k. gm_get m k = (case map_of (rev es) k of Some v \<Rightarrow> Some v | None \<Rightarrow> gm_get [] k)"
    by blast
  have get: "gm_get m k = map_of (rev es) k" for k
    using m(2) by (cases "map_of (rev es) k") (simp_all add: gm_get_def)
  have "distinct (map fst es)" using wf es(2) unfolding gm_wf_def by (metis mset_map mset_eq_imp_distinct_iff)
  then have "map_of (rev es) = map_of labels"
    using wf set_es unfolding gm_wf_def by (intro map_of_inject_set [THEN iffD2]) (simp_all add: rev_map [symmetric] del: rev_map)
  with m(1) get have "ParseLabels ?l = Inr m" "\<forall>k. gm_get m k = gm_get labels k"
    using \<open>?l \<noteq> []\<close> split by (simp_all add: ParseLabels_def gm_get_def)
  then show ?thesis by (auto simp: NewController_def NewGarbageCollectionController_def sel Controller_Stop_def)
qed

end
