(* ===== verification/Spec2Isabelle.thy ===== *)
theory Spec2Isabelle
  imports KNP_ServerProps KNP_ServerConn KNP_Tunnel KNP_Readers KNP_ServerApp KNP_Handshake KNP_Failures KNP_ReusableTunnel
    KNP_AgentMetrics KNP_Startup KNP_Leases
begin

text \<open>
  Verification of the Kubernetes API server network proxy (Konnectivity).

  \<^bold>\<open>The program.\<close> A proxy server runs beside the Kubernetes API server, agents run in the cluster.
  An agent opens a stream to each proxy server. The API server reaches an endpoint of the cluster
  by a frontend connection to the proxy server (a gRPC stream of the konnectivity client, or HTTP
  CONNECT): a DIAL_REQ is routed to an agent, the agent dials the endpoint and answers with a
  DIAL_RSP and a connection ID, and DATA and CLOSE packets follow on the same path until one side
  closes. The parts and the theories that model them:

  \<^item> \<^emph>\<open>Shared\<close>: \<open>KNP_Prelude\<close> (Go values: errors, panics, maps, strings, 64-bit integers; reachable
    states; the locales \<open>invariant_system\<close> and \<open>claim_table\<close>), \<open>KNP_Packet\<close> (the messages of
    \<^verbatim>\<open>konnectivity-client/proto/client/client.pb.go\<close>), \<open>KNP_Util\<close> (\<^verbatim>\<open>pkg/util\<close>,
    \<^verbatim>\<open>pkg/server/proxystrategies\<close>, \<^verbatim>\<open>proto/header\<close>).
  \<^item> \<^emph>\<open>Choice of an agent\<close> (\<^verbatim>\<open>pkg/server/backend_manager.go\<close>, \<^verbatim>\<open>desthost_backend_manager.go\<close>,
    \<^verbatim>\<open>default_route_backend_manager.go\<close>): \<open>KNP_Backend\<close>, one agent connection with its latency, draining
    flag, send lock and send queue; \<open>KNP_Storage\<close>, the agents by identifier and the selection;
    \<open>KNP_Managers\<close>, the three strategies behind the locale \<open>manager\<close>, and the server's loops over them.
  \<^item> \<^emph>\<open>Tables of the server\<close> (\<^verbatim>\<open>pkg/server/server.go\<close>): \<open>KNP_PendingDial\<close>, dials without an answer;
    \<open>KNP_Established\<close>, open connections; \<open>KNP_Auth\<close>, token authentication of agents.
  \<^item> \<^emph>\<open>Goroutines of the server\<close> (\<^verbatim>\<open>server.go\<close>, \<^verbatim>\<open>conn.go\<close>, \<^verbatim>\<open>tunnel.go\<close>,
    \<^verbatim>\<open>http_connect_frontend_writer.go\<close>): \<open>KNP_World\<close>, the shared state and interleaved threads (locale
    \<open>interleaved\<close>); \<open>KNP_Server\<close>, the handlers \<^verbatim>\<open>proxy\<close>, \<^verbatim>\<open>serveRecvFrontend\<close>, \<^verbatim>\<open>connect\<close>,
    \<^verbatim>\<open>serveRecvBackend\<close> with one definition per packet type, and the dial timer; \<open>KNP_ServerProps\<close>, their
    properties; \<open>KNP_Readers\<close>, the goroutines that deliver packets to these handlers;
    \<open>KNP_ServerConn\<close>, the connection the server itself dials with; \<open>KNP_Tunnel\<close>, HTTP CONNECT and the
    forward proxy.
  \<^item> \<^emph>\<open>Agent\<close> (\<^verbatim>\<open>pkg/agent\<close>): \<open>KNP_Agent\<close>, one dialled endpoint with its goroutines; \<open>KNP_AgentClient\<close>,
    the stream to one server; \<open>KNP_ClientSet\<close>, the set of servers, the counters and the leases
    (\<^verbatim>\<open>pkg/util/leases.go\<close>, \<^verbatim>\<open>pkg/server/leases/gc_controller.go\<close>); \<open>KNP_Leases\<close>, the server's side of the
    leases (\<^verbatim>\<open>pkg/server/leases\<close>).
  \<^item> \<^emph>\<open>Konnectivity client\<close> (\<^verbatim>\<open>konnectivity-client/pkg/client\<close>): \<open>KNP_Client\<close>, the single-use tunnel and
    its connection; \<open>KNP_ReusableTunnel\<close>, many dials over one gRPC connection, on top of it.
  \<^item> \<^emph>\<open>Processes\<close> (\<^verbatim>\<open>cmd/server\<close>, \<^verbatim>\<open>cmd/agent\<close>): \<open>KNP_Checks\<close>, \<open>KNP_ServerApp\<close>, \<open>KNP_AgentApp\<close>,
    options with their validation, start, shutdown and health; \<open>KNP_Admin\<close>, the admin and health
    endpoints of both; \<open>KNP_Startup\<close>, the flags of the command line (locale \<open>bound_flags\<close>) and the main
    functions.
  \<^item> \<^emph>\<open>Metrics\<close> (\<^verbatim>\<open>pkg/server/metrics\<close>, \<^verbatim>\<open>pkg/agent/metrics\<close>, \<^verbatim>\<open>konnectivity-client/pkg/common/metrics\<close>,
    \<^verbatim>\<open>konnectivity-client/pkg/client/metrics\<close>): \<open>KNP_Collectors\<close>, counters, gauges and histograms with their
    labels and the registry, and the locale \<open>metric_set\<close>; \<open>KNP_ServerMetrics\<close> and \<open>KNP_AgentMetrics\<close>, the
    three sets of metrics and the code that observes through them.
  \<^item> \<^emph>\<open>Composition\<close>: \<open>KNP_Handshake\<close> puts agent and server together at the start of a stream: what one
    writes into the stream's metadata is what the other reads. \<open>KNP_EndToEnd\<close> puts client, server and
    agent in a row: each receives exactly the packets that the one before handed to its stream.
    \<open>KNP_Cleanup\<close> and \<open>KNP_Failures\<close> follow the failures along the same row.

  \<^bold>\<open>How the code is modelled.\<close> A Go struct is a record, its methods are functions with the names of
  the sources (with a prefix where two types share a name). A Go call that can panic returns an
  \<open>outcome\<close>; an error result is \<open>go_error + 'a\<close> or \<open>go_error option\<close>. Pointers that are compared are
  numbers: a backend is an address in a heap. A critical section is one step. Goroutines are either
  threads of \<open>KNP_World\<close>, trees of atomic actions that are interleaved freely, or program counters
  in a record with an \<open>inductive\<close> step relation; invariants are proved by rule induction through
  \<open>invariant_system\<close>. Integers are kept at 64 bits with their wrap-around (\<open>wrap64\<close>). The order in
  which a \<^verbatim>\<open>range\<close> loop visits a map is the order of an arbitrary list.

  \<^bold>\<open>The world outside.\<close> What streams, sockets, contexts, timers, clocks, random numbers and files
  answer, and which ready case a \<^verbatim>\<open>select\<close> takes, are arguments or an arbitrary sequence of answers
  (\<open>w_oracle\<close>, \<open>rng\<close>); the theorems quantify over them, so no bound is chosen for them and no fuel
  is used: every definition terminates, and waiting is a step that is not enabled. The API that
  reviews a token is the parameter \<open>review\<close>; gRPC's metadata package is a parameter with the named
  hypothesis \<open>delivers_metadata\<close>, the table of cipher suites is a parameter of the options. Where a
  64-bit counter could wrap, the theorem has the bound as a hypothesis (\<open>in_int64\<close>, at most
  \<open>2 ^ 63 - 1\<close> dials in flight or connection IDs). Channels of \<open>KNP_Agent\<close> and \<open>KNP_Readers\<close> have
  a capacity of at least one, which both validations enforce.

  \<^bold>\<open>What is shown.\<close>
  \<^item> Server: in every interleaving of frontends, agents and timers the tables stay sound (a pending
    dial or an open connection belongs to a frontend and a backend; gauges count the entries), and
    well-formed packets never crash it; a malformed one does. A DIAL_RSP files the connection before
    the frontend learns of it; at the end of an agent's or a frontend's stream every dial and
    connection of it is answered, closed and forgotten. Each pending dial is claimed exactly once,
    and a backend's count of dials in flight is the number of its entries.
  \<^item> Delivery: the reading goroutines hand over packets in order and without loss, close their
    channels once, and end when the stream ends. This is what the list argument of the handlers of
    \<open>KNP_Server\<close> stands for: the packets a stream delivered, of which a handler that returns early
    leaves the rest unread.
  \<^item> Routing: only registered backends are chosen, a removed one never again; draining ones only when
    there is no other; the storage's index and its backends agree in every interleaving.
  \<^item> Streams: bytes arrive unchanged, in order and once, for the server's own connections, for HTTP
    CONNECT, for the send queue and for the konnectivity client, up to the race that is reported;
    write queues keep their gauges exact.
  \<^item> Agent: its table holds exactly the connections that are open; every connection answers its dial
    once, closes once and is cleaned up; the client set has one client per server ID; lease counting
    and garbage collection agree with the validity of leases.
  \<^item> Client: the tunnel closes its channels once, its cleanup terminates, the reusable tunnel's
    \<^verbatim>\<open>Close\<close> waits for every dial.
  \<^item> End to end: with working streams a dial of the client reaches the endpoint and returns a
    connection, any sequence of writes of both sides arrives as written, and a close leaves nothing
    behind in the client, the server or the agent. A dial that fails, for each of its causes, returns
    the error of that cause to the caller of \<^verbatim>\<open>DialContext\<close> and leaves nothing behind; the end of the
    agent's stream reaches the client as an end of file and the end of the client's stream closes the
    connection at the endpoint, each after all the data sent before.
  \<^item> Processes: each option has the value its flags say, or its default; validation accepts exactly the options that satisfy rules stated without an order of
    tests; a server that runs has a backend manager, the configured authentication and, on TCP,
    client certificates, and tells every part it started to stop; an agent with valid options and a
    server understand each other's handshake. The profiler answers only on the admin endpoints and
    only when it is enabled. The garbage collector selects leases by the labels that the server's own
    lease carries.
  \<^item> Metrics: no observation with legal labels panics, the values of the server's counters, gauges and
    latencies are the sums of what was observed since the last reset, and the three sets can be
    registered in one registry.

  \<^bold>\<open>Defects\<close> that are theorems: a packet without its payload crashes the server; removing the port
  of a bracketed IPv6 host without a port removes a group of the address; a connection whose stream
  ends while it is handed over is never closed and its \<^verbatim>\<open>Read\<close> hangs; a malformed lease label is
  noticed only after two servers run; a Unix socket that cannot be opened crashes the http-connect
  frontend; the lease counter's fallback is 1 where its comment says 0; the agent counts the watches of
  leases as lists; its admin endpoint redirects the metrics of a bracketed IPv6 host without a port to
  a host that does not exist.

  \<^bold>\<open>Not modelled\<close>: generated protobuf and gRPC code beyond the messages and getters; the
  splitting of the command line, listeners, the contents of TLS files, what the profiler and the metrics page write; the
  libraries of Kubernetes that acquire a lease and run an informer; \<^verbatim>\<open>net/http\<close>'s reverse proxy and
  transport; logging; the test clients and tools under \<^verbatim>\<open>cmd\<close>, which are run by hand and have no
  contract.
\<close>

end
